(* ===== verification/Prelude.thy ===== *)
theory Prelude
  imports Main "HOL-Library.Word"
begin

text \<open>
  Shared vocabulary of the development: the machine integers and byte strings of the
  Go sources, little-endian conversion in both directions, and the generic list and word
  lemmas the component theories rely on.

  Go's \<open>byte\<close> is \<open>8 word\<close> in the wire components; \<open>uint64\<close> is \<open>64 word\<close>, with
  wrap-around. Source text of interface files is a \<open>string\<close>: a list of 8-bit characters,
  that is, of bytes.
\<close>

unbundle bit_operations_syntax

type_synonym byte = "8 word"
type_synonym u64 = "64 word"
type_synonym bytes = "byte list"

named_theorems wire_simps "unfolding rules of the wire-level definitions"

section \<open>Little-endian conversion\<close>

text \<open>
  \<open>le_bytes n x\<close> is what \<open>binary.LittleEndian.PutUint\<close> stores for an \<open>n\<close>-byte field
  and \<open>le_word bs\<close> what \<open>binary.LittleEndian.Uint\<close> reads back.
\<close>

fun le_bytes :: "nat \<Rightarrow> 'a::len word \<Rightarrow> bytes" where
  "le_bytes 0 x = []"
| "le_bytes (Suc n) x = ucast x # le_bytes n (drop_bit 8 x)"

fun le_word :: "bytes \<Rightarrow> 'a::len word" where
  "le_word [] = 0"
| "le_word (b # bs) = ucast b OR push_bit 8 (le_word bs)"

lemma length_le_bytes [simp]: "length (le_bytes n x) = n"
  by (induction n arbitrary: x) auto

lemma take_bit_byte_split:
  fixes x :: "'a::len word"
  shows "ucast (ucast x :: byte) OR push_bit 8 (take_bit n (drop_bit 8 x)) = take_bit (n + 8) x"
proof (rule bit_eqI)
  fix i assume "possible_bit TYPE('a word) i"
  then show "bit (ucast (ucast x :: byte) OR push_bit 8 (take_bit n (drop_bit 8 x)) :: 'a word) i
        = bit (take_bit (n + 8) x) i"
    by (auto simp: bit_simps)
qed

lemma le_word_le_bytes: "le_word (le_bytes n x) = take_bit (8 * n) x"
  by (induction n arbitrary: x) (simp_all add: take_bit_byte_split algebra_simps)

lemma low_byte_le_step:
  fixes y :: "'a::len word"
  assumes "8 \<le> LENGTH('a)"
  shows "(ucast (ucast b OR push_bit 8 y :: 'a word) :: byte) = b"
proof (rule bit_eqI)
  fix i assume "possible_bit TYPE(byte) i"
  then show "bit (ucast (ucast b OR push_bit 8 y :: 'a word) :: byte) i = bit b i"
    using assms by (auto simp: bit_simps)
qed

lemma high_part_le_step:
  fixes y :: "'a::len word"
  assumes "take_bit (LENGTH('a) - 8) y = y"
  shows "drop_bit 8 (ucast (b::byte) OR push_bit 8 y :: 'a word) = y"
proof (rule bit_eqI)
  fix i assume "possible_bit TYPE('a word) i"
  have "bit y i \<Longrightarrow> i < LENGTH('a) - 8" using assms
    by (metis bit_take_bit_iff)
  then show "bit (drop_bit 8 (ucast (b::byte) OR push_bit 8 y :: 'a word)) i = bit y i"
    by (auto simp: bit_simps dest: bit_imp_le_length)
qed

lemma take_bit_le_word:
  "8 * length bs \<le> m \<Longrightarrow> take_bit m (le_word bs :: 'a::len word) = le_word bs"
proof (induction bs arbitrary: m)
  case (Cons b bs)
  show ?case
  proof (rule bit_eqI)
    fix i assume pb: "possible_bit TYPE('a word) i"
    have IH: "take_bit (m - 8) (le_word bs :: 'a word) = le_word bs"
      by (rule Cons.IH) (use Cons.prems in simp)
    have "bit (le_word bs :: 'a word) j \<Longrightarrow> j < m - 8" for j using IH
      by (metis bit_take_bit_iff)
    from this [of "i - 8"] Cons.prems
    show "bit (take_bit m (le_word (b # bs) :: 'a word)) i = bit (le_word (b # bs) :: 'a word) i"
      by (auto simp: bit_simps dest: bit_imp_le_length)
  qed
qed simp

lemma le_bytes_le_word:
  "8 * length bs \<le> LENGTH('a) \<Longrightarrow> le_bytes (length bs) (le_word bs :: 'a::len word) = bs"
proof (induction bs)
  case (Cons b bs)
  have "take_bit (LENGTH('a) - 8) (le_word bs :: 'a word) = le_word bs"
    by (rule take_bit_le_word) (use Cons.prems in simp)
  with Cons show ?case
    by (simp add: low_byte_le_step high_part_le_step del: drop_bit_or)
qed simp

lemma le_word_le_bytes_u64 [simp]: "le_word (le_bytes 8 x) = (x :: u64)"
  by (rule bit_eqI) (simp add: le_word_le_bytes bit_simps)

lemma le_bytes_le_word_u64:
  "length bs = 8 \<Longrightarrow> le_bytes 8 (le_word bs :: u64) = bs"
  using le_bytes_le_word [of bs, where 'a = 64] by simp

section \<open>Lists\<close>

lemma take_append_exact [simp]: "n = length xs \<Longrightarrow> take n (xs @ ys) = xs"
  by simp

lemma drop_append_exact [simp]: "n = length xs \<Longrightarrow> drop n (xs @ ys) = ys"
  by simp

end
