(* ===== verification/Source_Position.thy ===== *)
theory Source_Position
  imports Prelude
begin

text \<open>
  Source files and positions: \<open>go/internal/syntax/position.go\<close>. A source is a list of bytes
  (characters); offsets are indices into it, hence natural numbers. \<open>sort.Search\<close> of the
  standard library is modelled as the binary search it is.
\<close>

section \<open>Binary search\<close>

function search_between :: "(nat \<Rightarrow> bool) \<Rightarrow> nat \<Rightarrow> nat \<Rightarrow> nat" where
  "search_between f i j =
     (if i < j then
        (let h = (i + j) div 2 in
         if f h then search_between f i h else search_between f (Suc h) j)
      else i)"
  by pat_completeness auto
termination
  by (relation "measure (\<lambda>(f, i, j). j - i)") auto

declare search_between.simps [simp del]

definition sort_Search :: "nat \<Rightarrow> (nat \<Rightarrow> bool) \<Rightarrow> nat" where
  "sort_Search n f = search_between f 0 n"

lemma search_between_spec:
  assumes mono: "\<And>a b. a \<le> b \<Longrightarrow> b < n \<Longrightarrow> f a \<Longrightarrow> f b"
  shows "i \<le> j \<Longrightarrow> j \<le> n \<Longrightarrow> (\<forall>a < i. \<not> f a) \<Longrightarrow> (\<forall>a. j \<le> a \<and> a < n \<longrightarrow> f a) \<Longrightarrow>
    (\<forall>a < search_between f i j. \<not> f a) \<and> (\<forall>a. search_between f i j \<le> a \<and> a < n \<longrightarrow> f a)
    \<and> search_between f i j \<le> j"
proof (induction "j - i" arbitrary: i j rule: less_induct)
  case less
  show ?case
  proof (cases "i < j")
    case False
    then have "search_between f i j = i" by (subst search_between.simps) simp
    with False less.prems show ?thesis by auto
  next
    case True
    let ?h = "(i + j) div 2"
    have h: "i \<le> ?h" "?h < j" using True by auto
    show ?thesis
    proof (cases "f ?h")
      case up: True
      have "\<forall>a. ?h \<le> a \<and> a < n \<longrightarrow> f a" using mono up by blast
      then have "(\<forall>a < search_between f i ?h. \<not> f a)
          \<and> (\<forall>a. search_between f i ?h \<le> a \<and> a < n \<longrightarrow> f a) \<and> search_between f i ?h \<le> ?h"
        by (intro less.hyps) (use less.prems h in auto)
      then show ?thesis using up True h by (auto simp: search_between.simps [of f i j] Let_def)
    next
      case down: False
      have "\<forall>a < Suc ?h. \<not> f a"
      proof (intro allI impI notI)
        fix a assume "a < Suc ?h" "f a"
        then have "f ?h" using mono [of a ?h] h less.prems by simp
        with down show False by simp
      qed
      then have "(\<forall>a < search_between f (Suc ?h) j. \<not> f a)
          \<and> (\<forall>a. search_between f (Suc ?h) j \<le> a \<and> a < n \<longrightarrow> f a) \<and> search_between f (Suc ?h) j \<le> j"
        by (intro less.hyps) (use less.prems h in auto)
      then show ?thesis using down True by (auto simp: search_between.simps [of f i j] Let_def)
    qed
  qed
qed

text \<open>
  On a sorted list of offsets, searching for the first entry beyond \<open>x\<close> finds how many
  entries are at most \<open>x\<close>.
\<close>

lemma sort_Search_beyond:
  assumes "sorted xs"
  shows "sort_Search (length xs) (\<lambda>i. x < xs ! i) = length (takeWhile (\<lambda>l. l \<le> x) xs)"
proof -
  define k where "k = sort_Search (length xs) (\<lambda>i. x < xs ! i)"
  have spec: "(\<forall>a < k. \<not> x < xs ! a) \<and> (\<forall>a. k \<le> a \<and> a < length xs \<longrightarrow> x < xs ! a) \<and> k \<le> length xs"
    unfolding sort_Search_def k_def
  proof (rule search_between_spec)
    fix a b assume "a \<le> b" "b < length xs" "x < xs ! a"
    moreover from this assms have "xs ! a \<le> xs ! b" by (simp add: sorted_nth_mono)
    ultimately show "x < xs ! b" by simp
  qed auto
  have "takeWhile (\<lambda>l. l \<le> x) xs = take k xs"
  proof (rule takeWhile_eq_take_P_nth)
    show "xs ! i \<le> x" if "i < k" "i < length xs" for i using spec that by (simp add: not_less)
    show "\<not> xs ! k \<le> x" if "k < length xs" using spec that by (simp add: not_le)
  qed
  moreover have "k \<le> length xs" using spec by blast
  ultimately have "length (takeWhile (\<lambda>l. l \<le> x) xs) = k" by simp
  then show ?thesis by (simp only: k_def)
qed

section \<open>Spans, positions and files\<close>

record span =
  sp_start :: nat
  sp_end :: nat

definition Span :: "nat \<Rightarrow> nat \<Rightarrow> span" where
  "Span a b = \<lparr>sp_start = a, sp_end = b\<rparr>"

lemma Span_sel [simp]: "sp_start (Span a b) = a" "sp_end (Span a b) = b"
  by (simp_all add: Span_def)

record position =
  pos_offset :: nat
  pos_line :: nat
  pos_column :: nat

record source =
  so_name :: string
  so_size :: nat
  so_src :: string
  so_lines :: "nat list"

definition newline :: char where
  "newline = CHR 0x0A"

text \<open>The loop of \<open>NewFile\<close>: the offset after every line feed, in order.\<close>

fun line_starts :: "nat \<Rightarrow> string \<Rightarrow> nat list" where
  "line_starts i [] = []"
| "line_starts i (b # bs) =
     (if b = newline then Suc i # line_starts (Suc i) bs else line_starts (Suc i) bs)"

definition NewFile :: "string \<Rightarrow> string \<Rightarrow> source" where
  "NewFile name src =
     \<lparr>so_name = name, so_size = length src, so_src = src, so_lines = 0 # line_starts 0 src\<rparr>"

text \<open>\<open>None\<close> is the panic on an offset or span out of range.\<close>

definition Position :: "'a source_scheme \<Rightarrow> nat \<Rightarrow> position option" where
  "Position f offset =
     (if so_size f < offset then None
      else let line = sort_Search (length (so_lines f)) (\<lambda>i. offset < so_lines f ! i) - 1
           in Some \<lparr>pos_offset = offset, pos_line = line + 1,
                    pos_column = offset - so_lines f ! line + 1\<rparr>)"

definition Text :: "'a source_scheme \<Rightarrow> span \<Rightarrow> string option" where
  "Text f s =
     (if sp_end s < sp_start s \<or> so_size f < sp_end s then None
      else Some (take (sp_end s - sp_start s) (drop (sp_start s) (so_src f))))"

section \<open>The reference: walking the text\<close>

text \<open>Line and column reached from a line and column by reading a text forwards.\<close>

fun walk_lines :: "nat \<Rightarrow> nat \<Rightarrow> string \<Rightarrow> nat \<times> nat" where
  "walk_lines l c [] = (l, c)"
| "walk_lines l c (b # bs) =
     (if b = newline then walk_lines (Suc l) 1 bs else walk_lines l (Suc c) bs)"

lemma line_starts_bounds: "x \<in> set (line_starts i s) \<Longrightarrow> i < x \<and> x \<le> i + length s"
  by (induction i s rule: line_starts.induct) (auto split: if_splits)

lemma sorted_line_starts: "sorted (line_starts i s)"
  by (induction i s rule: line_starts.induct) (auto dest: line_starts_bounds)

lemma walk_lines_line_starts:
  "n \<le> length s \<Longrightarrow> st \<le> i \<Longrightarrow>
   walk_lines l (Suc (i - st)) (take n s) =
     (let tw = takeWhile (\<lambda>x. x \<le> i + n) (line_starts i s)
      in (l + length tw, Suc (i + n - last (st # tw))))"
proof (induction s arbitrary: n i st l)
  case Nil
  then show ?case by (simp add: Let_def)
next
  case (Cons b s)
  show ?case
  proof (cases n)
    case 0
    have "takeWhile (\<lambda>x. x \<le> i) (line_starts i (b # s)) = []"
    proof (cases "line_starts i (b # s)")
      case (Cons a list)
      then have "i < a" using line_starts_bounds [of a i "b # s"] by simp
      with Cons show ?thesis by (simp del: line_starts.simps)
    qed (simp del: line_starts.simps)
    with 0 show ?thesis by (simp add: Let_def)
  next
    case (Suc m)
    with Cons.prems have m: "m \<le> length s" by simp
    show ?thesis
    proof (cases "b = newline")
      case True
      with Cons.IH [OF m, of "Suc i" "Suc i" "Suc l"] Suc show ?thesis
        by (simp add: Let_def)
    next
      case False
      with Cons.IH [OF m, of st "Suc i" l] Cons.prems(2) Suc show ?thesis
        by (simp add: Let_def Suc_diff_le)
    qed
  qed
qed

lemma Position_walk:
  assumes "so_src f = src" "so_size f = length src" "so_lines f = 0 # line_starts 0 src"
    and "offset \<le> length src"
  shows "Position f offset =
    Some (case walk_lines 1 1 (take offset src) of (l, c) \<Rightarrow>
      \<lparr>pos_offset = offset, pos_line = l, pos_column = c\<rparr>)"
proof -
  let ?ls = "0 # line_starts 0 src"
  let ?tw = "takeWhile (\<lambda>l. l \<le> offset) (line_starts 0 src)"
  have "sorted ?ls" using sorted_line_starts [of 0 src] by simp
  from sort_Search_beyond [OF this, of offset]
  have "sort_Search (length ?ls) (\<lambda>i. offset < ?ls ! i) = Suc (length ?tw)"
    by simp
  moreover have "?ls ! length ?tw = last (0 # ?tw)"
  proof -
    have "take (Suc (length ?tw)) ?ls = 0 # ?tw"
      by (simp add: takeWhile_eq_take [symmetric])
    then show ?thesis
      by (metis last_snoc length_Cons lessI list.size(4) nth_take take_Suc_conv_app_nth
          length_take min_less_iff_conj)
  qed
  ultimately show ?thesis
    using walk_lines_line_starts [OF assms(4), of 0 0 1] assms
    by (simp add: Position_def Let_def)
qed

section \<open>Properties of positions\<close>

text \<open>
  C40. A position is what walking the text says: the line is one more than the line feeds
  before the offset, the column one more than the bytes since the last of them, for every
  offset up to and including the end of file; any other offset panics.
\<close>

theorem Position_correct:
  "Position (NewFile name src) offset =
     (if offset \<le> length src
      then Some (case walk_lines 1 1 (take offset src) of (l, c) \<Rightarrow>
                   \<lparr>pos_offset = offset, pos_line = l, pos_column = c\<rparr>)
      else None)"
proof (cases "offset \<le> length src")
  case True
  then show ?thesis
    by (simp add: Position_walk [of _ src] NewFile_def)
qed (simp add: Position_def NewFile_def)

end
