(* ===== verification/Token.thy ===== *)
theory Token
  imports Source_Position
begin

text \<open>
  Tokens of the interface language and its syntax diagnostics:
  \<open>go/internal/syntax/token.go\<close> and the \<open>Error\<close> type of \<open>parse.go\<close>. A diagnostic's
  message keeps the format of the source as a constructor with its arguments.
\<close>

datatype TokenKind =
    TokInvalid | TokEOF | TokIdent | TokComment
  | TokType | TokException | TokProcedure | TokList | TokRecord
  | TokInt8 | TokInt16 | TokInt32 | TokInt64
  | TokUint8 | TokUint16 | TokUint32 | TokUint64
  | TokFloat32 | TokFloat64 | TokString | TokBytes
  | TokLBrace | TokRBrace | TokSemicolon

definition tokenLiterals :: "TokenKind \<Rightarrow> string option" where
  "tokenLiterals k = (case k of
     TokType \<Rightarrow> Some ''type''
   | TokException \<Rightarrow> Some ''exception''
   | TokProcedure \<Rightarrow> Some ''procedure''
   | TokList \<Rightarrow> Some ''list''
   | TokRecord \<Rightarrow> Some ''record''
   | TokInt8 \<Rightarrow> Some ''int8''
   | TokInt16 \<Rightarrow> Some ''int16''
   | TokInt32 \<Rightarrow> Some ''int32''
   | TokInt64 \<Rightarrow> Some ''int64''
   | TokUint8 \<Rightarrow> Some ''uint8''
   | TokUint16 \<Rightarrow> Some ''uint16''
   | TokUint32 \<Rightarrow> Some ''uint32''
   | TokUint64 \<Rightarrow> Some ''uint64''
   | TokFloat32 \<Rightarrow> Some ''float32''
   | TokFloat64 \<Rightarrow> Some ''float64''
   | TokString \<Rightarrow> Some ''string''
   | TokBytes \<Rightarrow> Some ''bytes''
   | TokLBrace \<Rightarrow> Some ''{''
   | TokRBrace \<Rightarrow> Some ''}''
   | TokSemicolon \<Rightarrow> Some '';''
   | _ \<Rightarrow> None)"

definition kindString :: "TokenKind \<Rightarrow> string" where
  "kindString k = (case tokenLiterals k of
     Some lit \<Rightarrow> lit
   | None \<Rightarrow> (case k of
       TokInvalid \<Rightarrow> ''invalid token''
     | TokEOF \<Rightarrow> ''end of file''
     | TokIdent \<Rightarrow> ''identifier''
     | TokComment \<Rightarrow> ''comment''
     | _ \<Rightarrow> ''unknown token''))"

definition kindLiteral :: "TokenKind \<Rightarrow> string" where
  "kindLiteral k = (case tokenLiterals k of
     Some lit \<Rightarrow> CHR 0x27 # lit @ [CHR 0x27]
   | None \<Rightarrow> (case k of
       TokEOF \<Rightarrow> ''end of file''
     | TokIdent \<Rightarrow> ''identifier''
     | TokComment \<Rightarrow> ''comment''
     | _ \<Rightarrow> ''invalid token''))"

definition keywordTable :: "(string \<times> TokenKind) list" where
  "keywordTable =
    [(''type'', TokType), (''exception'', TokException), (''procedure'', TokProcedure),
     (''list'', TokList), (''record'', TokRecord),
     (''int8'', TokInt8), (''int16'', TokInt16), (''int32'', TokInt32), (''int64'', TokInt64),
     (''uint8'', TokUint8), (''uint16'', TokUint16), (''uint32'', TokUint32), (''uint64'', TokUint64),
     (''float32'', TokFloat32), (''float64'', TokFloat64), (''string'', TokString), (''bytes'', TokBytes)]"

definition keywordKind :: "string \<Rightarrow> TokenKind option" where
  "keywordKind = map_of keywordTable"

record token =
  tk_kind :: TokenKind
  tk_span :: span
  tk_lit :: string

definition Token :: "TokenKind \<Rightarrow> nat \<Rightarrow> nat \<Rightarrow> string \<Rightarrow> token" where
  "Token k a b lit = \<lparr>tk_kind = k, tk_span = Span a b, tk_lit = lit\<rparr>"

lemma Token_sel [simp]:
  "tk_kind (Token k a b lit) = k" "tk_span (Token k a b lit) = Span a b"
  "tk_lit (Token k a b lit) = lit"
  by (simp_all add: Token_def)

definition tokenString :: "token \<Rightarrow> string" where
  "tokenString t = (case tk_kind t of
     TokEOF \<Rightarrow> ''end of file''
   | TokIdent \<Rightarrow> kindString (tk_kind t) @ '' '' @ [CHR 0x27] @ tk_lit t @ [CHR 0x27]
   | TokComment \<Rightarrow> kindString (tk_kind t) @ '' '' @ [CHR 0x27] @ tk_lit t @ [CHR 0x27]
   | k \<Rightarrow> kindLiteral k)"

section \<open>Diagnostics\<close>

datatype syntax_msg =
    InvalidUTF8
  | CommentNotTerminated
  | InvalidBOM
  | InvalidCharacter nat
  | ExpectedFound string string
  | DuplicateDecl string string nat
  | DuplicateParam string string
  | DuplicateField string string
  | UnresolvedType string string
  | KeyZero string string
  | KeyCollision string string string string

text \<open>\<open>er_pos\<close> is \<open>None\<close> where computing the position would panic.\<close>

record syntax_error =
  er_filename :: string
  er_pos :: "position option"
  er_span :: span
  er_msg :: syntax_msg

definition mkError :: "'a source_scheme \<Rightarrow> span \<Rightarrow> syntax_msg \<Rightarrow> syntax_error" where
  "mkError f s msg =
     \<lparr>er_filename = so_name f, er_pos = Position f (sp_start s), er_span = s, er_msg = msg\<rparr>"

section \<open>Reserved words\<close>

lemma keywordKind_literal: "keywordKind s = Some k \<Longrightarrow> tokenLiterals k = Some s"
  by (auto simp: keywordKind_def keywordTable_def tokenLiterals_def split: if_splits)

lemma keywordKind_not_special:
  "keywordKind s = Some k \<Longrightarrow> k \<notin> {TokInvalid, TokEOF, TokIdent, TokComment, TokLBrace, TokRBrace, TokSemicolon}"
  by (auto simp: keywordKind_def keywordTable_def split: if_splits)

lemma keywordKind_spelling:
  "k \<notin> {TokInvalid, TokEOF, TokIdent, TokComment, TokLBrace, TokRBrace, TokSemicolon} \<Longrightarrow>
   keywordKind (kindString k) = Some k"
  by (cases k) (simp_all add: kindString_def tokenLiterals_def keywordKind_def keywordTable_def)

end
