(* ===== verification/Scanner.thy ===== *)
theory Scanner
  imports Token
begin

text \<open>
  The lexical scanner of \<open>go/internal/syntax/scanner.go\<close> and the UTF-8 decoding of the
  standard library it relies on. The scanner state is its offset and its sticky error;
  the file is fixed.
\<close>

section \<open>UTF-8\<close>

abbreviation code :: "char \<Rightarrow> nat" where
  "code c \<equiv> of_char c"

definition RuneError :: nat where
  "RuneError = 0xFFFD"

definition between :: "nat \<Rightarrow> nat \<Rightarrow> char \<Rightarrow> bool" where
  "between lo hi c \<longleftrightarrow> lo \<le> code c \<and> code c \<le> hi"

definition tail6 :: "char \<Rightarrow> nat" where
  "tail6 c = code c mod 0x40"

text \<open>
  \<open>utf8.DecodeRune\<close>: the first rune and its width; \<open>(RuneError, 1)\<close> for an invalid
  encoding and \<open>(RuneError, 0)\<close> for an empty string.
\<close>

fun DecodeRune :: "string \<Rightarrow> nat \<times> nat" where
  "DecodeRune [] = (RuneError, 0)"
| "DecodeRune (a # s) =
     (if code a < 0x80 then (code a, 1)
      else if between 0xC2 0xDF a then
        (case s of
           b # _ \<Rightarrow> if between 0x80 0xBF b then (code a mod 0x20 * 0x40 + tail6 b, 2) else (RuneError, 1)
         | _ \<Rightarrow> (RuneError, 1))
      else if between 0xE0 0xEF a then
        (case s of
           b # c # _ \<Rightarrow>
             if between (if code a = 0xE0 then 0xA0 else 0x80) (if code a = 0xED then 0x9F else 0xBF) b
                \<and> between 0x80 0xBF c
             then (code a mod 0x10 * 0x1000 + tail6 b * 0x40 + tail6 c, 3) else (RuneError, 1)
         | _ \<Rightarrow> (RuneError, 1))
      else if between 0xF0 0xF4 a then
        (case s of
           b # c # d # _ \<Rightarrow>
             if between (if code a = 0xF0 then 0x90 else 0x80) (if code a = 0xF4 then 0x8F else 0xBF) b
                \<and> between 0x80 0xBF c \<and> between 0x80 0xBF d
             then (code a mod 0x8 * 0x40000 + tail6 b * 0x1000 + tail6 c * 0x40 + tail6 d, 4)
             else (RuneError, 1)
         | _ \<Rightarrow> (RuneError, 1))
      else (RuneError, 1))"

lemma DecodeRune_size_pos: "s \<noteq> [] \<Longrightarrow> 0 < snd (DecodeRune s)"
  by (cases s) (auto split: list.splits)

lemma DecodeRune_size_le: "snd (DecodeRune s) \<le> length s"
  by (cases s) (auto split: list.splits)

declare DecodeRune.simps [simp del]

function firstInvalidFrom :: "nat \<Rightarrow> string \<Rightarrow> nat option" where
  "firstInvalidFrom i b =
     (if b = [] then None
      else case DecodeRune b of (r, width) \<Rightarrow>
        if r = RuneError \<and> width = 1 then Some i
        else firstInvalidFrom (i + width) (drop width b))"
  by pat_completeness auto
termination
proof (relation "measure (\<lambda>(i, b). length b)", goal_cases)
  case (2 i b r width)
  then have "0 < width" using DecodeRune_size_pos [of b] by (metis snd_conv)
  with 2 show ?case by simp
qed simp

declare firstInvalidFrom.simps [simp del]

text \<open>\<open>None\<close> stands for the \<open>-1\<close> of valid UTF-8.\<close>

definition firstInvalidUTF8 :: "string \<Rightarrow> nat option" where
  "firstInvalidUTF8 b = firstInvalidFrom 0 b"

section \<open>Character classes\<close>

definition isSpace :: "char \<Rightarrow> bool" where
  "isSpace b \<longleftrightarrow> b \<in> {CHR '' '', CHR 0x09, CHR 0x0D, CHR 0x0A, CHR 0x0C, CHR 0x0B}"

definition isIdentStart :: "char \<Rightarrow> bool" where
  "isIdentStart b \<longleftrightarrow> b = CHR ''_'' \<or> between 0x61 0x7A b \<or> between 0x41 0x5A b"

definition isIdentPart :: "char \<Rightarrow> bool" where
  "isIdentPart b \<longleftrightarrow> isIdentStart b \<or> between 0x30 0x39 b"

section \<open>The scanner\<close>

record scanner =
  sc_off :: nat
  sc_err :: "syntax_error option"

definition NewScanner :: scanner where
  "NewScanner = \<lparr>sc_off = 0, sc_err = None\<rparr>"

definition scan_fail ::
  "'a source_scheme \<Rightarrow> scanner \<Rightarrow> nat \<Rightarrow> nat \<Rightarrow> syntax_msg \<Rightarrow> (syntax_error + token) \<times> scanner" where
  "scan_fail f s a b msg =
     (let e = mkError f (Span a b) msg in (Inl e, s\<lparr>sc_err := Some e\<rparr>))"

definition scanIdent :: "'a source_scheme \<Rightarrow> scanner \<Rightarrow> token \<times> scanner" where
  "scanIdent f s =
     (let start = sc_off s;
          lit = takeWhile isIdentPart (drop start (so_src f));
          stop = start + length lit;
          kind = (case keywordKind lit of Some k \<Rightarrow> k | None \<Rightarrow> TokIdent)
      in (Token kind start stop lit, s\<lparr>sc_off := stop\<rparr>))"

text \<open>The offset of the first comment terminator, as the loop of \<open>scanComment\<close> finds it.\<close>

fun commentEnd :: "string \<Rightarrow> nat option" where
  "commentEnd (c # d # cs) =
     (if c = CHR ''*'' \<and> d = CHR ''/'' then Some 0 else map_option Suc (commentEnd (d # cs)))"
| "commentEnd _ = None"

definition scanComment :: "'a source_scheme \<Rightarrow> scanner \<Rightarrow> (syntax_error + token) \<times> scanner" where
  "scanComment f s =
     (let start = sc_off s; body = start + 2; rest = drop body (so_src f)
      in case commentEnd rest of
           Some n \<Rightarrow>
             (let text = take n rest in
              case firstInvalidUTF8 text of
                Some i \<Rightarrow> scan_fail f (s\<lparr>sc_off := body + n\<rparr>) (body + i) (body + i + 1) InvalidUTF8
              | None \<Rightarrow>
                  (Inr (Token TokComment start (body + n + 2) text), s\<lparr>sc_off := body + n + 2\<rparr>))
         | None \<Rightarrow>
             (let s' = s\<lparr>sc_off := length (so_src f)\<rparr> in
              case firstInvalidUTF8 rest of
                Some i \<Rightarrow> scan_fail f s' (body + i) (body + i + 1) InvalidUTF8
              | None \<Rightarrow> scan_fail f s' start (length (so_src f)) CommentNotTerminated))"

definition scanInvalid :: "'a source_scheme \<Rightarrow> scanner \<Rightarrow> (syntax_error + token) \<times> scanner" where
  "scanInvalid f s =
     (let off = sc_off s in
      case DecodeRune (drop off (so_src f)) of (r, width) \<Rightarrow>
        if r = RuneError \<and> width = 1 then scan_fail f s off (off + 1) InvalidUTF8
        else if r = 0xFEFF then scan_fail f s off (off + 3) InvalidBOM
        else scan_fail f (s\<lparr>sc_off := off + width\<rparr>) off (off + width) (InvalidCharacter r))"

definition Next :: "'a source_scheme \<Rightarrow> scanner \<Rightarrow> (syntax_error + token) \<times> scanner" where
  "Next f s =
     (case sc_err s of
        Some e \<Rightarrow> (Inl e, s)
      | None \<Rightarrow>
        (let src = so_src f;
             start = sc_off s + length (takeWhile isSpace (drop (sc_off s) src));
             s1 = s\<lparr>sc_off := start\<rparr>
         in if length src \<le> start then (Inr (Token TokEOF start start []), s1)
            else
              (let c = src ! start in
               if c = CHR ''{'' then
                 (Inr (Token TokLBrace start (start + 1) []), s1\<lparr>sc_off := start + 1\<rparr>)
               else if c = CHR ''}'' then
                 (Inr (Token TokRBrace start (start + 1) []), s1\<lparr>sc_off := start + 1\<rparr>)
               else if c = CHR '';'' then
                 (Inr (Token TokSemicolon start (start + 1) []), s1\<lparr>sc_off := start + 1\<rparr>)
               else if c = CHR ''/'' then
                 (if start + 1 < length src \<and> src ! (start + 1) = CHR ''*''
                  then scanComment f s1 else scanInvalid f s1)
               else if isIdentStart c then
                 (case scanIdent f s1 of (t, s2) \<Rightarrow> (Inr t, s2))
               else scanInvalid f s1)))"

section \<open>What the scanner consumes\<close>

text \<open>The bytes from the scan position on, and the position in range.\<close>

definition rest_of :: "'a source_scheme \<Rightarrow> scanner \<Rightarrow> string" where
  "rest_of f s = drop (sc_off s) (so_src f)"

definition in_range :: "'a source_scheme \<Rightarrow> scanner \<Rightarrow> bool" where
  "in_range f s \<longleftrightarrow> sc_off s \<le> length (so_src f)"

lemma commentEnd_bound: "commentEnd s = Some n \<Longrightarrow> n + 2 \<le> length s"
  by (induction s arbitrary: n rule: commentEnd.induct) (auto split: if_splits)

lemma commentEnd_terminator:
  "commentEnd s = Some n \<Longrightarrow> take 2 (drop n s) = ''*/''"
  by (induction s arbitrary: n rule: commentEnd.induct) (auto split: if_splits)

lemma length_takeWhile_drop:
  "off \<le> length s \<Longrightarrow> off + length (takeWhile P (drop off s)) \<le> length s"
  using length_takeWhile_le [of P "drop off s"] by simp

lemma isIdentStart_Part: "isIdentStart c \<Longrightarrow> isIdentPart c"
  by (simp add: isIdentPart_def)

lemma firstInvalidFrom_bounds:
  "firstInvalidFrom i b = Some j \<Longrightarrow> i \<le> j \<and> j < i + length b"
proof (induction i b rule: firstInvalidFrom.induct)
  case (1 i b)
  show ?case
  proof (cases "b = []")
    case True
    with "1.prems" show ?thesis by (simp add: firstInvalidFrom.simps)
  next
    case False
    obtain r width where d: "DecodeRune b = (r, width)" by fastforce
    have width: "0 < width" "width \<le> length b"
      using DecodeRune_size_pos [OF False] DecodeRune_size_le [of b] d by auto
    show ?thesis
    proof (cases "r = RuneError \<and> width = 1")
      case True
      with "1.prems" False d show ?thesis by (simp add: firstInvalidFrom.simps [of i b])
    next
      case go: False
      with "1.prems" False d have "firstInvalidFrom (i + width) (drop width b) = Some j"
        by (auto simp: firstInvalidFrom.simps [of i b])
      from "1.IH" [OF False d [symmetric] go this] width show ?thesis by simp
    qed
  qed
qed

text \<open>The source text a token stands for.\<close>

definition lexeme :: "token \<Rightarrow> string" where
  "lexeme t = (case tk_kind t of
     TokEOF \<Rightarrow> []
   | TokComment \<Rightarrow> ''/*'' @ tk_lit t @ ''*/''
   | TokIdent \<Rightarrow> tk_lit t
   | k \<Rightarrow> kindString k)"

text \<open>
  Tokens the scanner can produce: an identifier is maximal ASCII text that is no reserved
  word, a comment body is valid UTF-8 up to its first terminator.
\<close>

definition is_ident :: "string \<Rightarrow> bool" where
  "is_ident s \<longleftrightarrow> s \<noteq> [] \<and> isIdentStart (hd s) \<and> list_all isIdentPart s \<and> keywordKind s = None"

definition wf_token :: "token \<Rightarrow> bool" where
  "wf_token t \<longleftrightarrow> (case tk_kind t of
     TokInvalid \<Rightarrow> False
   | TokIdent \<Rightarrow> is_ident (tk_lit t)
   | TokComment \<Rightarrow> commentEnd (tk_lit t @ ''*/'') = Some (length (tk_lit t)) \<and> firstInvalidUTF8 (tk_lit t) = None
   | TokEOF \<Rightarrow> tk_lit t = []
   | TokLBrace \<Rightarrow> tk_lit t = []
   | TokRBrace \<Rightarrow> tk_lit t = []
   | TokSemicolon \<Rightarrow> tk_lit t = []
   | k \<Rightarrow> tk_lit t = kindString k)"

text \<open>One successful scan: blanks, then exactly the token's text.\<close>

definition scans_to :: "'a source_scheme \<Rightarrow> scanner \<Rightarrow> token \<Rightarrow> scanner \<Rightarrow> bool" where
  "scans_to f s t s' \<longleftrightarrow>
     wf_token t \<and> sc_err s' = None
     \<and> (\<exists>sp. list_all isSpace sp \<and> rest_of f s = sp @ lexeme t @ rest_of f s'
          \<and> sp_start (tk_span t) = sc_off s + length sp)
     \<and> sp_end (tk_span t) = sc_off s' \<and> sc_off s' = sp_start (tk_span t) + length (lexeme t)
     \<and> (tk_kind t = TokEOF \<longrightarrow> rest_of f s' = [])"

lemma commentEnd_take:
  "commentEnd s = Some n \<Longrightarrow> commentEnd (take n s @ ''*/'') = Some n"
proof (induction s arbitrary: n rule: commentEnd.induct)
  case (1 c d cs)
  show ?case
  proof (cases "c = CHR ''*'' \<and> d = CHR ''/''")
    case True
    with "1.prems" show ?thesis by simp
  next
    case False
    with "1.prems" obtain m where m: "commentEnd (d # cs) = Some m" "n = Suc m" by auto
    from "1.IH" [OF False m(1)] have IH: "commentEnd (take m (d # cs) @ ''*/'') = Some m" .
    show ?thesis
    proof (cases m)
      case 0
      with m False show ?thesis by (auto split: if_splits)
    next
      case (Suc k)
      with IH m False show ?thesis by auto
    qed
  qed
qed auto

lemma drop_split: "n \<le> length s \<Longrightarrow> k \<le> length s - n \<Longrightarrow> drop n s = take k (drop n s) @ drop (n + k) s"
  by (metis add.commute append_take_drop_id drop_drop)

lemma scanIdent_scans:
  assumes "in_range f s" and "sc_err s = None" and "rest_of f s \<noteq> []" and "isIdentStart (hd (rest_of f s))"
    and "scanIdent f s = (t, s')"
  shows "scans_to f s t s' \<and> in_range f s' \<and> sc_off s < sc_off s' \<and> tk_kind t \<notin> {TokEOF, TokComment}"
proof -
  let ?lit = "takeWhile isIdentPart (rest_of f s)"
  have lit: "?lit \<noteq> []" "hd ?lit = hd (rest_of f s)"
    using assms(3,4) by (cases "rest_of f s"; auto simp: isIdentStart_Part)+
  have all: "list_all isIdentPart ?lit" by (auto simp: list_all_iff dest: set_takeWhileD)
  have rest: "rest_of f s = ?lit @ drop (length ?lit) (rest_of f s)"
    by (metis takeWhile_dropWhile_id dropWhile_eq_drop)
  have t: "t = Token (case keywordKind ?lit of Some k \<Rightarrow> k | None \<Rightarrow> TokIdent) (sc_off s) (sc_off s + length ?lit) ?lit"
    and s': "s' = s\<lparr>sc_off := sc_off s + length ?lit\<rparr>"
    using assms(5) by (simp_all add: scanIdent_def rest_of_def Let_def)
  have rest': "rest_of f s' = drop (length ?lit) (rest_of f s)"
    by (simp add: s' rest_of_def add.commute)
  have lexm: "wf_token t \<and> lexeme t = ?lit \<and> tk_kind t \<notin> {TokEOF, TokComment}"
  proof (cases "keywordKind ?lit")
    case None
    with t lit all assms(4) show ?thesis by (simp add: wf_token_def lexeme_def is_ident_def)
  next
    case (Some k)
    with keywordKind_literal [OF Some] keywordKind_not_special [OF Some] t show ?thesis
      by (cases k) (simp_all add: wf_token_def lexeme_def kindString_def)
  qed
  have "in_range f s'"
    using assms(1) length_takeWhile_drop [of "sc_off s" "so_src f" isIdentPart]
    by (simp add: s' in_range_def rest_of_def)
  moreover have "scans_to f s t s'"
    unfolding scans_to_def using lexm rest rest' assms(2) by (auto simp: t s' intro!: exI [of _ "[]"])
  ultimately show ?thesis using lit(1) lexm s' by simp
qed

lemma scanComment_scans:
  assumes "in_range f s" and "sc_err s = None" and "take 2 (rest_of f s) = ''/*''"
    and "scanComment f s = (Inr t, s')"
  shows "scans_to f s t s' \<and> in_range f s' \<and> sc_off s < sc_off s' \<and> tk_kind t = TokComment"
proof -
  let ?rest = "drop (sc_off s + 2) (so_src f)"
  have rest: "rest_of f s = ''/*'' @ ?rest"
    by (metis assms(3) append_take_drop_id rest_of_def drop_drop add.commute)
  from assms(4) obtain n where n: "commentEnd ?rest = Some n"
    and utf: "firstInvalidUTF8 (take n ?rest) = None"
    and t: "t = Token TokComment (sc_off s) (sc_off s + 2 + n + 2) (take n ?rest)"
    and s': "s' = s\<lparr>sc_off := sc_off s + 2 + n + 2\<rparr>"
    by (auto simp: scanComment_def Let_def scan_fail_def split: option.splits)
  have n2: "n + 2 \<le> length ?rest" using commentEnd_bound [OF n] .
  have "?rest = take n ?rest @ take 2 (drop n ?rest) @ drop (n + 2) ?rest"
    by (metis append_take_drop_id drop_drop add.commute)
  then have split: "?rest = take n ?rest @ ''*/'' @ rest_of f s'"
    using commentEnd_terminator [OF n] by (simp add: rest_of_def s' add_ac)
  have "wf_token t" using utf commentEnd_take [OF n] n2 by (simp add: t wf_token_def)
  moreover have "in_range f s'"
    using n2 assms(1) by (simp add: in_range_def s')
  ultimately show ?thesis
    unfolding scans_to_def using rest split n2 assms(2)
    by (auto simp: t s' lexeme_def intro!: exI [of _ "[]"])
qed

lemma takeWhile_blanks:
  "off \<le> length src \<Longrightarrow>
   drop off src = takeWhile P (drop off src) @ drop (off + length (takeWhile P (drop off src))) src"
  by (metis add.commute dropWhile_eq_drop drop_drop takeWhile_dropWhile_id)

lemma scans_to_skip:
  assumes "scans_to f (s\<lparr>sc_off := sc_off s + length sp\<rparr>) t s'"
    and "list_all isSpace sp" and "rest_of f s = sp @ rest_of f (s\<lparr>sc_off := sc_off s + length sp\<rparr>)"
  shows "scans_to f s t s'"
proof -
  from assms(1) obtain sp' where "list_all isSpace sp'"
    "rest_of f (s\<lparr>sc_off := sc_off s + length sp\<rparr>) = sp' @ lexeme t @ rest_of f s'"
    "sp_start (tk_span t) = sc_off s + length sp + length sp'"
    by (auto simp: scans_to_def)
  with assms show ?thesis
    unfolding scans_to_def by (auto intro!: exI [of _ "sp @ sp'"])
qed

lemma scan_punct:
  assumes "rest_of f s = c # cs" and "sc_err s = None" and "[c] = kindString k"
    and "k \<in> {TokLBrace, TokRBrace, TokSemicolon}"
  shows "scans_to f s (Token k (sc_off s) (sc_off s + 1) []) (s\<lparr>sc_off := sc_off s + 1\<rparr>)"
proof -
  have "rest_of f (s\<lparr>sc_off := sc_off s + 1\<rparr>) = cs"
    using assms(1) by (simp add: rest_of_def) (metis drop_Suc list.sel(3) tl_drop)
  with assms show ?thesis
    by (auto simp: scans_to_def wf_token_def lexeme_def kindString_def tokenLiterals_def intro!: exI [of _ "[]"])
qed

lemma take_2_drop: "n + 1 < length s \<Longrightarrow> take 2 (drop n s) = [s ! n, s ! (n + 1)]"
  by (simp add: Cons_nth_drop_Suc [symmetric] numeral_2_eq_2)

text \<open>A successful \<open>Next\<close> scans one token and moves on.\<close>

lemma Next_scans:
  assumes r: "in_range f s" and n: "Next f s = (Inr t, s')"
  shows "sc_err s = None \<and> scans_to f s t s' \<and> in_range f s'
       \<and> (tk_kind t \<noteq> TokEOF \<longrightarrow> sc_off s < sc_off s')"
proof -
  have e: "sc_err s = None" using n by (simp add: Next_def split: option.splits)
  let ?sp = "takeWhile isSpace (drop (sc_off s) (so_src f))"
  let ?s1 = "s\<lparr>sc_off := sc_off s + length ?sp\<rparr>"
  have sp: "list_all isSpace ?sp" by (auto simp: list_all_iff dest: set_takeWhileD)
  have rest: "rest_of f s = ?sp @ rest_of f ?s1"
    using takeWhile_blanks r by (simp add: rest_of_def in_range_def)
  have r1: "in_range f ?s1"
    using r length_takeWhile_drop [of "sc_off s" "so_src f" isSpace] by (simp add: in_range_def)
  have e1: "sc_err ?s1 = None" using e by simp
  have body: "scans_to f ?s1 t s' \<and> in_range f s' \<and> (tk_kind t \<noteq> TokEOF \<longrightarrow> sc_off ?s1 < sc_off s')"
  proof (cases "rest_of f ?s1")
    case Nil
    then have "length (so_src f) \<le> sc_off ?s1" by (simp add: rest_of_def)
    with n e have "t = Token TokEOF (sc_off ?s1) (sc_off ?s1) []" "s' = ?s1"
      by (auto simp: Next_def Let_def)
    with Nil e1 r1 show ?thesis
      by (simp add: scans_to_def wf_token_def lexeme_def)
  next
    case (Cons c cs)
    have lt: "sc_off ?s1 < length (so_src f)"
    proof (rule ccontr)
      assume "\<not> ?thesis"
      then have "rest_of f ?s1 = []" by (simp add: rest_of_def)
      with Cons show False by simp
    qed
    have c: "so_src f ! sc_off ?s1 = c"
      using Cons lt by (simp add: rest_of_def) (metis hd_drop_conv_nth list.sel(1))
    have two: "take 2 (rest_of f ?s1) = ''/*''" if "c = CHR ''/''"
      "sc_off ?s1 + 1 < length (so_src f)" "so_src f ! (sc_off ?s1 + 1) = CHR ''*''"
      using that c take_2_drop [of "sc_off ?s1" "so_src f"] by (simp add: rest_of_def)
    note step = n [unfolded Next_def] e lt c
    consider "c = CHR ''{''" | "c = CHR ''}''" | "c = CHR '';''" | "c = CHR ''/''"
      | "c \<notin> {CHR ''{'', CHR ''}'', CHR '';'', CHR ''/''}" by blast
    then show ?thesis
    proof cases
      case 1
      with step have "t = Token TokLBrace (sc_off ?s1) (sc_off ?s1 + 1) []" "s' = ?s1\<lparr>sc_off := sc_off ?s1 + 1\<rparr>"
        by (simp_all add: Let_def)
      with scan_punct [OF Cons e1, of TokLBrace] 1 lt show ?thesis
        by (simp add: kindString_def tokenLiterals_def in_range_def)
    next
      case 2
      with step have "t = Token TokRBrace (sc_off ?s1) (sc_off ?s1 + 1) []" "s' = ?s1\<lparr>sc_off := sc_off ?s1 + 1\<rparr>"
        by (simp_all add: Let_def)
      with scan_punct [OF Cons e1, of TokRBrace] 2 lt show ?thesis
        by (simp add: kindString_def tokenLiterals_def in_range_def)
    next
      case 3
      with step have "t = Token TokSemicolon (sc_off ?s1) (sc_off ?s1 + 1) []" "s' = ?s1\<lparr>sc_off := sc_off ?s1 + 1\<rparr>"
        by (simp_all add: Let_def)
      with scan_punct [OF Cons e1, of TokSemicolon] 3 lt show ?thesis
        by (simp add: kindString_def tokenLiterals_def in_range_def)
    next
      case 4
      with step have "sc_off ?s1 + 1 < length (so_src f) \<and> so_src f ! (sc_off ?s1 + 1) = CHR ''*''
          \<and> scanComment f ?s1 = (Inr t, s')"
        by (auto simp: Let_def scanInvalid_def scan_fail_def split: if_splits prod.splits)
      with scanComment_scans [OF r1 e1 two] 4 show ?thesis by auto
    next
      case 5
      with step have "isIdentStart c \<and> scanIdent f ?s1 = (t, s')"
        by (auto simp: Let_def scanInvalid_def scan_fail_def split: if_splits prod.splits)
      with scanIdent_scans [OF r1 e1, of t s'] Cons show ?thesis by auto
    qed
  qed
  with scans_to_skip [OF _ sp rest] e show ?thesis by auto
qed

lemma Next_progress:
  "Next f s = (Inr t, s') \<Longrightarrow> tk_kind t \<noteq> TokEOF \<Longrightarrow>
   length (so_src f) - sc_off s' < length (so_src f) - sc_off s"
proof -
  assume n: "Next f s = (Inr t, s')" and k: "tk_kind t \<noteq> TokEOF"
  show ?thesis
  proof (cases "in_range f s")
    case True
    from Next_scans [OF this n] k show ?thesis by (auto simp: in_range_def)
  next
    case False
    then have "length (so_src f) \<le> sc_off s" by (simp add: in_range_def)
    with n k show ?thesis
      by (auto simp: Next_def Let_def split: option.splits if_splits)
  qed
qed

section \<open>Scanning a whole file\<close>

text \<open>
  All tokens from a scanner state up to the end of the file or the first error, as the
  loop of \<open>collect\<close> in \<open>docs.go\<close> draws them.
\<close>

function scanAll :: "'a source_scheme \<Rightarrow> scanner \<Rightarrow> token list \<times> syntax_error option" where
  "scanAll f s =
     (case Next f s of
        (Inl e, _) \<Rightarrow> ([], Some e)
      | (Inr t, s') \<Rightarrow>
          if tk_kind t = TokEOF then ([], None)
          else (case scanAll f s' of (ts, e) \<Rightarrow> (t # ts, e)))"
  by pat_completeness auto
termination
  by (relation "measure (\<lambda>(f, s). length (so_src f) - sc_off s)") (auto intro: Next_progress [OF sym])

declare scanAll.simps [simp del]

text \<open>Tokens laid out in a text from an offset on, with only blanks between them.\<close>

fun laid_out :: "nat \<Rightarrow> string \<Rightarrow> token list \<Rightarrow> string \<Rightarrow> bool" where
  "laid_out off s [] rest \<longleftrightarrow> s = rest"
| "laid_out off s (t # ts) rest \<longleftrightarrow>
     (\<exists>sp s'. list_all isSpace sp \<and> s = sp @ lexeme t @ s'
        \<and> tk_span t = Span (off + length sp) (off + length sp + length (lexeme t))
        \<and> laid_out (off + length sp + length (lexeme t)) s' ts rest)"

lemma scanAll_laid_out:
  "in_range f s \<Longrightarrow> scanAll f s = (ts, e) \<Longrightarrow>
     \<exists>rest. laid_out (sc_off s) (rest_of f s) ts rest \<and> list_all wf_token ts
       \<and> list_all (\<lambda>t. tk_kind t \<noteq> TokEOF) ts \<and> (e = None \<longrightarrow> list_all isSpace rest)"
proof (induction f s arbitrary: ts e rule: scanAll.induct)
  case (1 f s)
  obtain r s' where n: "Next f s = (r, s')" by fastforce
  show ?case
  proof (cases r)
    case (Inl x)
    with n "1.prems" show ?thesis by (auto simp: scanAll.simps [of f s])
  next
    case (Inr t)
    note sc = Next_scans [OF "1.prems"(1) n [unfolded Inr]]
    then obtain sp where sp: "list_all isSpace sp" "rest_of f s = sp @ lexeme t @ rest_of f s'"
      "tk_span t = Span (sc_off s + length sp) (sc_off s + length sp + length (lexeme t))"
      "sc_off s' = sc_off s + length sp + length (lexeme t)"
      by (cases "tk_span t") (auto simp: scans_to_def Span_def)
    show ?thesis
    proof (cases "tk_kind t = TokEOF")
      case True
      with "1.prems"(2) n Inr sc sp show ?thesis
        by (auto simp: scanAll.simps [of f s] scans_to_def lexeme_def)
    next
      case False
      obtain ts' e' where rec: "scanAll f s' = (ts', e')" by fastforce
      with False "1.prems"(2) n Inr have ts: "ts = t # ts'" "e = e'"
        by (simp_all add: scanAll.simps [of f s])
      from "1.IH" [OF n [symmetric] Inr False _ rec] sc obtain rest where
        "laid_out (sc_off s') (rest_of f s') ts' rest" "list_all wf_token ts'"
        "list_all (\<lambda>t. tk_kind t \<noteq> TokEOF) ts'" "e' = None \<longrightarrow> list_all isSpace rest"
        by auto
      with sp ts sc False show ?thesis by (auto simp: scans_to_def)
    qed
  qed
qed

section \<open>Properties of the scanner\<close>

text \<open>
  C39. Lexical analysis is lossless and always ends: the tokens of a file are laid out in its
  bytes in order, each with the exact span of its text and only the six blank characters
  between them; when no error is reported only blanks remain. Identifiers are maximal
  ASCII identifiers that are not reserved words, comments end at their first terminator
  and are valid UTF-8.
\<close>

theorem scanAll_lossless:
  "\<exists>rest. laid_out 0 src (fst (scanAll (NewFile name src) NewScanner)) rest
     \<and> list_all wf_token (fst (scanAll (NewFile name src) NewScanner))
     \<and> (snd (scanAll (NewFile name src) NewScanner) = None \<longrightarrow> list_all isSpace rest)"
proof -
  let ?f = "NewFile name src"
  obtain ts e where run: "scanAll ?f NewScanner = (ts, e)" by fastforce
  have "in_range ?f NewScanner" "rest_of ?f NewScanner = src" "sc_off NewScanner = 0"
    by (simp_all add: in_range_def NewScanner_def rest_of_def NewFile_def)
  with scanAll_laid_out [OF _ run] run show ?thesis by auto
qed

theorem scanAll_lossless_witness:
  "\<exists>rest. laid_out 0 ''type a;'' (fst (scanAll (NewFile [] ''type a;'') NewScanner)) rest
     \<and> list_all wf_token (fst (scanAll (NewFile [] ''type a;'') NewScanner))"
  using scanAll_lossless [of "''type a;''" "[]"] by blast

end
