(* ===== verification/Ast.thy ===== *)
theory Ast
  imports Scanner
begin

text \<open>
  The source-only syntax tree of \<open>go/internal/syntax/ast.go\<close>, with the comment and file
  types of \<open>position.go\<close>. Every node has its documentation slot first, then its
  components with their exact spans; an omitted payload or result is \<open>None\<close>.
\<close>

record ident =
  id_name :: string
  id_span :: span

datatype TypeExpr =
    PrimType (doc: string) TokenKind span
  | NamedType (doc: string) ident
  | ListType (doc: string) span TypeExpr
  | RecordType (doc: string) span span "Field list" span
and Field = Field (fieldDoc: string) (fieldName: ident) (fieldType: TypeExpr) (fieldSemi: span)

datatype Param = Param (paramDoc: string) (paramName: ident) (paramType: TypeExpr) (paramSemi: span)

datatype Decl =
    TypeDecl (declDoc: string) span (declIdent: ident) TypeExpr span
  | ExceptionDecl (declDoc: string) span (declIdent: ident) "TypeExpr option" span
  | ProcDecl (declDoc: string) span (declIdent: ident) span "Param list" span "TypeExpr option" span

record comment =
  cm_span :: span
  cm_text :: string

record ifile = source +
  fi_decls :: "Decl list"
  fi_comments :: "comment list"

section \<open>Spans of nodes\<close>

fun typeSpan :: "TypeExpr \<Rightarrow> span" where
  "typeSpan (PrimType d k sp) = sp"
| "typeSpan (NamedType d i) = id_span i"
| "typeSpan (ListType d ls t) = Span (sp_start ls) (sp_end (typeSpan t))"
| "typeSpan (RecordType d rs lb fs rb) = Span (sp_start rs) (sp_end rb)"

fun fieldSpan :: "Field \<Rightarrow> span" where
  "fieldSpan (Field d i t semi) = Span (sp_start (id_span i)) (sp_end semi)"

fun paramSpan :: "Param \<Rightarrow> span" where
  "paramSpan (Param d i t semi) = Span (sp_start (id_span i)) (sp_end semi)"

fun declSpan :: "Decl \<Rightarrow> span" where
  "declSpan (TypeDecl d kw i t semi) = Span (sp_start kw) (sp_end semi)"
| "declSpan (ExceptionDecl d kw i t semi) = Span (sp_start kw) (sp_end semi)"
| "declSpan (ProcDecl d kw i lb ps rb res semi) = Span (sp_start kw) (sp_end semi)"

section \<open>The grammar: the tokens of a tree\<close>

text \<open>
  The token sequence a node is written with. This is the grammar of the language read as
  a function: a file is well formed when its tokens are those of a list of declarations.
\<close>

definition tok_of :: "TokenKind \<Rightarrow> span \<Rightarrow> token" where
  "tok_of k sp = \<lparr>tk_kind = k, tk_span = sp,
     tk_lit = (if k \<in> {TokLBrace, TokRBrace, TokSemicolon} then [] else kindString k)\<rparr>"

definition ident_tok :: "ident \<Rightarrow> token" where
  "ident_tok i = \<lparr>tk_kind = TokIdent, tk_span = id_span i, tk_lit = id_name i\<rparr>"

fun type_toks :: "TypeExpr \<Rightarrow> token list"
and field_toks :: "Field \<Rightarrow> token list" where
  "type_toks (PrimType d k sp) = [tok_of k sp]"
| "type_toks (NamedType d i) = [ident_tok i]"
| "type_toks (ListType d ls t) = tok_of TokList ls # type_toks t"
| "type_toks (RecordType d rs lb fs rb) =
     tok_of TokRecord rs # tok_of TokLBrace lb # concat (map field_toks fs) @ [tok_of TokRBrace rb]"
| "field_toks (Field d i t semi) = ident_tok i # type_toks t @ [tok_of TokSemicolon semi]"

fun param_toks :: "Param \<Rightarrow> token list" where
  "param_toks (Param d i t semi) = ident_tok i # type_toks t @ [tok_of TokSemicolon semi]"

definition opt_toks :: "TypeExpr option \<Rightarrow> token list" where
  "opt_toks t = (case t of None \<Rightarrow> [] | Some t \<Rightarrow> type_toks t)"

fun decl_toks :: "Decl \<Rightarrow> token list" where
  "decl_toks (TypeDecl d kw i t semi) =
     tok_of TokType kw # ident_tok i # type_toks t @ [tok_of TokSemicolon semi]"
| "decl_toks (ExceptionDecl d kw i t semi) =
     tok_of TokException kw # ident_tok i # opt_toks t @ [tok_of TokSemicolon semi]"
| "decl_toks (ProcDecl d kw i lb ps rb res semi) =
     tok_of TokProcedure kw # ident_tok i # tok_of TokLBrace lb # concat (map param_toks ps)
       @ tok_of TokRBrace rb # opt_toks res @ [tok_of TokSemicolon semi]"

text \<open>Trees as the parser leaves them: primitive kinds only, every documentation slot empty.\<close>

definition primKinds :: "TokenKind list" where
  "primKinds = [TokInt8, TokInt16, TokInt32, TokInt64, TokUint8, TokUint16, TokUint32, TokUint64,
     TokFloat32, TokFloat64, TokString, TokBytes]"

fun bare_type :: "TypeExpr \<Rightarrow> bool"
and bare_field :: "Field \<Rightarrow> bool" where
  "bare_type (PrimType d k sp) \<longleftrightarrow> d = [] \<and> k \<in> set primKinds"
| "bare_type (NamedType d i) \<longleftrightarrow> d = []"
| "bare_type (ListType d ls t) \<longleftrightarrow> d = [] \<and> bare_type t"
| "bare_type (RecordType d rs lb fs rb) \<longleftrightarrow> d = [] \<and> list_all bare_field fs"
| "bare_field (Field d i t semi) \<longleftrightarrow> d = [] \<and> bare_type t"

fun bare_param :: "Param \<Rightarrow> bool" where
  "bare_param (Param d i t semi) \<longleftrightarrow> d = [] \<and> bare_type t"

fun bare_decl :: "Decl \<Rightarrow> bool" where
  "bare_decl (TypeDecl d kw i t semi) \<longleftrightarrow> d = [] \<and> bare_type t"
| "bare_decl (ExceptionDecl d kw i t semi) \<longleftrightarrow> d = [] \<and> pred_option bare_type t"
| "bare_decl (ProcDecl d kw i lb ps rb res semi) \<longleftrightarrow>
     d = [] \<and> list_all bare_param ps \<and> pred_option bare_type res"

lemma tok_of_sel [simp]: "tk_kind (tok_of k sp) = k" "tk_span (tok_of k sp) = sp"
  by (simp_all add: tok_of_def)

lemma ident_tok_sel [simp]:
  "tk_kind (ident_tok i) = TokIdent" "tk_span (ident_tok i) = id_span i" "tk_lit (ident_tok i) = id_name i"
  by (simp_all add: ident_tok_def)

end
