(* ===== verification/Parser.thy ===== *)
theory Parser
  imports Ast
begin

text \<open>
  The parser of \<open>go/internal/syntax/parse.go\<close>. The parser state is the scanner, the current
  token, the recorded scanner error and the comments and declarations collected in the
  file; the panic of \<open>bail\<close> and \<open>errorf\<close>, recovered by \<open>Parse\<close>, is the left value of the
  result. The type parser keeps the explicit frame stack of the source. The source fills
  the type and semicolon of a field through a pointer already in the record's field list;
  here the frame holds the name until the field is complete.
\<close>

record parser =
  pa_scan :: scanner
  pa_tok :: token
  pa_err :: "syntax_error option"
  pa_comments :: "comment list"
  pa_decls :: "Decl list"

section \<open>Advancing\<close>

lemma Next_off_mono: "sc_off s \<le> sc_off (snd (Next f s))"
  by (auto simp: Next_def Let_def scanComment_def scanInvalid_def scan_fail_def scanIdent_def
      split: option.splits prod.splits)

function p_next :: "'a source_scheme \<Rightarrow> parser \<Rightarrow> parser" where
  "p_next f p =
     (case Next f (pa_scan p) of
        (Inl e, s) \<Rightarrow>
          p\<lparr>pa_scan := s, pa_err := Some e,
            pa_tok := Token TokEOF (so_size f) (so_size f) []\<rparr>
      | (Inr t, s) \<Rightarrow>
          if tk_kind t = TokComment
          then p_next f (p\<lparr>pa_scan := s,
                 pa_comments := pa_comments p @ [\<lparr>cm_span = tk_span t, cm_text = tk_lit t\<rparr>]\<rparr>)
          else p\<lparr>pa_scan := s, pa_tok := t\<rparr>)"
  by pat_completeness auto
termination
  by (relation "measure (\<lambda>(f, p). length (so_src f) - sc_off (pa_scan p))")
     (auto intro: Next_progress [OF sym])

declare p_next.simps [simp del]

text \<open>What is left to read: the bytes from the scan position on and the current token.\<close>

definition left :: "'a source_scheme \<Rightarrow> parser \<Rightarrow> nat" where
  "left f p = (length (so_src f) - sc_off (pa_scan p)) + (if tk_kind (pa_tok p) = TokEOF then 0 else 1)"

lemma p_next_off:
  "sc_off (pa_scan p) \<le> sc_off (pa_scan (p_next f p))
   \<and> (tk_kind (pa_tok (p_next f p)) \<noteq> TokEOF \<longrightarrow>
        length (so_src f) - sc_off (pa_scan (p_next f p)) < length (so_src f) - sc_off (pa_scan p))"
proof (induction f p rule: p_next.induct)
  case (1 f p)
  obtain r s where n: "Next f (pa_scan p) = (r, s)" by fastforce
  have mono: "sc_off (pa_scan p) \<le> sc_off s" using Next_off_mono [of "pa_scan p" f] n by simp
  show ?case
  proof (cases r)
    case (Inl e)
    with n mono show ?thesis by (simp add: p_next.simps [of f p])
  next
    case (Inr t)
    show ?thesis
    proof (cases "tk_kind t = TokComment")
      case True
      from Next_progress [OF n [unfolded Inr]] True
      have "length (so_src f) - sc_off s < length (so_src f) - sc_off (pa_scan p)" by simp
      with "1.IH" [OF n [symmetric] Inr True] True n Inr mono show ?thesis
        by (auto simp: p_next.simps [of f p])
    next
      case False
      with n Inr mono Next_progress [OF n [unfolded Inr]] show ?thesis
        by (auto simp: p_next.simps [of f p])
    qed
  qed
qed

lemma left_p_next: "tk_kind (pa_tok p) \<noteq> TokEOF \<Longrightarrow> left f (p_next f p) < left f p"
  using p_next_off [of p f] by (auto simp: left_def)

section \<open>Expecting tokens\<close>

type_synonym 'a parse = "syntax_error + ('a \<times> parser)"

definition errorf :: "'a source_scheme \<Rightarrow> token \<Rightarrow> string \<Rightarrow> syntax_error" where
  "errorf f t what = mkError f (tk_span t) (ExpectedFound what (tokenString t))"

definition expect :: "'a source_scheme \<Rightarrow> TokenKind \<Rightarrow> parser \<Rightarrow> token parse" where
  "expect f k p = (case pa_err p of
     Some e \<Rightarrow> Inl e
   | None \<Rightarrow>
       if tk_kind (pa_tok p) \<noteq> k then Inl (errorf f (pa_tok p) (kindLiteral k))
       else Inr (pa_tok p, p_next f p))"

definition expectIdent :: "'a source_scheme \<Rightarrow> parser \<Rightarrow> ident parse" where
  "expectIdent f p = (case pa_err p of
     Some e \<Rightarrow> Inl e
   | None \<Rightarrow>
       if tk_kind (pa_tok p) \<noteq> TokIdent then Inl (errorf f (pa_tok p) ''identifier'')
       else Inr (\<lparr>id_name = tk_lit (pa_tok p), id_span = tk_span (pa_tok p)\<rparr>, p_next f p))"

lemma expect_left: "expect f k p = Inr (t, p') \<Longrightarrow> k \<noteq> TokEOF \<Longrightarrow> left f p' < left f p"
  by (auto simp: expect_def left_p_next split: option.splits if_splits)

lemma expectIdent_left: "expectIdent f p = Inr (i, p') \<Longrightarrow> left f p' < left f p"
  by (auto simp: expectIdent_def left_p_next split: option.splits if_splits)

section \<open>Type specifiers\<close>

datatype frame = FrameElem span | FrameField ident | FrameRecord span span "Field list"

fun addField :: "Field \<Rightarrow> frame list \<Rightarrow> frame list" where
  "addField fld (FrameRecord rs lb fs # st) = FrameRecord rs lb (fs @ [fld]) # st"
| "addField fld st = st"

function typeLoop :: "'a source_scheme \<Rightarrow> frame list \<Rightarrow> TypeExpr option \<Rightarrow> parser \<Rightarrow> TypeExpr parse" where
  "typeLoop f stack complete p =
     (case pa_err p of
        Some e \<Rightarrow> Inl e
      | None \<Rightarrow>
        (case (complete, stack) of
           (Some t, []) \<Rightarrow> Inr (t, p)
         | (Some t, FrameElem ls # st) \<Rightarrow> typeLoop f st (Some (ListType [] ls t)) p
         | (Some t, FrameField i # st) \<Rightarrow>
             (case expect f TokSemicolon p of
                Inl e \<Rightarrow> Inl e
              | Inr (semi, p') \<Rightarrow> typeLoop f (addField (Field [] i t (tk_span semi)) st) None p')
         | (_, FrameRecord rs lb fs # st) \<Rightarrow>
             (let k = tk_kind (pa_tok p) in
              if k = TokIdent then
                (case expectIdent f p of
                   Inl e \<Rightarrow> Inl e
                 | Inr (i, p') \<Rightarrow> typeLoop f (FrameField i # FrameRecord rs lb fs # st) complete p')
              else if k = TokRBrace then
                typeLoop f st (Some (RecordType [] rs lb fs (tk_span (pa_tok p)))) (p_next f p)
              else if k = TokEOF then Inl (errorf f (pa_tok p) (CHR 0x27 # ''}'' @ CHR 0x27 # '' or field''))
              else Inl (errorf f (pa_tok p) ''identifier''))
         | (_, _) \<Rightarrow>
             (let k = tk_kind (pa_tok p) in
              if k \<in> set primKinds then
                typeLoop f stack (Some (PrimType [] k (tk_span (pa_tok p)))) (p_next f p)
              else if k = TokIdent then
                (case expectIdent f p of
                   Inl e \<Rightarrow> Inl e
                 | Inr (i, p') \<Rightarrow> typeLoop f stack (Some (NamedType [] i)) p')
              else if k = TokList then
                (case expect f TokList p of
                   Inl e \<Rightarrow> Inl e
                 | Inr (kw, p') \<Rightarrow> typeLoop f (FrameElem (tk_span kw) # stack) complete p')
              else if k = TokRecord then
                (case expect f TokRecord p of
                   Inl e \<Rightarrow> Inl e
                 | Inr (kw, p') \<Rightarrow>
                     (case expect f TokLBrace p' of
                        Inl e \<Rightarrow> Inl e
                      | Inr (lb, p'') \<Rightarrow>
                          typeLoop f (FrameRecord (tk_span kw) (tk_span lb) [] # stack) complete p''))
              else Inl (errorf f (pa_tok p) ''type''))))"
  by pat_completeness auto
termination
proof (relation "measures [\<lambda>(f, stack, complete, p). left f p, \<lambda>(f, stack, complete, p). length stack]",
    goal_cases)
qed (auto simp: primKinds_def intro!: left_p_next dest!: expect_left expectIdent_left)

declare typeLoop.simps [simp del]

definition parseTypeSpec :: "'a source_scheme \<Rightarrow> parser \<Rightarrow> TypeExpr parse" where
  "parseTypeSpec f p = typeLoop f [] None p"

text \<open>The optional type of an exception payload or a procedure result.\<close>

definition parseOptType :: "'a source_scheme \<Rightarrow> parser \<Rightarrow> TypeExpr option parse" where
  "parseOptType f p =
     (if tk_kind (pa_tok p) \<noteq> TokSemicolon
      then (case parseTypeSpec f p of Inl e \<Rightarrow> Inl e | Inr (t, p') \<Rightarrow> Inr (Some t, p'))
      else Inr (None, p))"

section \<open>Declarations\<close>

definition parseTypeDecl :: "'a source_scheme \<Rightarrow> parser \<Rightarrow> unit parse" where
  "parseTypeDecl f p =
     (case expect f TokType p of Inl e \<Rightarrow> Inl e | Inr (kw, p1) \<Rightarrow>
      (case expectIdent f p1 of Inl e \<Rightarrow> Inl e | Inr (name, p2) \<Rightarrow>
      (case parseTypeSpec f p2 of Inl e \<Rightarrow> Inl e | Inr (typ, p3) \<Rightarrow>
      (case expect f TokSemicolon p3 of Inl e \<Rightarrow> Inl e | Inr (semi, p4) \<Rightarrow>
        Inr ((), p4\<lparr>pa_decls := pa_decls p4 @ [TypeDecl [] (tk_span kw) name typ (tk_span semi)]\<rparr>)))))"

definition parseExceptionDecl :: "'a source_scheme \<Rightarrow> parser \<Rightarrow> unit parse" where
  "parseExceptionDecl f p =
     (case expect f TokException p of Inl e \<Rightarrow> Inl e | Inr (kw, p1) \<Rightarrow>
      (case expectIdent f p1 of Inl e \<Rightarrow> Inl e | Inr (name, p2) \<Rightarrow>
      (case parseOptType f p2 of Inl e \<Rightarrow> Inl e | Inr (typ, p3) \<Rightarrow>
      (case expect f TokSemicolon p3 of Inl e \<Rightarrow> Inl e | Inr (semi, p4) \<Rightarrow>
        Inr ((), p4\<lparr>pa_decls := pa_decls p4 @ [ExceptionDecl [] (tk_span kw) name typ (tk_span semi)]\<rparr>)))))"

definition parseParam :: "'a source_scheme \<Rightarrow> parser \<Rightarrow> Param parse" where
  "parseParam f p = (case pa_err p of
     Some e \<Rightarrow> Inl e
   | None \<Rightarrow>
     (case expectIdent f p of Inl e \<Rightarrow> Inl e | Inr (name, p1) \<Rightarrow>
      (case parseTypeSpec f p1 of Inl e \<Rightarrow> Inl e | Inr (typ, p2) \<Rightarrow>
      (case expect f TokSemicolon p2 of Inl e \<Rightarrow> Inl e | Inr (semi, p3) \<Rightarrow>
        Inr (Param [] name typ (tk_span semi), p3)))))"

section \<open>The token stream of a parser state\<close>

text \<open>
  What a parser state still has to read: the tokens of the grammar from the current one
  on, the error the scanner reports after them, and all comments of the file.
\<close>

definition isComment :: "token \<Rightarrow> bool" where
  "isComment t \<longleftrightarrow> tk_kind t = TokComment"

definition commentOf :: "token \<Rightarrow> comment" where
  "commentOf t = \<lparr>cm_span = tk_span t, cm_text = tk_lit t\<rparr>"

definition scan_view ::
  "'a source_scheme \<Rightarrow> scanner \<Rightarrow> comment list \<Rightarrow> token list \<times> syntax_error option \<times> comment list" where
  "scan_view f s cs = (case scanAll f s of (ts, e) \<Rightarrow>
     (filter (\<lambda>t. \<not> isComment t) ts, e, cs @ map commentOf (filter isComment ts)))"

definition stream :: "'a source_scheme \<Rightarrow> parser \<Rightarrow> token list \<times> syntax_error option \<times> comment list" where
  "stream f p =
     (if tk_kind (pa_tok p) = TokEOF then ([], pa_err p, pa_comments p)
      else case scan_view f (pa_scan p) (pa_comments p) of (ts, e, cs) \<Rightarrow> (pa_tok p # ts, e, cs))"

lemma stream_p_next:
  "pa_err p = None \<Longrightarrow> stream f (p_next f p) = scan_view f (pa_scan p) (pa_comments p)"
proof (induction f p rule: p_next.induct)
  case (1 f p)
  obtain r s where n: "Next f (pa_scan p) = (r, s)" by fastforce
  show ?case
  proof (cases r)
    case (Inl e)
    with n "1.prems" show ?thesis
      by (simp add: p_next.simps [of f p] stream_def scan_view_def Token_def scanAll.simps [of f "pa_scan p"])
  next
    case (Inr t)
    note IH = "1.IH" [OF n [symmetric] Inr]
    show ?thesis
    proof (cases "tk_kind t = TokComment")
      case True
      with n Inr IH [OF True] "1.prems" show ?thesis
        by (auto simp: p_next.simps [of f p] scan_view_def isComment_def commentOf_def
            scanAll.simps [of f "pa_scan p"] split: prod.splits)
    next
      case False
      with n Inr "1.prems" show ?thesis
        by (auto simp: p_next.simps [of f p] stream_def scan_view_def isComment_def
            scanAll.simps [of f "pa_scan p"] split: prod.splits)
    qed
  qed
qed

lemma p_next_decls [simp]: "pa_decls (p_next f p) = pa_decls p"
  by (induction f p rule: p_next.induct) (subst p_next.simps, auto split: prod.splits sum.splits)

text \<open>The current token of a state is the head of its stream; its error is the scanner's.\<close>

definition ready :: "'a source_scheme \<Rightarrow> token list \<Rightarrow> syntax_error option \<Rightarrow> comment list \<Rightarrow> parser \<Rightarrow> bool" where
  "ready f ts e cs p \<longleftrightarrow> stream f p = (ts, e, cs) \<and> (pa_err p \<noteq> None \<longrightarrow> tk_kind (pa_tok p) = TokEOF)"

lemma p_next_err: "pa_err p = None \<Longrightarrow> pa_err (p_next f p) \<noteq> None \<longrightarrow> tk_kind (pa_tok (p_next f p)) = TokEOF"
proof (induction f p rule: p_next.induct)
  case (1 f p)
  obtain r s where n: "Next f (pa_scan p) = (r, s)" by fastforce
  show ?case
  proof (cases r)
    case (Inl e)
    with n show ?thesis by (simp add: p_next.simps [of f p] Token_def)
  next
    case (Inr t)
    show ?thesis
    proof (cases "tk_kind t = TokComment")
      case True
      with "1.IH" [OF n [symmetric] Inr True] n Inr "1.prems" show ?thesis
        by (simp add: p_next.simps [of f p])
    next
      case False
      with n Inr "1.prems" show ?thesis by (simp add: p_next.simps [of f p])
    qed
  qed
qed

lemma ready_err: "ready f ts e cs p \<Longrightarrow> pa_err p = (if ts = [] then e else None)"
  by (cases "pa_err p") (auto simp: ready_def stream_def split: if_splits prod.splits)

lemma ready_tok: "ready f ts e cs p \<Longrightarrow> tk_kind (pa_tok p) = (case ts of [] \<Rightarrow> TokEOF | t # _ \<Rightarrow> tk_kind t)"
  by (auto simp: ready_def stream_def split: if_splits prod.splits list.splits)

lemma ready_hd: "ready f (t # ts) e cs p \<Longrightarrow> pa_tok p = t"
  by (auto simp: ready_def stream_def split: if_splits prod.splits)

lemma ready_next:
  assumes "ready f (t # ts) e cs p"
  shows "ready f ts e cs (p_next f p)"
proof -
  have none: "pa_err p = None" using ready_err [OF assms] by simp
  have "scan_view f (pa_scan p) (pa_comments p) = (ts, e, cs)"
    using assms by (auto simp: ready_def stream_def split: if_splits prod.splits)
  with stream_p_next [OF none, of f] p_next_err [OF none, of f] show ?thesis
    by (simp only: ready_def)
qed

lemma ready_decls [simp]: "ready f ts e cs (p\<lparr>pa_decls := ds\<rparr>) = ready f ts e cs p"
  by (simp add: ready_def stream_def)

lemma ready_pending: "pa_err p = None \<Longrightarrow> ready f (fst (stream f p)) (fst (snd (stream f p))) (snd (snd (stream f p))) p"
  by (simp add: ready_def)

lemma expect_ready:
  assumes "ready f ts e cs p" and "k \<noteq> TokEOF"
  shows "expect f k p = Inr (t, p') \<longleftrightarrow> (\<exists>ts'. ts = t # ts' \<and> tk_kind t = k \<and> p' = p_next f p)"
  using assms ready_err [OF assms(1)] ready_tok [OF assms(1)]
  by (cases ts) (auto simp: expect_def split: option.splits if_splits dest: ready_hd)

lemma expectIdent_ready:
  assumes "ready f ts e cs p"
  shows "expectIdent f p = Inr (i, p') \<longleftrightarrow>
    (\<exists>t ts'. ts = t # ts' \<and> tk_kind t = TokIdent \<and> i = \<lparr>id_name = tk_lit t, id_span = tk_span t\<rparr> \<and> p' = p_next f p)"
  using assms ready_err [OF assms(1)] ready_tok [OF assms(1)]
  by (cases ts) (auto simp: expectIdent_def split: option.splits if_splits dest: ready_hd)

section \<open>The type parser on token lists\<close>

text \<open>
  The successful runs of the frame-stack machine, over the tokens alone: one rule per
  branch of the loop that does not report an error.
\<close>

fun awaits :: "frame list \<Rightarrow> bool" where
  "awaits (FrameRecord rs lb fs # st) = False"
| "awaits st = True"

lemma awaitsE:
  assumes "awaits st"
  obtains (empty) "st = []" | (elem) ls st' where "st = FrameElem ls # st'" | (field) i st' where "st = FrameField i # st'"
  using assms by (cases st rule: awaits.cases) auto

definition identOf :: "token \<Rightarrow> ident" where
  "identOf t = \<lparr>id_name = tk_lit t, id_span = tk_span t\<rparr>"

inductive type_run :: "frame list \<Rightarrow> TypeExpr option \<Rightarrow> token list \<Rightarrow> TypeExpr \<Rightarrow> token list \<Rightarrow> bool" where
  run_done: "type_run [] (Some t) ts t ts"
| run_elem: "type_run st (Some (ListType [] ls t)) ts r ts' \<Longrightarrow> type_run (FrameElem ls # st) (Some t) ts r ts'"
| run_field: "tk_kind semi = TokSemicolon \<Longrightarrow>
    type_run (addField (Field [] i t (tk_span semi)) st) None ts r ts' \<Longrightarrow>
    type_run (FrameField i # st) (Some t) (semi # ts) r ts'"
| run_name: "tk_kind n = TokIdent \<Longrightarrow>
    type_run (FrameField (identOf n) # FrameRecord rs lb fs # st) c ts r ts' \<Longrightarrow>
    type_run (FrameRecord rs lb fs # st) c (n # ts) r ts'"
| run_close: "tk_kind rb = TokRBrace \<Longrightarrow>
    type_run st (Some (RecordType [] rs lb fs (tk_span rb))) ts r ts' \<Longrightarrow>
    type_run (FrameRecord rs lb fs # st) c (rb # ts) r ts'"
| run_prim: "awaits st \<Longrightarrow> tk_kind k \<in> set primKinds \<Longrightarrow>
    type_run st (Some (PrimType [] (tk_kind k) (tk_span k))) ts r ts' \<Longrightarrow> type_run st None (k # ts) r ts'"
| run_named: "awaits st \<Longrightarrow> tk_kind n = TokIdent \<Longrightarrow>
    type_run st (Some (NamedType [] (identOf n))) ts r ts' \<Longrightarrow> type_run st None (n # ts) r ts'"
| run_list: "awaits st \<Longrightarrow> tk_kind l = TokList \<Longrightarrow>
    type_run (FrameElem (tk_span l) # st) None ts r ts' \<Longrightarrow> type_run st None (l # ts) r ts'"
| run_record: "awaits st \<Longrightarrow> tk_kind rk = TokRecord \<Longrightarrow> tk_kind lb = TokLBrace \<Longrightarrow>
    type_run (FrameRecord (tk_span rk) (tk_span lb) [] # st) None ts r ts' \<Longrightarrow>
    type_run st None (rk # lb # ts) r ts'"

lemma typeLoop_done: "pa_err p = None \<Longrightarrow> typeLoop f [] (Some t) p = Inr (t, p)"
  by (simp add: typeLoop.simps)

lemma typeLoop_elem:
  "pa_err p = None \<Longrightarrow>
     typeLoop f (FrameElem ls # st) (Some t) p = typeLoop f st (Some (ListType [] ls t)) p"
  by (simp add: typeLoop.simps [of f "FrameElem ls # st"])

lemma expect_next: "ready f (t # ts) e cs p \<Longrightarrow> tk_kind t = k \<Longrightarrow> expect f k p = Inr (t, p_next f p)"
  using ready_err [of f "t # ts" e cs p] ready_hd [of f t ts e cs p] by (simp add: expect_def)

lemma expectIdent_next:
  "ready f (t # ts) e cs p \<Longrightarrow> tk_kind t = TokIdent \<Longrightarrow> expectIdent f p = Inr (identOf t, p_next f p)"
  using ready_err [of f "t # ts" e cs p] ready_hd [of f t ts e cs p] by (simp add: expectIdent_def identOf_def)

lemma typeLoop_field:
  assumes "ready f (semi # ts) e cs p" "tk_kind semi = TokSemicolon"
  shows "typeLoop f (FrameField i # st) (Some t) p
    = typeLoop f (addField (Field [] i t (tk_span semi)) st) None (p_next f p)"
  using ready_err [OF assms(1)] expect_next [OF assms]
  by (simp add: typeLoop.simps [of f "FrameField i # st"])

lemma typeLoop_name:
  assumes "ready f (n # ts) e cs p" "tk_kind n = TokIdent"
  shows "typeLoop f (FrameRecord rs lb fs # st) c p
    = typeLoop f (FrameField (identOf n) # FrameRecord rs lb fs # st) c (p_next f p)"
  using ready_err [OF assms(1)] ready_hd [OF assms(1)] expectIdent_next [OF assms] assms(2)
  by (cases c) (simp_all add: typeLoop.simps [of f "FrameRecord rs lb fs # st"])

lemma typeLoop_close:
  assumes "ready f (rb # ts) e cs p" "tk_kind rb = TokRBrace"
  shows "typeLoop f (FrameRecord rs lb fs # st) c p
    = typeLoop f st (Some (RecordType [] rs lb fs (tk_span rb))) (p_next f p)"
  using ready_err [OF assms(1)] ready_hd [OF assms(1)] assms(2)
  by (cases c) (simp_all add: typeLoop.simps [of f "FrameRecord rs lb fs # st"])

lemma typeLoop_start:
  assumes "awaits st" "pa_err p = None"
  shows "typeLoop f st None p =
    (let k = tk_kind (pa_tok p) in
      if k \<in> set primKinds then
        typeLoop f st (Some (PrimType [] k (tk_span (pa_tok p)))) (p_next f p)
      else if k = TokIdent then
        (case expectIdent f p of
           Inl e \<Rightarrow> Inl e
         | Inr (i, p') \<Rightarrow> typeLoop f st (Some (NamedType [] i)) p')
      else if k = TokList then
        (case expect f TokList p of
           Inl e \<Rightarrow> Inl e
         | Inr (kw, p') \<Rightarrow> typeLoop f (FrameElem (tk_span kw) # st) None p')
      else if k = TokRecord then
        (case expect f TokRecord p of
           Inl e \<Rightarrow> Inl e
         | Inr (kw, p') \<Rightarrow>
             (case expect f TokLBrace p' of
                Inl e \<Rightarrow> Inl e
              | Inr (lb, p'') \<Rightarrow> typeLoop f (FrameRecord (tk_span kw) (tk_span lb) [] # st) None p''))
      else Inl (errorf f (pa_tok p) ''type''))"
  using assms by (cases st rule: awaits.cases) (simp_all only: typeLoop.simps [of f _ None p] option.case list.case frame.case prod.case awaits.simps)

lemma typeLoop_prim:
  assumes "ready f (k # ts) e cs p" "tk_kind k \<in> set primKinds" "awaits st"
  shows "typeLoop f st None p = typeLoop f st (Some (PrimType [] (tk_kind k) (tk_span k))) (p_next f p)"
  using ready_err [OF assms(1)] ready_hd [OF assms(1)] assms(2,3) by (simp add: typeLoop_start Let_def)

lemma typeLoop_named:
  assumes "ready f (n # ts) e cs p" "tk_kind n = TokIdent" "awaits st"
  shows "typeLoop f st None p = typeLoop f st (Some (NamedType [] (identOf n))) (p_next f p)"
  using ready_err [OF assms(1)] ready_hd [OF assms(1)] assms(2,3) expectIdent_next [OF assms(1,2)]
  by (simp add: typeLoop_start Let_def primKinds_def)

lemma typeLoop_list:
  assumes "ready f (l # ts) e cs p" "tk_kind l = TokList" "awaits st"
  shows "typeLoop f st None p = typeLoop f (FrameElem (tk_span l) # st) None (p_next f p)"
  using ready_err [OF assms(1)] ready_hd [OF assms(1)] assms(2,3) expect_next [OF assms(1,2)]
  by (simp add: typeLoop_start Let_def primKinds_def)

lemma typeLoop_record:
  assumes "ready f (rk # lb # ts) e cs p" "tk_kind rk = TokRecord" "tk_kind lb = TokLBrace" "awaits st"
  shows "typeLoop f st None p
    = typeLoop f (FrameRecord (tk_span rk) (tk_span lb) [] # st) None (p_next f (p_next f p))"
  using ready_err [OF assms(1)] ready_hd [OF assms(1)] assms(2,4) expect_next [OF assms(1,2)]
    expect_next [OF ready_next [OF assms(1)] assms(3)]
  by (simp add: typeLoop_start Let_def primKinds_def)

text \<open>Every successful state of the loop is in one of these shapes.\<close>

lemma typeLoop_shape_record:
  assumes "typeLoop f (FrameRecord rs lb fs # st) c p = Inr rp" "ready f ts e cs p"
  shows "\<exists>t ts'. ts = t # ts' \<and> (tk_kind t = TokIdent \<or> tk_kind t = TokRBrace)"
  using assms ready_err [OF assms(2)] ready_tok [OF assms(2)]
  by (cases c; cases ts)
     (auto simp: typeLoop.simps [of f "FrameRecord rs lb fs # st"] Let_def split: if_splits option.splits)

lemma typeLoop_shape_start:
  assumes "typeLoop f st None p = Inr rp" "ready f ts e cs p" "awaits st"
  shows "\<exists>t ts'. ts = t # ts' \<and> (tk_kind t \<in> set primKinds \<or> tk_kind t = TokIdent \<or> tk_kind t = TokList
           \<or> (tk_kind t = TokRecord \<and> (\<exists>lb ts''. ts' = lb # ts'' \<and> tk_kind lb = TokLBrace)))"
proof -
  from assms(1) have none: "pa_err p = None"
    by (subst (asm) typeLoop.simps) (auto split: option.splits)
  note st = assms(1) [unfolded typeLoop_start [OF assms(3) none] Let_def]
  show ?thesis
  proof (cases ts)
    case Nil
    with st ready_tok [OF assms(2)] show ?thesis by (simp add: primKinds_def)
  next
    case (Cons t ts')
    have "\<exists>lb ts''. ts' = lb # ts'' \<and> tk_kind lb = TokLBrace" if k: "tk_kind t = TokRecord"
      using st k ready_hd [OF assms(2) [unfolded Cons]]
        expect_next [OF assms(2) [unfolded Cons] k]
      by (auto simp: primKinds_def split: sum.splits
          dest: expect_ready [OF ready_next [OF assms(2) [unfolded Cons]], THEN iffD1, rotated])
    with Cons st ready_hd [OF assms(2) [unfolded Cons]] show ?thesis by (auto split: if_splits)
  qed
qed

lemma typeLoop_shape_field:
  assumes "typeLoop f (FrameField i # st) (Some t) p = Inr rp" "ready f ts e cs p"
  shows "\<exists>s ts'. ts = s # ts' \<and> tk_kind s = TokSemicolon"
  using assms(1)
  by (auto simp: typeLoop.simps [of f "FrameField i # st"] split: option.splits sum.splits
      dest: expect_ready [OF assms(2), THEN iffD1, rotated])

lemma typeLoop_run:
  "typeLoop f stack c p = Inr (r, p') \<Longrightarrow> ready f ts e cs p \<Longrightarrow>
     \<exists>ts'. type_run stack c ts r ts' \<and> ready f ts' e cs p' \<and> pa_decls p' = pa_decls p \<and> pa_err p' = None"
proof (induction "2 * length ts + length stack" arbitrary: stack c p ts rule: less_induct)
  case less
  note run = less.prems(1) and rd = less.prems(2)
  from run have none: "pa_err p = None"
    by (subst (asm) typeLoop.simps) (auto split: option.splits)
  note IH = less.hyps
  have next1: "\<exists>ts''. type_run st' c' ts' r ts'' \<and> ready f ts'' e cs p' \<and> pa_decls p' = pa_decls p \<and> pa_err p' = None"
    if "ts = t # ts'" "typeLoop f st' c' (p_next f p) = Inr (r, p')" "length st' \<le> Suc (length stack)" for t ts' st' c'
    using IH [of ts' st' c' "p_next f p"] that ready_next [of f t ts'] rd by simp
  show ?case
  proof (cases "awaits stack")
    case True
    show ?thesis
    proof (cases c)
      case None
      from typeLoop_shape_start [OF run [unfolded None] rd True] obtain t ts' where ts: "ts = t # ts'"
        and sh: "tk_kind t \<in> set primKinds \<or> tk_kind t = TokIdent \<or> tk_kind t = TokList
           \<or> (tk_kind t = TokRecord \<and> (\<exists>lb ts''. ts' = lb # ts'' \<and> tk_kind lb = TokLBrace))" by blast
      note rd' = rd [unfolded ts]
      from sh consider "tk_kind t \<in> set primKinds" | "tk_kind t = TokIdent" | "tk_kind t = TokList"
        | lb ts'' where "tk_kind t = TokRecord" "ts' = lb # ts''" "tk_kind lb = TokLBrace" by blast
      then show ?thesis
      proof cases
        case 1
        with next1 [OF ts] run None True typeLoop_prim [OF rd' 1 True] ts show ?thesis
          by (fastforce intro: run_prim)
      next
        case 2
        with next1 [OF ts] run None True typeLoop_named [OF rd' 2 True] ts show ?thesis
          by (fastforce intro: run_named)
      next
        case 3
        with next1 [OF ts] run None True typeLoop_list [OF rd' 3 True] ts show ?thesis
          by (fastforce intro: run_list)
      next
        case 4
        note rd'' = rd' [unfolded 4(2)]
        let ?st = "FrameRecord (tk_span t) (tk_span lb) [] # stack"
        have "typeLoop f ?st None (p_next f (p_next f p)) = Inr (r, p')"
          using run None typeLoop_record [OF rd'' 4(1,3) True] by simp
        with IH [of ts'' ?st None] ready_next [OF ready_next [OF rd'']] ts 4 obtain ts3 where
          "type_run ?st None ts'' r ts3" "ready f ts3 e cs p'" "pa_decls p' = pa_decls p" "pa_err p' = None"
          by fastforce
        with 4 ts None True show ?thesis by (auto intro: run_record)
      qed
    next
      case (Some t)
      show ?thesis
        using True
      proof (cases rule: awaitsE)
        case empty
        with run rd Some none show ?thesis by (auto simp: typeLoop_done intro: run_done)
      next
        case (elem ls st)
        with run Some none IH [of ts st "Some (ListType [] ls t)" p] rd show ?thesis
          by (auto simp: typeLoop_elem intro: run_elem)
      next
        case (field i st)
        from typeLoop_shape_field [OF run [unfolded Some field] rd] obtain semi ts' where
          ts: "ts = semi # ts'" "tk_kind semi = TokSemicolon" by blast
        have "length (addField fld st) = length st" for fld by (cases "(fld, st)" rule: addField.cases) auto
        with next1 [OF ts(1), of "addField (Field [] i t (tk_span semi)) st" None]
          run Some field typeLoop_field [OF rd [unfolded ts(1)] ts(2), of i st t] ts show ?thesis
          by (fastforce intro: run_field)
      qed
    qed
  next
    case False
    then obtain rs lb fs st where st: "stack = FrameRecord rs lb fs # st"
      by (cases stack rule: awaits.cases) auto
    from typeLoop_shape_record [OF run [unfolded st] rd] obtain t ts' where
      ts: "ts = t # ts'" and k: "tk_kind t = TokIdent \<or> tk_kind t = TokRBrace" by blast
    note rd' = rd [unfolded ts]
    from k show ?thesis
    proof
      assume i: "tk_kind t = TokIdent"
      with next1 [OF ts, of "FrameField (identOf t) # stack" c] run st ts
        typeLoop_name [OF rd' i, of rs lb fs st c] show ?thesis
        by (fastforce intro: run_name)
    next
      assume b: "tk_kind t = TokRBrace"
      with next1 [OF ts, of st "Some (RecordType [] rs lb fs (tk_span t))"] run st ts
        typeLoop_close [OF rd' b, of rs lb fs st c] show ?thesis
        by (fastforce intro: run_close)
    qed
  qed
qed

text \<open>
  The tokens an open container has consumed. A token other than an identifier is
  determined by its kind and span; \<open>canon\<close> forgets what the scanner stored beside them.
\<close>

definition canon :: "token \<Rightarrow> token" where
  "canon t = (if tk_kind t = TokIdent then t else tok_of (tk_kind t) (tk_span t))"

fun frame_toks :: "frame \<Rightarrow> token list" where
  "frame_toks (FrameElem ls) = [tok_of TokList ls]"
| "frame_toks (FrameField i) = [ident_tok i]"
| "frame_toks (FrameRecord rs lb fs) =
     tok_of TokRecord rs # tok_of TokLBrace lb # concat (map field_toks fs)"

fun stack_toks :: "frame list \<Rightarrow> token list" where
  "stack_toks [] = []"
| "stack_toks (fr # st) = stack_toks st @ frame_toks fr"

fun wf_stack :: "frame list \<Rightarrow> bool" where
  "wf_stack [] = True"
| "wf_stack (FrameElem ls # st) = (awaits st \<and> wf_stack st)"
| "wf_stack (FrameRecord rs lb fs # st) = (list_all bare_field fs \<and> awaits st \<and> wf_stack st)"
| "wf_stack (FrameField i # FrameRecord rs lb fs # st) = wf_stack (FrameRecord rs lb fs # st)"
| "wf_stack (FrameField i # st) = False"

lemma canon_ident: "tk_kind n = TokIdent \<Longrightarrow> ident_tok (identOf n) = canon n"
  by (simp add: canon_def ident_tok_def identOf_def)

lemma canon_kind: "tk_kind t = k \<Longrightarrow> k \<noteq> TokIdent \<Longrightarrow> canon t = tok_of k (tk_span t)"
  by (simp add: canon_def)

lemma type_run_conserves:
  "type_run st c ts r ts' \<Longrightarrow> wf_stack st \<Longrightarrow> pred_option bare_type c \<Longrightarrow> (c \<noteq> None \<longrightarrow> awaits st) \<Longrightarrow>
     stack_toks st @ opt_toks c @ map canon ts = type_toks r @ map canon ts' \<and> bare_type r"
proof (induction rule: type_run.induct)
  case (run_field semi i t st ts r ts')
  then obtain rs lb fs st' where "st = FrameRecord rs lb fs # st'"
    by (cases "FrameField i # st" rule: wf_stack.cases) auto
  with run_field show ?case by (simp add: opt_toks_def canon_kind)
next
  case (run_prim st k ts r ts')
  then have "tk_kind k \<noteq> TokIdent" by (auto simp: primKinds_def)
  with run_prim show ?case by (simp add: opt_toks_def canon_def)
qed (auto simp: opt_toks_def canon_kind canon_ident)

lemma type_run_sound:
  "type_run [] None ts r ts' \<Longrightarrow> map canon ts = type_toks r @ map canon ts' \<and> bare_type r"
  using type_run_conserves [of "[]" None] by (simp add: opt_toks_def)

section \<open>Parameters, procedures and files\<close>

lemma type_run_length: "type_run st c ts r ts' \<Longrightarrow> length ts' \<le> length ts"
  by (induction rule: type_run.induct) auto

lemma parseTypeSpec_run:
  "parseTypeSpec f p = Inr (t, p') \<Longrightarrow> ready f ts e cs p \<Longrightarrow>
     \<exists>ts'. type_run [] None ts t ts' \<and> ready f ts' e cs p' \<and> pa_decls p' = pa_decls p \<and> pa_err p' = None"
  unfolding parseTypeSpec_def by (rule typeLoop_run)

lemma expect_run:
  assumes "expect f k p = Inr (t, p')" "ready f ts e cs p" "k \<noteq> TokEOF"
  shows "\<exists>ts'. ts = t # ts' \<and> tk_kind t = k \<and> ready f ts' e cs p' \<and> pa_decls p' = pa_decls p"
  using assms expect_ready [OF assms(2,3)] by (auto intro: ready_next)

lemma expectIdent_run:
  assumes "expectIdent f p = Inr (i, p')" "ready f ts e cs p"
  shows "\<exists>t ts'. ts = t # ts' \<and> tk_kind t = TokIdent \<and> i = identOf t \<and> ready f ts' e cs p' \<and> pa_decls p' = pa_decls p"
  using assms expectIdent_ready [OF assms(2)] by (auto simp: identOf_def intro: ready_next)

lemma parseParam_run:
  assumes "parseParam f p = Inr (q, p')" "ready f ts e cs p"
  shows "\<exists>n ts1 t semi ts2. ts = n # ts1 \<and> tk_kind n = TokIdent \<and> type_run [] None ts1 t (semi # ts2)
    \<and> tk_kind semi = TokSemicolon \<and> q = Param [] (identOf n) t (tk_span semi)
    \<and> ready f ts2 e cs p' \<and> pa_decls p' = pa_decls p"
proof -
  from assms(1) obtain i p1 t p2 semi where
    1: "expectIdent f p = Inr (i, p1)" and 2: "parseTypeSpec f p1 = Inr (t, p2)"
    and 3: "expect f TokSemicolon p2 = Inr (semi, p')" and q: "q = Param [] i t (tk_span semi)"
    by (auto simp: parseParam_def split: option.splits sum.splits)
  from expectIdent_run [OF 1 assms(2)] obtain n ts1 where n: "ts = n # ts1" "tk_kind n = TokIdent"
    "i = identOf n" and r1: "ready f ts1 e cs p1" "pa_decls p1 = pa_decls p" by blast
  from parseTypeSpec_run [OF 2 r1(1)] obtain ts2 where t: "type_run [] None ts1 t ts2"
    and r2: "ready f ts2 e cs p2" "pa_decls p2 = pa_decls p1" by blast
  from expect_run [OF 3 r2(1)] obtain ts3 where "ts2 = semi # ts3" "tk_kind semi = TokSemicolon"
    "ready f ts3 e cs p'" "pa_decls p' = pa_decls p2" by blast
  with n t q r1 r2 show ?thesis by auto
qed

function parseParams :: "'a source_scheme \<Rightarrow> Param list \<Rightarrow> parser \<Rightarrow> Param list parse" where
  "parseParams f params p =
     (if tk_kind (pa_tok p) = TokRBrace then Inr (params, p)
      else case pa_err p of
        Some e \<Rightarrow> Inl e
      | None \<Rightarrow>
          if tk_kind (pa_tok p) = TokEOF
          then Inl (errorf f (pa_tok p) (CHR 0x27 # ''}'' @ CHR 0x27 # '' or parameter''))
          else (case parseParam f p of
                  Inl e \<Rightarrow> Inl e
                | Inr (q, p') \<Rightarrow> parseParams f (params @ [q]) p'))"
  by pat_completeness auto
termination
proof (relation "measure (\<lambda>(f, params, p). length (fst (stream f p)))", goal_cases)
  case (2 f params p r q p')
  from 2 have "parseParam f p = Inr (q, p')" by simp
  from parseParam_run [OF this ready_pending] 2 type_run_length show ?case
    by (fastforce simp: ready_def)
qed simp

declare parseParams.simps [simp del]

definition parseProcDecl :: "'a source_scheme \<Rightarrow> parser \<Rightarrow> unit parse" where
  "parseProcDecl f p =
     (case expect f TokProcedure p of Inl e \<Rightarrow> Inl e | Inr (kw, p1) \<Rightarrow>
      (case expectIdent f p1 of Inl e \<Rightarrow> Inl e | Inr (name, p2) \<Rightarrow>
      (case expect f TokLBrace p2 of Inl e \<Rightarrow> Inl e | Inr (lbrace, p3) \<Rightarrow>
      (case parseParams f [] p3 of Inl e \<Rightarrow> Inl e | Inr (params, p4) \<Rightarrow>
      (case expect f TokRBrace p4 of Inl e \<Rightarrow> Inl e | Inr (rbrace, p5) \<Rightarrow>
      (case parseOptType f p5 of Inl e \<Rightarrow> Inl e | Inr (res, p6) \<Rightarrow>
      (case expect f TokSemicolon p6 of Inl e \<Rightarrow> Inl e | Inr (semi, p7) \<Rightarrow>
        Inr ((), p7\<lparr>pa_decls := pa_decls p7 @ [ProcDecl [] (tk_span kw) name (tk_span lbrace) params
                      (tk_span rbrace) res (tk_span semi)]\<rparr>))))))))"

definition parseDecl :: "'a source_scheme \<Rightarrow> parser \<Rightarrow> unit parse" where
  "parseDecl f p = (case pa_err p of
     Some e \<Rightarrow> Inl e
   | None \<Rightarrow>
     (let k = tk_kind (pa_tok p) in
      if k = TokType then parseTypeDecl f p
      else if k = TokException then parseExceptionDecl f p
      else if k = TokProcedure then parseProcDecl f p
      else Inl (errorf f (pa_tok p) ''declaration'')))"

section \<open>Declarations conserve the tokens\<close>

text \<open>
  A parsing step that succeeds consumes exactly the tokens of what it built.
\<close>

definition consumes ::
  "'a source_scheme \<Rightarrow> token list \<Rightarrow> syntax_error option \<Rightarrow> comment list \<Rightarrow> parser \<Rightarrow> token list \<Rightarrow> parser \<Rightarrow> bool" where
  "consumes f ts e cs p ws p' \<longleftrightarrow> (\<exists>ts'. map canon ts = ws @ map canon ts' \<and> ready f ts' e cs p'
     \<and> pa_decls p' = pa_decls p)"

lemma parseParam_sound:
  assumes "parseParam f p = Inr (q, p')" "ready f ts e cs p"
  shows "consumes f ts e cs p (param_toks q) p' \<and> bare_param q"
  using parseParam_run [OF assms] type_run_sound
  by (fastforce simp: consumes_def canon_kind canon_ident)

lemma parseOptType_sound:
  assumes "parseOptType f p = Inr (t, p')" "ready f ts e cs p"
  shows "consumes f ts e cs p (opt_toks t) p' \<and> pred_option bare_type t"
proof (cases "tk_kind (pa_tok p) = TokSemicolon")
  case True
  with assms show ?thesis by (auto simp: parseOptType_def consumes_def opt_toks_def)
next
  case False
  with assms(1) obtain t' where t: "t = Some t'" "parseTypeSpec f p = Inr (t', p')"
    by (auto simp: parseOptType_def split: sum.splits)
  from parseTypeSpec_run [OF t(2) assms(2)] t(1) type_run_sound show ?thesis
    by (fastforce simp: consumes_def opt_toks_def)
qed

lemma parseParams_sound:
  "parseParams f qs p = Inr (qs', p') \<Longrightarrow> ready f ts e cs p \<Longrightarrow>
     \<exists>rs. qs' = qs @ rs \<and> consumes f ts e cs p (concat (map param_toks rs)) p' \<and> list_all bare_param rs"
proof (induction f qs p arbitrary: ts rule: parseParams.induct)
  case (1 f qs p)
  show ?case
  proof (cases "tk_kind (pa_tok p) = TokRBrace")
    case True
    with "1.prems" show ?thesis by (auto simp: parseParams.simps [of f qs p] consumes_def)
  next
    case False
    with "1.prems" obtain q p1 where none: "pa_err p = None" and eof: "tk_kind (pa_tok p) \<noteq> TokEOF"
      and q: "parseParam f p = Inr (q, p1)" and rec: "parseParams f (qs @ [q]) p1 = Inr (qs', p')"
      by (auto simp: parseParams.simps [of f qs p] split: option.splits if_splits sum.splits)
    from parseParam_sound [OF q "1.prems"(2)] obtain ts1 where
      t1: "map canon ts = param_toks q @ map canon ts1" "ready f ts1 e cs p1" "pa_decls p1 = pa_decls p"
      and b: "bare_param q" by (auto simp: consumes_def)
    from "1.IH" [OF False none eof q refl rec t1(2)] t1 b show ?thesis by (auto simp: consumes_def)
  qed
qed

lemma expect_sound:
  assumes "expect f k p = Inr (t, p')" "ready f ts e cs p" "k \<notin> {TokEOF, TokIdent}"
  shows "consumes f ts e cs p [tok_of k (tk_span t)] p'"
  using expect_run [OF assms(1,2)] assms(3) by (auto simp: consumes_def canon_kind)

lemma expectIdent_sound:
  assumes "expectIdent f p = Inr (i, p')" "ready f ts e cs p"
  shows "consumes f ts e cs p [ident_tok i] p'"
  using expectIdent_run [OF assms] by (auto simp: consumes_def canon_ident)

definition declares ::
  "'a source_scheme \<Rightarrow> token list \<Rightarrow> syntax_error option \<Rightarrow> comment list \<Rightarrow> parser \<Rightarrow> parser \<Rightarrow> bool" where
  "declares f ts e cs p p' \<longleftrightarrow> (\<exists>d ts'. map canon ts = decl_toks d @ map canon ts' \<and> ready f ts' e cs p'
     \<and> pa_decls p' = pa_decls p @ [d] \<and> bare_decl d)"

lemma consumesE:
  assumes "consumes f ts e cs p ws p'"
  obtains ts' where "map canon ts = ws @ map canon ts'" "ready f ts' e cs p'" "pa_decls p' = pa_decls p"
  using assms by (auto simp: consumes_def)

lemma parseTypeDecl_sound:
  assumes "parseTypeDecl f p = Inr ((), p')" "ready f ts e cs p"
  shows "declares f ts e cs p p'"
proof -
  from assms(1) obtain kw p1 i p2 t p3 semi p4 where
    1: "expect f TokType p = Inr (kw, p1)" and 2: "expectIdent f p1 = Inr (i, p2)"
    and 3: "parseTypeSpec f p2 = Inr (t, p3)" and 4: "expect f TokSemicolon p3 = Inr (semi, p4)"
    and p': "p' = p4\<lparr>pa_decls := pa_decls p4 @ [TypeDecl [] (tk_span kw) i t (tk_span semi)]\<rparr>"
    by (auto simp: parseTypeDecl_def split: sum.splits)
  from expect_sound [OF 1 assms(2)] obtain ts1 where t1: "map canon ts = tok_of TokType (tk_span kw) # map canon ts1"
    "ready f ts1 e cs p1" "pa_decls p1 = pa_decls p" by (auto elim: consumesE)
  from expectIdent_sound [OF 2 t1(2)] obtain ts2 where t2: "map canon ts1 = ident_tok i # map canon ts2"
    "ready f ts2 e cs p2" "pa_decls p2 = pa_decls p1" by (auto elim: consumesE)
  from parseTypeSpec_run [OF 3 t2(2)] type_run_sound obtain ts3 where
    t3: "map canon ts2 = type_toks t @ map canon ts3" "bare_type t" "ready f ts3 e cs p3" "pa_decls p3 = pa_decls p2"
    by metis
  from expect_sound [OF 4 t3(3)] obtain ts4 where t4: "map canon ts3 = tok_of TokSemicolon (tk_span semi) # map canon ts4"
    "ready f ts4 e cs p4" "pa_decls p4 = pa_decls p3" by (auto elim: consumesE)
  with t1 t2 t3 p' show ?thesis
    by (auto simp: declares_def intro!: exI [of _ "TypeDecl [] (tk_span kw) i t (tk_span semi)"] exI [of _ ts4])
qed

lemma parseExceptionDecl_sound:
  assumes "parseExceptionDecl f p = Inr ((), p')" "ready f ts e cs p"
  shows "declares f ts e cs p p'"
proof -
  from assms(1) obtain kw p1 i p2 t p3 semi p4 where
    1: "expect f TokException p = Inr (kw, p1)" and 2: "expectIdent f p1 = Inr (i, p2)"
    and 3: "parseOptType f p2 = Inr (t, p3)" and 4: "expect f TokSemicolon p3 = Inr (semi, p4)"
    and p': "p' = p4\<lparr>pa_decls := pa_decls p4 @ [ExceptionDecl [] (tk_span kw) i t (tk_span semi)]\<rparr>"
    by (auto simp: parseExceptionDecl_def split: sum.splits)
  from expect_sound [OF 1 assms(2)] obtain ts1 where t1: "map canon ts = tok_of TokException (tk_span kw) # map canon ts1"
    "ready f ts1 e cs p1" "pa_decls p1 = pa_decls p" by (auto elim: consumesE)
  from expectIdent_sound [OF 2 t1(2)] obtain ts2 where t2: "map canon ts1 = ident_tok i # map canon ts2"
    "ready f ts2 e cs p2" "pa_decls p2 = pa_decls p1" by (auto elim: consumesE)
  from parseOptType_sound [OF 3 t2(2)] obtain ts3 where
    t3: "map canon ts2 = opt_toks t @ map canon ts3" "pred_option bare_type t" "ready f ts3 e cs p3" "pa_decls p3 = pa_decls p2"
    by (auto elim: consumesE)
  from expect_sound [OF 4 t3(3)] obtain ts4 where t4: "map canon ts3 = tok_of TokSemicolon (tk_span semi) # map canon ts4"
    "ready f ts4 e cs p4" "pa_decls p4 = pa_decls p3" by (auto elim: consumesE)
  with t1 t2 t3 p' show ?thesis
    by (auto simp: declares_def intro!: exI [of _ "ExceptionDecl [] (tk_span kw) i t (tk_span semi)"] exI [of _ ts4])
qed

lemma parseProcDecl_sound:
  assumes "parseProcDecl f p = Inr ((), p')" "ready f ts e cs p"
  shows "declares f ts e cs p p'"
proof -
  from assms(1) obtain kw p1 i p2 lb p3 qs p4 rb p5 t p6 semi p7 where
    1: "expect f TokProcedure p = Inr (kw, p1)" and 2: "expectIdent f p1 = Inr (i, p2)"
    and 3: "expect f TokLBrace p2 = Inr (lb, p3)" and 4: "parseParams f [] p3 = Inr (qs, p4)"
    and 5: "expect f TokRBrace p4 = Inr (rb, p5)" and 6: "parseOptType f p5 = Inr (t, p6)"
    and 7: "expect f TokSemicolon p6 = Inr (semi, p7)"
    and p': "p' = p7\<lparr>pa_decls := pa_decls p7 @
      [ProcDecl [] (tk_span kw) i (tk_span lb) qs (tk_span rb) t (tk_span semi)]\<rparr>"
    by (auto simp: parseProcDecl_def split: sum.splits)
  from expect_sound [OF 1 assms(2)] obtain ts1 where t1: "map canon ts = tok_of TokProcedure (tk_span kw) # map canon ts1"
    "ready f ts1 e cs p1" "pa_decls p1 = pa_decls p" by (auto elim: consumesE)
  from expectIdent_sound [OF 2 t1(2)] obtain ts2 where t2: "map canon ts1 = ident_tok i # map canon ts2"
    "ready f ts2 e cs p2" "pa_decls p2 = pa_decls p1" by (auto elim: consumesE)
  from expect_sound [OF 3 t2(2)] obtain ts3 where t3: "map canon ts2 = tok_of TokLBrace (tk_span lb) # map canon ts3"
    "ready f ts3 e cs p3" "pa_decls p3 = pa_decls p2" by (auto elim: consumesE)
  from parseParams_sound [OF 4 t3(2)] obtain ts4 where
    t4: "map canon ts3 = concat (map param_toks qs) @ map canon ts4" "list_all bare_param qs"
    "ready f ts4 e cs p4" "pa_decls p4 = pa_decls p3" by (auto elim: consumesE)
  from expect_sound [OF 5 t4(3)] obtain ts5 where t5: "map canon ts4 = tok_of TokRBrace (tk_span rb) # map canon ts5"
    "ready f ts5 e cs p5" "pa_decls p5 = pa_decls p4" by (auto elim: consumesE)
  from parseOptType_sound [OF 6 t5(2)] obtain ts6 where
    t6: "map canon ts5 = opt_toks t @ map canon ts6" "pred_option bare_type t" "ready f ts6 e cs p6" "pa_decls p6 = pa_decls p5"
    by (auto elim: consumesE)
  from expect_sound [OF 7 t6(3)] obtain ts7 where t7: "map canon ts6 = tok_of TokSemicolon (tk_span semi) # map canon ts7"
    "ready f ts7 e cs p7" "pa_decls p7 = pa_decls p6" by (auto elim: consumesE)
  let ?d = "ProcDecl [] (tk_span kw) i (tk_span lb) qs (tk_span rb) t (tk_span semi)"
  have "map canon ts = decl_toks ?d @ map canon ts7"
    using t1(1) t2(1) t3(1) t4(1) t5(1) t6(1) t7(1) by simp
  moreover have "pa_decls p' = pa_decls p @ [?d]"
    using p' t1(3) t2(3) t3(3) t4(4) t5(3) t6(4) t7(3) by simp
  moreover have "ready f ts7 e cs p'" "bare_decl ?d" using p' t7(2) t4(2) t6(2) by simp_all
  ultimately show ?thesis unfolding declares_def by blast
qed

lemma parseDecl_sound:
  assumes "parseDecl f p = Inr ((), p')" "ready f ts e cs p"
  shows "declares f ts e cs p p'"
  using assms
  by (auto simp: parseDecl_def Let_def split: option.splits if_splits
      intro: parseTypeDecl_sound parseExceptionDecl_sound parseProcDecl_sound)

lemma parseDecl_shorter:
  assumes "parseDecl f p = Inr (u, p')"
  shows "length (fst (stream f p')) < length (fst (stream f p))"
proof -
  have none: "pa_err p = None" using assms by (auto simp: parseDecl_def split: option.splits)
  from assms have "parseDecl f p = Inr ((), p')" by simp
  from parseDecl_sound [OF this ready_pending [OF none]] obtain d ts' where
    c: "map canon (fst (stream f p)) = decl_toks d @ map canon ts'" and r: "fst (stream f p') = ts'"
    by (auto simp: declares_def ready_def)
  from arg_cong [OF c, of length] have "length (fst (stream f p)) = length (decl_toks d) + length ts'" by simp
  moreover have "0 < length (decl_toks d)" by (cases d) auto
  ultimately show ?thesis using r by simp
qed

function parseDecls :: "'a source_scheme \<Rightarrow> parser \<Rightarrow> unit parse" where
  "parseDecls f p =
     (if tk_kind (pa_tok p) = TokEOF then Inr ((), p)
      else (case parseDecl f p of Inl e \<Rightarrow> Inl e | Inr (u, p') \<Rightarrow> parseDecls f p'))"
  by pat_completeness auto
termination
  by (relation "measure (\<lambda>(f, p). length (fst (stream f p)))") (auto intro: parseDecl_shorter)

declare parseDecls.simps [simp del]

definition newParser :: parser where
  "newParser = \<lparr>pa_scan = NewScanner, pa_tok = Token TokInvalid 0 0 [], pa_err = None,
     pa_comments = [], pa_decls = []\<rparr>"

definition Parse :: "string \<Rightarrow> string \<Rightarrow> syntax_error + ifile" where
  "Parse filename src =
     (let f = NewFile filename src in
      case parseDecls f (p_next f newParser) of
        Inl e \<Rightarrow> Inl e
      | Inr (u, p) \<Rightarrow>
          (case pa_err p of
             Some e \<Rightarrow> Inl e
           | None \<Rightarrow> Inr \<lparr>so_name = so_name f, so_size = so_size f, so_src = so_src f, so_lines = so_lines f,
                        fi_decls = pa_decls p, fi_comments = pa_comments p\<rparr>))"

end
