(* ===== verification/Grammar.thy ===== *)
theory Grammar
  imports Parser
begin

text \<open>
  The parser accepts exactly the grammar. A syntax tree that the grammar writes as the
  tokens ahead is what the frame-stack parser builds (completeness); with the conservation
  of tokens proved in \<open>Parser\<close> this characterises \<open>Parse\<close>.
\<close>

section \<open>Types\<close>

lemma identOf_ident_tok [simp]: "identOf (ident_tok i) = i"
  by (simp add: identOf_def)

definition reaches ::
  "'a source_scheme \<Rightarrow> token list \<Rightarrow> syntax_error option \<Rightarrow> comment list \<Rightarrow> parser \<Rightarrow> parser \<Rightarrow> bool" where
  "reaches f ts e cs p p' \<longleftrightarrow> ready f ts e cs p' \<and> pa_decls p' = pa_decls p"

lemma reaches_next: "ready f (t # ts) e cs p \<Longrightarrow> reaches f ts e cs p (p_next f p)"
  by (simp add: reaches_def ready_next)

lemma reaches_trans: "reaches f ts e cs p p' \<Longrightarrow> reaches f us e cs p' p'' \<Longrightarrow> reaches f us e cs p p''"
  by (simp add: reaches_def)

lemma fields_complete:
  assumes field: "\<And>fld gs ts p. fld \<in> set fs \<Longrightarrow> ready f (field_toks fld @ ts) e cs p \<Longrightarrow> ts \<noteq> [] \<Longrightarrow>
     \<exists>p'. typeLoop f (FrameRecord rs lb gs # st) None p = typeLoop f (FrameRecord rs lb (gs @ [fld]) # st) None p'
        \<and> reaches f ts e cs p p'"
    and "ready f (concat (map field_toks fs) @ ts) e cs p" and "ts \<noteq> []"
  shows "\<exists>p'. typeLoop f (FrameRecord rs lb gs # st) None p = typeLoop f (FrameRecord rs lb (gs @ fs) # st) None p'
        \<and> reaches f ts e cs p p'"
  using assms
proof (induction fs arbitrary: gs p)
  case Nil
  then show ?case by (auto simp: reaches_def)
next
  case (Cons fld fs)
  from Cons.prems(1) [of fld "concat (map field_toks fs) @ ts" p gs] Cons.prems(2,3) obtain p1 where
    1: "typeLoop f (FrameRecord rs lb gs # st) None p = typeLoop f (FrameRecord rs lb (gs @ [fld]) # st) None p1"
    "reaches f (concat (map field_toks fs) @ ts) e cs p p1" by auto
  from Cons.IH [of p1 "gs @ [fld]"] Cons.prems(1,3) 1(2) obtain p2 where
    "typeLoop f (FrameRecord rs lb (gs @ [fld]) # st) None p1 = typeLoop f (FrameRecord rs lb (gs @ fld # fs) # st) None p2"
    "reaches f ts e cs p1 p2" by (auto simp: reaches_def)
  with 1 show ?case by (auto intro: reaches_trans)
qed

lemma type_complete:
  fixes t :: TypeExpr and fld :: Field
  shows "bare_type t \<Longrightarrow> ready f (type_toks t @ ts) e cs p \<Longrightarrow> awaits st \<Longrightarrow> ts \<noteq> [] \<or> e = None \<Longrightarrow>
     \<exists>p'. typeLoop f st None p = typeLoop f st (Some t) p' \<and> reaches f ts e cs p p'"
    and "bare_field fld \<Longrightarrow> ready f (field_toks fld @ ts) e cs p \<Longrightarrow> ts \<noteq> [] \<or> e = None \<Longrightarrow>
     \<exists>p'. typeLoop f (FrameRecord rs lb gs # st) None p = typeLoop f (FrameRecord rs lb (gs @ [fld]) # st) None p'
        \<and> reaches f ts e cs p p'"
proof (induction t and fld arbitrary: ts p st and ts p st rs lb gs rule: type_toks_field_toks.induct)
  case (1 d k sp)
  then show ?case using typeLoop_prim [of f "tok_of k sp" ts e cs p st] by (auto intro: reaches_next)
next
  case (2 d i)
  then show ?case using typeLoop_named [of f "ident_tok i" ts e cs p st] by (auto intro: reaches_next)
next
  case (3 d ls t)
  let ?p = "p_next f p"
  from 3 have r: "reaches f (type_toks t @ ts) e cs p ?p" by (auto intro: reaches_next)
  with "3.IH" [of ts ?p "FrameElem ls # st"] "3.prems" obtain p' where
    p': "typeLoop f (FrameElem ls # st) None ?p = typeLoop f (FrameElem ls # st) (Some t) p'"
    "reaches f ts e cs ?p p'" by (auto simp: reaches_def)
  have "pa_err p' = None" using ready_err p'(2) "3.prems"(4) by (fastforce simp: reaches_def)
  with p' "3.prems" r typeLoop_list [of f "tok_of TokList ls" "type_toks t @ ts" e cs p st]
  show ?case by (auto simp: typeLoop_elem intro: reaches_trans)
next
  case (4 d rs lb fs rb)
  let ?body = "concat (map field_toks fs) @ tok_of TokRBrace rb # ts"
  let ?p = "p_next f (p_next f p)"
  from "4.prems" have rd: "ready f (tok_of TokRecord rs # tok_of TokLBrace lb # ?body) e cs p" by simp
  have r: "reaches f ?body e cs p ?p" using reaches_next [OF rd] rd
    by (auto simp: reaches_def intro: ready_next)
  have "bare_field fld" if "fld \<in> set fs" for fld using that "4.prems"(1) by (auto simp: list_all_iff)
  then obtain p' where p': "typeLoop f (FrameRecord rs lb [] # st) None ?p = typeLoop f (FrameRecord rs lb fs # st) None p'"
    "reaches f (tok_of TokRBrace rb # ts) e cs ?p p'"
    using fields_complete [of fs f e cs rs lb st "tok_of TokRBrace rb # ts" ?p "[]"] "4.IH" r
    by (auto simp: reaches_def)
  with typeLoop_close [of f "tok_of TokRBrace rb" ts e cs p' rs lb fs st None]
    typeLoop_record [OF rd, of st] "4.prems"
  have "typeLoop f st None p = typeLoop f st (Some (RecordType d rs lb fs rb)) (p_next f p')"
    by (auto simp: reaches_def)
  moreover have "reaches f ts e cs p (p_next f p')"
    using p'(2) r by (auto simp: reaches_def intro: ready_next)
  ultimately show ?case by blast
next
  case (5 d i t semi)
  let ?p = "p_next f p"
  let ?st = "FrameField i # FrameRecord rs lb gs # st"
  from "5.prems" have rd: "ready f (ident_tok i # type_toks t @ tok_of TokSemicolon semi # ts) e cs p" by simp
  have r: "reaches f (type_toks t @ tok_of TokSemicolon semi # ts) e cs p ?p" using reaches_next [OF rd] .
  from "5.IH" [of "tok_of TokSemicolon semi # ts" ?p ?st] "5.prems"(1) r obtain p' where
    p': "typeLoop f ?st None ?p = typeLoop f ?st (Some t) p'" "reaches f (tok_of TokSemicolon semi # ts) e cs ?p p'"
    by (auto simp: reaches_def)
  with typeLoop_name [OF rd, of rs lb gs st None] typeLoop_field [of f "tok_of TokSemicolon semi" ts e cs p' i _ t]
    "5.prems"(1)
  have "typeLoop f (FrameRecord rs lb gs # st) None p
      = typeLoop f (FrameRecord rs lb (gs @ [Field d i t semi]) # st) None (p_next f p')"
    by (auto simp: reaches_def)
  moreover have "reaches f ts e cs p (p_next f p')"
    using p'(2) r by (auto simp: reaches_def intro: ready_next)
  ultimately show ?case by blast
qed

lemma reachesI: "ready f ts e cs p \<Longrightarrow> reaches f ts e cs p p"
  by (simp add: reaches_def)

lemma parseTypeSpec_complete:
  assumes "bare_type t" "reaches f (type_toks t @ ts) e cs p0 p" "ts \<noteq> []"
  shows "\<exists>p'. parseTypeSpec f p = Inr (t, p') \<and> reaches f ts e cs p0 p'"
proof -
  from type_complete(1) [OF assms(1), of f ts e cs p "[]"] assms(2,3) obtain p' where
    p': "typeLoop f [] None p = typeLoop f [] (Some t) p'" "reaches f ts e cs p p'" by (auto simp: reaches_def)
  have "pa_err p' = None" using ready_err p'(2) assms(3) by (fastforce simp: reaches_def)
  with p' assms(2) show ?thesis by (auto simp: parseTypeSpec_def typeLoop_done intro: reaches_trans)
qed

lemma type_toks_hd: "bare_type t \<Longrightarrow> \<exists>x xs. type_toks t = x # xs \<and> tk_kind x \<noteq> TokSemicolon"
  by (cases t) (auto simp: primKinds_def)

lemma parseOptType_complete:
  assumes "pred_option bare_type t" "reaches f (opt_toks t @ tok_of TokSemicolon semi # ts) e cs p0 p"
  shows "\<exists>p'. parseOptType f p = Inr (t, p') \<and> reaches f (tok_of TokSemicolon semi # ts) e cs p0 p'"
proof (cases t)
  case None
  with assms(2) have r: "reaches f (tok_of TokSemicolon semi # ts) e cs p0 p" by (simp add: opt_toks_def)
  then have "tk_kind (pa_tok p) = TokSemicolon" using ready_tok by (fastforce simp: reaches_def)
  with r None show ?thesis by (simp add: parseOptType_def)
next
  case (Some t')
  with assms have rd: "reaches f (type_toks t' @ tok_of TokSemicolon semi # ts) e cs p0 p" and b: "bare_type t'"
    by (simp_all add: opt_toks_def)
  then have "tk_kind (pa_tok p) \<noteq> TokSemicolon"
    using type_toks_hd [OF b] ready_tok by (fastforce simp: reaches_def)
  with parseTypeSpec_complete [OF b rd] Some show ?thesis by (auto simp: parseOptType_def)
qed

lemma expect_complete:
  assumes "reaches f (tok_of k sp # ts) e cs p0 p"
  shows "expect f k p = Inr (tok_of k sp, p_next f p)" and "reaches f ts e cs p0 (p_next f p)"
  using assms expect_next [of f "tok_of k sp" ts e cs p] by (auto simp: reaches_def intro: ready_next)

lemma expectIdent_complete:
  assumes "reaches f (ident_tok i # ts) e cs p0 p"
  shows "expectIdent f p = Inr (i, p_next f p)" and "reaches f ts e cs p0 (p_next f p)"
  using assms expectIdent_next [of f "ident_tok i" ts e cs p] by (auto simp: reaches_def intro: ready_next)

section \<open>Declarations\<close>

lemma parseParam_complete:
  assumes "bare_param q" "reaches f (param_toks q @ ts) e cs p0 p"
  shows "\<exists>p'. parseParam f p = Inr (q, p') \<and> reaches f ts e cs p0 p'"
proof -
  obtain d i t semi where q: "q = Param d i t semi" by (cases q)
  with assms have b: "d = []" "bare_type t"
    and r: "reaches f (ident_tok i # type_toks t @ tok_of TokSemicolon semi # ts) e cs p0 p" by simp_all
  have none: "pa_err p = None" using r ready_err by (fastforce simp: reaches_def)
  note 1 = expectIdent_complete [OF r]
  from parseTypeSpec_complete [OF b(2) 1(2)] obtain p2 where
    2: "parseTypeSpec f (p_next f p) = Inr (t, p2)" "reaches f (tok_of TokSemicolon semi # ts) e cs p0 p2" by blast
  note 3 = expect_complete [OF 2(2)]
  have "parseParam f p = Inr (q, p_next f p2)"
    using 1(1) 2(1) 3(1) q b none by (simp add: parseParam_def)
  with 3(2) show ?thesis by blast
qed

lemma parseParams_complete:
  assumes "list_all bare_param qs" "reaches f (concat (map param_toks qs) @ tok_of TokRBrace rb # ts) e cs p0 p"
  shows "\<exists>p'. parseParams f acc p = Inr (acc @ qs, p') \<and> reaches f (tok_of TokRBrace rb # ts) e cs p0 p'"
  using assms
proof (induction qs arbitrary: acc p)
  case Nil
  then have "tk_kind (pa_tok p) = TokRBrace" using ready_tok by (fastforce simp: reaches_def)
  with Nil show ?case by (simp add: parseParams.simps [of f acc p])
next
  case (Cons q qs)
  let ?ts = "concat (map param_toks qs) @ tok_of TokRBrace rb # ts"
  from Cons.prems have r: "reaches f (param_toks q @ ?ts) e cs p0 p" and b: "bare_param q" by simp_all
  from parseParam_complete [OF b r] obtain p1 where
    1: "parseParam f p = Inr (q, p1)" "reaches f ?ts e cs p0 p1" by blast
  from Cons.IH [OF _ 1(2), of "acc @ [q]"] Cons.prems(1) obtain p2 where
    2: "parseParams f (acc @ [q]) p1 = Inr (acc @ q # qs, p2)" "reaches f (tok_of TokRBrace rb # ts) e cs p0 p2"
    by auto
  obtain d i t semi where q: "q = Param d i t semi" by (cases q)
  have "pa_err p = None" "tk_kind (pa_tok p) = TokIdent"
    using r ready_err ready_tok q by (fastforce simp: reaches_def)+
  with 1(1) 2(1) have "parseParams f acc p = Inr (acc @ q # qs, p2)"
    by (simp add: parseParams.simps [of f acc p])
  with 2(2) show ?case by blast
qed

definition adds ::
  "'a source_scheme \<Rightarrow> token list \<Rightarrow> syntax_error option \<Rightarrow> comment list \<Rightarrow> Decl \<Rightarrow> parser \<Rightarrow> unit parse \<Rightarrow> bool" where
  "adds f ts e cs d p r \<longleftrightarrow>
     (\<exists>p'. r = Inr ((), p') \<and> ready f ts e cs p' \<and> pa_decls p' = pa_decls p @ [d])"

lemma parseTypeDecl_complete:
  assumes "d = TypeDecl [] kw i t semi" "bare_type t" "ready f (decl_toks d @ ts) e cs p"
  shows "adds f ts e cs d p (parseTypeDecl f p)"
proof -
  from assms have "reaches f (tok_of TokType kw # ident_tok i # type_toks t @ tok_of TokSemicolon semi # ts) e cs p p"
    by (simp add: reachesI)
  note 1 = expect_complete [OF this]
  note 2 = expectIdent_complete [OF 1(2)]
  from parseTypeSpec_complete [OF assms(2) 2(2)] obtain p3 where
    3: "parseTypeSpec f (p_next f (p_next f p)) = Inr (t, p3)" "reaches f (tok_of TokSemicolon semi # ts) e cs p p3"
    by blast
  note 4 = expect_complete [OF 3(2)]
  from 1(1) 2(1) 3(1) 4 assms(1) show ?thesis by (simp add: adds_def parseTypeDecl_def reaches_def)
qed

lemma parseExceptionDecl_complete:
  assumes "d = ExceptionDecl [] kw i t semi" "pred_option bare_type t" "ready f (decl_toks d @ ts) e cs p"
  shows "adds f ts e cs d p (parseExceptionDecl f p)"
proof -
  from assms have "reaches f (tok_of TokException kw # ident_tok i # opt_toks t @ tok_of TokSemicolon semi # ts) e cs p p"
    by (simp add: reachesI)
  note 1 = expect_complete [OF this]
  note 2 = expectIdent_complete [OF 1(2)]
  from parseOptType_complete [OF assms(2) 2(2)] obtain p3 where
    3: "parseOptType f (p_next f (p_next f p)) = Inr (t, p3)" "reaches f (tok_of TokSemicolon semi # ts) e cs p p3"
    by blast
  note 4 = expect_complete [OF 3(2)]
  from 1(1) 2(1) 3(1) 4 assms(1) show ?thesis by (simp add: adds_def parseExceptionDecl_def reaches_def)
qed

lemma parseProcDecl_complete:
  assumes "d = ProcDecl [] kw i lb qs rb t semi" "list_all bare_param qs" "pred_option bare_type t"
    and "ready f (decl_toks d @ ts) e cs p"
  shows "adds f ts e cs d p (parseProcDecl f p)"
proof -
  let ?ts3 = "opt_toks t @ tok_of TokSemicolon semi # ts"
  let ?ts2 = "concat (map param_toks qs) @ tok_of TokRBrace rb # ?ts3"
  let ?p2 = "p_next f (p_next f p)"
  from assms have "reaches f (tok_of TokProcedure kw # ident_tok i # tok_of TokLBrace lb # ?ts2) e cs p p"
    by (simp add: reachesI)
  note 1 = expect_complete [OF this]
  note 2 = expectIdent_complete [OF 1(2)]
  note 3 = expect_complete [OF 2(2)]
  from parseParams_complete [OF assms(2) 3(2), of "[]"] obtain p4 where
    4: "parseParams f [] (p_next f ?p2) = Inr (qs, p4)" "reaches f (tok_of TokRBrace rb # ?ts3) e cs p p4" by auto
  note 5 = expect_complete [OF 4(2)]
  from parseOptType_complete [OF assms(3) 5(2)] obtain p6 where
    6: "parseOptType f (p_next f p4) = Inr (t, p6)" "reaches f (tok_of TokSemicolon semi # ts) e cs p p6" by blast
  note 7 = expect_complete [OF 6(2)]
  from 1(1) 2(1) 3(1) 4(1) 5(1) 6(1) 7 assms(1) show ?thesis by (simp add: adds_def parseProcDecl_def reaches_def)
qed

lemma parseDecl_complete:
  assumes "bare_decl d" "ready f (decl_toks d @ ts) e cs p"
  shows "adds f ts e cs d p (parseDecl f p)"
proof (cases d)
  case (TypeDecl dc kw i t semi)
  with assms parseTypeDecl_complete [of d kw i t semi] ready_err [OF assms(2)] ready_tok [OF assms(2)]
  show ?thesis by (simp add: parseDecl_def)
next
  case (ExceptionDecl dc kw i t semi)
  with assms parseExceptionDecl_complete [of d kw i t semi] ready_err [OF assms(2)] ready_tok [OF assms(2)]
  show ?thesis by (simp add: parseDecl_def)
next
  case (ProcDecl dc kw i lb qs rb t semi)
  with assms parseProcDecl_complete [of d kw i lb qs rb t semi] ready_err [OF assms(2)] ready_tok [OF assms(2)]
  show ?thesis by (simp add: parseDecl_def)
qed

section \<open>Files\<close>

lemma parseDecls_complete:
  assumes "list_all bare_decl ds" "ready f (concat (map decl_toks ds)) None cs p"
  shows "\<exists>p'. parseDecls f p = Inr ((), p') \<and> ready f [] None cs p' \<and> pa_decls p' = pa_decls p @ ds"
  using assms
proof (induction ds arbitrary: p)
  case Nil
  then show ?case using ready_tok [of f "[]" None cs p] by (simp add: parseDecls.simps [of f p])
next
  case (Cons d ds)
  from Cons.prems have rd: "ready f (decl_toks d @ concat (map decl_toks ds)) None cs p" and b: "bare_decl d" by simp_all
  from parseDecl_complete [OF b rd] obtain p1 where
    1: "parseDecl f p = Inr ((), p1)" "ready f (concat (map decl_toks ds)) None cs p1" "pa_decls p1 = pa_decls p @ [d]"
    by (auto simp: adds_def)
  have "tk_kind (pa_tok p) \<noteq> TokEOF" using ready_tok [OF rd] by (cases d) simp_all
  with Cons.IH [OF _ 1(2)] Cons.prems(1) 1 show ?case by (auto simp: parseDecls.simps [of f p])
qed

lemma parseDecls_sound:
  "parseDecls f p = Inr (u, p') \<Longrightarrow> ready f ts e cs p \<Longrightarrow>
     \<exists>ds. map canon ts = concat (map decl_toks ds) \<and> ready f [] e cs p' \<and> pa_decls p' = pa_decls p @ ds
       \<and> list_all bare_decl ds"
proof (induction f p arbitrary: ts rule: parseDecls.induct)
  case (1 f p)
  show ?case
  proof (cases "tk_kind (pa_tok p) = TokEOF")
    case True
    then have "ts = []" using "1.prems"(2) by (simp add: ready_def stream_def)
    with True "1.prems" show ?thesis by (simp add: parseDecls.simps [of f p])
  next
    case False
    with "1.prems"(1) obtain u1 p1 where 1: "parseDecl f p = Inr (u1, p1)" "parseDecls f p1 = Inr (u, p')"
      by (auto simp: parseDecls.simps [of f p] split: sum.splits)
    from parseDecl_sound [OF _ "1.prems"(2), of p1] 1(1) obtain d ts1 where
      d: "map canon ts = decl_toks d @ map canon ts1" "ready f ts1 e cs p1" "pa_decls p1 = pa_decls p @ [d]" "bare_decl d"
      by (auto simp: declares_def)
    from "1.IH" [OF False 1(1) refl 1(2) d(2)] obtain ds where
      "map canon ts1 = concat (map decl_toks ds)" "ready f [] e cs p'" "pa_decls p' = pa_decls p1 @ ds" "list_all bare_decl ds"
      by blast
    with d show ?thesis by (auto intro!: exI [of _ "d # ds"])
  qed
qed

lemma canon_wf: "wf_token t \<Longrightarrow> \<not> isComment t \<Longrightarrow> tk_kind t \<noteq> TokEOF \<Longrightarrow> canon t = t"
  by (cases t; cases "tk_kind t") (auto simp: wf_token_def canon_def tok_of_def isComment_def)

text \<open>The grammar tokens and the comments of a file.\<close>

definition codeTokens :: "string \<Rightarrow> string \<Rightarrow> token list" where
  "codeTokens name src = filter (\<lambda>t. \<not> isComment t) (fst (scanAll (NewFile name src) NewScanner))"

definition fileComments :: "string \<Rightarrow> string \<Rightarrow> comment list" where
  "fileComments name src = map commentOf (filter isComment (fst (scanAll (NewFile name src) NewScanner)))"

lemma canon_codeTokens: "map canon (codeTokens name src) = codeTokens name src"
proof -
  let ?f = "NewFile name src"
  obtain ts e where run: "scanAll ?f NewScanner = (ts, e)" by fastforce
  have "in_range ?f NewScanner" by (simp add: in_range_def NewScanner_def)
  from scanAll_laid_out [OF this run] have "list_all wf_token ts" "list_all (\<lambda>t. tk_kind t \<noteq> TokEOF) ts" by blast+
  then have "canon t = t" if "t \<in> set (codeTokens name src)" for t
    using that run by (auto simp: codeTokens_def list_all_iff intro!: canon_wf)
  then show ?thesis by (simp add: map_idI)
qed

lemma ready_start:
  "ready (NewFile name src) (codeTokens name src) (snd (scanAll (NewFile name src) NewScanner)) (fileComments name src)
     (p_next (NewFile name src) newParser)"
  using stream_p_next [of newParser "NewFile name src"] p_next_err [of newParser "NewFile name src"]
  by (auto simp: ready_def newParser_def scan_view_def codeTokens_def fileComments_def split: prod.splits)

lemma ready_end: "ready f [] e cs p \<Longrightarrow> pa_err p = e \<and> pa_comments p = cs"
  by (auto simp: ready_def stream_def split: if_splits prod.splits)

lemma Parse_grammar:
  "Parse name src = Inr fl \<longleftrightarrow>
     snd (scanAll (NewFile name src) NewScanner) = None
     \<and> codeTokens name src = concat (map decl_toks (fi_decls fl))
     \<and> list_all bare_decl (fi_decls fl)
     \<and> fi_comments fl = fileComments name src
     \<and> source.truncate fl = NewFile name src"
proof -
  let ?f = "NewFile name src"
  let ?e = "snd (scanAll ?f NewScanner)"
  let ?p = "p_next ?f newParser"
  note rd = ready_start [of name src]
  have decls0: "pa_decls ?p = []" by (simp add: newParser_def)
  have fl: "fl = \<lparr>so_name = so_name ?f, so_size = so_size ?f, so_src = so_src ?f, so_lines = so_lines ?f,
       fi_decls = fi_decls fl, fi_comments = fi_comments fl\<rparr> \<longleftrightarrow> source.truncate fl = ?f"
    by (cases fl) (auto simp: source.truncate_def NewFile_def)
  show ?thesis
  proof
    assume "Parse name src = Inr fl"
    then obtain u p' where p': "parseDecls ?f ?p = Inr (u, p')" "pa_err p' = None"
      and v: "fl = \<lparr>so_name = so_name ?f, so_size = so_size ?f, so_src = so_src ?f, so_lines = so_lines ?f,
                fi_decls = pa_decls p', fi_comments = pa_comments p'\<rparr>"
      by (auto simp: Parse_def Let_def split: sum.splits option.splits)
    from parseDecls_sound [OF p'(1) rd] decls0 obtain ds where
      "codeTokens name src = concat (map decl_toks ds)" "ready ?f [] ?e (fileComments name src) p'"
      "pa_decls p' = ds" "list_all bare_decl ds" by (auto simp: canon_codeTokens)
    with v p'(2) fl ready_end show "?e = None \<and> codeTokens name src = concat (map decl_toks (fi_decls fl))
       \<and> list_all bare_decl (fi_decls fl) \<and> fi_comments fl = fileComments name src \<and> source.truncate fl = ?f"
      by fastforce
  next
    assume a: "?e = None \<and> codeTokens name src = concat (map decl_toks (fi_decls fl))
       \<and> list_all bare_decl (fi_decls fl) \<and> fi_comments fl = fileComments name src \<and> source.truncate fl = ?f"
    with rd parseDecls_complete [of "fi_decls fl" ?f "fileComments name src" ?p] decls0 obtain p' where
      "parseDecls ?f ?p = Inr ((), p')" "ready ?f [] None (fileComments name src) p'" "pa_decls p' = fi_decls fl" by auto
    with a fl ready_end show "Parse name src = Inr fl" by (fastforce simp: Parse_def Let_def)
  qed
qed

text \<open>The text of a token laid out in a string, and the identifiers of a parsed file.\<close>

lemma laid_out_text:
  "laid_out off s ts rest \<Longrightarrow> t \<in> set ts \<Longrightarrow>
   off \<le> sp_start (tk_span t) \<and> sp_start (tk_span t) \<le> sp_end (tk_span t)
   \<and> sp_end (tk_span t) \<le> off + length s
   \<and> take (sp_end (tk_span t) - sp_start (tk_span t)) (drop (sp_start (tk_span t) - off) s) = lexeme t"
proof (induction off s ts rest rule: laid_out.induct)
  case (2 off s u ts rest)
  then obtain sp s' where l: "s = sp @ lexeme u @ s'"
    "tk_span u = Span (off + length sp) (off + length sp + length (lexeme u))"
    "laid_out (off + length sp + length (lexeme u)) s' ts rest" by auto
  show ?case
  proof (cases "t = u")
    case True
    with l show ?thesis by simp
  next
    case False
    let ?o = "off + length sp + length (lexeme u)"
    from False "2.prems"(2) have "t \<in> set ts" by simp
    with "2.IH" l(3) have ih: "?o \<le> sp_start (tk_span t)" "sp_start (tk_span t) \<le> sp_end (tk_span t)"
      "sp_end (tk_span t) \<le> ?o + length s'"
      "take (sp_end (tk_span t) - sp_start (tk_span t)) (drop (sp_start (tk_span t) - ?o) s') = lexeme t"
      by blast+
    from ih(1) have "drop (sp_start (tk_span t) - off) s = drop (sp_start (tk_span t) - ?o) s'"
      using l(1) by simp
    with ih l(1) show ?thesis by simp
  qed
qed simp

lemma codeTokens_text:
  assumes "t \<in> set (codeTokens name src)"
  shows "sp_start (tk_span t) \<le> sp_end (tk_span t) \<and> sp_end (tk_span t) \<le> length src
    \<and> Text (NewFile name src) (tk_span t) = Some (lexeme t) \<and> wf_token t"
proof -
  obtain ts e where run: "scanAll (NewFile name src) NewScanner = (ts, e)" by fastforce
  have start: "in_range (NewFile name src) NewScanner" by (simp add: in_range_def NewScanner_def)
  from scanAll_laid_out [OF start run] obtain rest where
    l: "laid_out 0 src ts rest" "list_all wf_token ts"
    by (auto simp: NewScanner_def rest_of_def NewFile_def)
  from assms run have "t \<in> set ts" by (simp add: codeTokens_def)
  with laid_out_text [OF l(1) this] l(2) show ?thesis
    by (auto simp: Text_def NewFile_def list_all_iff)
qed

text \<open>
  C3. \<open>Parse\<close> accepts exactly the grammar: it returns a file precisely when the scanner
  reports no error and the tokens that are not comments are the declarations of that file
  written out in the grammar, every declaration with empty documentation, and then the
  file holds exactly these declarations with their exact spans, every comment of the
  source in order, and the source itself. The tree is thus unique, and every nesting of
  types is accepted.
\<close>

theorem Parse_exactly_the_grammar:
  "Parse name src = Inr fl \<longleftrightarrow>
     snd (scanAll (NewFile name src) NewScanner) = None
     \<and> codeTokens name src = concat (map decl_toks (fi_decls fl))
     \<and> list_all bare_decl (fi_decls fl)
     \<and> fi_comments fl = fileComments name src
     \<and> source.truncate fl = NewFile name src"
  by (rule Parse_grammar)

end
