(* ===== verification/Parse_Errors.thy ===== *)
theory Parse_Errors
  imports Grammar
begin

text \<open>
  Diagnostics of the parser: every error value, from the scanner or the parser, is at a
  byte range of the input and carries the position of its first byte.
\<close>

definition located :: "'a source_scheme \<Rightarrow> syntax_error \<Rightarrow> bool" where
  "located f e \<longleftrightarrow> sp_start (er_span e) \<le> sp_end (er_span e) \<and> sp_end (er_span e) \<le> length (so_src f)
     \<and> er_pos e = Position f (sp_start (er_span e)) \<and> er_filename e = so_name f"

definition goodScan :: "'a source_scheme \<Rightarrow> scanner \<Rightarrow> bool" where
  "goodScan f s \<longleftrightarrow> so_size f = length (so_src f) \<and> in_range f s \<and> pred_option (located f) (sc_err s)"

definition goodTok :: "'a source_scheme \<Rightarrow> token \<Rightarrow> bool" where
  "goodTok f t \<longleftrightarrow> sp_start (tk_span t) \<le> sp_end (tk_span t) \<and> sp_end (tk_span t) \<le> length (so_src f)"

definition good :: "'a source_scheme \<Rightarrow> parser \<Rightarrow> bool" where
  "good f p \<longleftrightarrow> goodScan f (pa_scan p) \<and> goodTok f (pa_tok p) \<and> pred_option (located f) (pa_err p)"

definition safe :: "'a source_scheme \<Rightarrow> 'b parse \<Rightarrow> bool" where
  "safe f r \<longleftrightarrow> (case r of Inl e \<Rightarrow> located f e | Inr (x, p) \<Rightarrow> good f p)"

lemma safe_simps [simp]: "safe f (Inl e) = located f e" "safe f (Inr (x, p)) = good f p"
  by (simp_all add: safe_def)

lemma located_mkError [simp]:
  "located f (mkError f sp msg) \<longleftrightarrow> sp_start sp \<le> sp_end sp \<and> sp_end sp \<le> length (so_src f)"
  by (simp add: located_def mkError_def)

lemma located_errorf: "goodTok f t \<Longrightarrow> located f (errorf f t w)"
  by (simp add: errorf_def goodTok_def)

lemma scan_fail_good:
  assumes "so_size f = length (so_src f)" "in_range f s" "a \<le> b" "b \<le> length (so_src f)"
  shows "goodScan f (snd (scan_fail f s a b m)) \<and> (\<exists>e. fst (scan_fail f s a b m) = Inl e \<and> located f e)"
  using assms by (auto simp: scan_fail_def Let_def goodScan_def in_range_def Span_def)

lemma DecodeRune_width3: "DecodeRune b = (r, w) \<Longrightarrow> 0x800 \<le> r \<Longrightarrow> r \<noteq> RuneError \<Longrightarrow> 3 \<le> w"
proof (cases b)
  case (Cons a s)
  assume d: "DecodeRune b = (r, w)" "0x800 \<le> r" "r \<noteq> RuneError"
  have low: "\<not> 0x800 \<le> code a mod 0x20 * 0x40 + tail6 x" for x
  proof -
    have "code a mod 0x20 \<le> 0x1F" "tail6 x \<le> 0x3F"
      using mod_less_divisor [of "0x20" "code a"] mod_less_divisor [of "0x40" "code x"]
      unfolding tail6_def by linarith+
    then show ?thesis by linarith
  qed
  have "DecodeRune (a # s) = (r, w)" using d(1) Cons by simp
  with d(2,3) low show ?thesis
    by (simp add: DecodeRune.simps split: if_splits list.splits) blast+
qed (simp add: DecodeRune.simps RuneError_def)

definition failsWell :: "'a source_scheme \<Rightarrow> (syntax_error + token) \<times> scanner \<Rightarrow> bool" where
  "failsWell f x \<longleftrightarrow> (\<forall>e s'. x = (Inl e, s') \<longrightarrow> goodScan f s' \<and> located f e)"

lemma failsWell_scan_fail:
  "so_size f = length (so_src f) \<Longrightarrow> sc_off s \<le> length (so_src f) \<Longrightarrow> a \<le> b \<Longrightarrow> b \<le> length (so_src f) \<Longrightarrow>
     failsWell f (scan_fail f s a b m)"
  using scan_fail_good [of f s a b m] by (auto simp: failsWell_def in_range_def)

lemma failsWell_Inr [simp]: "failsWell f (Inr t, s)"
  by (simp add: failsWell_def)

lemma scanComment_failsWell:
  assumes "so_size f = length (so_src f)" "sc_off s + 1 < length (so_src f)"
  shows "failsWell f (scanComment f s)"
proof -
  let ?rest = "drop (sc_off s + 2) (so_src f)"
  have inv: "sc_off s + 2 + i + 1 \<le> length (so_src f)" if "firstInvalidUTF8 t = Some i" "length t \<le> length ?rest" for i t
    using that firstInvalidFrom_bounds [of 0 t i] assms(2) by (simp add: firstInvalidUTF8_def)
  have n: "sc_off s + 2 + n + 2 \<le> length (so_src f)" if "commentEnd ?rest = Some n" for n
    using commentEnd_bound [OF that] by simp
  show ?thesis
    using assms(1,2) n inv [of "take _ ?rest"] inv [of ?rest]
    by (auto simp: scanComment_def Let_def split: option.splits intro!: failsWell_scan_fail)
qed

lemma scanInvalid_failsWell:
  assumes "so_size f = length (so_src f)" "sc_off s < length (so_src f)"
  shows "failsWell f (scanInvalid f s)"
proof -
  obtain r w where d: "DecodeRune (drop (sc_off s) (so_src f)) = (r, w)" by fastforce
  have w: "sc_off s + w \<le> length (so_src f)"
    using DecodeRune_size_le [of "drop (sc_off s) (so_src f)"] d assms(2) by simp
  moreover have "r = 0xFEFF \<Longrightarrow> 3 \<le> w" using DecodeRune_width3 [OF d] by (simp add: RuneError_def)
  ultimately show ?thesis
    using assms d by (auto simp: scanInvalid_def Let_def intro!: failsWell_scan_fail)
qed

lemma Next_failsWell:
  assumes "goodScan f s"
  shows "failsWell f (Next f s)"
proof (cases "sc_err s")
  case (Some e)
  with assms show ?thesis by (simp add: Next_def failsWell_def goodScan_def)
next
  case None
  let ?start = "sc_off s + length (takeWhile isSpace (drop (sc_off s) (so_src f)))"
  let ?s = "s\<lparr>sc_off := ?start\<rparr>"
  have sz: "so_size f = length (so_src f)" using assms by (simp add: goodScan_def)
  have inv: "failsWell f (scanInvalid f ?s)" if "\<not> length (so_src f) \<le> ?start"
    using scanInvalid_failsWell [OF sz, of ?s] that by simp
  have com: "failsWell f (scanComment f ?s)" if "?start + 1 < length (so_src f)"
    using scanComment_failsWell [OF sz, of ?s] that by simp
  show ?thesis
    using inv com by (simp add: Next_def None Let_def split: prod.split)
qed

lemma Next_good:
  assumes "goodScan f s" "Next f s = (r, s')"
  shows "goodScan f s' \<and> (case r of Inl e \<Rightarrow> located f e | Inr t \<Rightarrow> goodTok f t)"
proof (cases r)
  case (Inr t)
  with Next_scans [of f s t s'] assms show ?thesis
    by (auto simp: goodScan_def goodTok_def scans_to_def in_range_def)
next
  case (Inl e)
  with Next_failsWell [OF assms(1)] assms(2) show ?thesis by (simp add: failsWell_def)
qed

lemma p_next_good: "good f p \<Longrightarrow> good f (p_next f p)"
proof (induction f p rule: p_next.induct)
  case (1 f p)
  obtain r s where n: "Next f (pa_scan p) = (r, s)" by fastforce
  have g: "goodScan f s" "case r of Inl e \<Rightarrow> located f e | Inr t \<Rightarrow> goodTok f t"
    using Next_good [OF _ n] "1.prems" by (simp_all add: good_def)
  show ?case
  proof (cases r)
    case (Inl e)
    with n g "1.prems" show ?thesis
      by (simp add: p_next.simps [of f p] good_def goodTok_def goodScan_def Token_def Span_def)
  next
    case (Inr t)
    show ?thesis
    proof (cases "tk_kind t = TokComment")
      case True
      with "1.IH" [OF n [symmetric] Inr True] n Inr "1.prems" g show ?thesis
        by (simp add: p_next.simps [of f p] good_def)
    next
      case False
      with n Inr "1.prems" g show ?thesis by (simp add: p_next.simps [of f p] good_def)
    qed
  qed
qed

lemma safe_bind:
  "safe f r \<Longrightarrow> (\<And>x q. r = Inr (x, q) \<Longrightarrow> good f q \<Longrightarrow> safe f (g x q)) \<Longrightarrow>
     safe f (case r of Inl e \<Rightarrow> Inl e | Inr (x, q) \<Rightarrow> g x q)"
  by (auto simp: safe_def split: sum.splits prod.splits)

lemma expect_safe: "good f p \<Longrightarrow> safe f (expect f k p)"
  using p_next_good [of f p] located_errorf by (auto simp: expect_def good_def split: option.splits)

lemma expectIdent_safe: "good f p \<Longrightarrow> safe f (expectIdent f p)"
  using p_next_good [of f p] located_errorf by (auto simp: expectIdent_def good_def split: option.splits)

lemma length_addField [simp]: "length (addField fld st) = length st"
  by (cases "(fld, st)" rule: addField.cases) auto

lemma typeLoop_safe: "good f p \<Longrightarrow> safe f (typeLoop f st c p)"
proof (induction "2 * left f p + length st" arbitrary: st c p rule: less_induct)
  case less
  note good = less.prems
  have err: "located f (errorf f (pa_tok p) w)" for w using good located_errorf by (auto simp: good_def)
  have step: "safe f (typeLoop f st' c' q)" if "left f q < left f p" "good f q" "length st' \<le> Suc (length st)" for st' c' q
    using less.hyps [of q st' c'] that by simp
  have next_: "safe f (typeLoop f st' c' (p_next f p))"
    if "tk_kind (pa_tok p) \<noteq> TokEOF" "length st' \<le> Suc (length st)" for st' c'
    using that good by (intro step) (simp_all add: left_p_next p_next_good)
  show ?case
  proof (cases "pa_err p")
    case (Some e)
    with good show ?thesis by (subst typeLoop.simps) (simp add: good_def)
  next
    case none: None
    show ?thesis
    proof (cases "awaits st")
      case True
      show ?thesis
      proof (cases c)
        case None
        have prim: "safe f (typeLoop f st c' (p_next f p))" if "tk_kind (pa_tok p) \<in> set primKinds" for c'
          using that by (intro next_) (auto simp: primKinds_def)
        have named: "safe f (case expectIdent f p of Inl e \<Rightarrow> Inl e
            | Inr (i, p') \<Rightarrow> typeLoop f st (Some (NamedType [] i)) p')"
          by (intro safe_bind step expectIdent_safe good) (auto dest: expectIdent_left)
        have elem: "safe f (case expect f TokList p of Inl e \<Rightarrow> Inl e
            | Inr (kw, p') \<Rightarrow> typeLoop f (FrameElem (tk_span kw) # st) None p')"
          by (intro safe_bind step expect_safe good) (auto dest: expect_left)
        have rec: "safe f (case expect f TokRecord p of Inl e \<Rightarrow> Inl e
            | Inr (kw, p') \<Rightarrow> (case expect f TokLBrace p' of Inl e \<Rightarrow> Inl e
                | Inr (lb, p'') \<Rightarrow> typeLoop f (FrameRecord (tk_span kw) (tk_span lb) [] # st) None p''))"
          by (intro safe_bind step expect_safe good) (force dest: expect_left)+
        show ?thesis
          unfolding None typeLoop_start [OF True none] Let_def
          by (cases "tk_kind (pa_tok p) \<in> set primKinds")
             (simp_all only: prim named elem rec err safe_simps if_True if_False split: if_split, simp_all)
      next
        case (Some t)
        show ?thesis
          using True
        proof (cases rule: awaitsE)
          case (elem ls st')
          with less.hyps [of p st'] Some none good show ?thesis by (simp add: typeLoop_elem)
        next
          case (field i st')
          have "safe f (case expect f TokSemicolon p of Inl e \<Rightarrow> Inl e
              | Inr (semi, p') \<Rightarrow> typeLoop f (addField (Field [] i t (tk_span semi)) st') None p')"
            using field by (intro safe_bind step expect_safe good) (auto dest: expect_left)
          with field Some none show ?thesis by (simp add: typeLoop.simps [of f "FrameField i # st'"])
        qed (use True Some none good in \<open>auto simp: typeLoop_done\<close>)
      qed
    next
      case False
      then obtain rs lb fs st' where st: "st = FrameRecord rs lb fs # st'"
        by (cases st rule: awaits.cases) auto
      have name: "safe f (case expectIdent f p of Inl e \<Rightarrow> Inl e
          | Inr (i, p') \<Rightarrow> typeLoop f (FrameField i # st) c p')"
        using st by (intro safe_bind step expectIdent_safe good) (auto dest: expectIdent_left)
      have close: "safe f (typeLoop f st' (Some (RecordType [] rs lb fs (tk_span (pa_tok p)))) (p_next f p))"
        if "tk_kind (pa_tok p) = TokRBrace" using that st by (intro next_) simp_all
      show ?thesis
        using name [unfolded st] close err none
        by (cases c; hypsubst) (simp_all add: st typeLoop.simps [of f "FrameRecord rs lb fs # st'"] Let_def)
    qed
  qed
qed

lemma parseTypeSpec_safe: "good f p \<Longrightarrow> safe f (parseTypeSpec f p)"
  by (simp add: parseTypeSpec_def typeLoop_safe)

lemma parseOptType_safe: "good f p \<Longrightarrow> safe f (parseOptType f p)"
  by (auto simp: parseOptType_def intro!: safe_bind parseTypeSpec_safe)

lemma good_decls [simp]: "good f (p\<lparr>pa_decls := ds\<rparr>) = good f p"
  by (simp add: good_def)

lemma parseTypeDecl_safe: "good f p \<Longrightarrow> safe f (parseTypeDecl f p)"
  unfolding parseTypeDecl_def
  by (intro safe_bind expect_safe expectIdent_safe parseTypeSpec_safe) simp_all

lemma parseExceptionDecl_safe: "good f p \<Longrightarrow> safe f (parseExceptionDecl f p)"
  unfolding parseExceptionDecl_def
  by (intro safe_bind expect_safe expectIdent_safe parseOptType_safe) simp_all

lemma parseParam_safe: "good f p \<Longrightarrow> safe f (parseParam f p)"
  unfolding parseParam_def
  by (cases "pa_err p")
     (auto simp: good_def intro!: safe_bind expect_safe expectIdent_safe parseTypeSpec_safe)

lemma parseParams_safe: "good f p \<Longrightarrow> safe f (parseParams f qs p)"
proof (induction f qs p rule: parseParams.induct)
  case (1 f qs p)
  have errs: "located f (errorf f (pa_tok p) w)" for w using "1.prems" located_errorf by (auto simp: good_def)
  show ?case
  proof (cases "tk_kind (pa_tok p) = TokRBrace")
    case False
    show ?thesis
    proof (cases "pa_err p")
      case (Some e)
      with "1.prems" False show ?thesis by (simp add: parseParams.simps [of f qs p] good_def)
    next
      case None
      have "safe f (case parseParam f p of Inl e \<Rightarrow> Inl e | Inr (q, p') \<Rightarrow> parseParams f (qs @ [q]) p')"
        if "tk_kind (pa_tok p) \<noteq> TokEOF"
        using "1.IH" [OF False None that] by (intro safe_bind parseParam_safe "1.prems") auto
      with errs None False show ?thesis by (simp add: parseParams.simps [of f qs p])
    qed
  qed (use "1.prems" in \<open>simp add: parseParams.simps [of f qs p]\<close>)
qed

lemma parseProcDecl_safe: "good f p \<Longrightarrow> safe f (parseProcDecl f p)"
  unfolding parseProcDecl_def
  by (intro safe_bind expect_safe expectIdent_safe parseParams_safe parseOptType_safe) simp_all

lemma parseDecl_safe: "good f p \<Longrightarrow> safe f (parseDecl f p)"
  using located_errorf
  by (auto simp: parseDecl_def Let_def good_def split: option.split
      intro: parseTypeDecl_safe parseExceptionDecl_safe parseProcDecl_safe)

lemma parseDecls_safe: "good f p \<Longrightarrow> safe f (parseDecls f p)"
proof (induction f p rule: parseDecls.induct)
  case (1 f p)
  have "safe f (case parseDecl f p of Inl e \<Rightarrow> Inl e | Inr (u, p') \<Rightarrow> parseDecls f p')"
    if "tk_kind (pa_tok p) \<noteq> TokEOF"
    using "1.IH" [OF that] by (intro safe_bind parseDecl_safe "1.prems") auto
  with "1.prems" show ?case by (simp add: parseDecls.simps [of f p])
qed

lemma good_start: "good (NewFile name src) (p_next (NewFile name src) newParser)"
  by (intro p_next_good)
     (simp add: good_def goodScan_def goodTok_def newParser_def NewScanner_def in_range_def NewFile_def Token_def Span_def)

section \<open>Properties\<close>

text \<open>
  C38. A rejected file is always rejected with a diagnostic at an exact place of the input: the
  offending byte range lies within the source, the reported position is the line and
  column of its first byte (so computing it never panics), and the file name is the one
  given to \<open>Parse\<close>.
\<close>

theorem Parse_error_located:
  assumes "Parse name src = Inl e"
  shows "\<exists>a b l c. er_span e = Span a b \<and> a \<le> b \<and> b \<le> length src
    \<and> walk_lines 1 1 (take a src) = (l, c)
    \<and> er_pos e = Some \<lparr>pos_offset = a, pos_line = l, pos_column = c\<rparr> \<and> er_filename e = name"
proof -
  let ?f = "NewFile name src"
  note s = parseDecls_safe [OF good_start [of name src]]
  have "located ?f e"
  proof (cases "parseDecls ?f (p_next ?f newParser)")
    case (Inl x)
    with assms s show ?thesis by (simp add: Parse_def Let_def)
  next
    case (Inr r)
    with assms s show ?thesis
      by (cases r) (auto simp: Parse_def Let_def good_def split: option.splits)
  qed
  then have l: "sp_start (er_span e) \<le> sp_end (er_span e)" "sp_end (er_span e) \<le> length src"
    "er_pos e = Position ?f (sp_start (er_span e))" "er_filename e = name"
    by (simp_all add: located_def NewFile_def)
  then have "sp_start (er_span e) \<le> length src" by simp
  then show ?thesis
    using l Position_walk [of ?f src "sp_start (er_span e)"] by (cases "er_span e") (auto simp: NewFile_def Span_def split: prod.splits)
qed

theorem Parse_error_located_witness:
  "\<exists>a b l c. er_span (mkError (NewFile ''f'' ''type;'') (Span 4 5) (ExpectedFound ''identifier'' [CHR 0x27, CHR '';'', CHR 0x27]))
      = Span a b \<and> a \<le> b \<and> b \<le> length ''type;''
    \<and> walk_lines 1 1 (take a ''type;'') = (l, c)
    \<and> er_pos (mkError (NewFile ''f'' ''type;'') (Span 4 5) (ExpectedFound ''identifier'' [CHR 0x27, CHR '';'', CHR 0x27]))
      = Some \<lparr>pos_offset = a, pos_line = l, pos_column = c\<rparr>
    \<and> er_filename (mkError (NewFile ''f'' ''type;'') (Span 4 5) (ExpectedFound ''identifier'' [CHR 0x27, CHR '';'', CHR 0x27])) = ''f''"
  by (rule Parse_error_located) code_simp

end
