(* ===== verification/Interface_Key.thy ===== *)
theory Interface_Key
  imports Prelude
begin

text \<open>
  Procedure and exception keys: the 64-bit FNV-0 hash of \<open>go/internal/syntax/key.go\<close> and
  the independent use of the same hash for private names in \<open>go/internal/tool/mangle.go\<close>.
  Arithmetic is modulo \<open>2 ^ 64\<close>.
\<close>

definition fnv0Prime :: u64 where
  "fnv0Prime = 1099511628211"

text \<open>One round of the loops: multiply, then XOR the byte.\<close>

definition fnv0_round :: "u64 \<Rightarrow> char \<Rightarrow> u64" where
  "fnv0_round h c = (h * fnv0Prime) XOR of_char c"

definition Key :: "string \<Rightarrow> string \<Rightarrow> u64" where
  "Key kind name =
     foldl fnv0_round (fnv0_round (foldl fnv0_round 0 kind) (CHR '' '')) name"

definition ProcedureKey :: "string \<Rightarrow> u64" where
  "ProcedureKey name = Key ''procedure'' name"

definition ExceptionKey :: "string \<Rightarrow> u64" where
  "ExceptionKey name = Key ''exception'' name"

definition fnv0 :: "string \<Rightarrow> u64" where
  "fnv0 b = foldl fnv0_round 0 b"

lemma Key_fnv0: "Key kind name = fnv0 (kind @ '' '' @ name)"
  by (simp add: Key_def fnv0_def)

section \<open>The rounds are reversible\<close>

text \<open>
  The prime is odd, so multiplication by it is a bijection on 64-bit words; its inverse
  is written out and checked.
\<close>

definition fnv0Inverse :: u64 where
  "fnv0Inverse = 0xCE965057AFF6957B"

lemma fnv0Prime_inverse: "fnv0Prime * fnv0Inverse = 1"
  by (simp add: fnv0Prime_def fnv0Inverse_def)

lemma fnv0_mult_cancel: "x * fnv0Prime = y * fnv0Prime \<longleftrightarrow> x = y"
proof
  assume "x * fnv0Prime = y * fnv0Prime"
  then have "x * (fnv0Prime * fnv0Inverse) = y * (fnv0Prime * fnv0Inverse)"
    by (metis mult.assoc)
  then show "x = y" by (simp add: fnv0Prime_inverse)
qed simp

lemma xor_cancel_right: "(a :: 'a::len word) XOR c = b XOR c \<longleftrightarrow> a = b"
  by (metis xor.assoc xor_self_eq xor.right_neutral)

lemma fnv0_round_inject_state: "fnv0_round h c = fnv0_round h' c \<longleftrightarrow> h = h'"
  by (simp add: fnv0_round_def xor_cancel_right fnv0_mult_cancel)

lemma foldl_fnv0_inject: "foldl fnv0_round h s = foldl fnv0_round h' s \<longleftrightarrow> h = h'"
  by (induction s arbitrary: h h') (simp_all add: fnv0_round_inject_state)

lemma of_char_u64_inject: "(of_char a :: u64) = of_char b \<longleftrightarrow> a = b"
proof
  assume eq: "(of_char a :: u64) = of_char b"
  have "unat (of_char c :: u64) = of_char c" for c
  proof -
    have "(of_char c :: nat) < 256" by simp
    then have "(of_char c :: nat) < 2 ^ LENGTH(64)" by (rule order_less_trans) simp
    moreover have "(of_char c :: u64) = of_nat (of_char c)" by (simp only: of_nat_of_char)
    ultimately show ?thesis by (simp only: unat_of_nat take_bit_eq_mod mod_less)
  qed
  with eq have "(of_char a :: nat) = of_char b" by metis
  then show "a = b" by simp
qed simp

section \<open>Properties of keys\<close>

text \<open>
  The key of every name is the FNV-0 hash of the documented input, and the published
  vectors and the two key constants compiled into the runtime (\<open>internalExceptionKey\<close>,
  \<open>emptyProcedureNotFoundKey\<close>) are exactly the keys of their names.
\<close>

lemma key_vectors:
  "ProcedureKey ''get_user'' = 0x4c63cc5048869eb7"
  "ExceptionKey ''procedure_not_found'' = 0x970e76fcc5e2dacb"
  "ExceptionKey ''internal_exception'' = 0x1aaec22e85996f50"
  "ProcedureKey ''echo'' = 0x0159eb91a98f8f42"
  "ExceptionKey ''failed'' = 0x583fb304d69368ca"
  by code_simp+

text \<open>
  Changing one byte of a name always changes its key: two names that differ in exactly
  one position never collide.
\<close>

theorem key_single_byte_change:
  assumes "a \<noteq> b"
  shows "Key kind (pre @ [a] @ post) \<noteq> Key kind (pre @ [b] @ post)"
  using assms
  by (simp add: Key_def foldl_fnv0_inject fnv0_round_def of_char_u64_inject xor.commute [of _ "of_char _"]
      xor_cancel_right)

theorem key_single_byte_change_witness:
  "Key ''procedure'' (''get_'' @ [CHR ''u''] @ ''ser'') \<noteq> Key ''procedure'' (''get_'' @ [CHR ''U''] @ ''ser'')"
  by (rule key_single_byte_change) simp

end
