(* ===== verification/Validate.thy ===== *)
theory Validate
  imports Parse_Errors Interface_Key
begin

text \<open>
  Semantic validation of a parsed file (\<open>go/internal/syntax/validate.go\<close>): one global
  name scope, earlier type resolution, local scopes of parameters and record fields, and
  the key rules. The panic of \<open>errf\<close>, recovered by \<open>Validate\<close>, is the left value. The
  work stack of \<open>typeSpec\<close> is kept as the source has it and proved equal to the recursive
  descent; validation as a whole is proved equal to a declarative predicate.

  A Go map used as a set is a set; \<open>%q\<close> of an identifier is the identifier in double
  quotes (identifiers hold letters, digits and underscores only).
\<close>

record keyInfo =
  ki_kind :: string
  ki_name :: string

record validator =
  va_global :: "string \<rightharpoonup> position option"
  va_types :: "string set"
  va_keys :: "u64 \<rightharpoonup> keyInfo"

definition newValidator :: validator where
  "newValidator = \<lparr>va_global = Map.empty, va_types = {}, va_keys = Map.empty\<rparr>"

definition quoted :: "string \<Rightarrow> string" where
  "quoted s = CHR 0x22 # s @ [CHR 0x22]"

section \<open>Types\<close>

datatype vsStep =
    VsType TypeExpr string
  | VsRecord "Field list" "string set" nat string

text \<open>The size of a type, for the termination of the work stack.\<close>

fun typeWork :: "TypeExpr \<Rightarrow> nat"
and fieldWork :: "Field \<Rightarrow> nat" where
  "typeWork (PrimType d k sp) = 1"
| "typeWork (NamedType d i) = 1"
| "typeWork (ListType d ls t) = Suc (typeWork t)"
| "typeWork (RecordType d rs lb fs rb) = Suc (Suc (sum_list (map fieldWork fs)))"
| "fieldWork (Field d i t semi) = Suc (typeWork t)"

fun stepWork :: "vsStep \<Rightarrow> nat" where
  "stepWork (VsType t w) = typeWork t"
| "stepWork (VsRecord fs seen n w) = Suc (sum_list (map fieldWork (drop n fs)))"

lemma typeWork_pos [simp]: "0 < typeWork t"
  by (cases t) auto

lemma fieldWork_type: "fieldWork f = Suc (typeWork (fieldType f))"
  by (cases f) simp

lemma drop_nth_work:
  "n < length fs \<Longrightarrow> sum_list (map g (drop n fs)) = g (fs ! n) + sum_list (map g (drop (Suc n) fs))"
  by (simp add: Cons_nth_drop_Suc [symmetric])

definition fieldWhere :: "Field \<Rightarrow> string \<Rightarrow> string" where
  "fieldWhere fld w = ''field '' @ quoted (id_name (fieldName fld)) @ '' of '' @ w"

text \<open>The loop of \<open>typeSpec\<close>; the top of the stack is the head of the list.\<close>

function typeSpecLoop :: "'a source_scheme \<Rightarrow> string set \<Rightarrow> vsStep list \<Rightarrow> syntax_error option" where
  "typeSpecLoop f types [] = None"
| "typeSpecLoop f types (VsType t w # stack) =
     (case t of
        PrimType d k sp \<Rightarrow> typeSpecLoop f types stack
      | NamedType d i \<Rightarrow>
          if id_name i \<notin> types then Some (mkError f (id_span i) (UnresolvedType (id_name i) w))
          else typeSpecLoop f types stack
      | ListType d ls e \<Rightarrow> typeSpecLoop f types (VsType e w # stack)
      | RecordType d rs lb fs rb \<Rightarrow> typeSpecLoop f types (VsRecord fs {} 0 w # stack))"
| "typeSpecLoop f types (VsRecord fs seen n w # stack) =
     (if length fs \<le> n then typeSpecLoop f types stack
      else
        let fld = fs ! n; name = id_name (fieldName fld) in
        if name \<in> seen
        then Some (mkError f (id_span (fieldName fld)) (DuplicateField name w))
        else typeSpecLoop f types
               (VsType (fieldType fld) (fieldWhere fld w) # VsRecord fs (insert name seen) (Suc n) w # stack))"
  by pat_completeness auto
termination
  by (relation "measure (\<lambda>(f, types, stack). sum_list (map stepWork stack))")
     (auto simp: drop_nth_work fieldWork_type)

declare typeSpecLoop.simps [simp del]

definition typeSpec :: "'a source_scheme \<Rightarrow> string set \<Rightarrow> TypeExpr \<Rightarrow> string \<Rightarrow> syntax_error option" where
  "typeSpec f types t w = typeSpecLoop f types [VsType t w]"

section \<open>Declarations\<close>

definition declName :: "'a source_scheme \<Rightarrow> ident \<Rightarrow> string \<Rightarrow> validator \<Rightarrow> syntax_error + validator" where
  "declName f i kind v =
     (case va_global v (id_name i) of
        Some first \<Rightarrow> Inl (mkError f (id_span i) (DuplicateDecl kind (id_name i)
          (case first of None \<Rightarrow> 0 | Some p \<Rightarrow> pos_line p)))
      | None \<Rightarrow> Inr (v\<lparr>va_global := (va_global v)(id_name i \<mapsto> Position f (sp_start (id_span i)))\<rparr>))"

definition key :: "'a source_scheme \<Rightarrow> ident \<Rightarrow> string \<Rightarrow> validator \<Rightarrow> syntax_error + validator" where
  "key f i kind v =
     (let k = Key kind (id_name i) in
      if k = 0 then Inl (mkError f (id_span i) (KeyZero kind (id_name i)))
      else case va_keys v k of
        Some first \<Rightarrow> Inl (mkError f (id_span i) (KeyCollision kind (id_name i) (ki_kind first) (ki_name first)))
      | None \<Rightarrow> Inr (v\<lparr>va_keys := (va_keys v)(k \<mapsto> \<lparr>ki_kind = kind, ki_name = id_name i\<rparr>)\<rparr>))"

fun paramSpecs :: "'a source_scheme \<Rightarrow> string set \<Rightarrow> string \<Rightarrow> string set \<Rightarrow> Param list \<Rightarrow> syntax_error option" where
  "paramSpecs f types w seen [] = None"
| "paramSpecs f types w seen (p # ps) =
     (let name = id_name (paramName p) in
      if name \<in> seen then Some (mkError f (id_span (paramName p)) (DuplicateParam name w))
      else case typeSpec f types (paramType p) (''parameter '' @ quoted name @ '' of '' @ w) of
        Some e \<Rightarrow> Some e
      | None \<Rightarrow> paramSpecs f types w (insert name seen) ps)"

definition optSpec :: "'a source_scheme \<Rightarrow> string set \<Rightarrow> TypeExpr option \<Rightarrow> string \<Rightarrow> syntax_error option" where
  "optSpec f types t w = (case t of None \<Rightarrow> None | Some t \<Rightarrow> typeSpec f types t w)"

fun decl :: "'a source_scheme \<Rightarrow> Decl \<Rightarrow> validator \<Rightarrow> syntax_error + validator" where
  "decl f (TypeDecl d kw i t semi) v =
     (case declName f i ''type'' v of
        Inl e \<Rightarrow> Inl e
      | Inr v1 \<Rightarrow>
          (case typeSpec f (va_types v1) t (''type '' @ id_name i) of
             Some e \<Rightarrow> Inl e
           | None \<Rightarrow> Inr (v1\<lparr>va_types := insert (id_name i) (va_types v1)\<rparr>)))"
| "decl f (ExceptionDecl d kw i t semi) v =
     (case declName f i ''exception'' v of
        Inl e \<Rightarrow> Inl e
      | Inr v1 \<Rightarrow>
          (case optSpec f (va_types v1) t (''exception '' @ id_name i) of
             Some e \<Rightarrow> Inl e
           | None \<Rightarrow> key f i ''exception'' v1))"
| "decl f (ProcDecl d kw i lb ps rb res semi) v =
     (case declName f i ''procedure'' v of
        Inl e \<Rightarrow> Inl e
      | Inr v1 \<Rightarrow>
          (let w = ''procedure '' @ id_name i in
           case paramSpecs f (va_types v1) w {} ps of
             Some e \<Rightarrow> Inl e
           | None \<Rightarrow>
               (case optSpec f (va_types v1) res (''return type of '' @ w) of
                  Some e \<Rightarrow> Inl e
                | None \<Rightarrow> key f i ''procedure'' v1)))"

fun declLoop :: "'a source_scheme \<Rightarrow> Decl list \<Rightarrow> validator \<Rightarrow> syntax_error + validator" where
  "declLoop f [] v = Inr v"
| "declLoop f (d # ds) v = (case decl f d v of Inl e \<Rightarrow> Inl e | Inr v' \<Rightarrow> declLoop f ds v')"

text \<open>The validator reads only the source part of the file.\<close>

definition Validate :: "'a ifile_scheme \<Rightarrow> syntax_error option" where
  "Validate fl = (case declLoop (source.truncate fl) (fi_decls fl) newValidator of Inl e \<Rightarrow> Some e | Inr v \<Rightarrow> None)"

section \<open>The work stack is the recursive descent\<close>

fun checkType :: "'a source_scheme \<Rightarrow> string set \<Rightarrow> string \<Rightarrow> TypeExpr \<Rightarrow> syntax_error option"
and checkFields :: "'a source_scheme \<Rightarrow> string set \<Rightarrow> string \<Rightarrow> string set \<Rightarrow> Field list \<Rightarrow> syntax_error option"
and checkField :: "'a source_scheme \<Rightarrow> string set \<Rightarrow> string \<Rightarrow> Field \<Rightarrow> syntax_error option" where
  "checkType f types w (PrimType d k sp) = None"
| "checkType f types w (NamedType d i) =
     (if id_name i \<in> types then None else Some (mkError f (id_span i) (UnresolvedType (id_name i) w)))"
| "checkType f types w (ListType d ls t) = checkType f types w t"
| "checkType f types w (RecordType d rs lb fs rb) = checkFields f types w {} fs"
| "checkFields f types w seen [] = None"
| "checkFields f types w seen (fld # fs) =
     (if id_name (fieldName fld) \<in> seen
      then Some (mkError f (id_span (fieldName fld)) (DuplicateField (id_name (fieldName fld)) w))
      else case checkField f types w fld of
        Some e \<Rightarrow> Some e
      | None \<Rightarrow> checkFields f types w (insert (id_name (fieldName fld)) seen) fs)"
| "checkField f types w (Field d i t semi) = checkType f types (fieldWhere (Field d i t semi) w) t"

lemma checkField_type: "checkField f types w fld = checkType f types (fieldWhere fld w) (fieldType fld)"
  by (cases fld) simp

fun checkStep :: "'a source_scheme \<Rightarrow> string set \<Rightarrow> vsStep \<Rightarrow> syntax_error option" where
  "checkStep f types (VsType t w) = checkType f types w t"
| "checkStep f types (VsRecord fs seen n w) = checkFields f types w seen (drop n fs)"

fun checkStack :: "'a source_scheme \<Rightarrow> string set \<Rightarrow> vsStep list \<Rightarrow> syntax_error option" where
  "checkStack f types [] = None"
| "checkStack f types (s # ss) = (case checkStep f types s of Some e \<Rightarrow> Some e | None \<Rightarrow> checkStack f types ss)"

lemma typeSpecLoop_checkStack: "typeSpecLoop f types stack = checkStack f types stack"
proof (induction f types stack rule: typeSpecLoop.induct)
  case (2 f types t w stack)
  then show ?case
    unfolding typeSpecLoop.simps(2) [of f types t w stack] by (cases t) auto
next
  case (3 f types fs seen n w stack)
  show ?case
  proof (cases "length fs \<le> n")
    case True
    with 3 show ?thesis
      unfolding typeSpecLoop.simps(3) [of f types fs seen n w stack] by simp
  next
    case False
    then have "drop n fs = fs ! n # drop (Suc n) fs" by (simp add: Cons_nth_drop_Suc)
    with 3 False show ?thesis
      unfolding typeSpecLoop.simps(3) [of f types fs seen n w stack]
      by (simp add: Let_def checkField_type split: option.splits)
  qed
qed (simp add: typeSpecLoop.simps)

lemma typeSpec_checkType: "typeSpec f types t w = checkType f types w t"
  by (simp add: typeSpec_def typeSpecLoop_checkStack split: option.splits)

section \<open>The declarative rules\<close>

text \<open>
  Every reference in a type resolves and every record has distinct field names.
\<close>

fun typeNames :: "TypeExpr \<Rightarrow> string set"
and fieldNames :: "Field \<Rightarrow> string set" where
  "typeNames (PrimType d k sp) = {}"
| "typeNames (NamedType d i) = {id_name i}"
| "typeNames (ListType d ls t) = typeNames t"
| "typeNames (RecordType d rs lb fs rb) = \<Union> (set (map fieldNames fs))"
| "fieldNames (Field d i t semi) = typeNames t"

fun scopedType :: "TypeExpr \<Rightarrow> bool"
and scopedField :: "Field \<Rightarrow> bool" where
  "scopedType (PrimType d k sp) \<longleftrightarrow> True"
| "scopedType (NamedType d i) \<longleftrightarrow> True"
| "scopedType (ListType d ls t) \<longleftrightarrow> scopedType t"
| "scopedType (RecordType d rs lb fs rb) \<longleftrightarrow>
     distinct (map (\<lambda>fld. id_name (fieldName fld)) fs) \<and> list_all scopedField fs"
| "scopedField (Field d i t semi) \<longleftrightarrow> scopedType t"

definition validType :: "string set \<Rightarrow> TypeExpr \<Rightarrow> bool" where
  "validType types t \<longleftrightarrow> typeNames t \<subseteq> types \<and> scopedType t"

lemma validField: "fieldNames fld \<subseteq> types \<and> scopedField fld \<longleftrightarrow> validType types (fieldType fld)"
  by (cases fld) (simp add: validType_def)

lemma validFields:
  "validType types (RecordType d rs lb fs rb) \<longleftrightarrow>
     distinct (map (\<lambda>fld. id_name (fieldName fld)) fs) \<and> (\<forall>fld \<in> set fs. validType types (fieldType fld))"
  by (simp flip: validField) (auto simp: validType_def list_all_iff)

lemma check_valid:
  shows "checkType f types w t = None \<longleftrightarrow> validType types t"
    and "checkFields f types w seen fs = None \<longleftrightarrow>
      distinct (map (\<lambda>fld. id_name (fieldName fld)) fs) \<and> (\<forall>fld \<in> set fs. validType types (fieldType fld))
      \<and> seen \<inter> (\<lambda>fld. id_name (fieldName fld)) ` set fs = {}"
    and "checkField f types w fld = None \<longleftrightarrow> validType types (fieldType fld)"
proof (induction f types w t and f types w seen fs and f types w fld
    rule: checkType_checkFields_checkField.induct)
  case (4 f types w d rs lb fs rb)
  then show ?case by (simp add: validFields)
next
  case (6 f types w seen fld fs)
  then show ?case by (auto split: option.splits)
qed (simp_all add: validType_def)

text \<open>The key a declaration claims, and its rules given the declarations before it.\<close>

definition declKey :: "Decl \<Rightarrow> u64 option" where
  "declKey d = (case d of
     TypeDecl _ _ _ _ _ \<Rightarrow> None
   | ExceptionDecl _ _ i _ _ \<Rightarrow> Some (ExceptionKey (id_name i))
   | ProcDecl _ _ i _ _ _ _ _ \<Rightarrow> Some (ProcedureKey (id_name i)))"

fun isTypeDecl :: "Decl \<Rightarrow> bool" where
  "isTypeDecl (TypeDecl d kw i t semi) = True"
| "isTypeDecl d = False"

definition declaredName :: "Decl \<Rightarrow> string" where
  "declaredName d = id_name (declIdent d)"

definition typeDeclNames :: "Decl list \<Rightarrow> string set" where
  "typeDeclNames ds = declaredName ` set (filter isTypeDecl ds)"

fun declTypes :: "Decl \<Rightarrow> TypeExpr list" where
  "declTypes (TypeDecl d kw i t semi) = [t]"
| "declTypes (ExceptionDecl d kw i t semi) = (case t of None \<Rightarrow> [] | Some t \<Rightarrow> [t])"
| "declTypes (ProcDecl d kw i lb ps rb res semi) = map paramType ps @ (case res of None \<Rightarrow> [] | Some t \<Rightarrow> [t])"

fun declParams :: "Decl \<Rightarrow> string list" where
  "declParams (ProcDecl d kw i lb ps rb res semi) = map (\<lambda>p. id_name (paramName p)) ps"
| "declParams d = []"

definition validDecl :: "Decl list \<Rightarrow> Decl \<Rightarrow> bool" where
  "validDecl before d \<longleftrightarrow>
     declaredName d \<notin> declaredName ` set before
   \<and> distinct (declParams d)
   \<and> (\<forall>t \<in> set (declTypes d). validType (typeDeclNames before) t)
   \<and> declKey d \<noteq> Some 0
   \<and> (declKey d = None \<or> declKey d \<notin> declKey ` set before)"

definition validInterface :: "Decl list \<Rightarrow> bool" where
  "validInterface ds \<longleftrightarrow> (\<forall>n < length ds. validDecl (take n ds) (ds ! n))"

lemma validInterface_snoc: "validInterface (ds @ [d]) \<longleftrightarrow> validInterface ds \<and> validDecl ds d"
  by (auto simp: validInterface_def nth_append less_Suc_eq)

lemma validInterface_prefix: "validInterface (ds @ ds') \<Longrightarrow> validInterface ds"
proof -
  assume "validInterface (ds @ ds')"
  then have all: "\<forall>n < length (ds @ ds'). validDecl (take n (ds @ ds')) ((ds @ ds') ! n)"
    by (simp only: validInterface_def)
  have "validDecl (take n ds) (ds ! n)" if "n < length ds" for n
    using all [rule_format, of n] that by (simp add: nth_append)
  then show "validInterface ds" by (simp add: validInterface_def)
qed

lemma validInterface_Nil [simp]: "validInterface []"
  by (simp add: validInterface_def)

section \<open>Validation decides the rules\<close>

text \<open>The validator's maps describe the declarations validated so far.\<close>

definition seenDecls :: "Decl list \<Rightarrow> validator \<Rightarrow> bool" where
  "seenDecls ds v \<longleftrightarrow> dom (va_global v) = declaredName ` set ds \<and> va_types v = typeDeclNames ds
     \<and> dom (va_keys v) = {k. Some k \<in> declKey ` set ds}"

lemma typeSpec_valid: "typeSpec f types t w = None \<longleftrightarrow> validType types t"
  by (simp add: typeSpec_checkType check_valid)

lemma typeSpec_invalid: "typeSpec f types t w = Some e \<Longrightarrow> \<not> validType types t"
  by (simp flip: typeSpec_valid [of f _ _ w])

lemma paramSpecs_valid:
  "paramSpecs f types w seen ps = None \<longleftrightarrow>
     distinct (map (\<lambda>p. id_name (paramName p)) ps) \<and> (\<forall>p \<in> set ps. validType types (paramType p))
     \<and> seen \<inter> (\<lambda>p. id_name (paramName p)) ` set ps = {}"
  by (induction f types w seen ps rule: paramSpecs.induct)
     (auto simp: Let_def typeSpec_valid dest: typeSpec_invalid split: option.splits)

lemma typeDeclNames_snoc [simp]:
  "typeDeclNames (ds @ [d]) = (if isTypeDecl d then insert (declaredName d) (typeDeclNames ds) else typeDeclNames ds)"
  by (simp add: typeDeclNames_def)

lemma optSpec_valid: "optSpec f types t w = None \<longleftrightarrow> (\<forall>u. t = Some u \<longrightarrow> validType types u)"
  by (auto simp: optSpec_def typeSpec_valid split: option.splits)

text \<open>The outcome of each check, given what the validator has seen.\<close>

lemma declName_seen:
  assumes "seenDecls ds v"
  shows "if id_name i \<in> declaredName ` set ds then \<exists>e. declName f i kind v = Inl e
         else \<exists>p. declName f i kind v = Inr (v\<lparr>va_global := (va_global v)(id_name i \<mapsto> p)\<rparr>)"
  using assms by (auto simp: declName_def seenDecls_def split: option.splits)

lemma key_seen:
  assumes "dom (va_keys v) = K"
  shows "if Key kind (id_name i) = 0 \<or> Key kind (id_name i) \<in> K then \<exists>e. key f i kind v = Inl e
         else key f i kind v =
           Inr (v\<lparr>va_keys := (va_keys v)(Key kind (id_name i) \<mapsto> \<lparr>ki_kind = kind, ki_name = id_name i\<rparr>)\<rparr>)"
  using assms by (auto simp: key_def Let_def split: option.splits)

lemma decl_duplicate:
  assumes "seenDecls ds v" "declaredName d \<in> declaredName ` set ds"
  shows "\<exists>e. decl f d v = Inl e"
proof -
  have dup: "\<exists>e. declName f (declIdent d) kind v = Inl e" for kind
    using declName_seen [OF assms(1), of "declIdent d" f kind] assms(2) by (simp add: declaredName_def)
  from dup [of "''type''"] dup [of "''exception''"] dup [of "''procedure''"]
  show ?thesis by (cases d) auto
qed

text \<open>A declaration with a new name: what is left are its types and its key.\<close>

lemma decl_new:
  assumes seen: "seenDecls ds v" and new: "declaredName d \<notin> declaredName ` set ds"
  shows "if validDecl ds d then \<exists>v'. decl f d v = Inr v' \<and> seenDecls (ds @ [d]) v'
         else \<exists>e. decl f d v = Inl e"
proof -
  have name: "\<exists>p. declName f (declIdent d) kind v = Inr (v\<lparr>va_global := (va_global v)(declaredName d \<mapsto> p)\<rparr>)" for kind
    using declName_seen [OF seen, of "declIdent d" f kind] new by (simp add: declaredName_def)
  from seen have doms: "dom (va_global v) = declaredName ` set ds" "va_types v = typeDeclNames ds"
    "dom (va_keys v) = {k. Some k \<in> declKey ` set ds}" by (auto simp: seenDecls_def)
  show ?thesis
  proof (cases d)
    case (TypeDecl dc kw i t semi)
    from name [of "''type''"] TypeDecl doms new show ?thesis
      by (auto simp: validDecl_def declKey_def seenDecls_def typeSpec_valid declaredName_def
          dest: typeSpec_invalid split: option.splits)
  next
    case (ExceptionDecl dc kw i t semi)
    obtain p where p: "declName f i ''exception'' v = Inr (v\<lparr>va_global := (va_global v)(id_name i \<mapsto> p)\<rparr>)"
      using name [of "''exception''"] ExceptionDecl by (auto simp: declaredName_def)
    let ?v = "v\<lparr>va_global := (va_global v)(id_name i \<mapsto> p)\<rparr>"
    from key_seen [of ?v "{k. Some k \<in> declKey ` set ds}" "''exception''" i f]
      optSpec_valid [of f "typeDeclNames ds" t] p ExceptionDecl doms new show ?thesis
      by (auto simp: validDecl_def declKey_def seenDecls_def declaredName_def ExceptionKey_def
          split: option.splits if_splits)
  next
    case (ProcDecl dc kw i lb ps rb res semi)
    obtain p where p: "declName f i ''procedure'' v = Inr (v\<lparr>va_global := (va_global v)(id_name i \<mapsto> p)\<rparr>)"
      using name [of "''procedure''"] ProcDecl by (auto simp: declaredName_def)
    let ?v = "v\<lparr>va_global := (va_global v)(id_name i \<mapsto> p)\<rparr>"
    from key_seen [of ?v "{k. Some k \<in> declKey ` set ds}" "''procedure''" i f]
      optSpec_valid [of f "typeDeclNames ds" res] paramSpecs_valid [of f "typeDeclNames ds" _ "{}" ps]
      p ProcDecl doms new show ?thesis
      by (auto simp: validDecl_def declKey_def seenDecls_def declaredName_def ProcedureKey_def Let_def
          split: option.splits if_splits)
  qed
qed

lemma declLoop_valid:
  "seenDecls ds v \<Longrightarrow> validInterface ds \<Longrightarrow>
   (if validInterface (ds @ ds') then \<exists>v'. declLoop f ds' v = Inr v'
    else \<exists>e pre d post. ds' = pre @ d # post \<and> validInterface (ds @ pre) \<and> \<not> validDecl (ds @ pre) d
          \<and> declLoop f (pre @ d # post') v = Inl e \<and> declLoop f ds' v = Inl e)"
proof (induction ds' arbitrary: ds v)
  case (Cons d ds')
  note dv = decl_new [OF Cons.prems(1), of d f] decl_duplicate [OF Cons.prems(1), of d f]
  show ?case
  proof (cases "validDecl ds d")
    case True
    with dv obtain v' where v': "decl f d v = Inr v'" "seenDecls (ds @ [d]) v'"
      by (auto simp: validDecl_def)
    from True Cons.prems(2) have "validInterface (ds @ [d])" by (simp add: validInterface_snoc)
    note ih = Cons.IH [OF v'(2) this]
    show ?thesis
    proof (cases "validInterface (ds @ d # ds')")
      case True
      with ih v' show ?thesis by simp
    next
      case False
      with ih obtain e pre d' post where "ds' = pre @ d' # post" "validInterface ((ds @ [d]) @ pre)"
        "\<not> validDecl ((ds @ [d]) @ pre) d'" "declLoop f (pre @ d' # post') v' = Inl e" "declLoop f ds' v' = Inl e"
        by auto
      with v' False show ?thesis by (auto intro!: exI [of _ "d # pre"])
    qed
  next
    case False
    then have "\<not> validInterface (ds @ d # ds')"
      using validInterface_prefix [of "ds @ [d]" ds'] by (auto simp: validInterface_snoc)
    moreover from False dv obtain e where "decl f d v = Inl e" by (auto split: if_splits)
    ultimately show ?thesis using False Cons.prems(2)
      by (simp) (metis append.left_neutral append_Nil2 declLoop.simps(2) sum.simps(5))
  qed
qed simp

lemma seenDecls_start: "seenDecls [] newValidator"
  by (simp add: seenDecls_def newValidator_def typeDeclNames_def)

section \<open>Diagnostics\<close>

text \<open>Every violation is reported at an identifier of the declaration.\<close>

definition atIdent :: "'a source_scheme \<Rightarrow> token list \<Rightarrow> syntax_error \<Rightarrow> bool" where
  "atIdent f ts e \<longleftrightarrow> (\<exists>i m. ident_tok i \<in> set ts \<and> e = mkError f (id_span i) m)"

lemma atIdentI: "ident_tok i \<in> set ts \<Longrightarrow> atIdent f ts (mkError f (id_span i) m)"
  by (auto simp: atIdent_def)

lemma atIdent_mono: "atIdent f ts e \<Longrightarrow> set ts \<subseteq> set ts' \<Longrightarrow> atIdent f ts' e"
  by (auto simp: atIdent_def)

lemma field_toks_ident: "ident_tok (fieldName fld) \<in> set (field_toks fld)"
  by (cases fld) simp

lemma check_atIdent:
  shows "checkType f types w t = Some e \<Longrightarrow> atIdent f (type_toks t) e"
    and "checkFields f types w seen fs = Some e \<Longrightarrow> atIdent f (concat (map field_toks fs)) e"
    and "checkField f types w fld = Some e \<Longrightarrow> atIdent f (field_toks fld) e"
proof (induction f types w t and f types w seen fs and f types w fld
    rule: checkType_checkFields_checkField.induct)
  case (2 f types w d i)
  then show ?case by (auto split: if_splits intro!: atIdentI)
next
  case (6 f types w seen fld fs)
  then show ?case
    using field_toks_ident [of fld]
    by (auto split: if_splits option.splits intro: atIdentI atIdent_mono)
qed (auto intro: atIdent_mono)

lemma typeSpec_atIdent: "typeSpec f types t w = Some e \<Longrightarrow> atIdent f (type_toks t) e"
  by (simp add: typeSpec_checkType check_atIdent(1))

lemma paramSpecs_atIdent: "paramSpecs f types w seen ps = Some e \<Longrightarrow> atIdent f (concat (map param_toks ps)) e"
proof (induction f types w seen ps rule: paramSpecs.induct)
  case (2 f types w seen p ps)
  obtain d i t semi where p: "p = Param d i t semi" by (cases p)
  from 2 show ?case
    by (auto simp: p Let_def split: if_splits option.splits
        intro: atIdentI atIdent_mono atIdent_mono [OF typeSpec_atIdent])
qed simp

lemma decl_atIdent: "decl f d v = Inl e \<Longrightarrow> atIdent f (decl_toks d) e"
  by (cases d)
     (auto simp: declName_def key_def Let_def optSpec_def opt_toks_def split: option.splits sum.splits if_splits
       intro!: atIdentI intro: atIdent_mono [OF typeSpec_atIdent] atIdent_mono [OF paramSpecs_atIdent])

lemma declLoop_atIdent: "declLoop f ds v = Inl e \<Longrightarrow> atIdent f (concat (map decl_toks ds)) e"
  by (induction f ds v rule: declLoop.induct)
     (auto split: sum.splits intro: atIdent_mono [OF decl_atIdent] atIdent_mono)

text \<open>A file whose only declaration refers to an unknown type.\<close>

definition sampleFile :: ifile where
  "sampleFile = \<lparr>so_name = ''f'', so_size = 9, so_src = ''type a b;'', so_lines = [0],
     fi_decls = [TypeDecl [] (Span 0 4) \<lparr>id_name = ''a'', id_span = Span 5 6\<rparr>
       (NamedType [] \<lparr>id_name = ''b'', id_span = Span 7 8\<rparr>) (Span 8 9)], fi_comments = []\<rparr>"

definition sampleError :: syntax_error where
  "sampleError = mkError (NewFile ''f'' ''type a b;'') (Span 7 8) (UnresolvedType ''b'' ''type a'')"

section \<open>Properties\<close>

lemma Validate_valid: "Validate fl = None \<longleftrightarrow> validInterface (fi_decls fl)"
  using declLoop_valid [OF seenDecls_start validInterface_Nil, of "fi_decls fl" "source.truncate fl" "[]"]
  by (auto simp: Validate_def split: sum.splits if_splits)

text \<open>
  C24. \<open>Validate\<close> decides the scope, resolution and key rules: it reports no error exactly
  when every declaration has a new global name, distinct parameter and field names, only
  references to earlier type declarations, and, for a procedure or exception, a key that is
  not zero and not the key of an earlier procedure or exception.
\<close>

theorem Validate_decides:
  "Validate fl = None \<longleftrightarrow> validInterface (fi_decls fl)"
  by (rule Validate_valid)

text \<open>
  The work stack of \<open>typeSpec\<close> is the recursive descent: with any enclosing context it
  visits the same occurrences in the same order and reports the same first violation, and
  it always ends.
\<close>

theorem typeSpec_recursive_descent:
  "typeSpec f types t w = checkType f types w t"
  by (rule typeSpec_checkType)

text \<open>
  The first violation wins and is located exactly: for a parsed file the reported error
  belongs to the first declaration that breaks a rule, the declarations before it are
  valid, later declarations do not matter, and the span is that of an identifier of this
  declaration whose text in the source is its name, so computing its position cannot
  panic.
\<close>

theorem Validate_first_violation:
  assumes "Parse name src = Inr fl" and "Validate fl = Some e"
  shows "\<exists>pre d post i. fi_decls fl = pre @ d # post \<and> validInterface pre \<and> \<not> validDecl pre d
    \<and> Validate (fl\<lparr>fi_decls := pre @ [d]\<rparr>) = Some e
    \<and> ident_tok i \<in> set (concat (map decl_toks (fi_decls fl)))
    \<and> er_span e = id_span i \<and> Text fl (er_span e) = Some (id_name i)
    \<and> er_pos e \<noteq> None \<and> er_filename e = name"
proof -
  let ?f = "NewFile name src"
  from assms(1) have toks: "codeTokens name src = concat (map decl_toks (fi_decls fl))"
    and tr: "source.truncate fl = ?f" by (simp_all add: Parse_grammar)
  have upd: "source.truncate (fl\<lparr>fi_decls := ds\<rparr>) = ?f" for ds
    using tr by (cases fl) (simp add: source.truncate_def)
  have same: "Text fl sp = Text ?f sp" for sp
    using tr by (cases fl) (auto simp: source.truncate_def NewFile_def Text_def)
  from assms(2) tr have loop: "declLoop ?f (fi_decls fl) newValidator = Inl e"
    by (simp add: Validate_def split: sum.splits)
  note dv = declLoop_valid [OF seenDecls_start validInterface_Nil, of "fi_decls fl" ?f "[]"]
  from loop dv have "\<not> validInterface (fi_decls fl)" by (auto split: if_splits)
  with loop dv obtain pre d post where split: "fi_decls fl = pre @ d # post" "validInterface pre"
    "\<not> validDecl pre d" "declLoop ?f (pre @ [d]) newValidator = Inl e" by auto
  from declLoop_atIdent [OF loop] obtain i m where
    i: "ident_tok i \<in> set (concat (map decl_toks (fi_decls fl)))" "e = mkError ?f (id_span i) m"
    by (auto simp: atIdent_def)
  from codeTokens_text [of "ident_tok i" name src] i(1) toks
  have tx: "sp_start (id_span i) \<le> length src" "Text ?f (id_span i) = Some (id_name i)"
    by (auto simp: lexeme_def)
  then have "er_span e = id_span i \<and> Text fl (er_span e) = Some (id_name i) \<and> er_pos e \<noteq> None \<and> er_filename e = name"
    by (simp add: i(2) mkError_def same Position_def NewFile_def Let_def)
  moreover have "Validate (fl\<lparr>fi_decls := pre @ [d]\<rparr>) = Some e"
    using split(4) upd by (simp add: Validate_def)
  ultimately show ?thesis using split(1-3) i(1) by blast
qed

theorem Validate_first_violation_witness:
  "\<exists>pre d post i. fi_decls sampleFile = pre @ d # post \<and> validInterface pre \<and> \<not> validDecl pre d
    \<and> Validate (sampleFile\<lparr>fi_decls := pre @ [d]\<rparr>) = Some sampleError
    \<and> ident_tok i \<in> set (concat (map decl_toks (fi_decls sampleFile)))
    \<and> er_span sampleError = id_span i \<and> Text sampleFile (er_span sampleError) = Some (id_name i)
    \<and> er_pos sampleError \<noteq> None \<and> er_filename sampleError = ''f''"
  by (rule Validate_first_violation [of "''f''" "''type a b;''"]; code_simp)

end
