(* ===== verification/Projection_Depth.thy ===== *)
theory Projection_Depth
  imports Validate
begin

text \<open>
  The strict projection ceiling of \<open>go/internal/tool/depth.go\<close> for interface files: the walk
  with its explicit stack, the memo of depths already walked and the names on the current
  path. For a valid interface it is the plain recursive descent through all references.
\<close>

section \<open>The walk\<close>

definition maxProjectionDepth :: nat where
  "maxProjectionDepth = 4096"

definition projectionDepthMessage :: "string \<Rightarrow> string" where
  "projectionDepthMessage w = w @ '' exceeds the strict Go projection depth limit of 4096 occurrences''"

text \<open>The diagnostic: the \<open>Error\<close> value with its message.\<close>

record depth_error =
  de_Filename :: string
  de_Pos :: "position option"
  de_Msg :: string

definition depthErrf :: "'a source_scheme \<Rightarrow> span \<Rightarrow> string \<Rightarrow> depth_error" where
  "depthErrf f sp msg = \<lparr>de_Filename = so_name f, de_Pos = Position f (sp_start sp), de_Msg = msg\<rparr>"

text \<open>
  \<open>st.types\<close> as an association list with the last declaration of a name first, \<open>st.maxWalked\<close>
  with 0 for a missing name, \<open>st.gray\<close>.
\<close>

record syntaxDepthState =
  ds_types :: "(string \<times> TypeExpr) list"
  ds_maxWalked :: "string \<Rightarrow> nat"
  ds_gray :: "string set"

datatype depthItem = SyntaxFrame TypeExpr nat string | SyntaxExit string

fun depthFrame :: "nat \<Rightarrow> string \<Rightarrow> Field \<Rightarrow> depthItem" where
  "depthFrame d ctx (Field dd i t semi) = SyntaxFrame t (d + 1) (fieldWhere (Field dd i t semi) ctx)"

definition enterNamed :: "string \<Rightarrow> nat \<Rightarrow> syntaxDepthState \<Rightarrow> syntaxDepthState" where
  "enterNamed n k st = st\<lparr>ds_maxWalked := (ds_maxWalked st)(n := k), ds_gray := insert n (ds_gray st)\<rparr>"

text \<open>What is left to do: how far the memo can rise, then the occurrences on the stack.\<close>

definition memoRoom :: "syntaxDepthState \<Rightarrow> nat" where
  "memoRoom st = (\<Sum>n \<in> fst ` set (ds_types st). maxProjectionDepth + 1 - ds_maxWalked st n)"

fun depthWork :: "depthItem \<Rightarrow> nat" where
  "depthWork (SyntaxFrame t d ctx) = typeWork t"
| "depthWork (SyntaxExit n) = 1"

lemma enterNamed_sel [simp]:
  "ds_types (enterNamed n k st) = ds_types st"
  "ds_maxWalked (enterNamed n k st) = (ds_maxWalked st)(n := k)"
  "ds_gray (enterNamed n k st) = insert n (ds_gray st)"
  by (simp_all add: enterNamed_def)

lemma memoRoom_enter:
  assumes "map_of (ds_types st) n = Some t" "d \<le> maxProjectionDepth" "\<not> Suc d \<le> ds_maxWalked st n"
  shows "memoRoom (enterNamed n (Suc d) st) < memoRoom st"
proof -
  have n: "n \<in> fst ` set (ds_types st)" using map_of_SomeD [OF assms(1)] by (rule rev_image_eqI) simp
  show ?thesis
    unfolding memoRoom_def enterNamed_sel
    by (rule sum_strict_mono_ex1) (use assms(2,3) n in \<open>auto intro!: bexI [OF _ n]\<close>)
qed

lemma depthFrame_work: "depthWork (depthFrame d ctx fld) \<le> fieldWork fld"
  by (cases fld) simp

lemma fields_work: "sum_list (map (\<lambda>fld. depthWork (depthFrame d ctx fld)) fs) < Suc (Suc (sum_list (map fieldWork fs)))"
  using sum_list_mono [of fs "\<lambda>fld. depthWork (depthFrame d ctx fld)" fieldWork, OF depthFrame_work] by simp

lemma memoRoom_gray [simp]: "memoRoom (st\<lparr>ds_gray := g\<rparr>) = memoRoom st"
  by (simp add: memoRoom_def)

function depthWalk ::
  "'a source_scheme \<Rightarrow> syntaxDepthState \<Rightarrow> depthItem list \<Rightarrow> depth_error option \<times> syntaxDepthState" where
  "depthWalk f st [] = (None, st)"
| "depthWalk f st (SyntaxExit n # stack) = depthWalk f (st\<lparr>ds_gray := ds_gray st - {n}\<rparr>) stack"
| "depthWalk f st (SyntaxFrame t d ctx # stack) =
     (if maxProjectionDepth < d then (Some (depthErrf f (typeSpan t) (projectionDepthMessage ctx)), st)
      else case t of
        PrimType dd k sp \<Rightarrow> depthWalk f st stack
      | NamedType dd i \<Rightarrow>
          (case map_of (ds_types st) (id_name i) of
             None \<Rightarrow> depthWalk f st stack
           | Some u \<Rightarrow>
               if id_name i \<in> ds_gray st then (None, st)
               else if d + 1 \<le> ds_maxWalked st (id_name i) then depthWalk f st stack
               else depthWalk f (enterNamed (id_name i) (d + 1) st)
                      (SyntaxFrame u (d + 1) (''type '' @ id_name i) # SyntaxExit (id_name i) # stack))
      | ListType dd ls e \<Rightarrow> depthWalk f st (SyntaxFrame e (d + 1) ctx # stack)
      | RecordType dd rs lb fs rb \<Rightarrow> depthWalk f st (map (depthFrame d ctx) fs @ stack))"
  by pat_completeness auto
termination
  by (relation "measures [\<lambda>(f, st, stack). memoRoom st, \<lambda>(f, st, stack). sum_list (map depthWork stack)]")
     (auto simp: fields_work comp_def intro: memoRoom_enter)

declare depthWalk.simps [simp del]

section \<open>The check of a file\<close>

text \<open>The type declarations by name, the last one of a name first.\<close>

fun typeTable :: "Decl list \<Rightarrow> (string \<times> TypeExpr) list" where
  "typeTable [] = []"
| "typeTable (TypeDecl d kw i t semi # ds) = typeTable ds @ [(id_name i, t)]"
| "typeTable (d # ds) = typeTable ds"

text \<open>The roots of one declaration with their contexts, in the order they are walked.\<close>

fun depthRoots :: "Decl \<Rightarrow> (TypeExpr \<times> string) list" where
  "depthRoots (TypeDecl d kw i t semi) = [(t, ''type '' @ id_name i)]"
| "depthRoots (ExceptionDecl d kw i ot semi) =
     (case ot of None \<Rightarrow> [] | Some t \<Rightarrow> [(t, ''exception '' @ id_name i)])"
| "depthRoots (ProcDecl d kw i lb ps rb res semi) =
     map (\<lambda>p. (paramType p, ''parameter '' @ quoted (id_name (paramName p)) @ '' of procedure '' @ id_name i)) ps
       @ (case res of None \<Rightarrow> [] | Some t \<Rightarrow> [(t, ''return type of procedure '' @ id_name i)])"

fun walkRoots :: "'a source_scheme \<Rightarrow> syntaxDepthState \<Rightarrow> (TypeExpr \<times> string) list \<Rightarrow> depth_error option" where
  "walkRoots f st [] = None"
| "walkRoots f st ((t, ctx) # roots) =
     (case depthWalk f st [SyntaxFrame t 1 ctx] of
        (Some e, st') \<Rightarrow> Some e
      | (None, st') \<Rightarrow> walkRoots f st' roots)"

definition checkSyntaxProjectionDepth :: "'a ifile_scheme \<Rightarrow> depth_error option" where
  "checkSyntaxProjectionDepth fl =
     walkRoots fl \<lparr>ds_types = typeTable (fi_decls fl), ds_maxWalked = (\<lambda>_. 0), ds_gray = {}\<rparr>
       (concat (map depthRoots (fi_decls fl)))"

section \<open>The recursive descent\<close>

type_synonym type_env = "(string \<times> TypeExpr) list"

text \<open>A declaration by name, with the declarations before it.\<close>

fun lookupBefore :: "type_env \<Rightarrow> string \<Rightarrow> (TypeExpr \<times> type_env) option" where
  "lookupBefore [] n = None"
| "lookupBefore ((m, t) # env) n = (if m = n then Some (t, env) else lookupBefore env n)"

lemma lookupBefore_length: "lookupBefore env n = Some (t, env') \<Longrightarrow> length env' < length env"
  by (induction env n rule: lookupBefore.induct) (auto split: if_splits)

text \<open>The first occurrence below a root that is too deep, every reference followed.\<close>

function firstOver :: "'a source_scheme \<Rightarrow> type_env \<Rightarrow> nat \<Rightarrow> string \<Rightarrow> TypeExpr \<Rightarrow> depth_error option"
and firstOverFields :: "'a source_scheme \<Rightarrow> type_env \<Rightarrow> nat \<Rightarrow> string \<Rightarrow> Field list \<Rightarrow> depth_error option" where
  "firstOver f env d ctx t =
     (if maxProjectionDepth < d then Some (depthErrf f (typeSpan t) (projectionDepthMessage ctx))
      else case t of
        PrimType dd k sp \<Rightarrow> None
      | NamedType dd i \<Rightarrow>
          (case lookupBefore env (id_name i) of
             None \<Rightarrow> None
           | Some (u, env') \<Rightarrow> firstOver f env' (d + 1) (''type '' @ id_name i) u)
      | ListType dd ls e \<Rightarrow> firstOver f env (d + 1) ctx e
      | RecordType dd rs lb fs rb \<Rightarrow> firstOverFields f env d ctx fs)"
| "firstOverFields f env d ctx [] = None"
| "firstOverFields f env d ctx (fld # fs) =
     (case firstOver f env (d + 1) (fieldWhere fld ctx) (fieldType fld) of
        Some e \<Rightarrow> Some e
      | None \<Rightarrow> firstOverFields f env d ctx fs)"
  by pat_completeness auto
termination
  by (relation "measures [\<lambda>x. case x of Inl (f, env, d, ctx, t) \<Rightarrow> length env | Inr (f, env, d, ctx, fs) \<Rightarrow> length env,
        \<lambda>x. case x of Inl (f, env, d, ctx, t) \<Rightarrow> typeWork t | Inr (f, env, d, ctx, fs) \<Rightarrow> Suc (sum_list (map fieldWork fs))]")
     (auto simp: lookupBefore_length fieldWork_type)

declare firstOver.simps [simp del]

text \<open>The resolved depth of a type.\<close>

function depthOf :: "type_env \<Rightarrow> TypeExpr \<Rightarrow> nat" and fieldsDepth :: "type_env \<Rightarrow> Field list \<Rightarrow> nat" where
  "depthOf env t =
     1 + (case t of
        PrimType dd k sp \<Rightarrow> 0
      | NamedType dd i \<Rightarrow>
          (case lookupBefore env (id_name i) of None \<Rightarrow> 0 | Some (u, env') \<Rightarrow> depthOf env' u)
      | ListType dd ls e \<Rightarrow> depthOf env e
      | RecordType dd rs lb fs rb \<Rightarrow> fieldsDepth env fs)"
| "fieldsDepth env [] = 0"
| "fieldsDepth env (fld # fs) = max (depthOf env (fieldType fld)) (fieldsDepth env fs)"
  by pat_completeness auto
termination
  by (relation "measures [\<lambda>x. case x of Inl (env, t) \<Rightarrow> length env | Inr (env, fs) \<Rightarrow> length env,
        \<lambda>x. case x of Inl (env, t) \<Rightarrow> typeWork t | Inr (env, fs) \<Rightarrow> Suc (sum_list (map fieldWork fs))]")
     (auto simp: lookupBefore_length fieldWork_type)

declare depthOf.simps [simp del]

lemma depthOf_pos: "0 < depthOf env t"
  by (simp add: depthOf.simps)

lemma firstOver_iff:
  "firstOver f env d ctx t = None \<longleftrightarrow> d + depthOf env t \<le> maxProjectionDepth + 1"
  "d \<le> maxProjectionDepth \<Longrightarrow>
   firstOverFields f env d ctx fs = None \<longleftrightarrow> d + 1 + fieldsDepth env fs \<le> maxProjectionDepth + 1"
proof (induction f env d ctx t and f env d ctx fs rule: firstOver_firstOverFields.induct)
  case (1 f env d ctx t)
  show ?case
  proof (cases "maxProjectionDepth < d")
    case True
    with depthOf_pos [of env t] show ?thesis by (simp add: firstOver.simps)
  next
    case False
    with 1 show ?thesis
      by (subst firstOver.simps, subst depthOf.simps) (auto split: TypeExpr.splits option.splits)
  qed
next
  case (3 f env d ctx fld fs)
  then show ?case by (auto split: option.splits)
qed simp

section \<open>The walk is the descent\<close>

text \<open>Environments as a valid interface has them: distinct names, references to earlier ones.\<close>

fun scopedEnv :: "type_env \<Rightarrow> bool" where
  "scopedEnv [] \<longleftrightarrow> True"
| "scopedEnv ((n, t) # env) \<longleftrightarrow> n \<notin> fst ` set env \<and> typeNames t \<subseteq> fst ` set env \<and> scopedEnv env"

lemma lookupBefore_split: "lookupBefore env n = Some (t, env') \<Longrightarrow> \<exists>pre. env = pre @ (n, t) # env' \<and> n \<notin> fst ` set pre"
proof (induction env n rule: lookupBefore.induct)
  case (2 m u env n)
  show ?case
  proof (cases "m = n")
    case False
    with 2 obtain pre where "env = pre @ (n, t) # env' \<and> n \<notin> fst ` set pre" by auto
    with False show ?thesis by (intro exI [of _ "(m, u) # pre"]) auto
  qed (use 2 in auto)
qed simp

lemma scopedEnv_suffix: "scopedEnv (pre @ env) \<Longrightarrow> scopedEnv env"
  by (induction pre) auto

lemma scopedEnv_disjoint: "scopedEnv (pre @ env) \<Longrightarrow> n \<in> fst ` set env \<Longrightarrow> n \<notin> fst ` set pre"
proof (induction pre)
  case (Cons x pre)
  then show ?case by (cases x) (auto simp: image_Un)
qed simp

lemma lookupBefore_names: "n \<in> fst ` set env \<Longrightarrow> \<exists>t env'. lookupBefore env n = Some (t, env')"
  by (induction env n rule: lookupBefore.induct) auto

lemma lookupBefore_skip: "n \<notin> fst ` set pre \<Longrightarrow> lookupBefore (pre @ env) n = lookupBefore env n"
  by (induction pre) auto

lemma lookupBefore_table: "lookupBefore env n = Some (t, env') \<Longrightarrow> map_of env n = Some t"
  by (induction env n rule: lookupBefore.induct) (auto split: if_splits)

text \<open>What a finished entry of the memo promises: the whole subtree fits at that depth.\<close>

definition memoOK :: "type_env \<Rightarrow> syntaxDepthState \<Rightarrow> bool" where
  "memoOK E st \<longleftrightarrow> (\<forall>n u env. lookupBefore E n = Some (u, env) \<longrightarrow> n \<notin> ds_gray st \<longrightarrow>
     ds_maxWalked st n \<noteq> 0 \<longrightarrow> ds_maxWalked st n + depthOf env u \<le> maxProjectionDepth + 1)"

definition sameOutside :: "syntaxDepthState \<Rightarrow> syntaxDepthState \<Rightarrow> bool" where
  "sameOutside st st' \<longleftrightarrow> ds_types st' = ds_types st \<and> ds_gray st' = ds_gray st
     \<and> (\<forall>n \<in> ds_gray st. ds_maxWalked st' n = ds_maxWalked st n)"

lemma sameOutside_refl [simp]: "sameOutside st st"
  by (simp add: sameOutside_def)

lemma sameOutside_trans: "sameOutside st st' \<Longrightarrow> sameOutside st' st'' \<Longrightarrow> sameOutside st st''"
  by (simp add: sameOutside_def)

text \<open>A piece of work on the stack that reports \<open>r\<close>, or is done with and leaves the rest.\<close>

definition walkDone ::
  "'a source_scheme \<Rightarrow> type_env \<Rightarrow> syntaxDepthState \<Rightarrow> depthItem list \<Rightarrow> depthItem list \<Rightarrow> depth_error option \<Rightarrow> bool"
where
  "walkDone f E st work stack r \<longleftrightarrow>
     (case r of
        Some e \<Rightarrow> fst (depthWalk f st (work @ stack)) = Some e
      | None \<Rightarrow> \<exists>st'. depthWalk f st (work @ stack) = depthWalk f st' stack \<and> memoOK E st' \<and> sameOutside st st')"

lemma walkDone_here:
  "memoOK E st \<Longrightarrow> depthWalk f st (work @ stack) = depthWalk f st stack \<Longrightarrow> walkDone f E st work stack None"
  unfolding walkDone_def by auto

lemma walkDone_step:
  "depthWalk f st (work @ stack) = depthWalk f st (work' @ stack) \<Longrightarrow>
   walkDone f E st work stack r = walkDone f E st work' stack r"
  by (simp only: walkDone_def)

lemma walkDone_append:
  assumes "walkDone f E st work (work' @ stack) r"
    "\<And>st'. r = None \<Longrightarrow> memoOK E st' \<Longrightarrow> sameOutside st st' \<Longrightarrow> walkDone f E st' work' stack r'"
  shows "walkDone f E st (work @ work') stack (case r of Some e \<Rightarrow> Some e | None \<Rightarrow> r')"
proof (cases r)
  case None
  with assms(1) obtain st' where st': "depthWalk f st (work @ work' @ stack) = depthWalk f st' (work' @ stack)"
    "memoOK E st'" "sameOutside st st'" by (auto simp: walkDone_def)
  with assms(2) [OF None st'(2,3)] None show ?thesis
    by (auto simp: walkDone_def split: option.splits intro: sameOutside_trans)
qed (use assms(1) in \<open>simp add: walkDone_def\<close>)

lemma memoOK_enter: "memoOK E st \<Longrightarrow> memoOK E (enterNamed n k st)"
  by (auto simp: memoOK_def)

lemma walkDone_named:
  assumes inner: "walkDone f E (enterNamed n (Suc d) st) [SyntaxFrame u (Suc d) w] (SyntaxExit n # stack) r"
    and step: "depthWalk f st (work @ stack)
      = depthWalk f (enterNamed n (Suc d) st) (SyntaxFrame u (Suc d) w # SyntaxExit n # stack)"
    and fits: "r = None \<Longrightarrow> Suc d + depthOf env' u \<le> maxProjectionDepth + 1"
    and n: "n \<notin> ds_gray st" "lookupBefore E n = Some (u, env')"
  shows "walkDone f E st work stack r"
proof (cases r)
  case None
  with inner obtain st' where st': "memoOK E st'" "sameOutside (enterNamed n (Suc d) st) st'"
    "depthWalk f (enterNamed n (Suc d) st) (SyntaxFrame u (Suc d) w # SyntaxExit n # stack)
      = depthWalk f st' (SyntaxExit n # stack)"
    by (auto simp: walkDone_def)
  let ?st = "st'\<lparr>ds_gray := ds_gray st' - {n}\<rparr>"
  from st'(2) n(1) have "sameOutside st ?st" "ds_maxWalked st' n = Suc d"
    by (auto simp: sameOutside_def)
  moreover from this st'(1) fits [OF None] n(2) have "memoOK E ?st" by (auto simp: memoOK_def)
  ultimately show ?thesis using None step st'(3)
    by (auto simp: walkDone_def depthWalk.simps intro!: exI [of _ ?st])
qed (use inner step in \<open>simp add: walkDone_def\<close>)

lemma depthFrame_split: "depthFrame d ctx fld = SyntaxFrame (fieldType fld) (d + 1) (fieldWhere fld ctx)"
  by (cases fld) simp

lemma fieldNames_type: "fieldNames fld = typeNames (fieldType fld)"
  by (cases fld) simp

lemma depthWalk_firstOver:
  fixes E :: type_env
  assumes E: "scopedEnv E"
  shows "\<And>pre st stack. E = pre @ env \<Longrightarrow> typeNames t \<subseteq> fst ` set env \<Longrightarrow> ds_types st = E \<Longrightarrow>
      ds_gray st \<inter> fst ` set env = {} \<Longrightarrow> memoOK E st \<Longrightarrow>
      walkDone f E st [SyntaxFrame t d ctx] stack (firstOver f env d ctx t)"
    and "\<And>pre st stack. E = pre @ env \<Longrightarrow> \<Union> (fieldNames ` set fs) \<subseteq> fst ` set env \<Longrightarrow> ds_types st = E \<Longrightarrow>
      ds_gray st \<inter> fst ` set env = {} \<Longrightarrow> memoOK E st \<Longrightarrow>
      walkDone f E st (map (depthFrame d ctx) fs) stack (firstOverFields f env d ctx fs)"
proof (induction f env d ctx t and f env d ctx fs rule: firstOver_firstOverFields.induct)
  case (1 f env d ctx t)
  show ?case
  proof (cases "maxProjectionDepth < d")
    case True
    then show ?thesis by (simp add: walkDone_def firstOver.simps depthWalk.simps)
  next
    case False
    note IH = 1(1-3) [OF False] and prems = 1(4-8)
    show ?thesis
    proof (cases t)
      case (PrimType dd k sp)
      with False prems show ?thesis by (auto simp: firstOver.simps depthWalk.simps intro: walkDone_here)
    next
      case (ListType dd ls e)
      have "depthWalk f st ([SyntaxFrame t d ctx] @ stack) = depthWalk f st ([SyntaxFrame e (d + 1) ctx] @ stack)"
        using False ListType by (simp add: depthWalk.simps)
      from walkDone_step [OF this] IH(2) [OF ListType prems(1) _ prems(3-5), of stack] False ListType prems(2)
      show ?thesis by (simp add: firstOver.simps)
    next
      case (RecordType dd rs lb fs rb)
      have "depthWalk f st ([SyntaxFrame t d ctx] @ stack) = depthWalk f st (map (depthFrame d ctx) fs @ stack)"
        using False RecordType by (simp add: depthWalk.simps)
      from walkDone_step [OF this] IH(3) [OF RecordType prems(1) _ prems(3-5), of stack] False RecordType prems(2)
      show ?thesis by (simp add: firstOver.simps)
    next
      case (NamedType dd i)
      let ?n = "id_name i"
      from NamedType prems(2) have n: "?n \<in> fst ` set env" by simp
      then obtain u env' where u: "lookupBefore env ?n = Some (u, env')" using lookupBefore_names by blast
      from E prems(1) n have "?n \<notin> fst ` set pre" by (simp add: scopedEnv_disjoint)
      with u prems(1) have uE: "lookupBefore E ?n = Some (u, env')" by (simp add: lookupBefore_skip)
      then have table: "map_of (ds_types st) ?n = Some u" using prems(3) by (simp add: lookupBefore_table)
      from n prems(4) have gray: "?n \<notin> ds_gray st" by auto
      from False NamedType u have over: "firstOver f env d ctx t = firstOver f env' (d + 1) (''type '' @ ?n) u"
        by (subst firstOver.simps) simp
      show ?thesis
      proof (cases "d + 1 \<le> ds_maxWalked st ?n")
        case True
        with prems(5) uE gray have "d + 1 + depthOf env' u \<le> maxProjectionDepth + 1"
          by (fastforce simp: memoOK_def)
        then have "firstOver f env d ctx t = None" by (simp only: over firstOver_iff)
        with True False NamedType table gray prems(5) show ?thesis
          by (auto simp: depthWalk.simps intro: walkDone_here)
      next
        case False': False
        from lookupBefore_split [OF u] obtain mid where mid: "env = mid @ (?n, u) # env'" by blast
        with E prems(1) have "scopedEnv ((?n, u) # env')" using scopedEnv_suffix [of "pre @ mid" "(?n, u) # env'"] by simp
        then have sc: "typeNames u \<subseteq> fst ` set env'" "?n \<notin> fst ` set env'" by auto
        have "walkDone f E (enterNamed ?n (Suc d) st) [SyntaxFrame u (d + 1) (''type '' @ ?n)]
          (SyntaxExit ?n # stack) (firstOver f env' (d + 1) (''type '' @ ?n) u)"
          by (rule IH(1) [OF NamedType u refl, of "pre @ mid @ [(?n, u)]"])
            (use sc mid prems in \<open>auto simp: memoOK_enter\<close>)
        then have "walkDone f E (enterNamed ?n (Suc d) st) [SyntaxFrame u (Suc d) (''type '' @ ?n)]
          (SyntaxExit ?n # stack) (firstOver f env d ctx t)"
          by (simp only: over Suc_eq_plus1)
        moreover have "Suc d + depthOf env' u \<le> maxProjectionDepth + 1" if "firstOver f env d ctx t = None"
          using that by (simp only: over firstOver_iff(1) Suc_eq_plus1)
        moreover have "depthWalk f st ([SyntaxFrame t d ctx] @ stack) = depthWalk f (enterNamed ?n (Suc d) st)
          (SyntaxFrame u (Suc d) (''type '' @ ?n) # SyntaxExit ?n # stack)"
          using False False' NamedType table gray by (simp add: depthWalk.simps)
        ultimately show ?thesis by (intro walkDone_named [OF _ _ _ gray uE])
      qed
    qed
  qed
next
  case (2 f env d ctx)
  then show ?case by (auto intro: walkDone_here)
next
  case (3 f env d ctx fld fs)
  have "walkDone f E st ([depthFrame d ctx fld] @ map (depthFrame d ctx) fs) stack
    (case firstOver f env (d + 1) (fieldWhere fld ctx) (fieldType fld) of Some e \<Rightarrow> Some e
      | None \<Rightarrow> firstOverFields f env d ctx fs)"
  proof (rule walkDone_append)
    show "walkDone f E st [depthFrame d ctx fld] (map (depthFrame d ctx) fs @ stack)
      (firstOver f env (d + 1) (fieldWhere fld ctx) (fieldType fld))"
      using 3 by (simp add: depthFrame_split fieldNames_type)
  next
    fix st' assume "firstOver f env (d + 1) (fieldWhere fld ctx) (fieldType fld) = None"
      "memoOK E st'" "sameOutside st st'"
    then show "walkDone f E st' (map (depthFrame d ctx) fs) stack (firstOverFields f env d ctx fs)"
      using 3 by (auto simp: sameOutside_def)
  qed
  then show ?case by simp
qed

section \<open>The check of a valid file\<close>

fun firstRoot :: "'a source_scheme \<Rightarrow> type_env \<Rightarrow> (TypeExpr \<times> string) list \<Rightarrow> depth_error option" where
  "firstRoot f env [] = None"
| "firstRoot f env ((t, ctx) # roots) =
     (case firstOver f env 1 ctx t of Some e \<Rightarrow> Some e | None \<Rightarrow> firstRoot f env roots)"

lemma firstRoot_iff:
  "firstRoot f env roots = None \<longleftrightarrow> (\<forall>t \<in> fst ` set roots. depthOf env t \<le> maxProjectionDepth)"
  proof (induction f env roots rule: firstRoot.induct)
  case (2 f env t ctx roots)
  with firstOver_iff(1) [of f env 1 ctx t] show ?case by (cases "firstOver f env 1 ctx t") auto
qed simp

lemma walkRoots_first:
  "scopedEnv E \<Longrightarrow> (\<forall>t \<in> fst ` set roots. typeNames t \<subseteq> fst ` set E) \<Longrightarrow> ds_types st = E \<Longrightarrow> ds_gray st = {} \<Longrightarrow>
   memoOK E st \<Longrightarrow> walkRoots f st roots = firstRoot f E roots"
proof (induction f st roots rule: walkRoots.induct)
  case (2 f st t ctx roots)
  then have "walkDone f E st [SyntaxFrame t 1 ctx] [] (firstOver f E 1 ctx t)"
    by (intro depthWalk_firstOver(1) [where pre = "[]"]) auto
  with 2 show ?case
    by (auto simp: walkDone_def sameOutside_def depthWalk.simps split: option.splits prod.splits)
qed simp

lemma typeTable_append: "typeTable (ds @ ds') = typeTable ds' @ typeTable ds"
proof (induction ds)
  case (Cons d ds)
  then show ?case by (cases d) auto
qed simp

lemma typeTable_names: "fst ` set (typeTable ds) = typeDeclNames ds"
proof (induction ds)
  case (Cons d ds)
  then show ?case by (cases d) (auto simp: typeDeclNames_def declaredName_def)
qed (simp add: typeDeclNames_def)

lemma depthRoots_types: "fst ` set (depthRoots d) = set (declTypes d)"
proof -
  have "map fst (depthRoots d) = declTypes d" by (cases d) (simp_all add: comp_def split: option.split)
  from this [symmetric] show ?thesis by simp
qed

lemma typeDeclNames_sub: "typeDeclNames ds \<subseteq> declaredName ` set ds"
  by (auto simp: typeDeclNames_def)

lemma valid_scoped:
  "validInterface ds \<Longrightarrow> scopedEnv (typeTable ds)
     \<and> (\<forall>t \<in> fst ` set (concat (map depthRoots ds)). typeNames t \<subseteq> typeDeclNames ds)"
proof (induction ds rule: rev_induct)
  case (snoc d ds)
  then have ih: "scopedEnv (typeTable ds)" "\<forall>t \<in> fst ` set (concat (map depthRoots ds)). typeNames t \<subseteq> typeDeclNames ds"
    and d: "validDecl ds d" by (auto simp: validInterface_snoc)
  have names: "typeDeclNames (ds @ [d]) = typeDeclNames [d] \<union> typeDeclNames ds"
    by (auto simp: typeDeclNames_def)
  from d have new: "\<forall>t \<in> set (declTypes d). typeNames t \<subseteq> typeDeclNames ds" "declaredName d \<notin> typeDeclNames ds"
    using typeDeclNames_sub by (auto simp: validDecl_def validType_def)
  have "scopedEnv (typeTable (ds @ [d]))"
    using ih(1) new by (cases d) (auto simp: typeTable_append typeTable_names declaredName_def)
  moreover have "\<forall>t \<in> fst ` set (concat (map depthRoots (ds @ [d]))). typeNames t \<subseteq> typeDeclNames (ds @ [d])"
  proof
    fix t assume "t \<in> fst ` set (concat (map depthRoots (ds @ [d])))"
    then have "t \<in> fst ` set (concat (map depthRoots ds)) \<or> t \<in> set (declTypes d)"
      by (simp add: image_Un depthRoots_types)
    with ih(2) new(1) show "typeNames t \<subseteq> typeDeclNames (ds @ [d])" unfolding names by blast
  qed
  ultimately show ?case by blast
qed simp

lemma check_firstRoot:
  assumes "Validate fl = None"
  shows "checkSyntaxProjectionDepth fl
    = firstRoot fl (typeTable (fi_decls fl)) (concat (map depthRoots (fi_decls fl)))"
proof -
  from assms have "validInterface (fi_decls fl)" by (simp add: Validate_valid)
  from valid_scoped [OF this] show ?thesis
    unfolding checkSyntaxProjectionDepth_def
    by (intro walkRoots_first) (auto simp: memoOK_def typeTable_names)
qed

text \<open>
  C18. The explicit work stack of \<open>checkSyntaxProjectionDepth\<close>, with its memo of depths already
  walked and its abort on recursive graphs, changes nothing on a validated interface: the check
  always ends and reports exactly what the plain recursive descent reports that follows every
  named reference from every root in declaration order, the same first occurrence at the same
  position with the same context.
\<close>

theorem checkSyntaxProjectionDepth_descent:
  assumes "Validate fl = None"
  shows "checkSyntaxProjectionDepth fl
    = firstRoot fl (typeTable (fi_decls fl)) (concat (map depthRoots (fi_decls fl)))"
  using assms by (rule check_firstRoot)

definition depthSample :: ifile where
  "depthSample = \<lparr>so_name = ''f'', so_size = 26, so_src = ''type a int8;type b list a;'', so_lines = [0],
     fi_decls =
       [TypeDecl [] (Span 0 4) \<lparr>id_name = ''a'', id_span = Span 5 6\<rparr> (PrimType [] TokInt8 (Span 7 11)) (Span 11 12),
        TypeDecl [] (Span 12 16) \<lparr>id_name = ''b'', id_span = Span 17 18\<rparr>
          (ListType [] (Span 19 23) (NamedType [] \<lparr>id_name = ''a'', id_span = Span 24 25\<rparr>)) (Span 25 26)],
     fi_comments = []\<rparr>"

theorem checkSyntaxProjectionDepth_descent_witness:
  "checkSyntaxProjectionDepth depthSample
    = firstRoot depthSample (typeTable (fi_decls depthSample)) (concat (map depthRoots (fi_decls depthSample)))"
  by (rule checkSyntaxProjectionDepth_descent) code_simp

text \<open>
  C17. The depth preflight decides the native ceiling: it accepts a validated interface exactly
  when the resolved type of every declaration, payload, parameter and result, with each named
  reference expanded, nests at most 4096 occurrences deep.
\<close>

theorem checkSyntaxProjectionDepth_ceiling:
  assumes "Validate fl = None"
  shows "checkSyntaxProjectionDepth fl = None \<longleftrightarrow>
    (\<forall>d \<in> set (fi_decls fl). \<forall>t \<in> set (declTypes d). depthOf (typeTable (fi_decls fl)) t \<le> 4096)"
proof -
  have "fst ` set (concat (map depthRoots ds)) = \<Union> (set ` declTypes ` set ds)" for ds
    by (auto simp: image_UN simp flip: depthRoots_types)
  then show ?thesis by (simp add: check_firstRoot [OF assms] firstRoot_iff maxProjectionDepth_def)
qed

theorem checkSyntaxProjectionDepth_ceiling_witness: "checkSyntaxProjectionDepth depthSample = None"
proof -
  have "Validate depthSample = None" by code_simp
  moreover have "\<forall>d \<in> set (fi_decls depthSample). \<forall>t \<in> set (declTypes d).
    depthOf (typeTable (fi_decls depthSample)) t \<le> 4096" by code_simp
  ultimately show ?thesis using checkSyntaxProjectionDepth_ceiling [of depthSample] by blast
qed

end
