(* ===== verification/Runtime_Errors.thy ===== *)
theory Runtime_Errors
  imports Prelude
begin

text \<open>
  The error values of the runtime: \<open>go/errors.go\<close>, the private classifications of
  \<open>go/write.go\<close> and \<open>go/negotiate.go\<close>, and the standard-library errors the runtime
  compares against. An error built by \<open>fmt.Errorf\<close> with a \<open>%w\<close> verb keeps the format
  literal, its integer arguments and the wrapped error, so \<open>errors.Is\<close> walks the same
  chain as in Go without rendering the text.
\<close>

datatype go_error =
    Sentinel string
  | Errorf string "int list" go_error
  | IoEOF
  | IoUnexpectedEOF
  | IoClosedPipe
  | ContextCanceled
  | ContextDeadlineExceeded
  | ForeignError nat

type_synonym 'a result = "go_error + 'a"

definition ErrInvalidArgument :: go_error where
  "ErrInvalidArgument = Sentinel ''intercall: invalid argument''"

definition ErrNoConnection :: go_error where
  "ErrNoConnection = Sentinel ''intercall: no connection''"

definition ErrBindingMismatch :: go_error where
  "ErrBindingMismatch = Sentinel ''intercall: binding mismatch''"

definition ErrClosed :: go_error where
  "ErrClosed = Sentinel ''intercall: connection closed''"

definition ErrRequestIDsExhausted :: go_error where
  "ErrRequestIDsExhausted = Sentinel ''intercall: request IDs exhausted''"

definition ErrProtocol :: go_error where
  "ErrProtocol = Sentinel ''intercall: protocol error''"

definition ErrInterfaceMismatch :: go_error where
  "ErrInterfaceMismatch = Sentinel ''intercall: interface mismatch''"

definition ErrProcedureNotFound :: go_error where
  "ErrProcedureNotFound = Sentinel ''procedure_not_found''"

definition ErrInvalidArguments :: go_error where
  "ErrInvalidArguments = Sentinel ''invalid_arguments''"

definition ErrInternalException :: go_error where
  "ErrInternalException = Sentinel ''internal_exception''"

definition errInvalidWriteCount :: go_error where
  "errInvalidWriteCount = Sentinel ''intercall: invalid stream write count''"

definition errWriteNoProgress :: go_error where
  "errWriteNoProgress = Sentinel ''intercall: frame write made no progress''"

definition errSetupInvalidWriteCount :: go_error where
  "errSetupInvalidWriteCount = Sentinel ''intercall: invalid setup write count''"

definition errSetupWriteNoProgress :: go_error where
  "errSetupWriteNoProgress = Sentinel ''intercall: setup write made no progress''"

definition errSetupInvalidReadCount :: go_error where
  "errSetupInvalidReadCount = Sentinel ''intercall: invalid setup read count''"

definition errSetupReadNoProgress :: go_error where
  "errSetupReadNoProgress = Sentinel ''intercall: setup read made no progress''"

lemmas sentinel_defs =
  ErrInvalidArgument_def ErrNoConnection_def ErrBindingMismatch_def ErrClosed_def
  ErrRequestIDsExhausted_def ErrProtocol_def ErrInterfaceMismatch_def
  ErrProcedureNotFound_def ErrInvalidArguments_def ErrInternalException_def
  errInvalidWriteCount_def errWriteNoProgress_def errSetupInvalidWriteCount_def
  errSetupWriteNoProgress_def errSetupInvalidReadCount_def errSetupReadNoProgress_def

text \<open>\<open>errors.Is\<close>: compare along the chain of wrapped errors.\<close>

fun errors_is :: "go_error \<Rightarrow> go_error \<Rightarrow> bool" where
  "errors_is (Errorf f args e) t = (Errorf f args e = t \<or> errors_is e t)"
| "errors_is e t = (e = t)"

lemma errors_is_refl [simp]: "errors_is e e"
  by (cases e) auto

lemma errors_is_wrap [simp]: "errors_is e t \<Longrightarrow> errors_is (Errorf f args e) t"
  by simp

text \<open>A sentinel is only ever itself: no two of them are confused by \<open>errors.Is\<close>.\<close>

lemma errors_is_sentinel [simp]: "errors_is (Sentinel a) (Sentinel b) = (a = b)"
  by simp

end
