(* ===== verification/Wire_Codec.thy ===== *)
theory Wire_Codec
  imports Runtime_Errors Scanner
begin

text \<open>
  The value codecs every generated binding carries for the twelve primitive types, as emitted
  by \<open>emitPrimPair\<close> of \<open>go/internal/tool/codec.go\<close> and checked in as
  \<open>go/internal/tool/importfixture/binding_gen.go\<close>, and the contract of a codec pair: a locale
  whose laws are the round trip, exactness of the decoder and owned appending, closed under
  records, lists and defined types.

  A signed integer is its two's-complement word, with Go's arithmetic shift. A float is its
  IEEE 754 bit pattern (\<open>math.Float32bits\<close>), so that \<open>v != v\<close> is a condition on the bits. A
  Go string is a \<open>string\<close>. A failed encoder or decoder returns its error; the zero values it
  returns beside the error are not looked at by any caller.
\<close>

section \<open>Results\<close>

definition andThen :: "'a result \<Rightarrow> ('a \<Rightarrow> 'b result) \<Rightarrow> 'b result" where
  "andThen r k = (case r of Inl e \<Rightarrow> Inl e | Inr v \<Rightarrow> k v)"

lemma andThen_simps [simp]: "andThen (Inl e) k = Inl e" "andThen (Inr v) k = k v"
  by (simp_all add: andThen_def)

lemma andThen_Inr: "andThen r k = Inr y \<longleftrightarrow> (\<exists>v. r = Inr v \<and> k v = Inr y)"
  by (cases r) simp_all

lemma andThen_assoc [simp]: "andThen (andThen r f) g = andThen r (\<lambda>v. andThen (f v) g)"
  by (cases r) simp_all

lemma andThen_return [simp]: "andThen r Inr = r" "andThen q (\<lambda>(v, src). Inr (v, src)) = q"
  by (cases r; cases q; simp)+

section \<open>Primitive codecs\<close>

definition errTruncated :: go_error where
  "errTruncated = Sentinel ''intercall: truncated wire value''"

definition errLength :: go_error where
  "errLength = Sentinel ''intercall: wire length exceeds available bytes''"

definition errNaN :: go_error where
  "errNaN = Sentinel ''intercall: noncanonical NaN bit pattern''"

definition errUTF8 :: go_error where
  "errUTF8 = Sentinel ''intercall: string is not valid UTF-8''"

definition maxInt :: nat where
  "maxInt = 2 ^ 63 - 1"

definition enc_int8 :: "bytes \<Rightarrow> 8 word \<Rightarrow> bytes result" where
  "enc_int8 buf v = Inr (buf @ [ucast v])"

definition dec_int8 :: "bytes \<Rightarrow> (8 word \<times> bytes) result" where
  "dec_int8 src = (if length src < 1 then Inl errTruncated else Inr (ucast (src ! 0), drop 1 src))"

definition enc_int16 :: "bytes \<Rightarrow> 16 word \<Rightarrow> bytes result" where
  "enc_int16 buf v = Inr (buf @ [ucast v, ucast (signed_drop_bit 8 v)])"

definition dec_int16 :: "bytes \<Rightarrow> (16 word \<times> bytes) result" where
  "dec_int16 src = (if length src < 2 then Inl errTruncated
     else Inr (ucast (src ! 0) OR push_bit 8 (ucast (src ! 1)), drop 2 src))"

definition enc_int32 :: "bytes \<Rightarrow> 32 word \<Rightarrow> bytes result" where
  "enc_int32 buf v = Inr (buf @ [ucast v, ucast (signed_drop_bit 8 v), ucast (signed_drop_bit 16 v),
     ucast (signed_drop_bit 24 v)])"

definition dec_int32 :: "bytes \<Rightarrow> (32 word \<times> bytes) result" where
  "dec_int32 src = (if length src < 4 then Inl errTruncated
     else Inr (ucast (src ! 0) OR push_bit 8 (ucast (src ! 1)) OR push_bit 16 (ucast (src ! 2))
       OR push_bit 24 (ucast (src ! 3)), drop 4 src))"

definition enc_int64 :: "bytes \<Rightarrow> 64 word \<Rightarrow> bytes result" where
  "enc_int64 buf v = Inr (buf @ [ucast v, ucast (signed_drop_bit 8 v), ucast (signed_drop_bit 16 v),
     ucast (signed_drop_bit 24 v), ucast (signed_drop_bit 32 v), ucast (signed_drop_bit 40 v),
     ucast (signed_drop_bit 48 v), ucast (signed_drop_bit 56 v)])"

definition dec_int64 :: "bytes \<Rightarrow> (64 word \<times> bytes) result" where
  "dec_int64 src = (if length src < 8 then Inl errTruncated
     else Inr (ucast (src ! 0) OR push_bit 8 (ucast (src ! 1)) OR push_bit 16 (ucast (src ! 2))
       OR push_bit 24 (ucast (src ! 3)) OR push_bit 32 (ucast (src ! 4)) OR push_bit 40 (ucast (src ! 5))
       OR push_bit 48 (ucast (src ! 6)) OR push_bit 56 (ucast (src ! 7)), drop 8 src))"

definition enc_uint8 :: "bytes \<Rightarrow> 8 word \<Rightarrow> bytes result" where
  "enc_uint8 buf v = Inr (buf @ [ucast v])"

definition dec_uint8 :: "bytes \<Rightarrow> (8 word \<times> bytes) result" where
  "dec_uint8 src = (if length src < 1 then Inl errTruncated else Inr (ucast (src ! 0), drop 1 src))"

definition enc_uint16 :: "bytes \<Rightarrow> 16 word \<Rightarrow> bytes result" where
  "enc_uint16 buf v = Inr (buf @ [ucast v, ucast (drop_bit 8 v)])"

definition dec_uint16 :: "bytes \<Rightarrow> (16 word \<times> bytes) result" where
  "dec_uint16 src = (if length src < 2 then Inl errTruncated
     else Inr (ucast (src ! 0) OR push_bit 8 (ucast (src ! 1)), drop 2 src))"

definition enc_uint32 :: "bytes \<Rightarrow> 32 word \<Rightarrow> bytes result" where
  "enc_uint32 buf v = Inr (buf @ [ucast v, ucast (drop_bit 8 v), ucast (drop_bit 16 v),
     ucast (drop_bit 24 v)])"

definition dec_uint32 :: "bytes \<Rightarrow> (32 word \<times> bytes) result" where
  "dec_uint32 src = (if length src < 4 then Inl errTruncated
     else Inr (ucast (src ! 0) OR push_bit 8 (ucast (src ! 1)) OR push_bit 16 (ucast (src ! 2))
       OR push_bit 24 (ucast (src ! 3)), drop 4 src))"

definition enc_uint64 :: "bytes \<Rightarrow> u64 \<Rightarrow> bytes result" where
  "enc_uint64 buf v = Inr (buf @ [ucast v, ucast (drop_bit 8 v), ucast (drop_bit 16 v),
     ucast (drop_bit 24 v), ucast (drop_bit 32 v), ucast (drop_bit 40 v),
     ucast (drop_bit 48 v), ucast (drop_bit 56 v)])"

definition dec_uint64 :: "bytes \<Rightarrow> (u64 \<times> bytes) result" where
  "dec_uint64 src = (if length src < 8 then Inl errTruncated
     else Inr (ucast (src ! 0) OR push_bit 8 (ucast (src ! 1)) OR push_bit 16 (ucast (src ! 2))
       OR push_bit 24 (ucast (src ! 3)) OR push_bit 32 (ucast (src ! 4)) OR push_bit 40 (ucast (src ! 5))
       OR push_bit 48 (ucast (src ! 6)) OR push_bit 56 (ucast (src ! 7)), drop 8 src))"

text \<open>Floats: a NaN is an all-ones exponent with a nonzero fraction.\<close>

type_synonym float32 = "32 word"
type_synonym float64 = "64 word"

definition isNaN32 :: "float32 \<Rightarrow> bool" where
  "isNaN32 v \<longleftrightarrow> v AND 0x7f800000 = 0x7f800000 \<and> v AND 0x007fffff \<noteq> 0"

definition isNaN64 :: "float64 \<Rightarrow> bool" where
  "isNaN64 v \<longleftrightarrow> v AND 0x7ff0000000000000 = 0x7ff0000000000000 \<and> v AND 0x000fffffffffffff \<noteq> 0"

definition enc_float32 :: "bytes \<Rightarrow> float32 \<Rightarrow> bytes result" where
  "enc_float32 buf v =
     (let bits = if isNaN32 v then 0x7fc00000 else v
      in Inr (buf @ [ucast bits, ucast (drop_bit 8 bits), ucast (drop_bit 16 bits), ucast (drop_bit 24 bits)]))"

definition dec_float32 :: "bytes \<Rightarrow> (float32 \<times> bytes) result" where
  "dec_float32 src = (if length src < 4 then Inl errTruncated
     else let bits = ucast (src ! 0) OR push_bit 8 (ucast (src ! 1)) OR push_bit 16 (ucast (src ! 2))
         OR push_bit 24 (ucast (src ! 3))
       in if isNaN32 bits \<and> bits \<noteq> 0x7fc00000 then Inl errNaN else Inr (bits, drop 4 src))"

definition enc_float64 :: "bytes \<Rightarrow> float64 \<Rightarrow> bytes result" where
  "enc_float64 buf v =
     (let bits = if isNaN64 v then 0x7ff8000000000000 else v
      in Inr (buf @ [ucast bits, ucast (drop_bit 8 bits), ucast (drop_bit 16 bits), ucast (drop_bit 24 bits),
           ucast (drop_bit 32 bits), ucast (drop_bit 40 bits), ucast (drop_bit 48 bits),
           ucast (drop_bit 56 bits)]))"

definition dec_float64 :: "bytes \<Rightarrow> (float64 \<times> bytes) result" where
  "dec_float64 src = (if length src < 8 then Inl errTruncated
     else let bits = ucast (src ! 0) OR push_bit 8 (ucast (src ! 1)) OR push_bit 16 (ucast (src ! 2))
         OR push_bit 24 (ucast (src ! 3)) OR push_bit 32 (ucast (src ! 4)) OR push_bit 40 (ucast (src ! 5))
         OR push_bit 48 (ucast (src ! 6)) OR push_bit 56 (ucast (src ! 7))
       in if isNaN64 bits \<and> bits \<noteq> 0x7ff8000000000000 then Inl errNaN else Inr (bits, drop 8 src))"

text \<open>
  Strings and byte strings. A slice is never longer than an \<open>int\<close> can say, so comparing a
  \<open>uint64\<close> with \<open>uint64(len(src))\<close> compares the numbers.
\<close>

definition byteOf :: "char \<Rightarrow> byte" where
  "byteOf c = word_of_nat (of_char c)"

definition charOf :: "byte \<Rightarrow> char" where
  "charOf b = char_of (unat b)"

definition ValidString :: "string \<Rightarrow> bool" where
  "ValidString s \<longleftrightarrow> firstInvalidUTF8 s = None"

definition enc_string :: "bytes \<Rightarrow> string \<Rightarrow> bytes result" where
  "enc_string buf v =
     (if \<not> ValidString v then Inl errUTF8
      else andThen (enc_uint64 buf (word_of_nat (length v))) (\<lambda>buf. Inr (buf @ map byteOf v)))"

definition dec_string :: "bytes \<Rightarrow> (string \<times> bytes) result" where
  "dec_string src = andThen (dec_uint64 src) (\<lambda>(n64, src).
     if length src < unat n64 then Inl errLength
     else let b = map charOf (take (unat n64) src)
       in if \<not> ValidString b then Inl errUTF8 else Inr (b, drop (unat n64) src))"

definition enc_bytes :: "bytes \<Rightarrow> bytes \<Rightarrow> bytes result" where
  "enc_bytes buf v = andThen (enc_uint64 buf (word_of_nat (length v))) (\<lambda>buf. Inr (buf @ v))"

definition dec_bytes :: "bytes \<Rightarrow> (bytes \<times> bytes) result" where
  "dec_bytes src = andThen (dec_uint64 src) (\<lambda>(n64, src).
     if length src < unat n64 then Inl errLength
     else Inr (take (unat n64) src, drop (unat n64) src))"

text \<open>The element loops of the list codecs.\<close>

fun enc_loop :: "(bytes \<Rightarrow> 'a \<Rightarrow> bytes result) \<Rightarrow> bytes \<Rightarrow> 'a list \<Rightarrow> bytes result" where
  "enc_loop enc buf [] = Inr buf"
| "enc_loop enc buf (v # vs) = andThen (enc buf v) (\<lambda>buf. enc_loop enc buf vs)"

fun dec_loop :: "(bytes \<Rightarrow> ('a \<times> bytes) result) \<Rightarrow> nat \<Rightarrow> bytes \<Rightarrow> ('a list \<times> bytes) result" where
  "dec_loop dec 0 src = Inr ([], src)"
| "dec_loop dec (Suc n) src = andThen (dec src) (\<lambda>(v, src).
     andThen (dec_loop dec n src) (\<lambda>(vs, src). Inr (v # vs, src)))"

section \<open>The contract of a codec pair\<close>

text \<open>
  \<open>sized\<close> holds of the values whose lengths the wire can carry; \<open>canon\<close> is the value a
  receiver sees: the value itself with every NaN the canonical one.
\<close>

locale wire_codec =
  fixes enc :: "bytes \<Rightarrow> 'a \<Rightarrow> bytes result"
    and dec :: "bytes \<Rightarrow> ('a \<times> bytes) result"
    and sized :: "'a \<Rightarrow> bool"
    and canon :: "'a \<Rightarrow> 'a"
  assumes appends: "enc buf v = map_sum id ((@) buf) (enc [] v)"
    and round_trip: "sized v \<Longrightarrow> enc [] v = Inr bs \<Longrightarrow> dec (bs @ rest) = Inr (canon v, rest)"
    and exact: "dec src = Inr (v, rest) \<Longrightarrow>
      sized v \<and> canon v = v \<and> (\<exists>bs. enc [] v = Inr bs \<and> src = bs @ rest)"
begin

lemma enc_buf: "enc [] v = Inr bs \<Longrightarrow> enc buf v = Inr (buf @ bs)"
  by (subst appends) simp

lemma enc_fails: "enc [] v = Inl e \<Longrightarrow> enc buf v = Inl e"
  by (subst appends) simp

lemma enc_bufE:
  assumes "enc buf v = Inr out"
  obtains bs where "enc [] v = Inr bs" "out = buf @ bs"
proof (cases "enc [] v")
  case (Inl e)
  with enc_fails [OF Inl, of buf] assms show thesis by simp
next
  case (Inr bs)
  with enc_buf [OF Inr, of buf] assms show thesis by (intro that) simp_all
qed

text \<open>No encoding is a proper prefix of another: a stream of values has one reading.\<close>

lemma uniquely_readable:
  assumes "enc [] v = Inr a" "enc [] w = Inr b" "sized v" "sized w" "a @ x = b @ y"
  shows "canon v = canon w \<and> x = y"
  using round_trip [OF assms(3,1), of x] round_trip [OF assms(4,2), of y] assms(5) by simp

lemma dec_suffix: "dec src = Inr (v, rest) \<Longrightarrow> \<exists>bs. src = bs @ rest"
  using exact by blast

text \<open>The decoder is the converse of the encoder: it accepts the encodings and nothing else.\<close>

lemma dec_iff:
  "dec src = Inr (v, rest) \<longleftrightarrow> sized v \<and> canon v = v \<and> (\<exists>bs. enc [] v = Inr bs \<and> src = bs @ rest)"
proof
  assume "dec src = Inr (v, rest)"
  then show "sized v \<and> canon v = v \<and> (\<exists>bs. enc [] v = Inr bs \<and> src = bs @ rest)" by (rule exact)
next
  assume v: "sized v \<and> canon v = v \<and> (\<exists>bs. enc [] v = Inr bs \<and> src = bs @ rest)"
  then obtain bs where "sized v" "canon v = v" "enc [] v = Inr bs" "src = bs @ rest" by blast
  with round_trip [of v bs rest] show "dec src = Inr (v, rest)" by simp
qed

lemma dec_complete: "dec src = Inr (v, []) \<longleftrightarrow> sized v \<and> canon v = v \<and> enc [] v = Inr src"
  unfolding dec_iff by simp

end

text \<open>A codec whose values take at least one byte: the element codecs of counted lists.\<close>

locale wide_codec = wire_codec +
  assumes wide: "enc [] v = Inr bs \<Longrightarrow> bs \<noteq> []"

lemmas wire_codecI = wire_codec.intro

lemma wide_codecI: "wire_codec enc dec sized canon \<Longrightarrow> (\<And>v bs. enc [] v = Inr bs \<Longrightarrow> bs \<noteq> []) \<Longrightarrow>
    wide_codec enc dec sized canon"
  by (simp add: wide_codec_def wide_codec_axioms_def)

lemma wide_wire: "wide_codec enc dec sized canon \<Longrightarrow> wire_codec enc dec sized canon"
  by (simp add: wide_codec_def)

lemma wire_codec_cong:
  assumes "wire_codec enc dec sized canon" "\<And>buf v. enc' buf v = enc buf v" "\<And>src. dec' src = dec src"
    "\<And>v. sized' v = sized v" "\<And>v. canon' v = canon v"
  shows "wire_codec enc' dec' sized' canon'"
proof -
  from assms(2-5) have "enc' = enc" "dec' = dec" "sized' = sized" "canon' = canon" by (auto intro!: ext)
  with assms(1) show ?thesis by simp
qed

lemma wide_codec_cong:
  assumes "wide_codec enc dec sized canon" "\<And>buf v. enc' buf v = enc buf v" "\<And>src. dec' src = dec src"
    "\<And>v. sized' v = sized v" "\<And>v. canon' v = canon v"
  shows "wide_codec enc' dec' sized' canon'"
proof -
  from assms(2-5) have "enc' = enc" "dec' = dec" "sized' = sized" "canon' = canon" by (auto intro!: ext)
  with assms(1) show ?thesis by simp
qed

section \<open>Fixed-width words\<close>

definition le_enc :: "nat \<Rightarrow> bytes \<Rightarrow> 'a::len word \<Rightarrow> bytes result" where
  "le_enc n buf v = Inr (buf @ le_bytes n v)"

definition le_dec :: "nat \<Rightarrow> bytes \<Rightarrow> ('a::len word \<times> bytes) result" where
  "le_dec n src = (if length src < n then Inl errTruncated else Inr (le_word (take n src), drop n src))"

lemma signed_low_byte:
  "n + 8 \<le> LENGTH('a) \<Longrightarrow> (ucast (signed_drop_bit n (v :: 'a::len word)) :: byte) = ucast (drop_bit n v)"
  by (rule bit_word_eqI) (auto simp: bit_simps)

lemma take_nths: "n \<le> length xs \<Longrightarrow> take n xs = map ((!) xs) [0..<n]"
  by (rule nth_equalityI) simp_all

lemma or_push_bit: "push_bit n (a OR b) = push_bit n a OR push_bit n (b :: 'a::len word)"
  by (rule bit_word_eqI) (auto simp: bit_simps)

lemma le_codec:
  assumes "8 * n = LENGTH('a::len)" "0 < n"
  shows "wide_codec (le_enc n) (le_dec n) (\<lambda>_. True) (id :: 'a word \<Rightarrow> 'a word)"
proof (intro wide_codecI wire_codecI)
  fix v :: "'a word" and bs rest
  assume "le_enc n [] v = Inr bs"
  then have "bs = le_bytes n v" by (simp add: le_enc_def)
  with assms(1) show "le_dec n (bs @ rest) = Inr (id v, rest)"
    by (simp add: le_dec_def le_word_le_bytes take_bit_word_eq_self)
next
  fix src rest :: bytes and v :: "'a word"
  assume "le_dec n src = Inr (v, rest)"
  then have src: "n \<le> length src" "v = le_word (take n src)" "rest = drop n src"
    by (auto simp: le_dec_def split: if_splits)
  with assms(1) have "le_bytes n v = take n src"
    using le_bytes_le_word [of "take n src", where 'a = 'a] by simp
  with src show "True \<and> id v = v \<and> (\<exists>bs. le_enc n [] v = Inr bs \<and> src = bs @ rest)"
    by (simp add: le_enc_def)
next
  fix v :: "'a word" and bs
  assume "le_enc n [] v = Inr bs"
  then have "length bs = n" by (auto simp: le_enc_def)
  with assms(2) show "bs \<noteq> []" by auto
qed (simp add: le_enc_def)

lemma enc_le:
  "enc_int8 = le_enc 1" "enc_int16 = le_enc 2" "enc_int32 = le_enc 4" "enc_int64 = le_enc 8"
  "enc_uint8 = le_enc 1" "enc_uint16 = le_enc 2" "enc_uint32 = le_enc 4" "enc_uint64 = le_enc 8"
  by (intro ext; simp add: enc_int8_def enc_int16_def enc_int32_def enc_int64_def enc_uint8_def enc_uint16_def
      enc_uint32_def enc_uint64_def le_enc_def numeral_eq_Suc signed_low_byte)+

lemma dec_le8: "dec_int8 = le_dec 1" "dec_uint8 = le_dec 1"
proof -
  have "dec_int8 src = le_dec 1 src \<and> dec_uint8 src = le_dec 1 src" for src
    by (cases src) (simp_all add: dec_int8_def dec_uint8_def le_dec_def)
  then show "dec_int8 = le_dec 1" "dec_uint8 = le_dec 1" by auto
qed

lemma byte_indices: "[0..<2] = [0, 1]" "[0..<4] = [0, 1, 2, 3]" "[0..<8] = [0, 1, 2, 3, 4, 5, 6, 7]"
  by code_simp+

lemma dec_le:
  "dec_int16 = le_dec 2" "dec_int32 = le_dec 4" "dec_int64 = le_dec 8"
  "dec_uint16 = le_dec 2" "dec_uint32 = le_dec 4" "dec_uint64 = le_dec 8"
  by (intro ext; simp add: dec_int16_def dec_int32_def dec_int64_def dec_uint16_def
      dec_uint32_def dec_uint64_def le_dec_def take_nths byte_indices or_push_bit push_bit_push_bit or.assoc)+

interpretation int8: wide_codec enc_int8 dec_int8 "\<lambda>_. True" id
  unfolding enc_le dec_le dec_le8 by (rule le_codec) simp_all

interpretation int16: wide_codec enc_int16 dec_int16 "\<lambda>_. True" id
  unfolding enc_le dec_le dec_le8 by (rule le_codec) simp_all

interpretation int32: wide_codec enc_int32 dec_int32 "\<lambda>_. True" id
  unfolding enc_le dec_le dec_le8 by (rule le_codec) simp_all

interpretation int64: wide_codec enc_int64 dec_int64 "\<lambda>_. True" id
  unfolding enc_le dec_le dec_le8 by (rule le_codec) simp_all

interpretation uint8: wide_codec enc_uint8 dec_uint8 "\<lambda>_. True" id
  unfolding enc_le dec_le dec_le8 by (rule le_codec) simp_all

interpretation uint16: wide_codec enc_uint16 dec_uint16 "\<lambda>_. True" id
  unfolding enc_le dec_le dec_le8 by (rule le_codec) simp_all

interpretation uint32: wide_codec enc_uint32 dec_uint32 "\<lambda>_. True" id
  unfolding enc_le dec_le dec_le8 by (rule le_codec) simp_all

interpretation uint64: wide_codec enc_uint64 dec_uint64 "\<lambda>_. True" id
  unfolding enc_le dec_le dec_le8 by (rule le_codec) simp_all

section \<open>Floats\<close>

definition canon32 :: "float32 \<Rightarrow> float32" where
  "canon32 v = (if isNaN32 v then 0x7fc00000 else v)"

definition canon64 :: "float64 \<Rightarrow> float64" where
  "canon64 v = (if isNaN64 v then 0x7ff8000000000000 else v)"

lemma canon_NaN [simp]: "isNaN32 0x7fc00000" "isNaN64 0x7ff8000000000000"
  by (simp_all add: isNaN32_def isNaN64_def)

lemma enc_float:
  "enc_float32 buf v = enc_uint32 buf (canon32 v)" "enc_float64 buf w = enc_uint64 buf (canon64 w)"
  by (simp_all add: enc_float32_def enc_float64_def enc_uint32_def enc_uint64_def canon32_def canon64_def)

lemma dec_float:
  "dec_float32 src = andThen (dec_uint32 src) (\<lambda>(v, src). if canon32 v = v then Inr (v, src) else Inl errNaN)"
  "dec_float64 src = andThen (dec_uint64 src) (\<lambda>(v, src). if canon64 v = v then Inr (v, src) else Inl errNaN)"
  by (auto simp: dec_float32_def dec_float64_def dec_uint32_def dec_uint64_def canon32_def canon64_def Let_def)

lemma canon_idem [simp]: "canon32 (canon32 v) = canon32 v" "canon64 (canon64 w) = canon64 w"
  by (simp_all add: canon32_def canon64_def)

text \<open>A codec whose values are first made canonical and whose decoder insists on it.\<close>

lemma canonical_codec:
  assumes w: "wide_codec enc dec (\<lambda>_. True) id" and idem: "\<And>v. c (c v) = c v"
    and enc': "\<And>buf v. enc' buf v = enc buf (c v)"
    and dec': "\<And>src. dec' src = andThen (dec src) (\<lambda>(v, src). if c v = v then Inr (v, src) else Inl e)"
  shows "wide_codec enc' dec' (\<lambda>_. True) c"
proof (intro wide_codecI wire_codecI)
  note wire = wide_wire [OF w]
  fix buf v show "enc' buf v = map_sum id ((@) buf) (enc' [] v)"
    unfolding enc' by (rule wire_codec.appends [OF wire])
next
  note wire = wide_wire [OF w]
  fix v bs rest assume "enc' [] v = Inr bs"
  then have "dec (bs @ rest) = Inr (c v, rest)" using wire_codec.round_trip [OF wire, of "c v" bs rest] by (simp add: enc')
  then show "dec' (bs @ rest) = Inr (c v, rest)" by (simp add: dec' idem)
next
  note wire = wide_wire [OF w]
  fix src v rest assume "dec' src = Inr (v, rest)"
  then have "dec src = Inr (v, rest)" "c v = v" by (auto simp: dec' andThen_Inr split: if_splits)
  then show "True \<and> c v = v \<and> (\<exists>bs. enc' [] v = Inr bs \<and> src = bs @ rest)"
    using wire_codec.exact [OF wire, of src v rest] by (simp add: enc')
next
  fix v bs assume "enc' [] v = Inr bs"
  then show "bs \<noteq> []" using wide_codec.wide [OF w] by (simp add: enc')
qed

interpretation float32: wide_codec enc_float32 dec_float32 "\<lambda>_. True" canon32
  by (rule canonical_codec [OF uint32.wide_codec_axioms _ enc_float(1) dec_float(1)]) simp

interpretation float64: wide_codec enc_float64 dec_float64 "\<lambda>_. True" canon64
  by (rule canonical_codec [OF uint64.wide_codec_axioms _ enc_float(2) dec_float(2)]) simp

section \<open>Strings and byte strings\<close>

lemma of_char_bound: "(of_char c :: nat) < 256"
  by (cases c) (simp add: of_char_def)

lemma char_byte [simp]: "charOf (byteOf c) = c" "byteOf (charOf b) = b"
proof -
  have "unat (byteOf c) = of_char c"
    by (simp add: byteOf_def unat_of_nat take_bit_nat_def of_char_bound)
  then show "charOf (byteOf c) = c" by (simp add: charOf_def)
  have "unat b < 256" using unsigned_less [of b, where 'a = nat] by simp
  then show "byteOf (charOf b) = b" by (simp add: byteOf_def charOf_def)
qed


text \<open>A body of a stated length after its count.\<close>

definition counted :: "'a list \<Rightarrow> bool" where
  "counted v \<longleftrightarrow> length v < 2 ^ 64"

lemma counted_unat: "counted v \<Longrightarrow> unat (word_of_nat (length v) :: u64) = length v"
  by (simp add: counted_def unat_of_nat take_bit_nat_eq_self)

lemma enc_uint64_Inr: "enc_uint64 buf n = Inr (buf @ le_bytes 8 n)"
  by (simp add: enc_le le_enc_def)

lemma le_bytes8_ne [simp]: "le_bytes 8 n \<noteq> []"
  using length_le_bytes [of 8 n] by fastforce

lemma dec_uint64_le [simp]: "dec_uint64 (le_bytes 8 n @ src) = Inr (n, src)"
  using uint64.round_trip [of n "le_bytes 8 n" src] by (simp add: enc_uint64_Inr)

lemma dec_uint64_exact: "dec_uint64 src = Inr (n, rest) \<Longrightarrow> src = le_bytes 8 n @ rest"
  using uint64.exact [of src n rest] by (simp add: enc_uint64_Inr)

lemma counted_take: "n = length (take (unat n64) src) \<Longrightarrow> unat n64 \<le> length src \<Longrightarrow>
    counted (take (unat n64) src) \<and> word_of_nat (length (take (unat n64) src)) = (n64 :: u64)"
  using unsigned_less [of n64, where 'a = nat] by (simp add: counted_def min_absorb2)

interpretation byte_string: wide_codec enc_bytes dec_bytes counted id
proof (intro wide_codecI wire_codecI)
  fix v bs rest assume "counted v" "enc_bytes [] v = Inr bs"
  then show "dec_bytes (bs @ rest) = Inr (id v, rest)"
    by (auto simp: enc_bytes_def dec_bytes_def enc_uint64_Inr counted_unat)
next
  fix src v rest assume "dec_bytes src = Inr (v, rest)"
  then obtain n64 src' where n: "dec_uint64 src = Inr (n64, src')" "unat n64 \<le> length src'"
    "v = take (unat n64) src'" "rest = drop (unat n64) src'"
    by (auto simp: dec_bytes_def andThen_Inr split: if_splits)
  from dec_uint64_exact [OF n(1)] n(2-4) counted_take [of _ n64 src', OF refl n(2)]
  show "counted v \<and> id v = v \<and> (\<exists>bs. enc_bytes [] v = Inr bs \<and> src = bs @ rest)"
    by (simp add: enc_bytes_def enc_uint64_Inr)
qed (auto simp: enc_bytes_def enc_uint64_Inr)

interpretation text_string: wide_codec enc_string dec_string counted id
proof (intro wide_codecI wire_codecI)
  fix v bs rest assume "counted v" "enc_string [] v = Inr bs"
  then show "dec_string (bs @ rest) = Inr (id v, rest)"
    by (auto simp: enc_string_def dec_string_def enc_uint64_Inr counted_unat comp_def split: if_splits)
next
  fix src v rest assume "dec_string src = Inr (v, rest)"
  then obtain n64 src' where n: "dec_uint64 src = Inr (n64, src')" "unat n64 \<le> length src'"
    "v = map charOf (take (unat n64) src')" "rest = drop (unat n64) src'" "ValidString v"
    by (auto simp: dec_string_def andThen_Inr Let_def split: if_splits)
  from dec_uint64_exact [OF n(1)] n(2-5) counted_take [of _ n64 src', OF refl n(2)]
  show "counted v \<and> id v = v \<and> (\<exists>bs. enc_string [] v = Inr bs \<and> src = bs @ rest)"
    by (simp add: enc_string_def enc_uint64_Inr comp_def counted_def)
qed (auto simp: enc_string_def enc_uint64_Inr split: if_splits)

section \<open>Records, defined types and lists\<close>

text \<open>One field after another: the codec of two values in sequence.\<close>

definition enc_pair :: "(bytes \<Rightarrow> 'a \<Rightarrow> bytes result) \<Rightarrow> (bytes \<Rightarrow> 'b \<Rightarrow> bytes result) \<Rightarrow> bytes \<Rightarrow> 'a \<times> 'b \<Rightarrow> bytes result" where
  "enc_pair ea eb buf v = andThen (ea buf (fst v)) (\<lambda>buf. eb buf (snd v))"

definition dec_pair :: "(bytes \<Rightarrow> ('a \<times> bytes) result) \<Rightarrow> (bytes \<Rightarrow> ('b \<times> bytes) result) \<Rightarrow> bytes \<Rightarrow> (('a \<times> 'b) \<times> bytes) result" where
  "dec_pair da db src = andThen (da src) (\<lambda>(a, src). andThen (db src) (\<lambda>(b, src). Inr ((a, b), src)))"

lemma enc_pair_Inr:
  assumes "wire_codec ea da sa ca" "wire_codec eb db sb cb"
  shows "enc_pair ea eb [] v = Inr bs \<longleftrightarrow>
    (\<exists>x y. ea [] (fst v) = Inr x \<and> eb [] (snd v) = Inr y \<and> bs = x @ y)"
  using wire_codec.appends [OF assms(2), of _ "snd v"]
  by (cases "eb [] (snd v)") (auto simp: enc_pair_def andThen_Inr)

lemma pair_codec:
  assumes a: "wire_codec ea da sa ca" and b: "wire_codec eb db sb cb"
  shows "wire_codec (enc_pair ea eb) (dec_pair da db) (pred_prod sa sb) (map_prod ca cb)"
proof (intro wire_codecI)
  fix buf and v :: "'a \<times> 'b"
  show "enc_pair ea eb buf v = map_sum id ((@) buf) (enc_pair ea eb [] v)"
  proof (cases "ea [] (fst v)")
    case (Inl e)
    with wire_codec.enc_fails [OF a Inl] show ?thesis by (simp add: enc_pair_def)
  next
    case (Inr x)
    with wire_codec.enc_buf [OF a Inr, of buf] wire_codec.appends [OF b, of "buf @ x" "snd v"]
      wire_codec.appends [OF b, of x "snd v"]
    show ?thesis by (cases "eb [] (snd v)") (simp_all add: enc_pair_def)
  qed
next
  fix v bs rest assume v: "pred_prod sa sb v" "enc_pair ea eb [] v = Inr bs"
  from v(2) obtain x y where "ea [] (fst v) = Inr x" "eb [] (snd v) = Inr y" "bs = x @ y"
    by (auto simp: enc_pair_Inr [OF a b])
  with v(1) wire_codec.round_trip [OF a, of "fst v" x "y @ rest"] wire_codec.round_trip [OF b, of "snd v" y rest]
  show "dec_pair da db (bs @ rest) = Inr (map_prod ca cb v, rest)"
    by (cases v) (simp add: dec_pair_def)
next
  fix src v rest assume "dec_pair da db src = Inr (v, rest)"
  then obtain a' src' b' where d: "da src = Inr (a', src')" "db src' = Inr (b', rest)" "v = (a', b')"
    by (auto simp: dec_pair_def andThen_Inr)
  with wire_codec.exact [OF a d(1)] wire_codec.exact [OF b d(2)]
  show "pred_prod sa sb v \<and> map_prod ca cb v = v \<and> (\<exists>bs. enc_pair ea eb [] v = Inr bs \<and> src = bs @ rest)"
    by (auto simp: enc_pair_Inr [OF a b])
qed

text \<open>A Go value that is another one under a conversion: a struct of its fields, a defined type.\<close>

lemma conversion_codec:
  assumes c: "wire_codec enc dec sized canon" and fg: "\<And>v. mk (un v) = v" "\<And>w. un (mk w) = w"
    and enc': "\<And>buf v. enc' buf v = enc buf (un v)"
    and dec': "\<And>src. dec' src = map_sum id (apfst mk) (dec src)"
  shows "wire_codec enc' dec' (\<lambda>v. sized (un v)) (\<lambda>v. mk (canon (un v)))"
proof (intro wire_codecI)
  fix buf v show "enc' buf v = map_sum id ((@) buf) (enc' [] v)"
    unfolding enc' by (rule wire_codec.appends [OF c])
next
  fix v bs rest assume "sized (un v)" "enc' [] v = Inr bs"
  with wire_codec.round_trip [OF c, of "un v" bs rest]
  show "dec' (bs @ rest) = Inr (mk (canon (un v)), rest)" by (simp add: enc' dec')
next
  fix src v rest assume "dec' src = Inr (v, rest)"
  then obtain w where w: "dec src = Inr (w, rest)" "v = mk w" by (cases "dec src") (auto simp: dec')
  with wire_codec.exact [OF c w(1)]
  show "sized (un v) \<and> mk (canon (un v)) = v \<and> (\<exists>bs. enc' [] v = Inr bs \<and> src = bs @ rest)"
    by (simp add: enc' fg)
qed

text \<open>The element loop, then the list codec with its count check against the rest of the payload.\<close>

definition enc_list :: "(bytes \<Rightarrow> 'a \<Rightarrow> bytes result) \<Rightarrow> bytes \<Rightarrow> 'a list \<Rightarrow> bytes result" where
  "enc_list enc buf v = andThen (enc_uint64 buf (word_of_nat (length v))) (\<lambda>buf. enc_loop enc buf v)"

definition dec_list :: "(bytes \<Rightarrow> ('a \<times> bytes) result) \<Rightarrow> bytes \<Rightarrow> ('a list \<times> bytes) result" where
  "dec_list dec src = andThen (dec_uint64 src) (\<lambda>(count0, src).
     if length src < unat count0 then Inl errLength else dec_loop dec (unat count0) src)"

lemma enc_loop_appends:
  assumes "wire_codec enc dec sized canon"
  shows "enc_loop enc buf vs = map_sum id ((@) buf) (enc_loop enc [] vs)"
proof (induction vs arbitrary: buf)
  case (Cons v vs)
  show ?case
  proof (cases "enc [] v")
    case (Inl e)
    with wire_codec.enc_fails [OF assms Inl] show ?thesis by simp
  next
    case (Inr x)
    with wire_codec.enc_buf [OF assms Inr, of buf] Cons [of "buf @ x"] Cons [of x]
    show ?thesis by (cases "enc_loop enc [] vs") simp_all
  qed
qed simp

lemma enc_loop_Cons:
  assumes "wire_codec enc dec sized canon"
  shows "enc_loop enc [] (v # vs) = Inr bs \<longleftrightarrow>
    (\<exists>x y. enc [] v = Inr x \<and> enc_loop enc [] vs = Inr y \<and> bs = x @ y)"
proof -
  have "enc_loop enc x vs = Inr bs \<longleftrightarrow> (\<exists>y. enc_loop enc [] vs = Inr y \<and> bs = x @ y)" for x
    using enc_loop_appends [OF assms, of x vs] by (cases "enc_loop enc [] vs") auto
  then show ?thesis by (auto simp: andThen_Inr)
qed

lemma dec_loop_round_trip:
  assumes "wire_codec enc dec sized canon"
  shows "list_all sized vs \<Longrightarrow> enc_loop enc [] vs = Inr bs \<Longrightarrow>
    dec_loop dec (length vs) (bs @ rest) = Inr (map canon vs, rest)"
proof (induction vs arbitrary: bs)
  case (Cons v vs)
  from Cons.prems(2) obtain x y where "enc [] v = Inr x" "enc_loop enc [] vs = Inr y" "bs = x @ y"
    by (auto simp: enc_loop_Cons [OF assms] simp del: enc_loop.simps)
  with Cons.prems(1) Cons.IH [of y] wire_codec.round_trip [OF assms, of v x "y @ rest"]
  show ?case by simp
qed simp

lemma dec_loop_exact:
  assumes "wire_codec enc dec sized canon"
  shows "dec_loop dec n src = Inr (vs, rest) \<Longrightarrow>
    length vs = n \<and> list_all sized vs \<and> map canon vs = vs \<and> (\<exists>bs. enc_loop enc [] vs = Inr bs \<and> src = bs @ rest)"
proof (induction n arbitrary: src vs)
  case (Suc n)
  then obtain v src' vs' where d: "dec src = Inr (v, src')" "dec_loop dec n src' = Inr (vs', rest)" "vs = v # vs'"
    by (auto simp: andThen_Inr)
  with Suc.IH [OF d(2)] wire_codec.exact [OF assms d(1)] show ?case
    by (auto simp: enc_loop_Cons [OF assms] simp del: enc_loop.simps)
qed simp

lemma enc_loop_wide:
  assumes "wide_codec enc dec sized canon"
  shows "enc_loop enc [] vs = Inr bs \<Longrightarrow> length vs \<le> length bs"
proof (induction vs arbitrary: bs)
  case (Cons v vs)
  from Cons.prems obtain x y where xy: "enc [] v = Inr x" "enc_loop enc [] vs = Inr y" "bs = x @ y"
    by (auto simp: enc_loop_Cons [OF wide_wire [OF assms]] simp del: enc_loop.simps)
  from xy(1) have "x \<noteq> []" by (rule wide_codec.wide [OF assms])
  with xy Cons.IH [of y] show ?case by (cases x) simp_all
qed simp

lemma enc_list_Inr:
  assumes "wire_codec enc dec sized canon"
  shows "enc_list enc [] vs = Inr bs \<longleftrightarrow>
    (\<exists>y. enc_loop enc [] vs = Inr y \<and> bs = le_bytes 8 (word_of_nat (length vs) :: u64) @ y)"
  using enc_loop_appends [OF assms, of "le_bytes 8 (word_of_nat (length vs) :: u64)" vs]
  by (cases "enc_loop enc [] vs") (auto simp: enc_list_def enc_uint64_Inr)

lemma list_codec:
  assumes w: "wide_codec enc dec sized canon"
  shows "wide_codec (enc_list enc) (dec_list dec) (\<lambda>vs. counted vs \<and> list_all sized vs) (map canon)"
proof (intro wide_codecI wire_codecI)
  note c = wide_wire [OF w]
  fix buf vs
  show "enc_list enc buf vs = map_sum id ((@) buf) (enc_list enc [] vs)"
    using enc_loop_appends [OF c, of "buf @ le_bytes 8 (word_of_nat (length vs) :: u64)" vs]
      enc_loop_appends [OF c, of "le_bytes 8 (word_of_nat (length vs) :: u64)" vs]
    by (cases "enc_loop enc [] vs") (simp_all add: enc_list_def enc_uint64_Inr)
next
  note c = wide_wire [OF w]
  fix vs bs rest assume vs: "counted vs \<and> list_all sized vs" "enc_list enc [] vs = Inr bs"
  from vs(2) obtain y where y: "enc_loop enc [] vs = Inr y" "bs = le_bytes 8 (word_of_nat (length vs) :: u64) @ y"
    by (auto simp: enc_list_Inr [OF c])
  with vs(1) enc_loop_wide [OF w y(1)] dec_loop_round_trip [OF c _ y(1), of rest]
  show "dec_list dec (bs @ rest) = Inr (map canon vs, rest)"
    by (simp add: dec_list_def counted_unat)
next
  note c = wide_wire [OF w]
  fix src vs rest assume "dec_list dec src = Inr (vs, rest)"
  then obtain n64 src' where n: "dec_uint64 src = Inr (n64, src')" "dec_loop dec (unat n64) src' = Inr (vs, rest)"
    by (auto simp: dec_list_def andThen_Inr split: if_splits)
  from dec_loop_exact [OF c n(2)] dec_uint64_exact [OF n(1)] unsigned_less [of n64, where 'a = nat]
  show "(counted vs \<and> list_all sized vs) \<and> map canon vs = vs \<and> (\<exists>bs. enc_list enc [] vs = Inr bs \<and> src = bs @ rest)"
    by (auto simp: enc_list_Inr [OF c] counted_def)
next
  note c = wide_wire [OF w]
  fix vs bs assume "enc_list enc [] vs = Inr bs"
  then show "bs \<noteq> []" by (auto simp: enc_list_Inr [OF c])
qed

text \<open>
  Elements of no width: only their number is on the wire, and it is checked against the largest
  \<open>int\<close> instead of the rest of the payload.
\<close>

definition enc_count :: "bytes \<Rightarrow> 'a list \<Rightarrow> bytes result" where
  "enc_count buf v = enc_uint64 buf (word_of_nat (length v))"

definition dec_count :: "'a \<Rightarrow> bytes \<Rightarrow> ('a list \<times> bytes) result" where
  "dec_count u src = andThen (dec_uint64 src) (\<lambda>(count0, src).
     if maxInt < unat count0 then Inl errLength else Inr (replicate (unat count0) u, src))"

lemma count_codec:
  assumes u: "\<And>x. x = (u :: 'a)"
  shows "wide_codec (enc_count :: bytes \<Rightarrow> 'a list \<Rightarrow> bytes result) (dec_count u) (\<lambda>v. length v \<le> maxInt) id"
proof (intro wide_codecI wire_codecI)
  fix v :: "'a list" and bs rest assume "length v \<le> maxInt" "enc_count [] v = Inr bs"
  moreover from this(1) have "counted v" by (simp add: counted_def maxInt_def)
  moreover have "v = replicate (length v) u" using u by (intro replicate_eqI) auto
  ultimately show "dec_count u (bs @ rest) = Inr (id v, rest)"
    by (auto simp: enc_count_def dec_count_def enc_uint64_Inr counted_unat)
next
  fix src v rest assume "dec_count u src = Inr (v, rest)"
  then obtain n64 where n: "dec_uint64 src = Inr (n64, rest)" "unat n64 \<le> maxInt" "v = replicate (unat n64) u"
    by (auto simp: dec_count_def andThen_Inr split: if_splits)
  from dec_uint64_exact [OF n(1)] n(2,3)
  show "length v \<le> maxInt \<and> id v = v \<and> (\<exists>bs. enc_count [] v = Inr bs \<and> src = bs @ rest)"
    by (simp add: enc_count_def enc_uint64_Inr)
qed (auto simp: enc_count_def enc_uint64_Inr)

end
