(* ===== verification/Import_Codecs.thy ===== *)
theory Import_Codecs
  imports Wire_Codec
begin

text \<open>
  The types and the composite codecs of \<open>go/internal/tool/importfixture/binding_gen.go\<close>, the
  checked-in output of the import generator: named types, payload exceptions, anonymous records
  and lists, with the request encoder of every procedure. Each pair is an interpretation of the
  codec contract.
\<close>

section \<open>Types\<close>

type_synonym UserID = u64
type_synonym Names = "string list"
type_synonym Blob = bytes

record Point =
  pt_X :: float64
  pt_Y :: float64

datatype Empty = Empty

record Failed =
  fl_Code :: "32 word"
  fl_Message :: string

record xyRecord =
  xy_X :: "32 word"
  xy_Y :: "32 word"

record sizeRecord =
  sz_Width :: "32 word"
  sz_Height :: "32 word"

record boxRecord =
  bx_Corner :: xyRecord
  bx_Label :: string

section \<open>Codec pairs\<close>

definition enc_type_user_id :: "bytes \<Rightarrow> UserID \<Rightarrow> bytes result" where
  "enc_type_user_id buf v = andThen (enc_uint64 buf v) (\<lambda>buf. Inr buf)"

definition dec_type_user_id :: "bytes \<Rightarrow> (UserID \<times> bytes) result" where
  "dec_type_user_id src = andThen (dec_uint64 src) (\<lambda>(v, src). Inr (v, src))"

definition enc_type_point :: "bytes \<Rightarrow> Point \<Rightarrow> bytes result" where
  "enc_type_point buf v =
     andThen (enc_float64 buf (pt_X v)) (\<lambda>buf.
     andThen (enc_float64 buf (pt_Y v)) (\<lambda>buf. Inr buf))"

definition dec_type_point :: "bytes \<Rightarrow> (Point \<times> bytes) result" where
  "dec_type_point src =
     andThen (dec_float64 src) (\<lambda>(x, src).
     andThen (dec_float64 src) (\<lambda>(y, src). Inr (\<lparr>pt_X = x, pt_Y = y\<rparr>, src)))"

definition enc_type_empty :: "bytes \<Rightarrow> Empty \<Rightarrow> bytes result" where
  "enc_type_empty buf v = Inr buf"

definition dec_type_empty :: "bytes \<Rightarrow> (Empty \<times> bytes) result" where
  "dec_type_empty src = Inr (Empty, src)"

definition enc_type_names :: "bytes \<Rightarrow> Names \<Rightarrow> bytes result" where
  "enc_type_names buf v =
     andThen (enc_uint64 buf (word_of_nat (length v))) (\<lambda>buf. enc_loop enc_string buf v)"

definition dec_type_names :: "bytes \<Rightarrow> (Names \<times> bytes) result" where
  "dec_type_names src = andThen (dec_uint64 src) (\<lambda>(count0, src).
     if length src < unat count0 then Inl errLength else dec_loop dec_string (unat count0) src)"

definition enc_type_blob :: "bytes \<Rightarrow> Blob \<Rightarrow> bytes result" where
  "enc_type_blob buf v = andThen (enc_bytes buf v) (\<lambda>buf. Inr buf)"

definition dec_type_blob :: "bytes \<Rightarrow> (Blob \<times> bytes) result" where
  "dec_type_blob src = andThen (dec_bytes src) (\<lambda>(v, src). Inr (v, src))"

definition enc_record_failed :: "bytes \<Rightarrow> Failed \<Rightarrow> bytes result" where
  "enc_record_failed buf v =
     andThen (enc_int32 buf (fl_Code v)) (\<lambda>buf.
     andThen (enc_string buf (fl_Message v)) (\<lambda>buf. Inr buf))"

definition dec_record_failed :: "bytes \<Rightarrow> (Failed \<times> bytes) result" where
  "dec_record_failed src =
     andThen (dec_int32 src) (\<lambda>(c, src).
     andThen (dec_string src) (\<lambda>(m, src). Inr (\<lparr>fl_Code = c, fl_Message = m\<rparr>, src)))"

definition enc_list_uint8 :: "bytes \<Rightarrow> 8 word list \<Rightarrow> bytes result" where
  "enc_list_uint8 buf v =
     andThen (enc_uint64 buf (word_of_nat (length v))) (\<lambda>buf. enc_loop enc_uint8 buf v)"

definition dec_list_uint8 :: "bytes \<Rightarrow> (8 word list \<times> bytes) result" where
  "dec_list_uint8 src = andThen (dec_uint64 src) (\<lambda>(count0, src).
     if length src < unat count0 then Inl errLength else dec_loop dec_uint8 (unat count0) src)"

definition enc_record_xy :: "bytes \<Rightarrow> xyRecord \<Rightarrow> bytes result" where
  "enc_record_xy buf v =
     andThen (enc_int32 buf (xy_X v)) (\<lambda>buf.
     andThen (enc_int32 buf (xy_Y v)) (\<lambda>buf. Inr buf))"

definition dec_record_xy :: "bytes \<Rightarrow> (xyRecord \<times> bytes) result" where
  "dec_record_xy src =
     andThen (dec_int32 src) (\<lambda>(x, src).
     andThen (dec_int32 src) (\<lambda>(y, src). Inr (\<lparr>xy_X = x, xy_Y = y\<rparr>, src)))"

definition enc_record_size :: "bytes \<Rightarrow> sizeRecord \<Rightarrow> bytes result" where
  "enc_record_size buf v =
     andThen (enc_uint32 buf (sz_Width v)) (\<lambda>buf.
     andThen (enc_uint32 buf (sz_Height v)) (\<lambda>buf. Inr buf))"

definition dec_record_size :: "bytes \<Rightarrow> (sizeRecord \<times> bytes) result" where
  "dec_record_size src =
     andThen (dec_uint32 src) (\<lambda>(w, src).
     andThen (dec_uint32 src) (\<lambda>(h, src). Inr (\<lparr>sz_Width = w, sz_Height = h\<rparr>, src)))"

text \<open>The nested record is written inline, field by field.\<close>

definition enc_record_box :: "bytes \<Rightarrow> boxRecord \<Rightarrow> bytes result" where
  "enc_record_box buf v =
     andThen (enc_int32 buf (xy_X (bx_Corner v))) (\<lambda>buf.
     andThen (enc_int32 buf (xy_Y (bx_Corner v))) (\<lambda>buf.
     andThen (enc_string buf (bx_Label v)) (\<lambda>buf. Inr buf)))"

definition dec_record_box :: "bytes \<Rightarrow> (boxRecord \<times> bytes) result" where
  "dec_record_box src =
     andThen (dec_int32 src) (\<lambda>(x, src).
     andThen (dec_int32 src) (\<lambda>(y, src).
     andThen (dec_string src) (\<lambda>(l, src).
       Inr (\<lparr>bx_Corner = \<lparr>xy_X = x, xy_Y = y\<rparr>, bx_Label = l\<rparr>, src))))"

definition enc_record_empty :: "bytes \<Rightarrow> unit \<Rightarrow> bytes result" where
  "enc_record_empty buf v = Inr buf"

definition dec_record_empty :: "bytes \<Rightarrow> (unit \<times> bytes) result" where
  "dec_record_empty src = Inr ((), src)"

definition enc_list_empty :: "bytes \<Rightarrow> Empty list \<Rightarrow> bytes result" where
  "enc_list_empty buf v = andThen (enc_uint64 buf (word_of_nat (length v))) (\<lambda>buf. Inr buf)"

definition dec_list_empty :: "bytes \<Rightarrow> (Empty list \<times> bytes) result" where
  "dec_list_empty src = andThen (dec_uint64 src) (\<lambda>(count0, src).
     if maxInt < unat count0 then Inl errLength else Inr (replicate (unat count0) Empty, src))"

section \<open>Request encoders\<close>

definition encreq_echo :: "bytes \<Rightarrow> string \<Rightarrow> bytes result" where
  "encreq_echo buf v = andThen (enc_string buf v) (\<lambda>buf. Inr buf)"

definition encreq_add :: "bytes \<Rightarrow> 64 word \<Rightarrow> 64 word \<Rightarrow> bytes result" where
  "encreq_add buf a b = andThen (enc_int64 buf a) (\<lambda>buf. andThen (enc_int64 buf b) (\<lambda>buf. Inr buf))"

definition encreq_sample :: "bytes \<Rightarrow> bytes \<Rightarrow> 8 word \<Rightarrow> bytes result" where
  "encreq_sample buf data channel =
     andThen (enc_bytes buf data) (\<lambda>buf. andThen (enc_uint8 buf channel) (\<lambda>buf. Inr buf))"

definition encreq_wave :: "bytes \<Rightarrow> 8 word list \<Rightarrow> bytes result" where
  "encreq_wave buf samples = andThen (enc_list_uint8 buf samples) (\<lambda>buf. Inr buf)"

definition encreq_paint :: "bytes \<Rightarrow> xyRecord \<Rightarrow> sizeRecord \<Rightarrow> bytes result" where
  "encreq_paint buf origin sz =
     andThen (enc_record_xy buf origin) (\<lambda>buf. andThen (enc_record_size buf sz) (\<lambda>buf. Inr buf))"

definition encreq_locate :: "bytes \<Rightarrow> boxRecord \<Rightarrow> bytes result" where
  "encreq_locate buf box = andThen (enc_record_box buf box) (\<lambda>buf. Inr buf)"

definition encreq_fetch :: "bytes \<Rightarrow> UserID \<Rightarrow> bytes result" where
  "encreq_fetch buf i = andThen (enc_type_user_id buf i) (\<lambda>buf. Inr buf)"

definition encreq_ping :: "bytes \<Rightarrow> bytes result" where
  "encreq_ping buf = Inr buf"

definition encreq_stamp :: "bytes \<Rightarrow> bytes result" where
  "encreq_stamp buf = Inr buf"

definition encreq_load :: "bytes \<Rightarrow> u64 \<Rightarrow> bytes result" where
  "encreq_load buf n = andThen (enc_uint64 buf n) (\<lambda>buf. Inr buf)"

definition encreq_tiny :: "bytes \<Rightarrow> Empty \<Rightarrow> bytes result" where
  "encreq_tiny buf tag = Inr buf"

section \<open>The codecs keep the contract\<close>

interpretation user_id: wide_codec enc_type_user_id dec_type_user_id "\<lambda>_. True" id
  by (rule wide_codec_cong [OF uint64.wide_codec_axioms]) (simp_all add: enc_type_user_id_def dec_type_user_id_def)

interpretation blob: wide_codec enc_type_blob dec_type_blob counted id
  by (rule wide_codec_cong [OF byte_string.wide_codec_axioms]) (simp_all add: enc_type_blob_def dec_type_blob_def)

interpretation names: wide_codec enc_type_names dec_type_names "\<lambda>v. counted v \<and> list_all counted v" "map id"
  by (rule wide_codec_cong [OF list_codec [OF text_string.wide_codec_axioms]])
    (simp_all add: enc_type_names_def dec_type_names_def enc_list_def dec_list_def)

interpretation list_uint8: wide_codec enc_list_uint8 dec_list_uint8 "\<lambda>v. counted v \<and> list_all (\<lambda>_. True) v" "map id"
  by (rule wide_codec_cong [OF list_codec [OF uint8.wide_codec_axioms]])
    (simp_all add: enc_list_uint8_def dec_list_uint8_def enc_list_def dec_list_def)

lemma Empty_unique: "x = Empty"
  by (cases x)

interpretation list_empty: wide_codec enc_list_empty dec_list_empty "\<lambda>v. length v \<le> maxInt" id
  by (rule wide_codec_cong [OF count_codec [OF Empty_unique]])
    (simp_all add: enc_list_empty_def dec_list_empty_def enc_count_def dec_count_def)

interpretation no_fields: wire_codec enc_type_empty dec_type_empty "\<lambda>_. True" id
  by unfold_locales (auto simp: enc_type_empty_def dec_type_empty_def intro: Empty_unique [symmetric])

interpretation record_empty: wire_codec enc_record_empty dec_record_empty "\<lambda>_. True" id
  by unfold_locales (auto simp: enc_record_empty_def dec_record_empty_def)

lemmas record_codec_simps = enc_pair_def dec_pair_def andThen_def

interpretation point: wire_codec enc_type_point dec_type_point "\<lambda>_. True"
  "\<lambda>v. \<lparr>pt_X = canon64 (pt_X v), pt_Y = canon64 (pt_Y v)\<rparr>"
  by (rule wire_codec_cong [OF conversion_codec
        [where mk = "\<lambda>(x, y). \<lparr>pt_X = x, pt_Y = y\<rparr>" and un = "\<lambda>v. (pt_X v, pt_Y v)",
         OF pair_codec [OF float64.wire_codec_axioms float64.wire_codec_axioms] _ _ refl refl]])
    (auto simp: enc_type_point_def dec_type_point_def record_codec_simps split: sum.split)

interpretation failed: wire_codec enc_record_failed dec_record_failed "\<lambda>v. counted (fl_Message v)" "\<lambda>v. v"
  by (rule wire_codec_cong [OF conversion_codec
        [where mk = "\<lambda>(c, m). \<lparr>fl_Code = c, fl_Message = m\<rparr>" and un = "\<lambda>v. (fl_Code v, fl_Message v)",
         OF pair_codec [OF int32.wire_codec_axioms text_string.wire_codec_axioms] _ _ refl refl]])
    (auto simp: enc_record_failed_def dec_record_failed_def record_codec_simps split: sum.split)

interpretation xy: wire_codec enc_record_xy dec_record_xy "\<lambda>_. True" "\<lambda>v. v"
  by (rule wire_codec_cong [OF conversion_codec
        [where mk = "\<lambda>(x, y). \<lparr>xy_X = x, xy_Y = y\<rparr>" and un = "\<lambda>v. (xy_X v, xy_Y v)",
         OF pair_codec [OF int32.wire_codec_axioms int32.wire_codec_axioms] _ _ refl refl]])
    (auto simp: enc_record_xy_def dec_record_xy_def record_codec_simps split: sum.split)

interpretation size_rec: wire_codec enc_record_size dec_record_size "\<lambda>_. True" "\<lambda>v. v"
  by (rule wire_codec_cong [OF conversion_codec
        [where mk = "\<lambda>(w, h). \<lparr>sz_Width = w, sz_Height = h\<rparr>" and un = "\<lambda>v. (sz_Width v, sz_Height v)",
         OF pair_codec [OF uint32.wire_codec_axioms uint32.wire_codec_axioms] _ _ refl refl]])
    (auto simp: enc_record_size_def dec_record_size_def record_codec_simps split: sum.split)

interpretation box: wire_codec enc_record_box dec_record_box "\<lambda>v. counted (bx_Label v)" "\<lambda>v. v"
  by (rule wire_codec_cong [OF conversion_codec
        [where mk = "\<lambda>(c, l). \<lparr>bx_Corner = c, bx_Label = l\<rparr>" and un = "\<lambda>v. (bx_Corner v, bx_Label v)",
         OF pair_codec [OF xy.wire_codec_axioms text_string.wire_codec_axioms] _ _ refl refl]])
    (auto simp: enc_record_box_def dec_record_box_def enc_record_xy_def dec_record_xy_def record_codec_simps split: sum.split)

section \<open>Properties\<close>

text \<open>
  Every bounded decoder is exactly the converse of its encoder: it accepts a payload with a
  value and a remainder precisely when the payload is the encoding of that value followed by
  that remainder. So nothing but an encoding is accepted (no truncated, oversized or
  noncanonical form, no NaN but the canonical one, no invalid UTF-8), no byte beyond the value
  is touched, and two values never share an encoding.
\<close>

theorem decoders_are_converse:
  "(dec_type_names src = Inr (ns, rest) \<longleftrightarrow>
      counted ns \<and> list_all counted ns \<and> (\<exists>bs. enc_type_names [] ns = Inr bs \<and> src = bs @ rest))
   \<and> (dec_record_box src = Inr (b, rest) \<longleftrightarrow>
      counted (bx_Label b) \<and> (\<exists>bs. enc_record_box [] b = Inr bs \<and> src = bs @ rest))
   \<and> (dec_record_failed src = Inr (f, rest) \<longleftrightarrow>
      counted (fl_Message f) \<and> (\<exists>bs. enc_record_failed [] f = Inr bs \<and> src = bs @ rest))
   \<and> (dec_type_point src = Inr (p, rest) \<longleftrightarrow>
      canon64 (pt_X p) = pt_X p \<and> canon64 (pt_Y p) = pt_Y p
      \<and> (\<exists>bs. enc_type_point [] p = Inr bs \<and> src = bs @ rest))
   \<and> (dec_list_uint8 src = Inr (os, rest) \<longleftrightarrow>
      counted os \<and> (\<exists>bs. enc_list_uint8 [] os = Inr bs \<and> src = bs @ rest))
   \<and> (dec_list_empty src = Inr (es, rest) \<longleftrightarrow>
      length es \<le> maxInt \<and> (\<exists>bs. enc_list_empty [] es = Inr bs \<and> src = bs @ rest))
   \<and> (dec_type_blob src = Inr (bl, rest) \<longleftrightarrow>
      counted bl \<and> (\<exists>bs. enc_type_blob [] bl = Inr bs \<and> src = bs @ rest))"
proof -
  have point: "\<lparr>pt_X = canon64 (pt_X p), pt_Y = canon64 (pt_Y p)\<rparr> = p
    \<longleftrightarrow> canon64 (pt_X p) = pt_X p \<and> canon64 (pt_Y p) = pt_Y p" by (cases p) simp
  show ?thesis
    unfolding names.dec_iff box.dec_iff failed.dec_iff point.dec_iff list_uint8.dec_iff list_empty.dec_iff
      blob.dec_iff point
    by (simp add: list_all_iff)
qed

text \<open>
  Every point, with any float bit patterns, encodes to sixteen bytes that decode to the same
  point with each NaN replaced by the canonical quiet NaN, and encoding that point again gives
  the same bytes.
\<close>

theorem point_round_trip:
  "\<exists>bs. enc_type_point buf v = Inr (buf @ bs) \<and> length bs = 16
     \<and> dec_type_point (bs @ rest) = Inr (\<lparr>pt_X = canon64 (pt_X v), pt_Y = canon64 (pt_Y v)\<rparr>, rest)
     \<and> enc_type_point [] \<lparr>pt_X = canon64 (pt_X v), pt_Y = canon64 (pt_Y v)\<rparr> = Inr bs"
proof -
  let ?bs = "le_bytes 8 (canon64 (pt_X v)) @ le_bytes 8 (canon64 (pt_Y v))"
  have enc: "enc_type_point b v = Inr (b @ ?bs)" for b
    by (simp add: enc_type_point_def enc_float enc_uint64_Inr)
  from point.round_trip [of v ?bs rest] enc [of "[]"] enc [of buf] show ?thesis
    by (intro exI [of _ ?bs]) (simp add: enc_type_point_def enc_float enc_uint64_Inr)
qed

end
