(* ===== verification/Byte_Stream.thy ===== *)
theory Byte_Stream
  imports Runtime_Errors
begin

text \<open>
  The byte-stream boundary of \<open>go/binding.go\<close> (\<open>ByteStream\<close>, read side), the
  standard library's \<open>io.ReadFull\<close> loop over it, and two providers: a scripted stream
  that delivers its bytes in arbitrary fragments, and the in-memory \<open>bytePipe\<close> of
  \<open>go/internal/integration/stream.go\<close>.

  A \<open>Read\<close> call maps a reader state and a buffer length to \<open>Some\<close> (the bytes
  delivered, an error or none, the next reader state); \<open>None\<close> is a call that blocks.
\<close>

type_synonym 'r read_op = "'r \<Rightarrow> nat \<Rightarrow> (bytes \<times> go_error option \<times> 'r) option"

section \<open>io.ReadFull\<close>

text \<open>
  The loop of \<open>io.ReadAtLeast\<close> with \<open>min = len(buf)\<close>. A stream may return no bytes
  and no error for ever, so the loop is partial: \<open>None\<close> when it does not return.
\<close>

partial_function (option) readLoop ::
  "'r read_op \<Rightarrow> 'r \<Rightarrow> nat \<Rightarrow> bytes \<Rightarrow> (bytes \<times> go_error option \<times> 'r) option" where
  "readLoop rd r want buf =
     (if want \<le> length buf then Some (buf, None, r)
      else Option.bind (rd r (want - length buf)) (\<lambda>(bs, e, r').
        case e of
          None \<Rightarrow> readLoop rd r' want (buf @ bs)
        | Some x \<Rightarrow> Some (buf @ bs, Some x, r')))"

text \<open>The error of a full read that came up short after \<open>s\<close>.\<close>

definition shortRead :: "bytes \<Rightarrow> go_error \<Rightarrow> go_error" where
  "shortRead s e = (if s \<noteq> [] \<and> e = IoEOF then IoUnexpectedEOF else e)"

definition readFull :: "'r read_op \<Rightarrow> 'r \<Rightarrow> nat \<Rightarrow> (bytes result \<times> 'r) option" where
  "readFull rd r want =
     Option.bind (readLoop rd r want []) (\<lambda>(buf, e, r').
       Some (if want \<le> length buf then Inr buf
             else (case e of
                     None \<Rightarrow> Inr buf
                   | Some x \<Rightarrow> Inl (shortRead buf x)), r'))"

section \<open>The contract of a stream\<close>

text \<open>
  \<open>avail\<close> is what the stream will still deliver, in order, and \<open>fin\<close> the error it
  reports once everything is delivered. Reads deliver a prefix that fits the buffer,
  report \<open>fin\<close> only with the last byte or after it, and every error-free read makes
  progress in \<open>weight\<close>, so a stream is idle only finitely often. \<open>live\<close> streams do not
  block.
\<close>

locale byte_source =
  fixes rd :: "'r read_op"
    and avail :: "'r \<Rightarrow> bytes"
    and fin :: "'r \<Rightarrow> go_error"
    and weight :: "'r \<Rightarrow> nat"
    and live :: "'r \<Rightarrow> bool"
  assumes rd_fits: "live r \<Longrightarrow> rd r n = Some (bs, e, r') \<Longrightarrow> length bs \<le> n"
    and rd_avail: "live r \<Longrightarrow> rd r n = Some (bs, e, r') \<Longrightarrow> avail r = bs @ avail r'"
    and rd_fin: "live r \<Longrightarrow> rd r n = Some (bs, e, r') \<Longrightarrow> fin r' = fin r"
    and rd_error: "live r \<Longrightarrow> rd r n = Some (bs, Some x, r') \<Longrightarrow> avail r' = [] \<and> x = fin r"
    and rd_progress: "live r \<Longrightarrow> 0 < n \<Longrightarrow> rd r n = Some (bs, None, r') \<Longrightarrow> weight r' < weight r"
    and rd_live: "live r \<Longrightarrow> rd r n = Some (bs, e, r') \<Longrightarrow> live r'"
    and rd_returns: "live r \<Longrightarrow> rd r n \<noteq> None"
begin

lemma readLoop_returns:
  "live r \<Longrightarrow> length buf \<le> want \<Longrightarrow>
   \<exists>out e r'. readLoop rd r want buf = Some (out, e, r') \<and> live r' \<and> fin r' = fin r
     \<and> buf @ avail r = out @ avail r' \<and> length out \<le> want
     \<and> (length out < want \<longrightarrow> e = Some (fin r) \<and> avail r' = [])"
proof (induction "weight r" arbitrary: r buf rule: less_induct)
  case less
  show ?case
  proof (cases "want \<le> length buf")
    case True
    with less.prems show ?thesis
      by (subst readLoop.simps) auto
  next
    case False
    from rd_returns [OF less.prems(1)] obtain bs e r'
      where rd: "rd r (want - length buf) = Some (bs, e, r')"
      by (metis option.exhaust prod_cases3)
    note facts = rd_fits [OF less.prems(1) rd] rd_avail [OF less.prems(1) rd]
      rd_fin [OF less.prems(1) rd] rd_live [OF less.prems(1) rd]
    show ?thesis
    proof (cases e)
      case None
      with rd False have step: "readLoop rd r want buf = readLoop rd r' want (buf @ bs)"
        by (subst readLoop.simps) simp
      have "weight r' < weight r"
        by (rule rd_progress [OF less.prems(1) _ rd [unfolded None]]) (use False in simp)
      moreover have "length (buf @ bs) \<le> want"
        using facts(1) False by simp
      ultimately obtain out e' s where "readLoop rd r' want (buf @ bs) = Some (out, e', s)"
        "live s" "fin s = fin r'" "(buf @ bs) @ avail r' = out @ avail s" "length out \<le> want"
        "length out < want \<longrightarrow> e' = Some (fin r') \<and> avail s = []"
        using less.hyps [of r' "buf @ bs"] facts(4) by blast
      with facts step show ?thesis by simp
    next
      case (Some x)
      with rd False have "readLoop rd r want buf = Some (buf @ bs, Some x, r')"
        by (subst readLoop.simps) simp
      moreover have "avail r' = [] \<and> x = fin r"
        using rd_error less.prems(1) rd Some by blast
      ultimately show ?thesis
        using facts False by simp
    qed
  qed
qed

text \<open>What a full read returns, as a function of the bytes the stream still has.\<close>

lemma readFull_spec:
  assumes "live r"
  shows "\<exists>r'. readFull rd r n =
      Some (if n \<le> length (avail r) then Inr (take n (avail r))
            else Inl (shortRead (avail r) (fin r)), r')
    \<and> live r' \<and> fin r' = fin r \<and> avail r' = drop n (avail r)"
proof -
  from readLoop_returns [OF assms, of "[]" n] obtain out e r' where
    run: "readLoop rd r n [] = Some (out, e, r')" and l: "live r'" "fin r' = fin r"
    and a: "avail r = out @ avail r'" "length out \<le> n"
    and short: "length out < n \<longrightarrow> e = Some (fin r) \<and> avail r' = []"
    by auto
  show ?thesis
  proof (cases "length out < n")
    case True
    with short a have "avail r = out" "avail r' = []" "e = Some (fin r)" by auto
    with True run l show ?thesis by (auto simp: readFull_def shortRead_def)
  next
    case False
    with a have "length out = n" by simp
    with run l a show ?thesis by (auto simp: readFull_def)
  qed
qed

end

section \<open>A scripted stream\<close>

text \<open>
  Each script entry is one delivery: bytes and possibly the stream's error. A delivery
  larger than the buffer is handed out in parts, and an error is sticky. After the
  script, and for an empty script, the stream reports EOF.
\<close>

type_synonym script = "(bytes \<times> go_error option) list"

fun script_read :: "script read_op" where
  "script_read [] n = Some ([], Some IoEOF, [])"
| "script_read ((c, e) # rs) n =
     (if n < length c then Some (take n c, None, (drop n c, e) # rs)
      else Some (c, e, (case e of None \<Rightarrow> rs | Some x \<Rightarrow> [([], Some x)])))"

fun script_avail :: "script \<Rightarrow> bytes" where
  "script_avail [] = []"
| "script_avail ((c, None) # rs) = c @ script_avail rs"
| "script_avail ((c, Some x) # rs) = c"

fun script_fin :: "script \<Rightarrow> go_error" where
  "script_fin [] = IoEOF"
| "script_fin ((c, None) # rs) = script_fin rs"
| "script_fin ((c, Some x) # rs) = x"

fun script_weight :: "script \<Rightarrow> nat" where
  "script_weight [] = 0"
| "script_weight ((c, e) # rs) = Suc (length c) + script_weight rs"

lemma script_read_progress:
  "0 < n \<Longrightarrow> script_read r n = Some (bs, None, r') \<Longrightarrow> script_weight r' < script_weight r"
  by (induction r n rule: script_read.induct) (auto split: if_splits option.splits)

lemma script_avail_cons [simp]:
  "script_avail ((c, e) # rs) = c @ (if e = None then script_avail rs else [])"
  by (cases e) auto

lemma script_fin_cons [simp]:
  "script_fin ((c, e) # rs) = (case e of None \<Rightarrow> script_fin rs | Some x \<Rightarrow> x)"
  by (cases e) auto

lemma script_read_avail:
  "script_read r n = Some (bs, e, r') \<Longrightarrow> script_avail r = bs @ script_avail r'"
  by (induction r n rule: script_read.induct) (auto split: if_splits option.splits)

lemma script_read_fin:
  "script_read r n = Some (bs, e, r') \<Longrightarrow> script_fin r' = script_fin r"
  by (induction r n rule: script_read.induct) (auto split: if_splits option.splits)

lemma script_read_error:
  "script_read r n = Some (bs, Some x, r') \<Longrightarrow> script_avail r' = [] \<and> x = script_fin r"
  by (induction r n rule: script_read.induct) (auto split: if_splits option.splits)

lemma script_read_fits: "script_read r n = Some (bs, e, r') \<Longrightarrow> length bs \<le> n"
  by (induction r n rule: script_read.induct) (auto split: if_splits)

lemma script_read_returns: "script_read r n \<noteq> None"
  by (induction r n rule: script_read.induct) auto

interpretation script: byte_source script_read script_avail script_fin script_weight "\<lambda>_. True"
  by unfold_locales
     (auto dest: script_read_avail script_read_fin script_read_error script_read_fits
        script_read_progress simp del: not_None_eq simp: script_read_returns)

section \<open>The in-memory pipe\<close>

record bytePipe =
  bp_buf :: bytes
  bp_closed :: bool
  bp_derr :: "go_error option"

definition newBytePipe :: bytePipe where
  "newBytePipe = \<lparr>bp_buf = [], bp_closed = False, bp_derr = None\<rparr>"

definition pipe_write :: "bytePipe \<Rightarrow> bytes \<Rightarrow> int \<times> go_error option \<times> bytePipe" where
  "pipe_write p b =
     (if bp_closed p then (0, Some IoClosedPipe, p)
      else (int (length b), None, p\<lparr>bp_buf := bp_buf p @ b\<rparr>))"

definition pipe_read :: "bytePipe read_op" where
  "pipe_read p n =
     (if bp_buf p = [] \<and> \<not> bp_closed p then None
      else if bp_buf p = [] then Some ([], bp_derr p, p)
      else Some (take n (bp_buf p), None, p\<lparr>bp_buf := drop n (bp_buf p)\<rparr>))"

definition closeWith :: "bytePipe \<Rightarrow> go_error option \<Rightarrow> bytePipe" where
  "closeWith p e = (if bp_closed p then p else p\<lparr>bp_closed := True, bp_derr := e\<rparr>)"

definition pipe_drains :: "bytePipe \<Rightarrow> bool" where
  "pipe_drains p \<longleftrightarrow> bp_closed p \<and> bp_derr p \<noteq> None"

interpretation pipe: byte_source pipe_read bp_buf "\<lambda>p. the (bp_derr p)" "\<lambda>p. length (bp_buf p)" pipe_drains
  by unfold_locales (auto simp: pipe_read_def pipe_drains_def split: if_splits)

end
