(* ===== verification/Frame.thy ===== *)
theory Frame
  imports Byte_Stream
begin

text \<open>
  The frame layer of \<open>go/frame.go\<close>: the 24-byte header, reading one complete frame from
  a byte stream and building one. Header fields are \<open>64 word\<close>s; the payload ceiling is
  checked before anything of the payload is read.
\<close>

section \<open>Header layout\<close>

datatype frameKind = requestFrame | responseFrame

definition frameHeaderSize :: nat where
  "frameHeaderSize = 24"

definition responseBit :: u64 where
  "responseBit = push_bit 63 1"

definition idMask :: u64 where
  "idMask = 0x7fffffffffffffff"

definition maxFramePayload :: nat where
  "maxFramePayload = 64 * 1024 * 1024"

record frameHeader =
  fh_kind :: frameKind
  fh_requestID :: u64
  fh_key :: u64
  fh_payloadLength :: u64

definition errHeaderSize :: "nat \<Rightarrow> go_error" where
  "errHeaderSize n = Errorf ''intercall: frame header is %d bytes, want %d: %w''
     [int n, int frameHeaderSize] ErrProtocol"

definition errPayloadLength :: "u64 \<Rightarrow> go_error" where
  "errPayloadLength l =
     Errorf ''intercall: frame payload length %d exceeds the maximum accepted payload of %d bytes: %w''
       [uint l, int maxFramePayload] ErrProtocol"

definition parseFrameHeader :: "bytes \<Rightarrow> frameHeader result" where
  "parseFrameHeader b =
     (if length b \<noteq> frameHeaderSize then Inl (errHeaderSize (length b))
      else
        let rawID = le_word (take 8 b) :: u64;
            len = le_word (take 8 (drop 16 b)) :: u64
        in if of_nat maxFramePayload < len then Inl (errPayloadLength len)
           else Inr \<lparr>fh_kind = (if rawID AND responseBit \<noteq> 0 then responseFrame else requestFrame),
                     fh_requestID = rawID AND idMask,
                     fh_key = le_word (take 8 (drop 8 b)),
                     fh_payloadLength = len\<rparr>)"

section \<open>Reading and building frames\<close>

definition readFramePayload :: "'r read_op \<Rightarrow> 'r \<Rightarrow> u64 \<Rightarrow> (bytes result \<times> 'r) option" where
  "readFramePayload rd r len =
     (if of_nat maxFramePayload < len then Some (Inl (errPayloadLength len), r)
      else Option.bind (readFull rd r (unat len)) (\<lambda>(res, r').
        Some (case res of
                Inl e \<Rightarrow> Inl (Errorf ''intercall: read frame payload: %w'' [] e)
              | Inr buf \<Rightarrow> Inr buf, r')))"

definition readFrame :: "'r read_op \<Rightarrow> 'r \<Rightarrow> ((frameHeader \<times> bytes) result \<times> 'r) option" where
  "readFrame rd r =
     Option.bind (readFull rd r frameHeaderSize) (\<lambda>(res, r1).
       case res of
         Inl e \<Rightarrow> Some (Inl (Errorf ''intercall: read frame header: %w'' [] e), r1)
       | Inr b \<Rightarrow>
         (case parseFrameHeader b of
            Inl e \<Rightarrow> Some (Inl e, r1)
          | Inr hdr \<Rightarrow>
            Option.bind (readFramePayload rd r1 (fh_payloadLength hdr)) (\<lambda>(res2, r2).
              Some (case res2 of Inl e \<Rightarrow> Inl e | Inr payload \<Rightarrow> Inr (hdr, payload), r2))))"

definition rawRequestID :: "frameKind \<Rightarrow> u64 \<Rightarrow> u64" where
  "rawRequestID k i =
     (if k = responseFrame then (i AND idMask) OR responseBit else i AND idMask)"

definition buildFrame :: "frameKind \<Rightarrow> u64 \<Rightarrow> u64 \<Rightarrow> bytes \<Rightarrow> bytes" where
  "buildFrame k i ky payload =
     le_bytes 8 (rawRequestID k i) @ le_bytes 8 ky
       @ le_bytes 8 (of_nat (length payload) :: u64) @ payload"

text \<open>Overwriting the request-ID field of an owned frame (\<open>PutUint64(frame[0:8], id)\<close>).\<close>

definition patchRequestID :: "bytes \<Rightarrow> u64 \<Rightarrow> bytes" where
  "patchRequestID frame i = le_bytes 8 i @ drop 8 frame"

section \<open>Header fields\<close>

lemma idMask_mask: "idMask = mask 63"
  by (simp add: idMask_def mask_eq_exp_minus_1)

lemma bit_idMask [simp]: "bit idMask n \<longleftrightarrow> n < 63"
  by (auto simp: idMask_mask bit_simps)

lemma bit_responseBit [simp]: "bit responseBit n \<longleftrightarrow> n = 63"
  unfolding responseBit_def by (auto simp only: bit_push_bit_iff bit_1_iff) auto

lemma rawRequestID_id: "rawRequestID k i AND idMask = i AND idMask"
  by (rule bit_eqI) (auto simp: rawRequestID_def bit_simps)

lemma responseBit_nonzero [simp]: "responseBit \<noteq> 0"
  by (simp add: responseBit_def)

lemma and_responseBit_iff: "(x AND responseBit = 0) \<longleftrightarrow> \<not> bit x 63"
proof -
  have "x AND responseBit = (if bit x 63 then responseBit else 0)"
    by (rule bit_eqI) (auto simp: bit_simps)
  then show ?thesis by simp
qed

lemma rawRequestID_kind:
  "rawRequestID k i AND responseBit = 0 \<longleftrightarrow> k = requestFrame"
  by (cases k) (auto simp: and_responseBit_iff rawRequestID_def bit_simps)

lemma idMask_bounded: "i AND idMask = i \<longleftrightarrow> i \<le> idMask"
proof -
  have "take_bit 63 i = i \<longleftrightarrow> uint i < 2 ^ 63"
    by (simp add: word_uint_eq_iff unsigned_take_bit_eq take_bit_int_eq_self_iff)
  moreover have "i \<le> idMask \<longleftrightarrow> uint i < 2 ^ 63"
    by (simp add: word_le_def idMask_def, linarith)
  ultimately show ?thesis
    by (simp add: idMask_mask take_bit_eq_mask)
qed

lemma length_buildFrame [simp]:
  "length (buildFrame k i ky payload) = frameHeaderSize + length payload"
  by (simp add: buildFrame_def frameHeaderSize_def)

lemma patchRequestID_build:
  assumes "i \<le> idMask"
  shows "patchRequestID (buildFrame requestFrame 0 ky payload) i = buildFrame requestFrame i ky payload"
proof -
  from assms have "i AND idMask = i" by (simp add: idMask_bounded)
  then show ?thesis by (simp add: patchRequestID_def buildFrame_def rawRequestID_def)
qed

lemma payload_fits_word:
  assumes "n \<le> maxFramePayload"
  shows "unat (of_nat n :: u64) = n" and "\<not> (of_nat maxFramePayload :: u64) < of_nat n"
  using assms by (simp_all add: word_less_nat_alt unat_of_nat maxFramePayload_def)

text \<open>The header that a built frame carries.\<close>

definition builtHeader :: "frameKind \<Rightarrow> u64 \<Rightarrow> u64 \<Rightarrow> bytes \<Rightarrow> frameHeader" where
  "builtHeader k i ky payload =
     \<lparr>fh_kind = k, fh_requestID = i AND idMask, fh_key = ky,
      fh_payloadLength = of_nat (length payload)\<rparr>"

lemma parseFrameHeader_build:
  assumes "length payload \<le> maxFramePayload"
  shows "parseFrameHeader (take frameHeaderSize (buildFrame k i ky payload @ rest)) =
           Inr (builtHeader k i ky payload)"
  using payload_fits_word [OF assms]
  by (cases k)
     (simp_all add: parseFrameHeader_def buildFrame_def frameHeaderSize_def builtHeader_def
        rawRequestID_id rawRequestID_kind Let_def)

lemma parseFrameHeader_length:
  "parseFrameHeader b = Inr h \<Longrightarrow> unat (fh_payloadLength h) \<le> maxFramePayload"
  by (auto simp: parseFrameHeader_def Let_def word_less_nat_alt unat_of_nat maxFramePayload_def
      split: if_splits)

section \<open>What one frame read does to the stream\<close>

text \<open>
  The reference: a frame read as a function of the bytes the stream still delivers and
  the error it ends with. It returns the outcome and the bytes left.
\<close>

definition decodeFrame :: "bytes \<Rightarrow> go_error \<Rightarrow> (frameHeader \<times> bytes) result \<times> bytes" where
  "decodeFrame s e =
     (if length s < frameHeaderSize
      then (Inl (Errorf ''intercall: read frame header: %w'' [] (shortRead s e)), [])
      else case parseFrameHeader (take frameHeaderSize s) of
        Inl x \<Rightarrow> (Inl x, drop frameHeaderSize s)
      | Inr h \<Rightarrow>
        let p = drop frameHeaderSize s; n = unat (fh_payloadLength h)
        in if length p < n
           then (Inl (Errorf ''intercall: read frame payload: %w'' [] (shortRead p e)), [])
           else (Inr (h, take n p), drop n p))"

context byte_source
begin

lemma readFramePayload_spec:
  assumes "live r" and "unat len \<le> maxFramePayload"
  shows "\<exists>r'. readFramePayload rd r len =
      Some (if unat len \<le> length (avail r) then Inr (take (unat len) (avail r))
            else Inl (Errorf ''intercall: read frame payload: %w'' [] (shortRead (avail r) (fin r))), r')
    \<and> live r' \<and> fin r' = fin r \<and> avail r' = drop (unat len) (avail r)"
proof -
  have "\<not> of_nat maxFramePayload < len"
    using assms(2) by (simp add: word_less_nat_alt unat_of_nat maxFramePayload_def)
  with readFull_spec [OF assms(1), of "unat len"] show ?thesis
    by (auto simp: readFramePayload_def split: if_splits)
qed

text \<open>Reading a frame from any stream refines the reference on the stream's bytes.\<close>

lemma readFrame_refines:
  assumes "live r"
  shows "\<exists>r'. readFrame rd r = Some (fst (decodeFrame (avail r) (fin r)), r')
    \<and> live r' \<and> fin r' = fin r \<and> avail r' = snd (decodeFrame (avail r) (fin r))"
proof -
  from readFull_spec [OF assms, of frameHeaderSize] obtain r1 where
    r1: "readFull rd r frameHeaderSize =
      Some (if frameHeaderSize \<le> length (avail r) then Inr (take frameHeaderSize (avail r))
            else Inl (shortRead (avail r) (fin r)), r1)"
    and l1: "live r1" "fin r1 = fin r" "avail r1 = drop frameHeaderSize (avail r)"
    by blast
  show ?thesis
  proof (cases "frameHeaderSize \<le> length (avail r)")
    case False
    with r1 l1 show ?thesis by (simp add: readFrame_def decodeFrame_def)
  next
    case True
    show ?thesis
    proof (cases "parseFrameHeader (take frameHeaderSize (avail r))")
      case (Inl e)
      with True r1 l1 show ?thesis by (simp add: readFrame_def decodeFrame_def)
    next
      case (Inr h)
      from readFramePayload_spec [OF l1(1) parseFrameHeader_length [OF Inr]] True Inr r1 l1
      show ?thesis by (auto simp: readFrame_def decodeFrame_def Let_def)
    qed
  qed
qed

end

lemma decodeFrame_build:
  assumes "length payload \<le> maxFramePayload"
  shows "decodeFrame (buildFrame k i ky payload @ rest) e =
           (Inr (builtHeader k i ky payload, payload), rest)"
proof -
  have d: "drop frameHeaderSize (buildFrame k i ky payload) = payload"
    by (simp add: buildFrame_def frameHeaderSize_def)
  show ?thesis
    using parseFrameHeader_build [OF assms, of k i ky rest] payload_fits_word(1) [OF assms]
    by (simp add: decodeFrame_def d builtHeader_def Let_def)
qed

section \<open>Properties of the frame layer\<close>

text \<open>
  C35. Frame round trip: when a stream's bytes start with a frame built from a kind, a
  request ID, a key and a payload within the ceiling, reading a frame returns exactly that
  header (with the 63-bit ID) and that payload, however the stream fragments its bytes,
  and leaves the reader exactly at the first byte after the frame.
\<close>

theorem readFrame_buildFrame:
  assumes "script_avail r = buildFrame k i ky payload @ rest"
    and "length payload \<le> maxFramePayload"
  shows "\<exists>r'. readFrame script_read r =
             Some (Inr (\<lparr>fh_kind = k, fh_requestID = i AND idMask, fh_key = ky,
                         fh_payloadLength = of_nat (length payload)\<rparr>, payload), r')
           \<and> script_avail r' = rest \<and> script_fin r' = script_fin r"
  using script.readFrame_refines [of r] assms
  by (auto simp: decodeFrame_build builtHeader_def)

theorem readFrame_buildFrame_witness:
  "\<exists>r'. readFrame script_read [(take 30 (buildFrame responseFrame 1 2 [7, 8, 9]), None),
            (drop 30 (buildFrame responseFrame 1 2 [7, 8, 9]), None), ([5], None)] =
        Some (Inr (\<lparr>fh_kind = responseFrame, fh_requestID = 1 AND idMask, fh_key = 2,
                    fh_payloadLength = of_nat (length [7, 8, 9 :: byte])\<rparr>, [7, 8, 9]), r')
      \<and> script_avail r' = [5]
      \<and> script_fin r' = script_fin [(take 30 (buildFrame responseFrame 1 2 [7, 8, 9]), None),
            (drop 30 (buildFrame responseFrame 1 2 [7, 8, 9]), None), ([5], None)]"
  by (rule readFrame_buildFrame) (simp_all add: maxFramePayload_def)

text \<open>
  C36. Reading a frame always returns, and its outcome and the bytes it leaves depend only on
  the byte sequence the stream delivers and its final error, never on how the bytes are
  split over \<open>Read\<close> calls: every stream refines the reference \<open>decodeFrame\<close>.
\<close>

theorem readFrame_refines_decodeFrame:
  "\<exists>r'. readFrame script_read r =
           Some (fst (decodeFrame (script_avail r) (script_fin r)), r')
       \<and> script_avail r' = snd (decodeFrame (script_avail r) (script_fin r))
       \<and> script_fin r' = script_fin r"
  using script.readFrame_refines [of r] by auto

text \<open>
  An over-ceiling payload length is a protocol error, decided from the header alone:
  exactly the 24 header bytes are consumed and not one payload byte is read.
\<close>

theorem readFrame_over_ceiling:
  assumes "frameHeaderSize \<le> length (script_avail r)"
    and "of_nat maxFramePayload < (le_word (take 8 (drop 16 (script_avail r))) :: u64)"
  shows "\<exists>e r'. readFrame script_read r = Some (Inl e, r') \<and> errors_is e ErrProtocol
           \<and> script_avail r' = drop frameHeaderSize (script_avail r)"
proof -
  let ?s = "script_avail r"
  let ?e = "errPayloadLength (le_word (take 8 (drop 16 ?s)))"
  have "take 8 (drop 16 (take frameHeaderSize ?s)) = take 8 (drop 16 ?s)"
    by (simp add: frameHeaderSize_def take_drop)
  with assms have "parseFrameHeader (take frameHeaderSize ?s) = Inl ?e"
    by (simp add: parseFrameHeader_def)
  with assms have "decodeFrame ?s (script_fin r) = (Inl ?e, drop frameHeaderSize ?s)"
    by (simp add: decodeFrame_def)
  then show ?thesis
    using script.readFrame_refines [of r] by (auto simp: errPayloadLength_def)
qed

theorem readFrame_over_ceiling_witness:
  "\<exists>e r'. readFrame script_read [(le_bytes 8 (1::u64) @ le_bytes 8 (2::u64) @ le_bytes 8 (67108865::u64) @ [3], None)]
        = Some (Inl e, r') \<and> errors_is e ErrProtocol
      \<and> script_avail r' = drop frameHeaderSize (script_avail
          [(le_bytes 8 (1::u64) @ le_bytes 8 (2::u64) @ le_bytes 8 (67108865::u64) @ [3], None)])"
  by (rule readFrame_over_ceiling)
     (simp_all add: frameHeaderSize_def maxFramePayload_def word_less_nat_alt)

text \<open>
  A stream that ends inside a frame is a transport failure: the error wraps the reader's
  exact error (an end of file inside the header or payload as an unexpected EOF), and it
  is never a protocol error unless the transport itself reported one.
\<close>

theorem readFrame_truncated:
  assumes "script_avail r = take n (buildFrame k i ky payload)"
    and "n < frameHeaderSize + length payload"
    and "length payload \<le> maxFramePayload"
    and "\<not> errors_is (script_fin r) ErrProtocol"
  shows "\<exists>e r' s. readFrame script_read r = Some (Inl e, r') \<and> script_avail r' = []
           \<and> errors_is e (shortRead s (script_fin r)) \<and> \<not> errors_is e ErrProtocol"
proof -
  let ?s = "script_avail r" and ?f = "script_fin r"
  have wrap: "\<not> errors_is (Errorf f [] (shortRead s ?f)) ErrProtocol" for f s
    using assms(4) by (auto simp: shortRead_def ErrProtocol_def)
  have "\<exists>f s. decodeFrame ?s ?f = (Inl (Errorf f [] (shortRead s ?f)), [])"
  proof (cases "n < frameHeaderSize")
    case True
    with assms(1) show ?thesis by (auto simp: decodeFrame_def)
  next
    case False
    have "take frameHeaderSize ?s = take frameHeaderSize (buildFrame k i ky payload @ [])"
      using assms(1) False by (simp add: min_def)
    then have "parseFrameHeader (take frameHeaderSize ?s) = Inr (builtHeader k i ky payload)"
      using parseFrameHeader_build [OF assms(3), of k i ky "[]"] by metis
    with False assms show ?thesis
      by (auto simp: decodeFrame_def builtHeader_def payload_fits_word Let_def)
  qed
  with script.readFrame_refines [of r] wrap show ?thesis
    by (metis errors_is_refl errors_is_wrap fst_conv snd_conv)
qed

theorem readFrame_truncated_witness:
  "\<exists>e r' s. readFrame script_read [(take 25 (buildFrame requestFrame 1 2 [7, 8]), None)] = Some (Inl e, r')
      \<and> script_avail r' = []
      \<and> errors_is e (shortRead s (script_fin [(take 25 (buildFrame requestFrame 1 2 [7, 8]), None)]))
      \<and> \<not> errors_is e ErrProtocol"
  by (rule readFrame_truncated [where n = 25 and k = requestFrame and i = 1 and ky = 2 and payload = "[7, 8]"])
     (simp_all add: frameHeaderSize_def maxFramePayload_def ErrProtocol_def)

text \<open>
  Frames are unambiguous: two built frames with IDs in the 63-bit range, followed by
  anything, can only agree as byte strings when they are the same frame.
\<close>

theorem buildFrame_inject:
  assumes "buildFrame k i ky payload @ rest = buildFrame k' i' ky' payload' @ rest'"
    and "i \<le> idMask" and "i' \<le> idMask"
    and "length payload \<le> maxFramePayload" and "length payload' \<le> maxFramePayload"
  shows "k = k' \<and> i = i' \<and> ky = ky' \<and> payload = payload' \<and> rest = rest'"
proof -
  have "decodeFrame (buildFrame k i ky payload @ rest) IoEOF
      = decodeFrame (buildFrame k' i' ky' payload' @ rest') IoEOF"
    by (simp only: assms(1))
  then have "builtHeader k i ky payload = builtHeader k' i' ky' payload'"
    and p: "payload = payload'" "rest = rest'"
    unfolding decodeFrame_build [OF assms(4)] decodeFrame_build [OF assms(5)]
    by blast+
  with assms(2,3) p show ?thesis
    by (auto simp: builtHeader_def simp flip: idMask_bounded)
qed

theorem buildFrame_inject_witness:
  "requestFrame = requestFrame \<and> (3 :: u64) = 3 \<and> (4 :: u64) = 4 \<and> [1 :: byte] = [1] \<and> [2 :: byte] = [2]"
  by (rule buildFrame_inject [of requestFrame 3 4 "[1]" "[2]" requestFrame 3 4 "[1]" "[2]"])
     (simp_all add: idMask_def maxFramePayload_def)

end
