(* ===== verification/Frame_Write.thy ===== *)
theory Frame_Write
  imports Frame
begin

text \<open>
  The full-write loop of \<open>go/write.go\<close>. One \<open>Write\<close> call of the stream maps the stream
  state and the remaining bytes to the byte count it claims, an error or none, and the
  next state. \<open>writeStep\<close> is the body of the loop after the call, shared with the
  connection model, where the calls of a frame write interleave with other goroutines.
\<close>

type_synonym 'w write_op = "'w \<Rightarrow> bytes \<Rightarrow> int \<times> go_error option \<times> 'w"

datatype write_outcome = WriteMore nat bytes | WriteFail go_error

definition writeStep :: "nat \<Rightarrow> bytes \<Rightarrow> int \<Rightarrow> go_error option \<Rightarrow> write_outcome" where
  "writeStep tot b n err =
     (if n < 0 \<or> int (length b) < n
      then WriteFail (Errorf ''intercall: write frame: invalid byte count %d for %d-byte remainder: %w''
             [n, int (length b)] errInvalidWriteCount)
      else case err of
        Some e \<Rightarrow>
          WriteFail (if 0 < n \<and> n < int (length b)
            then Errorf ''intercall: write frame: partial write after %d of %d bytes: %w''
                   [int tot + n, int tot + int (length b)] e
            else Errorf ''intercall: write frame: %w'' [] e)
      | None \<Rightarrow>
          if n = 0
          then WriteFail (Errorf ''intercall: write frame: no progress: %w'' [] errWriteNoProgress)
          else WriteMore (tot + nat n) (drop (nat n) b))"

lemma writeStep_More:
  "writeStep tot b n err = WriteMore t b' \<longleftrightarrow>
     0 < n \<and> n \<le> int (length b) \<and> err = None \<and> t = tot + nat n \<and> b' = drop (nat n) b"
  by (auto simp: writeStep_def split: option.splits if_splits)

function writeFull :: "'w write_op \<Rightarrow> 'w \<Rightarrow> nat \<Rightarrow> bytes \<Rightarrow> go_error option \<times> 'w" where
  "writeFull wr w tot b =
     (if b = [] then (None, w)
      else case wr w b of (n, err, w') \<Rightarrow>
        (case writeStep tot b n err of
           WriteFail e \<Rightarrow> (Some e, w')
         | WriteMore tot' b' \<Rightarrow> writeFull wr w' tot' b'))"
  by pat_completeness auto
termination
  by (relation "measure (\<lambda>(wr, w, tot, b). length b)") (auto simp: writeStep_More)

declare writeFull.simps [simp del]

section \<open>The contract of a sink\<close>

text \<open>
  \<open>written\<close> is everything the stream has taken so far. A \<open>Write\<close> call takes a prefix of
  its argument, of the length it reports when that length is possible.
\<close>

locale byte_sink =
  fixes wr :: "'w write_op" and written :: "'w \<Rightarrow> bytes"
  assumes wr_prefix: "wr w b = (n, e, w') \<Longrightarrow>
      \<exists>m \<le> length b. written w' = written w @ take m b
        \<and> (0 \<le> n \<and> n \<le> int (length b) \<longrightarrow> n = int m)"
begin

text \<open>The stream takes a prefix of the frame, and all of it when no error is returned.\<close>

lemma writeFull_prefix:
  "\<exists>m \<le> length b. written (snd (writeFull wr w tot b)) = written w @ take m b
     \<and> (fst (writeFull wr w tot b) = None \<longrightarrow> m = length b)
     \<and> (\<forall>f x y e. fst (writeFull wr w tot b) = Some (Errorf f [x, y] e)
            \<and> \<not> errors_is e errInvalidWriteCount \<longrightarrow>
          x = int (tot + m) \<and> y = int (tot + length b))"
proof (induction "length b" arbitrary: w tot b rule: less_induct)
  case less
  obtain n err w' where wr: "wr w b = (n, err, w')" by (metis prod_cases3)
  from wr_prefix [OF wr] obtain m where m: "m \<le> length b" "written w' = written w @ take m b"
    and count: "0 \<le> n \<and> n \<le> int (length b) \<longrightarrow> n = int m"
    by blast
  show ?case
  proof (cases "b = []")
    case True
    then show ?thesis by (simp add: writeFull.simps)
  next
    case False
    show ?thesis
    proof (cases "writeStep tot b n err")
      case (WriteFail e)
      with False wr have run: "writeFull wr w tot b = (Some e, w')"
        by (subst writeFull.simps) simp
      from WriteFail count
      have "\<forall>f x y e'. e = Errorf f [x, y] e' \<and> \<not> errors_is e' errInvalidWriteCount \<longrightarrow>
              x = int (tot + m) \<and> y = int (tot + length b)"
        by (auto simp: writeStep_def split: option.splits if_splits)
      with run m show ?thesis by auto
    next
      case (WriteMore t b')
      with False wr have run: "writeFull wr w tot b = writeFull wr w' t b'"
        by (subst writeFull.simps) simp
      from WriteMore count have nm: "n = int m" "0 < m" and t: "t = tot + m" "b' = drop m b"
        by (auto simp: writeStep_More)
      then have "length b' < length b" using False by auto
      from less.hyps [OF this, of w' t] obtain m' where m': "m' \<le> length b'"
        "written (snd (writeFull wr w' t b')) = written w' @ take m' b'"
        "fst (writeFull wr w' t b') = None \<longrightarrow> m' = length b'"
        "\<forall>f x y e. fst (writeFull wr w' t b') = Some (Errorf f [x, y] e)
            \<and> \<not> errors_is e errInvalidWriteCount \<longrightarrow>
          x = int (t + m') \<and> y = int (t + length b')"
        by (elim exE conjE) (rule that)
      have "take m b @ take m' (drop m b) = take (m + m') b" by (simp add: take_add)
      with m' m t run show ?thesis
        by (intro exI [of _ "m + m'"]) auto
    qed
  qed
qed

end

section \<open>Providers\<close>

text \<open>A scripted sink: the counts and errors of its \<open>Write\<close> calls in order, and what it took.\<close>

record sink =
  sk_calls :: "(int \<times> go_error option) list"
  sk_written :: bytes

definition sink_write :: "sink write_op" where
  "sink_write s b =
     (case sk_calls s of
        [] \<Rightarrow> (int (length b), None, s\<lparr>sk_written := sk_written s @ b\<rparr>)
      | (n, e) # cs \<Rightarrow> (n, e, s\<lparr>sk_calls := cs, sk_written := sk_written s @ take (nat n) b\<rparr>))"

interpretation sink: byte_sink sink_write sk_written
proof
  fix w :: sink and b n e w'
  assume wr: "sink_write w b = (n, e, w')"
  show "\<exists>m \<le> length b. sk_written w' = sk_written w @ take m b
        \<and> (0 \<le> n \<and> n \<le> int (length b) \<longrightarrow> n = int m)"
  proof (cases "sk_calls w")
    case Nil
    with wr show ?thesis by (auto simp: sink_write_def)
  next
    case (Cons c cs)
    with wr show ?thesis
      by (cases c) (auto simp: sink_write_def min_def intro!: exI [of _ "min (nat n) (length b)"])
  qed
qed

interpretation pipe: byte_sink pipe_write bp_buf
  by unfold_locales (auto simp: pipe_write_def split: if_splits)

section \<open>Properties of the full write\<close>

text \<open>
  C37. Writing a frame always ends. When it succeeds the stream has taken exactly the frame
  after what it had before; when it fails the stream has taken a prefix of the frame, and
  a partial-write error counts the accepted bytes of the whole frame against the frame's size.
\<close>

theorem writeFull_all_or_prefix:
  "\<exists>m \<le> length b. sk_written (snd (writeFull sink_write w 0 b)) = sk_written w @ take m b
     \<and> (fst (writeFull sink_write w 0 b) = None \<longrightarrow> m = length b)
     \<and> (\<forall>f x y e. fst (writeFull sink_write w 0 b) = Some (Errorf f [x, y] e)
            \<and> \<not> errors_is e errInvalidWriteCount \<longrightarrow> x = int m \<and> y = int (length b))"
  using sink.writeFull_prefix [of b w 0] by simp

theorem writeFull_all_or_prefix_witness:
  "\<exists>m. m \<le> length [1, 2, 3 :: byte]
     \<and> sk_written (snd (writeFull sink_write \<lparr>sk_calls = [(1, None), (1, Some (ForeignError 0))], sk_written = [9]\<rparr> 0 [1, 2, 3]))
       = sk_written \<lparr>sk_calls = [(1, None), (1, Some (ForeignError 0))], sk_written = [9]\<rparr> @ take m [1, 2, 3]"
  using writeFull_all_or_prefix
    [of "[1, 2, 3]" "\<lparr>sk_calls = [(1, None), (1, Some (ForeignError 0))], sk_written = [9]\<rparr>"]
  by blast

text \<open>
  Precedence of the write classifications: an impossible count is reported as such even
  when the writer also returned an error; otherwise the writer's error is wrapped; a zero
  count without an error is a no-progress error.
\<close>

theorem writeFull_classifies:
  assumes "b \<noteq> []" and "wr w b = (n, err, w')"
  shows "(n < 0 \<or> int (length b) < n \<longrightarrow>
            (\<exists>e. writeFull wr w 0 b = (Some e, w') \<and> errors_is e errInvalidWriteCount))
       \<and> (0 \<le> n \<and> n \<le> int (length b) \<and> err = Some x \<longrightarrow>
            (\<exists>e. writeFull wr w 0 b = (Some e, w') \<and> errors_is e x))
       \<and> (n = 0 \<and> err = None \<longrightarrow>
            (\<exists>e. writeFull wr w 0 b = (Some e, w') \<and> errors_is e errWriteNoProgress))"
  using assms by (auto simp: writeFull.simps [of wr w 0 b] writeStep_def)

theorem writeFull_classifies_witness:
  "\<exists>e. writeFull sink_write \<lparr>sk_calls = [(5, Some IoEOF)], sk_written = []\<rparr> 0 [1]
         = (Some e, \<lparr>sk_calls = [], sk_written = [1]\<rparr>) \<and> errors_is e errInvalidWriteCount"
  using writeFull_classifies
    [of "[1]" sink_write "\<lparr>sk_calls = [(5, Some IoEOF)], sk_written = []\<rparr>" 5 "Some IoEOF"
        "\<lparr>sk_calls = [], sk_written = [1]\<rparr>" IoEOF]
  by (simp add: sink_write_def)

text \<open>
  End to end over the in-memory stream: a frame written in full to an open pipe is read
  back from the pipe, once it is closed, as exactly that frame.
\<close>

theorem frame_through_pipe:
  assumes "\<not> bp_closed p" and "bp_buf p = []"
    and "length payload \<le> maxFramePayload"
  shows "\<exists>p1 p2. writeFull pipe_write p 0 (buildFrame k i ky payload) = (None, p1)
      \<and> readFrame pipe_read (closeWith p1 (Some IoEOF)) =
          Some (Inr (builtHeader k i ky payload, payload), p2)
      \<and> bp_buf p2 = []"
proof -
  let ?b = "buildFrame k i ky payload"
  let ?p1 = "p\<lparr>bp_buf := ?b\<rparr>"
  have "0 < length ?b" by (simp add: frameHeaderSize_def)
  then have ne: "?b \<noteq> []" by blast
  have "writeFull pipe_write p 0 ?b = (None, ?p1)"
    using assms(1,2) ne
    by (simp add: writeFull.simps [of pipe_write p] writeFull.simps [of pipe_write ?p1]
        pipe_write_def writeStep_def frameHeaderSize_def)
  moreover have "pipe_drains (closeWith ?p1 (Some IoEOF))"
    using assms(1) by (simp add: pipe_drains_def closeWith_def)
  moreover have "bp_buf (closeWith ?p1 (Some IoEOF)) = ?b @ []"
    by (simp add: closeWith_def)
  ultimately show ?thesis
    using pipe.readFrame_refines decodeFrame_build [OF assms(3), where rest = "[]"] by fastforce
qed

theorem frame_through_pipe_witness:
  "\<exists>p1 p2. writeFull pipe_write newBytePipe 0 (buildFrame requestFrame 1 2 [7]) = (None, p1)
      \<and> readFrame pipe_read (closeWith p1 (Some IoEOF)) =
          Some (Inr (builtHeader requestFrame 1 2 [7], [7]), p2)
      \<and> bp_buf p2 = []"
  by (rule frame_through_pipe) (simp_all add: newBytePipe_def maxFramePayload_def)

end
