(* ===== verification/Binding.thy ===== *)
theory Binding
  imports Frame_Write Interface_Key
begin

text \<open>
  Binding handles and context binding: \<open>go/binding.go\<close>, \<open>go/context.go\<close> and
  \<open>go/empty.go\<close>. A handle is a pointer to immutable state, so the states live in a
  store and a handle is the address of one, or none for the zero value; copying a handle
  copies the address. A generated \<open>Dispatch\<close> function is a parameter: \<open>None\<close> as its
  result is a panic that escapes it.
\<close>

type_synonym InterfaceID = bytes

definition zeroInterfaceID :: InterfaceID where
  "zeroInterfaceID = replicate 32 0"

type_synonym 'ctx Dispatch = "'ctx \<Rightarrow> u64 \<Rightarrow> bytes \<Rightarrow> (u64 \<times> bytes) option"

record 'ctx exportState =
  es_dispatch :: "'ctx Dispatch"
  es_interfaceID :: InterfaceID
  es_hasInterfaceID :: bool

record importState =
  is_interfaceID :: InterfaceID
  is_hasInterfaceID :: bool

record 'ctx store =
  st_exports :: "'ctx exportState list"
  st_imports :: "importState list"

datatype ExportBinding = ExportBinding "nat option"

datatype ImportBinding = ImportBinding "nat option"

section \<open>Construction\<close>

definition newExportState :: "'ctx exportState \<Rightarrow> 'ctx store \<Rightarrow> ExportBinding \<times> 'ctx store" where
  "newExportState s st =
     (ExportBinding (Some (length (st_exports st))), st\<lparr>st_exports := st_exports st @ [s]\<rparr>)"

definition newImportState :: "importState \<Rightarrow> 'ctx store \<Rightarrow> ImportBinding \<times> 'ctx store" where
  "newImportState s st =
     (ImportBinding (Some (length (st_imports st))), st\<lparr>st_imports := st_imports st @ [s]\<rparr>)"

definition NewExportBinding :: "'ctx Dispatch option \<Rightarrow> 'ctx store \<Rightarrow> ExportBinding result \<times> 'ctx store" where
  "NewExportBinding dispatch st = (case dispatch of
     None \<Rightarrow> (Inl ErrInvalidArgument, st)
   | Some d \<Rightarrow> map_prod Inr id (newExportState
       \<lparr>es_dispatch = d, es_interfaceID = zeroInterfaceID, es_hasInterfaceID = False\<rparr> st))"

definition NewExportBindingWithInterfaceID ::
  "'ctx Dispatch option \<Rightarrow> InterfaceID \<Rightarrow> 'ctx store \<Rightarrow> ExportBinding result \<times> 'ctx store" where
  "NewExportBindingWithInterfaceID dispatch i st = (case dispatch of
     None \<Rightarrow> (Inl ErrInvalidArgument, st)
   | Some d \<Rightarrow> map_prod Inr id (newExportState
       \<lparr>es_dispatch = d, es_interfaceID = i, es_hasInterfaceID = True\<rparr> st))"

definition NewImportBinding :: "'ctx store \<Rightarrow> ImportBinding \<times> 'ctx store" where
  "NewImportBinding st =
     newImportState \<lparr>is_interfaceID = zeroInterfaceID, is_hasInterfaceID = False\<rparr> st"

definition NewImportBindingWithInterfaceID :: "InterfaceID \<Rightarrow> 'ctx store \<Rightarrow> ImportBinding \<times> 'ctx store" where
  "NewImportBindingWithInterfaceID i st =
     newImportState \<lparr>is_interfaceID = i, is_hasInterfaceID = True\<rparr> st"

fun exportInterfaceID :: "'ctx store \<Rightarrow> ExportBinding \<Rightarrow> InterfaceID \<times> bool" where
  "exportInterfaceID st (ExportBinding None) = (zeroInterfaceID, False)"
| "exportInterfaceID st (ExportBinding (Some a)) =
     (es_interfaceID (st_exports st ! a), es_hasInterfaceID (st_exports st ! a))"

fun importInterfaceID :: "'ctx store \<Rightarrow> ImportBinding \<Rightarrow> InterfaceID \<times> bool" where
  "importInterfaceID st (ImportBinding None) = (zeroInterfaceID, False)"
| "importInterfaceID st (ImportBinding (Some a)) =
     (is_interfaceID (st_imports st ! a), is_hasInterfaceID (st_imports st ! a))"

text \<open>A handle that some constructor returned: its address is in the store.\<close>

fun exportAllocated :: "'ctx store \<Rightarrow> ExportBinding \<Rightarrow> bool" where
  "exportAllocated st (ExportBinding None) = False"
| "exportAllocated st (ExportBinding (Some a)) = (a < length (st_exports st))"

fun importAllocated :: "'ctx store \<Rightarrow> ImportBinding \<Rightarrow> bool" where
  "importAllocated st (ImportBinding None) = False"
| "importAllocated st (ImportBinding (Some a)) = (a < length (st_imports st))"

section \<open>The empty direction\<close>

definition emptyInterfaceCanonicalBody :: string where
  "emptyInterfaceCanonicalBody =
     ''exception internal_exception;'' @ [CHR 0x0A, CHR 0x0A]
     @ ''exception invalid_arguments;'' @ [CHR 0x0A, CHR 0x0A]
     @ ''exception procedure_not_found;'' @ [CHR 0x0A]"

definition emptyInterfaceID :: InterfaceID where
  "emptyInterfaceID =
    [0xc3, 0x1c, 0x47, 0x0d, 0xd8, 0xdb, 0x21, 0xdb,
     0x3b, 0xc8, 0x70, 0x9b, 0xdc, 0xad, 0x77, 0x78, 0xa3,
     0xd2, 0xde, 0xad, 0x33, 0x19, 0x3c, 0x95, 0xb9,
     0x69, 0x1a, 0x4f, 0x0b, 0xa5, 0x0d, 0xc8]"

definition emptyProcedureNotFoundKey :: u64 where
  "emptyProcedureNotFoundKey = 0x970e76fcc5e2dacb"

definition emptyExportDispatch :: "'ctx Dispatch" where
  "emptyExportDispatch ctx key payload = Some (emptyProcedureNotFoundKey, [])"

definition internalExceptionKey :: u64 where
  "internalExceptionKey = 0x1aaec22e85996f50"

text \<open>
  The one recovery around the dispatch of an incoming call (\<open>invokeDispatch\<close> in
  \<open>go/receive.go\<close>).
\<close>

definition recoverDispatch :: "(u64 \<times> bytes) option \<Rightarrow> u64 \<times> bytes" where
  "recoverDispatch r = (case r of None \<Rightarrow> (internalExceptionKey, []) | Some x \<Rightarrow> x)"

definition invokeDispatch :: "'ctx store \<Rightarrow> nat \<Rightarrow> 'ctx \<Rightarrow> u64 \<Rightarrow> bytes \<Rightarrow> u64 \<times> bytes" where
  "invokeDispatch st a ctx key payload = recoverDispatch (es_dispatch (st_exports st ! a) ctx key payload)"

text \<open>The package variables: the empty bindings are constructed once at start-up.\<close>

definition initBindings :: "'ctx store \<Rightarrow> (ExportBinding result \<times> ImportBinding) \<times> 'ctx store" where
  "initBindings st =
     (let (imp, st1) = NewImportBindingWithInterfaceID emptyInterfaceID st;
          (ex, st2) = NewExportBindingWithInterfaceID (Some emptyExportDispatch) emptyInterfaceID st1
      in ((ex, imp), st2))"

section \<open>Contexts\<close>

text \<open>
  A context carries values under keys along its chain of parents, the innermost first.
  A connection is an address, \<open>None\<close> the nil pointer. \<open>Value\<close> walks the chain.
\<close>

datatype ctx_key = ConnectionContextKey | OtherKey nat

datatype goctx = Background | WithValue goctx ctx_key "nat option"

fun Value :: "goctx \<Rightarrow> ctx_key \<Rightarrow> nat option option" where
  "Value Background k = None"
| "Value (WithValue parent k' v) k = (if k = k' then Some v else Value parent k)"

text \<open>\<open>None\<close> is the panic on a nil parent or a nil connection.\<close>

definition WithConnection :: "goctx option \<Rightarrow> nat option \<Rightarrow> goctx option" where
  "WithConnection ctx conn = (case ctx of
     None \<Rightarrow> None
   | Some c \<Rightarrow> (case conn of None \<Rightarrow> None | Some a \<Rightarrow> Some (WithValue c ConnectionContextKey (Some a))))"

definition ConnectionFromContext :: "goctx option \<Rightarrow> nat result" where
  "ConnectionFromContext ctx = (case ctx of
     None \<Rightarrow> Inl ErrInvalidArgument
   | Some c \<Rightarrow> (case Value c ConnectionContextKey of
       Some (Some a) \<Rightarrow> Inr a
     | _ \<Rightarrow> Inl ErrNoConnection))"

section \<open>Properties\<close>

text \<open>
  Handles are process-local identities: every successful construction returns a
  handle different from the zero value and from every handle allocated before, keeps the
  metadata of all of them, and reports exactly the interface ID it was given, also when
  that is all zero; a nil dispatch is rejected without allocating.
\<close>

theorem export_binding_identity:
  assumes "NewExportBindingWithInterfaceID (Some d) i st = (r, st')"
  shows "\<exists>b. r = Inr b \<and> b \<noteq> ExportBinding None \<and> \<not> exportAllocated st b \<and> exportAllocated st' b
    \<and> exportInterfaceID st' b = (i, True)
    \<and> (\<forall>b'. exportAllocated st b' \<longrightarrow> exportAllocated st' b' \<and> exportInterfaceID st' b' = exportInterfaceID st b')
    \<and> NewExportBindingWithInterfaceID None i st = (Inl ErrInvalidArgument, st)
    \<and> NewExportBinding None st = (Inl ErrInvalidArgument, st)"
proof -
  have keep: "exportAllocated st' b' \<and> exportInterfaceID st' b' = exportInterfaceID st b'"
    if "exportAllocated st b'" for b'
    using that assms by (cases "(st, b')" rule: exportAllocated.cases)
      (auto simp: NewExportBindingWithInterfaceID_def newExportState_def nth_append)
  with assms show ?thesis
    by (auto simp: NewExportBindingWithInterfaceID_def NewExportBinding_def newExportState_def)
qed

theorem export_binding_identity_witness:
  "\<exists>b. Inr (ExportBinding (Some 0)) = (Inr b :: ExportBinding result) \<and> b \<noteq> ExportBinding None
    \<and> \<not> exportAllocated (\<lparr>st_exports = [], st_imports = []\<rparr> :: unit store) b
    \<and> exportAllocated (\<lparr>st_exports = [\<lparr>es_dispatch = emptyExportDispatch, es_interfaceID = zeroInterfaceID,
         es_hasInterfaceID = True\<rparr>], st_imports = []\<rparr> :: unit store) b
    \<and> exportInterfaceID (\<lparr>st_exports = [\<lparr>es_dispatch = emptyExportDispatch, es_interfaceID = zeroInterfaceID,
         es_hasInterfaceID = True\<rparr>], st_imports = []\<rparr> :: unit store) b = (zeroInterfaceID, True)"
  using export_binding_identity [of emptyExportDispatch zeroInterfaceID
      "\<lparr>st_exports = [], st_imports = []\<rparr> :: unit store" "Inr (ExportBinding (Some 0))"]
  by (auto simp: NewExportBindingWithInterfaceID_def newExportState_def)

text \<open>
  A context bound with \<open>WithConnection\<close> returns exactly that connection, whatever
  was bound before and whatever other values are added on top; without a binding, or for
  a nil context, the documented error comes back.
\<close>

theorem connection_context_roundtrip:
  "(case WithConnection (Some c) (Some a) of
      None \<Rightarrow> False
    | Some c' \<Rightarrow> ConnectionFromContext (Some c') = Inr a
        \<and> ConnectionFromContext (Some (WithValue c' (OtherKey n) v)) = Inr a)
   \<and> ConnectionFromContext (Some Background) = Inl ErrNoConnection
   \<and> ConnectionFromContext None = Inl ErrInvalidArgument
   \<and> WithConnection None (Some a) = None \<and> WithConnection (Some c) None = None"
  by (simp add: WithConnection_def ConnectionFromContext_def)

text \<open>
  The empty direction answers every request with \<open>procedure_not_found\<close> and no payload,
  under the key of that exception name, its two bindings carry the same 32-byte interface
  ID, and a dispatch that panics is answered with \<open>internal_exception\<close>.
\<close>

theorem empty_direction:
  "\<exists>a imp st'. initBindings st = ((Inr (ExportBinding (Some a)), imp), st')
     \<and> exportInterfaceID st' (ExportBinding (Some a)) = (emptyInterfaceID, True)
     \<and> importInterfaceID st' imp = (emptyInterfaceID, True) \<and> length emptyInterfaceID = 32
     \<and> invokeDispatch st' a ctx key payload = (ExceptionKey ''procedure_not_found'', [])
     \<and> recoverDispatch None = (ExceptionKey ''internal_exception'', [])"
proof -
  have keys: "ExceptionKey ''procedure_not_found'' = emptyProcedureNotFoundKey"
    "ExceptionKey ''internal_exception'' = internalExceptionKey"
    by (simp_all only: key_vectors emptyProcedureNotFoundKey_def internalExceptionKey_def)
  show ?thesis
    unfolding keys
    by (simp add: initBindings_def NewImportBindingWithInterfaceID_def newImportState_def
        NewExportBindingWithInterfaceID_def newExportState_def invokeDispatch_def recoverDispatch_def
        emptyExportDispatch_def emptyInterfaceID_def)
qed

end
