(* ===== verification/Import_Binding.thy ===== *)
theory Import_Binding
  imports Import_Codecs Binding
begin

text \<open>
  The caller side of \<open>go/internal/tool/importfixture/binding_gen.go\<close>: the response decoder and
  the exported function of every procedure, as emitted by \<open>go/internal/tool/import.go\<close>. A
  response decoder stores either the data result or a typed exception through its pointers and
  reports an error for anything the interface does not declare; the stored value is the
  result here. The runtime's \<open>Connection.Call\<close> is an argument of the callers.
\<close>

section \<open>Results and exceptions\<close>

definition errTrailing :: go_error where
  "errTrailing = Sentinel ''intercall: response payload has trailing bytes''"

definition errUnknownKey :: go_error where
  "errUnknownKey = Sentinel ''intercall: undeclared exception key''"

text \<open>The error values a caller can be given: the runtime's, and the declared exceptions.\<close>

datatype import_error =
    RuntimeError go_error
  | Denied
  | FailedError Failed
  | OverloadedError Names

datatype 'a response = Out 'a | Exc import_error

section \<open>Response decoders\<close>

definition decexc_failed :: "bytes \<Rightarrow> (Failed \<times> bytes) result" where
  "decexc_failed src = andThen (dec_record_failed src) (\<lambda>(v, src). Inr (v, src))"

text \<open>A payload that must be used up exactly: \<open>len(rest) != 0\<close> is an error.\<close>

definition exhausted :: "('b \<times> bytes) result \<Rightarrow> 'b result" where
  "exhausted r = andThen r (\<lambda>(v, rest). if rest \<noteq> [] then Inl errTrailing else Inr v)"

text \<open>The cases every response decoder has after the success key.\<close>

definition decode_exception :: "u64 \<Rightarrow> bytes \<Rightarrow> import_error result" where
  "decode_exception key payload =
     (if key = 0x7fbdf637a78620b0 then
        (if payload \<noteq> [] then Inl errTrailing else Inr Denied)
      else if key = 0x583fb304d69368ca then
        andThen (exhausted (decexc_failed payload)) (\<lambda>v. Inr (FailedError v))
      else if key = 0xbe9110749ebcc72c then
        andThen (exhausted (dec_type_names payload)) (\<lambda>v. Inr (OverloadedError v))
      else if key = 0x970e76fcc5e2dacb then
        (if payload \<noteq> [] then Inl errTrailing else Inr (RuntimeError ErrProcedureNotFound))
      else if key = 0x3f5fc972f8477b07 then
        (if payload \<noteq> [] then Inl errTrailing else Inr (RuntimeError ErrInvalidArguments))
      else if key = 0x1aaec22e85996f50 then
        (if payload \<noteq> [] then Inl errTrailing else Inr (RuntimeError ErrInternalException))
      else Inl errUnknownKey)"

definition decresp_echo :: "u64 \<Rightarrow> bytes \<Rightarrow> string response result" where
  "decresp_echo key payload =
     (if key = 0 then andThen (exhausted (dec_string payload)) (\<lambda>v. Inr (Out v))
      else andThen (decode_exception key payload) (\<lambda>e. Inr (Exc e)))"

definition decresp_add :: "u64 \<Rightarrow> bytes \<Rightarrow> (64 word) response result" where
  "decresp_add key payload =
     (if key = 0 then andThen (exhausted (dec_int64 payload)) (\<lambda>v. Inr (Out v))
      else andThen (decode_exception key payload) (\<lambda>e. Inr (Exc e)))"

definition decresp_sample :: "u64 \<Rightarrow> bytes \<Rightarrow> bytes response result" where
  "decresp_sample key payload =
     (if key = 0 then andThen (exhausted (dec_bytes payload)) (\<lambda>v. Inr (Out v))
      else andThen (decode_exception key payload) (\<lambda>e. Inr (Exc e)))"

definition decresp_wave :: "u64 \<Rightarrow> bytes \<Rightarrow> (32 word) response result" where
  "decresp_wave key payload =
     (if key = 0 then andThen (exhausted (dec_uint32 payload)) (\<lambda>v. Inr (Out v))
      else andThen (decode_exception key payload) (\<lambda>e. Inr (Exc e)))"

definition decresp_paint :: "u64 \<Rightarrow> bytes \<Rightarrow> sizeRecord response result" where
  "decresp_paint key payload =
     (if key = 0 then andThen (exhausted (dec_record_size payload)) (\<lambda>v. Inr (Out v))
      else andThen (decode_exception key payload) (\<lambda>e. Inr (Exc e)))"

definition decresp_locate :: "u64 \<Rightarrow> bytes \<Rightarrow> Point response result" where
  "decresp_locate key payload =
     (if key = 0 then andThen (exhausted (dec_type_point payload)) (\<lambda>v. Inr (Out v))
      else andThen (decode_exception key payload) (\<lambda>e. Inr (Exc e)))"

definition decresp_fetch :: "u64 \<Rightarrow> bytes \<Rightarrow> Blob response result" where
  "decresp_fetch key payload =
     (if key = 0 then andThen (exhausted (dec_type_blob payload)) (\<lambda>v. Inr (Out v))
      else andThen (decode_exception key payload) (\<lambda>e. Inr (Exc e)))"

definition decresp_ping :: "u64 \<Rightarrow> bytes \<Rightarrow> unit response result" where
  "decresp_ping key payload =
     (if key = 0 then (if payload \<noteq> [] then Inl errTrailing else Inr (Out ()))
      else andThen (decode_exception key payload) (\<lambda>e. Inr (Exc e)))"

definition decresp_stamp :: "u64 \<Rightarrow> bytes \<Rightarrow> unit response result" where
  "decresp_stamp key payload =
     (if key = 0 then andThen (exhausted (dec_record_empty payload)) (\<lambda>v. Inr (Out v))
      else andThen (decode_exception key payload) (\<lambda>e. Inr (Exc e)))"

definition decresp_load :: "u64 \<Rightarrow> bytes \<Rightarrow> (Empty list) response result" where
  "decresp_load key payload =
     (if key = 0 then andThen (exhausted (dec_list_empty payload)) (\<lambda>v. Inr (Out v))
      else andThen (decode_exception key payload) (\<lambda>e. Inr (Exc e)))"

definition decresp_tiny :: "u64 \<Rightarrow> bytes \<Rightarrow> (32 word) response result" where
  "decresp_tiny key payload =
     (if key = 0 then andThen (exhausted (dec_uint32 payload)) (\<lambda>v. Inr (Out v))
      else andThen (decode_exception key payload) (\<lambda>e. Inr (Exc e)))"

section \<open>Callers\<close>

text \<open>
  What \<open>Call\<close> does with a connection, a context, a procedure key, the encoder closure and the
  decoder closure: an error, or the result its accepted response stored.
\<close>

type_synonym 'a runtime_call =
  "nat \<Rightarrow> goctx option \<Rightarrow> u64 \<Rightarrow> bytes result \<Rightarrow> (u64 \<Rightarrow> bytes \<Rightarrow> 'a response result) \<Rightarrow> 'a response result"

text \<open>
  The body all callers share: no connection and a failed call give the zero value and the
  error; otherwise the stored data result with the stored exception.
\<close>

definition callProcedure ::
  "'a runtime_call \<Rightarrow> goctx option \<Rightarrow> u64 \<Rightarrow> 'a \<Rightarrow> bytes result \<Rightarrow> (u64 \<Rightarrow> bytes \<Rightarrow> 'a response result)
     \<Rightarrow> 'a \<times> import_error option" where
  "callProcedure call ctx key zero encoded decode =
     (case ConnectionFromContext ctx of
        Inl e \<Rightarrow> (zero, Some (RuntimeError e))
      | Inr conn \<Rightarrow> (case call conn ctx key encoded decode of
          Inl e \<Rightarrow> (zero, Some (RuntimeError e))
        | Inr (Out v) \<Rightarrow> (v, None)
        | Inr (Exc e) \<Rightarrow> (zero, Some e)))"

definition Echo :: "string runtime_call \<Rightarrow> goctx option \<Rightarrow> string \<Rightarrow> string \<times> import_error option" where
  "Echo call ctx value = callProcedure call ctx 0x159eb91a98f8f42 [] (encreq_echo [] value) decresp_echo"

definition Add :: "(64 word) runtime_call \<Rightarrow> goctx option \<Rightarrow> (64 word) \<Rightarrow> (64 word) \<Rightarrow> (64 word) \<times> import_error option" where
  "Add call ctx a b = callProcedure call ctx 0x8425decb5e996afe 0 (encreq_add [] a b) decresp_add"

definition Sample :: "bytes runtime_call \<Rightarrow> goctx option \<Rightarrow> bytes \<Rightarrow> (8 word) \<Rightarrow> bytes \<times> import_error option" where
  "Sample call ctx data channel = callProcedure call ctx 0x2549b9c663851f [] (encreq_sample [] data channel) decresp_sample"

definition Wave :: "(32 word) runtime_call \<Rightarrow> goctx option \<Rightarrow> (8 word list) \<Rightarrow> (32 word) \<times> import_error option" where
  "Wave call ctx samples = callProcedure call ctx 0x664ffb9151feebb2 0 (encreq_wave [] samples) decresp_wave"

definition Paint :: "sizeRecord runtime_call \<Rightarrow> goctx option \<Rightarrow> xyRecord \<Rightarrow> sizeRecord \<Rightarrow> sizeRecord \<times> import_error option" where
  "Paint call ctx origin sz = callProcedure call ctx 0x52095929e015a29f \<lparr>sz_Width = 0, sz_Height = 0\<rparr> (encreq_paint [] origin sz) decresp_paint"

definition Locate :: "Point runtime_call \<Rightarrow> goctx option \<Rightarrow> boxRecord \<Rightarrow> Point \<times> import_error option" where
  "Locate call ctx box = callProcedure call ctx 0x1ac8478033777d33 \<lparr>pt_X = 0, pt_Y = 0\<rparr> (encreq_locate [] box) decresp_locate"

definition Fetch :: "Blob runtime_call \<Rightarrow> goctx option \<Rightarrow> UserID \<Rightarrow> Blob \<times> import_error option" where
  "Fetch call ctx i = callProcedure call ctx 0xb50b5c7d5249d7a3 [] (encreq_fetch [] i) decresp_fetch"

definition Ping :: "unit runtime_call \<Rightarrow> goctx option \<Rightarrow> import_error option" where
  "Ping call ctx = snd (callProcedure call ctx 0xa3aa209174f340d1 () (encreq_ping []) decresp_ping)"

definition Stamp :: "unit runtime_call \<Rightarrow> goctx option \<Rightarrow> unit \<times> import_error option" where
  "Stamp call ctx = callProcedure call ctx 0xe1bf6d111c6bae5a () (encreq_stamp []) decresp_stamp"

definition Load :: "(Empty list) runtime_call \<Rightarrow> goctx option \<Rightarrow> u64 \<Rightarrow> (Empty list) \<times> import_error option" where
  "Load call ctx n = callProcedure call ctx 0xc3d7bb918679d5ed [] (encreq_load [] n) decresp_load"

definition Tiny :: "(32 word) runtime_call \<Rightarrow> goctx option \<Rightarrow> Empty \<Rightarrow> (32 word) \<times> import_error option" where
  "Tiny call ctx tag = callProcedure call ctx 0x7f875c91600f848b 0 (encreq_tiny [] tag) decresp_tiny"

section \<open>The import binding\<close>

definition importFixtureID :: InterfaceID where
  "importFixtureID =
    [0x7d, 0x46, 0x32, 0x35, 0xda, 0x10, 0xe8, 0xdb,
     0xb6, 0x31, 0xac, 0xa4, 0x25, 0xf0, 0x31, 0xb0,
     0x60, 0x97, 0xbf, 0x16, 0x8f, 0x27, 0x89, 0x01,
     0xe3, 0x31, 0x3f, 0xb4, 0xec, 0xec, 0xab, 0x58]"

definition importBinding :: "'ctx store \<Rightarrow> ImportBinding \<times> 'ctx store" where
  "importBinding st = NewImportBindingWithInterfaceID importFixtureID st"

end
