(* ===== verification/Export_Binding.thy ===== *)
theory Export_Binding
  imports Import_Codecs Binding
begin

text \<open>
  The provider side: \<open>go/internal/tool/exportfixture/binding_gen.go\<close>, the checked-in output of
  the export generator, over the provider package \<open>exportfixture/prov/prov.go\<close>. Its primitive
  codec pairs are the ones of the import binding, function by function; the composite ones are
  over the provider's own Go types. \<open>None\<close> stands for a panic.
\<close>

section \<open>Provider errors\<close>

record Shared =
  sh_Code :: "32 word"

text \<open>
  Dynamic values of the provider's \<open>error\<close> results. A pointer is its address, of a package
  variable or a fresh one, with what it points to; \<open>None\<close> is the typed nil pointer.
  \<open>ErrorString\<close> is a pointer made by \<open>errors.New\<close>; \<open>Wrapped\<close> one made by \<open>fmt.Errorf\<close>.
\<close>

datatype address = Global nat | Fresh nat

datatype provError =
    ErrorString address
  | FailedPtr "(address \<times> Failed) option"
  | SharedPtr "(address \<times> Shared) option"
  | EmptyPtr "address option"
  | WeirdVal "string list"
  | Wrapped provError

definition ErrDenied :: provError where
  "ErrDenied = ErrorString (Global 0)"

definition ErrShared :: provError where
  "ErrShared = SharedPtr (Some (Global 1, \<lparr>sh_Code = 3\<rparr>))"

definition ErrWeird :: provError where
  "ErrWeird = WeirdVal [''sentinel'']"

text \<open>
  \<open>==\<close> on two error values: false for different dynamic types, the pointers otherwise; comparing
  two values of the uncomparable struct type panics.
\<close>

fun ifaceEq :: "provError \<Rightarrow> provError \<Rightarrow> bool option" where
  "ifaceEq (ErrorString a) (ErrorString b) = Some (a = b)"
| "ifaceEq (FailedPtr p) (FailedPtr q) = Some (map_option fst p = map_option fst q)"
| "ifaceEq (SharedPtr p) (SharedPtr q) = Some (map_option fst p = map_option fst q)"
| "ifaceEq (EmptyPtr p) (EmptyPtr q) = Some (p = q)"
| "ifaceEq (WeirdVal v) (WeirdVal w) = None"
| "ifaceEq (Wrapped e) (Wrapped f) = Some (e = f)"
| "ifaceEq x y = Some False"

section \<open>Codecs\<close>

definition xenc_type_point :: "bytes \<Rightarrow> Point \<Rightarrow> bytes result" where
  "xenc_type_point buf v =
     andThen (enc_float64 buf (pt_X v)) (\<lambda>buf.
     andThen (enc_float64 buf (pt_Y v)) (\<lambda>buf. Inr buf))"

definition xdec_type_user_id :: "bytes \<Rightarrow> (UserID \<times> bytes) result" where
  "xdec_type_user_id src = andThen (dec_uint64 src) (\<lambda>(v, src). Inr (v, src))"

definition xdec_record_xy :: "bytes \<Rightarrow> (xyRecord \<times> bytes) result" where
  "xdec_record_xy src =
     andThen (dec_int32 src) (\<lambda>(x, src).
     andThen (dec_int32 src) (\<lambda>(y, src). Inr (\<lparr>xy_X = x, xy_Y = y\<rparr>, src)))"

definition xenc_record_size :: "bytes \<Rightarrow> sizeRecord \<Rightarrow> bytes result" where
  "xenc_record_size buf v =
     andThen (enc_uint32 buf (sz_Width v)) (\<lambda>buf.
     andThen (enc_uint32 buf (sz_Height v)) (\<lambda>buf. Inr buf))"

definition xdec_record_size :: "bytes \<Rightarrow> (sizeRecord \<times> bytes) result" where
  "xdec_record_size src =
     andThen (dec_uint32 src) (\<lambda>(w, src).
     andThen (dec_uint32 src) (\<lambda>(h, src). Inr (\<lparr>sz_Width = w, sz_Height = h\<rparr>, src)))"

definition xdec_list_uint8 :: "bytes \<Rightarrow> (8 word list \<times> bytes) result" where
  "xdec_list_uint8 src = andThen (dec_uint64 src) (\<lambda>(count0, src).
     if length src < unat count0 then Inl errLength else dec_loop dec_uint8 (unat count0) src)"

definition xenc_record_empty :: "bytes \<Rightarrow> bytes result" where
  "xenc_record_empty buf = Inr buf"

definition xenc_record_failed :: "bytes \<Rightarrow> Failed \<Rightarrow> bytes result" where
  "xenc_record_failed buf v =
     andThen (enc_int32 buf (fl_Code v)) (\<lambda>buf.
     andThen (enc_string buf (fl_Message v)) (\<lambda>buf. Inr buf))"

definition xenc_record_shared :: "bytes \<Rightarrow> Shared \<Rightarrow> bytes result" where
  "xenc_record_shared buf v = andThen (enc_int32 buf (sh_Code v)) (\<lambda>buf. Inr buf)"

section \<open>Request decoders\<close>

definition dereq_add :: "bytes \<Rightarrow> ((64 word \<times> 64 word) \<times> bytes) result" where
  "dereq_add src =
     andThen (dec_int64 src) (\<lambda>(v0, src). andThen (dec_int64 src) (\<lambda>(v1, src). Inr ((v0, v1), src)))"

definition dereq_crash :: "bytes \<Rightarrow> (string \<times> bytes) result" where
  "dereq_crash src = andThen (dec_string src) (\<lambda>(v0, src). Inr (v0, src))"

definition dereq_echo :: "bytes \<Rightarrow> (string \<times> bytes) result" where
  "dereq_echo src = andThen (dec_string src) (\<lambda>(v0, src). Inr (v0, src))"

definition dereq_fetch :: "bytes \<Rightarrow> (UserID \<times> bytes) result" where
  "dereq_fetch src = andThen (xdec_type_user_id src) (\<lambda>(v0, src). Inr (v0, src))"

definition dereq_paint :: "bytes \<Rightarrow> ((xyRecord \<times> sizeRecord) \<times> bytes) result" where
  "dereq_paint src =
     andThen (xdec_record_xy src) (\<lambda>(v0, src).
     andThen (xdec_record_size src) (\<lambda>(v1, src). Inr ((v0, v1), src)))"

definition dereq_ping :: "bytes \<Rightarrow> (unit \<times> bytes) result" where
  "dereq_ping src = Inr ((), src)"

definition dereq_sample :: "bytes \<Rightarrow> ((bytes \<times> 8 word) \<times> bytes) result" where
  "dereq_sample src =
     andThen (dec_bytes src) (\<lambda>(v0, src). andThen (dec_uint8 src) (\<lambda>(v1, src). Inr ((v0, v1), src)))"

definition dereq_wave :: "bytes \<Rightarrow> (8 word list \<times> bytes) result" where
  "dereq_wave src = andThen (xdec_list_uint8 src) (\<lambda>(v0, src). Inr (v0, src))"

section \<open>Matching a provider error\<close>

record match_state =
  ms_match :: nat
  ms_key :: u64
  ms_payload :: bytes
  ms_encErr :: "go_error option"

text \<open>The two kinds of test: against a sentinel, and for a non-nil payload pointer.\<close>

definition matchSentinel :: "provError \<Rightarrow> provError \<Rightarrow> u64 \<Rightarrow> match_state \<Rightarrow> match_state option" where
  "matchSentinel err sentinel k st = (case ifaceEq err sentinel of
     None \<Rightarrow> None
   | Some eq \<Rightarrow> Some (if eq then st\<lparr>ms_match := ms_match st + 1, ms_key := k\<rparr> else st))"

definition matchPayload :: "bytes result option \<Rightarrow> u64 \<Rightarrow> match_state \<Rightarrow> match_state option" where
  "matchPayload enc k st = (case enc of
     None \<Rightarrow> Some st
   | Some (Inl e) \<Rightarrow> Some (st\<lparr>ms_match := ms_match st + 1, ms_key := k, ms_payload := [], ms_encErr := Some e\<rparr>)
   | Some (Inr p) \<Rightarrow> Some (st\<lparr>ms_match := ms_match st + 1, ms_key := k, ms_payload := p, ms_encErr := None\<rparr>))"

fun emptyOf :: "provError \<Rightarrow> bytes result option" where
  "emptyOf (EmptyPtr (Some a)) = Some (xenc_record_empty [])"
| "emptyOf e = None"

fun failedOf :: "provError \<Rightarrow> bytes result option" where
  "failedOf (FailedPtr (Some (a, v))) = Some (xenc_record_failed [] v)"
| "failedOf e = None"

fun sharedOf :: "provError \<Rightarrow> bytes result option" where
  "sharedOf (SharedPtr (Some (a, v))) = Some (xenc_record_shared [] v)"
| "sharedOf e = None"

definition match_exc :: "provError \<Rightarrow> (u64 \<times> bytes) option" where
  "match_exc err =
     Option.bind (matchSentinel err ErrDenied 0x7fbdf637a78620b0
       \<lparr>ms_match = 0, ms_key = 0, ms_payload = [], ms_encErr = None\<rparr>) (\<lambda>st.
     Option.bind (matchPayload (emptyOf err) 0xeab4dd94951d6a30 st) (\<lambda>st.
     Option.bind (matchSentinel err ErrShared 0x9af2b5f7e68bde66 st) (\<lambda>st.
     Option.bind (matchSentinel err ErrWeird 0xc89fac47c60e0b40 st) (\<lambda>st.
     Option.bind (matchPayload (failedOf err) 0x583fb304d69368ca st) (\<lambda>st.
     Option.bind (matchPayload (sharedOf err) 0xa3f509f715a249fe st) (\<lambda>st.
       if ms_match st \<noteq> 1 \<or> ms_encErr st \<noteq> None then Some (0x1aaec22e85996f50, [])
       else Some (ms_key st, ms_payload st)))))))"

section \<open>Dispatch\<close>

text \<open>
  The provider functions; each can panic. A result with an error keeps its data value beside it,
  as in Go.
\<close>

record 'ctx providers =
  pv_Add :: "'ctx \<Rightarrow> 64 word \<Rightarrow> 64 word \<Rightarrow> (64 word \<times> provError option) option"
  pv_Crash :: "'ctx \<Rightarrow> string \<Rightarrow> provError option option"
  pv_Echo :: "'ctx \<Rightarrow> string \<Rightarrow> (string \<times> provError option) option"
  pv_Fetch :: "'ctx \<Rightarrow> UserID \<Rightarrow> (Point \<times> provError option) option"
  pv_Paint :: "'ctx \<Rightarrow> xyRecord \<Rightarrow> sizeRecord \<Rightarrow> (sizeRecord \<times> provError option) option"
  pv_Ping :: "'ctx \<Rightarrow> provError option option"
  pv_Sample :: "'ctx \<Rightarrow> bytes \<Rightarrow> 8 word \<Rightarrow> (bytes \<times> provError option) option"
  pv_Wave :: "'ctx \<Rightarrow> 8 word list \<Rightarrow> (32 word \<times> provError option) option"

text \<open>The pieces every case is made of: exact arguments, then the provider's outcome.\<close>

definition withArguments :: "('a \<times> bytes) result \<Rightarrow> ('a \<Rightarrow> (u64 \<times> bytes) option) \<Rightarrow> (u64 \<times> bytes) option" where
  "withArguments r body = (case r of
     Inl e \<Rightarrow> Some (0x3f5fc972f8477b07, [])
   | Inr (v, rest) \<Rightarrow> if rest \<noteq> [] then Some (0x3f5fc972f8477b07, []) else body v)"

definition respond :: "('a \<times> provError option) option \<Rightarrow> ('a \<Rightarrow> bytes result) \<Rightarrow> (u64 \<times> bytes) option" where
  "respond r enc = (case r of
     None \<Rightarrow> None
   | Some (out, Some err) \<Rightarrow> match_exc err
   | Some (out, None) \<Rightarrow> (case enc out of Inl e \<Rightarrow> Some (0x1aaec22e85996f50, []) | Inr p \<Rightarrow> Some (0, p)))"

definition respondNone :: "provError option option \<Rightarrow> (u64 \<times> bytes) option" where
  "respondNone r = (case r of
     None \<Rightarrow> None
   | Some (Some err) \<Rightarrow> match_exc err
   | Some None \<Rightarrow> Some (0, []))"

definition dispatch :: "'ctx providers \<Rightarrow> 'ctx Dispatch" where
  "dispatch P ctx key payload =
     (if key = 0x8425decb5e996afe then
        withArguments (dereq_add payload) (\<lambda>(v0, v1). respond (pv_Add P ctx v0 v1) (enc_int64 []))
      else if key = 0xd4fb7594c57f2f66 then
        withArguments (dereq_crash payload) (\<lambda>v0. respondNone (pv_Crash P ctx v0))
      else if key = 0x159eb91a98f8f42 then
        withArguments (dereq_echo payload) (\<lambda>v0. respond (pv_Echo P ctx v0) (enc_string []))
      else if key = 0xb50b5c7d5249d7a3 then
        withArguments (dereq_fetch payload) (\<lambda>v0. respond (pv_Fetch P ctx v0) (xenc_type_point []))
      else if key = 0x52095929e015a29f then
        withArguments (dereq_paint payload) (\<lambda>(v0, v1). respond (pv_Paint P ctx v0 v1) (xenc_record_size []))
      else if key = 0xa3aa209174f340d1 then
        withArguments (dereq_ping payload) (\<lambda>u. respondNone (pv_Ping P ctx))
      else if key = 0x2549b9c663851f then
        withArguments (dereq_sample payload) (\<lambda>(v0, v1). respond (pv_Sample P ctx v0 v1) (enc_bytes []))
      else if key = 0x664ffb9151feebb2 then
        withArguments (dereq_wave payload) (\<lambda>v0. respond (pv_Wave P ctx v0) (enc_uint32 []))
      else Some (0x970e76fcc5e2dacb, []))"

definition exportFixtureID :: InterfaceID where
  "exportFixtureID =
    [0xb9, 0xb1, 0xfb, 0x70, 0x56, 0x69, 0xf2, 0x76,
     0x61, 0xef, 0xcc, 0xd9, 0x6b, 0xc7, 0x57, 0xda,
     0x25, 0x0a, 0x33, 0xc6, 0x9d, 0xec, 0xbd, 0x3e,
     0xb9, 0x52, 0xf7, 0xee, 0x07, 0x58, 0xe2, 0x4f]"

text \<open>The package variable: \<open>None\<close> is the panic on a construction error.\<close>

definition exportBinding :: "'ctx providers \<Rightarrow> 'ctx store \<Rightarrow> (ExportBinding \<times> 'ctx store) option" where
  "exportBinding P st = (case NewExportBindingWithInterfaceID (Some (dispatch P)) exportFixtureID st of
     (Inl e, st') \<Rightarrow> None
   | (Inr b, st') \<Rightarrow> Some (b, st'))"

end
