(* ===== verification/Export_Provider.thy ===== *)
theory Export_Provider
  imports Export_Binding
begin

text \<open>
  The provider package \<open>go/internal/tool/exportfixture/prov/prov.go\<close>: eight procedures, with the
  echo modes that reach every fallback of the generated dispatch. Addresses of fresh pointers are
  told apart from the package variables; the context is not looked at.
\<close>

definition prov_Echo :: "'ctx \<Rightarrow> string \<Rightarrow> (string \<times> provError option) option" where
  "prov_Echo ctx v =
     (if v = ''denied'' then Some ([], Some ErrDenied)
      else if v = ''failed'' then
        Some ([], Some (FailedPtr (Some (Fresh 0, \<lparr>fl_Code = 7, fl_Message = ''boom''\<rparr>))))
      else if v = ''shared'' then Some ([], Some ErrShared)
      else if v = ''typed_nil'' then Some ([], Some (SharedPtr None))
      else if v = ''wrapped'' then Some ([], Some (Wrapped ErrDenied))
      else if v = ''bad_utf8'' then Some (''bad'' @ [CHR 0xFF], None)
      else if v = ''weird'' then Some ([], Some (WeirdVal [''value'']))
      else if v = ''empty'' then Some ([], Some (EmptyPtr (Some (Fresh 0))))
      else Some (v, None))"

definition prov_Add :: "'ctx \<Rightarrow> 64 word \<Rightarrow> 64 word \<Rightarrow> (64 word \<times> provError option) option" where
  "prov_Add ctx a b = Some (a + b, None)"

definition prov_Crash :: "'ctx \<Rightarrow> string \<Rightarrow> provError option option" where
  "prov_Crash ctx m = (if m = ''panic'' then None else Some None)"

definition prov_Sample :: "'ctx \<Rightarrow> bytes \<Rightarrow> 8 word \<Rightarrow> (bytes \<times> provError option) option" where
  "prov_Sample ctx data channel = Some ([] @ data, None)"

definition prov_Wave :: "'ctx \<Rightarrow> 8 word list \<Rightarrow> (32 word \<times> provError option) option" where
  "prov_Wave ctx samples = Some (word_of_nat (length samples), None)"

definition prov_Paint :: "'ctx \<Rightarrow> xyRecord \<Rightarrow> sizeRecord \<Rightarrow> (sizeRecord \<times> provError option) option" where
  "prov_Paint ctx origin sz = Some (sz, None)"

text \<open>
  The conversion \<open>float64(id)\<close> of a \<open>uint64\<close>: exact below \<open>2 ^ 53\<close>, otherwise rounded to nearest,
  ties to even. A carry out of the significand raises the exponent.
\<close>

fun topBit :: "nat \<Rightarrow> nat" where
  "topBit n = (if n \<le> 1 then 0 else Suc (topBit (n div 2)))"

declare topBit.simps [simp del]

definition float64_of_uint64 :: "u64 \<Rightarrow> float64" where
  "float64_of_uint64 x =
     (if x = 0 then 0
      else let n = unat x; e = topBit n
       in if e \<le> 52 then word_of_nat ((e + 1023) * 2 ^ 52 + (n * 2 ^ (52 - e) - 2 ^ 52))
          else let q = n div 2 ^ (e - 52); r = n mod 2 ^ (e - 52); half = 2 ^ (e - 53);
                 up = (if half < r \<or> r = half \<and> odd q then 1 else 0)
            in word_of_nat ((e + 1023) * 2 ^ 52 + (q + up - 2 ^ 52)))"

definition prov_Fetch :: "'ctx \<Rightarrow> UserID \<Rightarrow> (Point \<times> provError option) option" where
  "prov_Fetch ctx i = Some (\<lparr>pt_X = float64_of_uint64 i, pt_Y = float64_of_uint64 (i + 1)\<rparr>, None)"

definition prov_Ping :: "'ctx \<Rightarrow> provError option option" where
  "prov_Ping ctx = Some None"

definition fixtureProviders :: "'ctx providers" where
  "fixtureProviders =
     \<lparr>pv_Add = prov_Add, pv_Crash = prov_Crash, pv_Echo = prov_Echo, pv_Fetch = prov_Fetch,
      pv_Paint = prov_Paint, pv_Ping = prov_Ping, pv_Sample = prov_Sample, pv_Wave = prov_Wave\<rparr>"

lemma float64_samples:
  "float64_of_uint64 0 = 0" "float64_of_uint64 1 = 0x3ff0000000000000"
  "float64_of_uint64 3 = 0x4008000000000000" "float64_of_uint64 0x20000000000001 = 0x4340000000000000"
  "float64_of_uint64 0x20000000000003 = 0x4340000000000002"
  "float64_of_uint64 0xffffffffffffffff = 0x43f0000000000000"
  by (simp_all add: float64_of_uint64_def topBit.simps)

end
