(* ===== verification/Connection_State.thy ===== *)
theory Connection_State
  imports Binding
begin

text \<open>
  The state of a \<open>Connection\<close> (\<open>go/connection.go\<close>) and its lock-protected sections, one
  function for each stretch of code that runs under \<open>mu\<close>. A pending call is identified by
  the goroutine of the \<open>Call\<close> that admitted it. The pending map is an association list
  with distinct IDs, in admission order; the source's iteration order over it is
  unspecified and nothing below depends on it. Channels that are only ever closed are
  booleans; the one-token gate channel holds the goroutine that sent the token.
\<close>

record incomingCall =
  ic_writing :: bool
  ic_hasDeferred :: bool
  ic_deferredKey :: u64
  ic_deferredPayload :: bytes

record connection =
  cn_cause :: "go_error option"
  cn_terminal :: bool
  cn_nextID :: u64
  cn_pending :: "(u64 \<times> nat) list"
  cn_incoming :: "u64 \<rightharpoonup> incomingCall"
  cn_gate :: "nat option"
  cn_imp :: ImportBinding
  cn_closes :: nat
  cn_handlersCanceled :: bool
  cn_observerExit :: bool
  cn_receiveExit :: bool
  cn_teardown :: bool

definition freshConnection :: "ImportBinding \<Rightarrow> connection" where
  "freshConnection imp =
     \<lparr>cn_cause = None, cn_terminal = False, cn_nextID = 0, cn_pending = [], cn_incoming = Map.empty,
      cn_gate = None, cn_imp = imp, cn_closes = 0, cn_handlersCanceled = False,
      cn_observerExit = False, cn_receiveExit = False, cn_teardown = False\<rparr>"

text \<open>
  Validation of \<open>newConnection\<close>, in the order of the source: a nil context or stream, a
  zero binding, an already available context error; then the fresh connection.
\<close>

definition newConnection ::
  "go_error option option \<Rightarrow> bool \<Rightarrow> ExportBinding \<Rightarrow> ImportBinding \<Rightarrow> connection result" where
  "newConnection ctx hasStream export imp =
     (case ctx of
        None \<Rightarrow> Inl ErrInvalidArgument
      | Some ctxErr \<Rightarrow>
          if \<not> hasStream then Inl ErrInvalidArgument
          else if export = ExportBinding None then Inl ErrInvalidArgument
          else if imp = ImportBinding None then Inl ErrInvalidArgument
          else (case ctxErr of Some e \<Rightarrow> Inl e | None \<Rightarrow> Inr (freshConnection imp)))"

section \<open>Terminal selection\<close>

text \<open>The claims are \<open>None\<close> for a loser, which starts no cleanup.\<close>

definition selectTerminal :: "go_error \<Rightarrow> connection \<Rightarrow> nat list option \<times> connection" where
  "selectTerminal err c =
     (if cn_cause c \<noteq> None then (None, c)
      else (Some (map snd (cn_pending c)),
            c\<lparr>cn_cause := Some err, cn_terminal := True, cn_pending := [], cn_incoming := Map.empty\<rparr>))"

definition terminalCause :: "connection \<Rightarrow> go_error option" where
  "terminalCause c = cn_cause c"

section \<open>Outgoing calls\<close>

definition checkImport :: "ImportBinding \<Rightarrow> connection \<Rightarrow> go_error option" where
  "checkImport imp c = (if imp \<noteq> cn_imp c then Some ErrBindingMismatch else None)"

record callArgs =
  ca_hasContext :: bool
  ca_imp :: ImportBinding
  ca_key :: u64
  ca_hasEncoder :: bool
  ca_hasDecoder :: bool

text \<open>Step 1 of \<open>Call\<close>: validation before any terminal-state inspection.\<close>

definition checkCall :: "callArgs \<Rightarrow> connection \<Rightarrow> go_error option" where
  "checkCall a c =
     (if \<not> ca_hasContext a then Some ErrInvalidArgument
      else if ca_key a = 0 then Some ErrInvalidArgument
      else if \<not> ca_hasEncoder a then Some ErrInvalidArgument
      else if \<not> ca_hasDecoder a then Some ErrInvalidArgument
      else checkImport (ca_imp a) c)"

definition callReady :: "go_error option \<Rightarrow> connection \<Rightarrow> go_error option" where
  "callReady ctxErr c = (case cn_cause c of Some e \<Rightarrow> Some e | None \<Rightarrow> ctxErr)"

text \<open>
  Step 6 of \<open>Call\<close>, under the lock with the gate held: the rechecks, the ID exhaustion
  check, the allocation and the insertion of the pending entry of goroutine \<open>t\<close>.
\<close>

definition admitCall :: "nat \<Rightarrow> go_error option \<Rightarrow> connection \<Rightarrow> go_error + (u64 \<times> connection)" where
  "admitCall t ctxErr c =
     (case callReady ctxErr c of
        Some e \<Rightarrow> Inl e
      | None \<Rightarrow>
          if idMask < cn_nextID c then Inl ErrRequestIDsExhausted
          else Inr (cn_nextID c,
                 c\<lparr>cn_nextID := cn_nextID c + 1, cn_pending := cn_pending c @ [(cn_nextID c, t)]\<rparr>))"

text \<open>The removal shared by \<open>claimResponse\<close> and \<open>claimCancel\<close>: \<open>None\<close> when absent.\<close>

definition claim :: "u64 \<Rightarrow> connection \<Rightarrow> (nat \<times> connection) option" where
  "claim i c = (case map_of (cn_pending c) i of
     None \<Rightarrow> None
   | Some pc \<Rightarrow> Some (pc, c\<lparr>cn_pending := filter (\<lambda>(j, _). j \<noteq> i) (cn_pending c)\<rparr>))"

section \<open>Incoming requests\<close>

datatype incomingAdmission = admissionDiscard | admissionDispatch | admissionDeferred | admissionTerminal

definition freshIncoming :: incomingCall where
  "freshIncoming = \<lparr>ic_writing = False, ic_hasDeferred = False, ic_deferredKey = 0, ic_deferredPayload = []\<rparr>"

definition admitIncoming :: "u64 \<Rightarrow> u64 \<Rightarrow> bytes \<Rightarrow> connection \<Rightarrow> incomingAdmission \<times> connection" where
  "admitIncoming i key payload c =
     (if cn_cause c \<noteq> None then (admissionDiscard, c)
      else case cn_incoming c i of
        None \<Rightarrow> (admissionDispatch, c\<lparr>cn_incoming := (cn_incoming c)(i \<mapsto> freshIncoming)\<rparr>)
      | Some ic \<Rightarrow>
          if ic_writing ic then
            (if ic_hasDeferred ic then (admissionTerminal, c)
             else (admissionDeferred,
               c\<lparr>cn_incoming := (cn_incoming c)(i \<mapsto>
                   ic\<lparr>ic_hasDeferred := True, ic_deferredKey := key, ic_deferredPayload := payload\<rparr>)\<rparr>))
          else (admissionTerminal, c))"

definition markIncomingWriting :: "u64 \<Rightarrow> connection \<Rightarrow> connection" where
  "markIncomingWriting i c = (case cn_incoming c i of
     None \<Rightarrow> c
   | Some ic \<Rightarrow> c\<lparr>cn_incoming := (cn_incoming c)(i \<mapsto> ic\<lparr>ic_writing := True\<rparr>)\<rparr>)"

definition completeIncomingWrite :: "u64 \<Rightarrow> connection \<Rightarrow> (u64 \<times> bytes) option \<times> connection" where
  "completeIncomingWrite i c = (case cn_incoming c i of
     None \<Rightarrow> (None, c)
   | Some ic \<Rightarrow>
       if \<not> ic_hasDeferred ic then (None, c\<lparr>cn_incoming := (cn_incoming c)(i := None)\<rparr>)
       else (Some (ic_deferredKey ic, ic_deferredPayload ic),
             c\<lparr>cn_incoming := (cn_incoming c)(i \<mapsto> ic\<lparr>ic_writing := False, ic_hasDeferred := False,
                 ic_deferredKey := 0, ic_deferredPayload := []\<rparr>)\<rparr>))"

section \<open>The life of one incoming ID\<close>

text \<open>
  What the protocol promises for one ID, without the connection around it: idle, active
  until the response enters write admission, writing, and writing with the one deferred
  next generation. A duplicate while active, or a second one while writing, is an error.
\<close>

datatype idState = Idle | Active | Writing | WritingDeferred u64 bytes

fun idRequest :: "u64 \<Rightarrow> bytes \<Rightarrow> idState \<Rightarrow> incomingAdmission \<times> idState" where
  "idRequest k p Idle = (admissionDispatch, Active)"
| "idRequest k p Active = (admissionTerminal, Active)"
| "idRequest k p Writing = (admissionDeferred, WritingDeferred k p)"
| "idRequest k p (WritingDeferred k' p') = (admissionTerminal, WritingDeferred k' p')"

fun idWrite :: "idState \<Rightarrow> idState" where
  "idWrite Active = Writing"
| "idWrite s = s"

fun idDone :: "idState \<Rightarrow> (u64 \<times> bytes) option \<times> idState" where
  "idDone (WritingDeferred k p) = (Some (k, p), Active)"
| "idDone s = (None, Idle)"

definition absID :: "incomingCall option \<Rightarrow> idState" where
  "absID e = (case e of
     None \<Rightarrow> Idle
   | Some ic \<Rightarrow>
       if ic_writing ic then
         (if ic_hasDeferred ic then WritingDeferred (ic_deferredKey ic) (ic_deferredPayload ic) else Writing)
       else Active)"

text \<open>Entries as the code keeps them: a deferred generation only while writing.\<close>

definition wfIncoming :: "connection \<Rightarrow> bool" where
  "wfIncoming c \<longleftrightarrow> (\<forall>i ic. cn_incoming c i = Some ic \<longrightarrow> ic_hasDeferred ic \<longrightarrow> ic_writing ic)"

lemma wfIncoming_ops:
  assumes "wfIncoming c"
  shows "wfIncoming (snd (admitIncoming i k p c))" "wfIncoming (markIncomingWriting i c)"
    "wfIncoming (snd (completeIncomingWrite i c))" "wfIncoming (snd (selectTerminal e c))"
  using assms
  by (auto simp: wfIncoming_def admitIncoming_def freshIncoming_def markIncomingWriting_def
      completeIncomingWrite_def selectTerminal_def split: option.splits)

section \<open>Properties of the sections\<close>

text \<open>
  C32. The incoming-request sections implement the protocol of one ID on every ID: while no
  terminal cause is selected, admission, write admission and write completion act on the
  entry of their own ID exactly as the abstract machine does and leave every other ID
  alone; after terminal selection a buffered request is discarded and nothing changes.
\<close>

theorem incoming_refines_id_protocol:
  assumes "wfIncoming c" "cn_cause c = None"
  shows "absID \<circ> cn_incoming (snd (admitIncoming i k p c))
       = (absID \<circ> cn_incoming c)(i := snd (idRequest k p (absID (cn_incoming c i))))
    \<and> fst (admitIncoming i k p c) = fst (idRequest k p (absID (cn_incoming c i)))
    \<and> absID \<circ> cn_incoming (markIncomingWriting i c) = (absID \<circ> cn_incoming c)(i := idWrite (absID (cn_incoming c i)))
    \<and> absID \<circ> cn_incoming (snd (completeIncomingWrite i c)) = (absID \<circ> cn_incoming c)(i := snd (idDone (absID (cn_incoming c i))))
    \<and> fst (completeIncomingWrite i c) = fst (idDone (absID (cn_incoming c i)))
    \<and> (\<forall>e. admitIncoming i k p (c\<lparr>cn_cause := Some e\<rparr>) = (admissionDiscard, c\<lparr>cn_cause := Some e\<rparr>))"
  using assms
  by (auto simp: wfIncoming_def fun_eq_iff admitIncoming_def markIncomingWriting_def completeIncomingWrite_def
      freshIncoming_def absID_def split: option.splits)

theorem incoming_refines_id_protocol_witness:
  "fst (admitIncoming 7 1 [] (snd (admitIncoming 7 1 [] (freshConnection (ImportBinding None))))) = admissionTerminal"
proof -
  let ?c = "freshConnection (ImportBinding None)"
  let ?c1 = "snd (admitIncoming 7 1 [] ?c)"
  have "wfIncoming ?c" "cn_cause ?c = None" by (simp_all add: wfIncoming_def freshConnection_def)
  from incoming_refines_id_protocol [OF this, of 7 1 "[]"]
  have "absID (cn_incoming ?c1 7) = Active"
    by (auto simp: fun_eq_iff freshConnection_def absID_def split: if_splits)
  moreover have "wfIncoming ?c1" "cn_cause ?c1 = None"
    using wfIncoming_ops(1) [OF \<open>wfIncoming ?c\<close>] by (auto simp: admitIncoming_def freshConnection_def)
  ultimately show ?thesis using incoming_refines_id_protocol [of ?c1 7 1 "[]"] by simp
qed

text \<open>
  Construction validates in order and rejects before the stream is claimed; a
  connection that is constructed is active, with nothing pending and no ID allocated.
\<close>

theorem newConnection_validates:
  "newConnection ctx hasStream export imp =
     (if ctx = None \<or> hasStream = False \<or> export = ExportBinding None \<or> imp = ImportBinding None
      then Inl ErrInvalidArgument
      else if the ctx \<noteq> None then Inl (the (the ctx))
      else Inr (freshConnection imp))
   \<and> callReady None (freshConnection imp) = None
   \<and> admitCall t None (freshConnection imp)
       = Inr (0, (freshConnection imp)\<lparr>cn_nextID := 1, cn_pending := [(0, t)]\<rparr>)"
  by (auto simp: newConnection_def freshConnection_def callReady_def admitCall_def idMask_def split: option.splits)

end
