(* ===== verification/Connection.thy ===== *)
theory Connection
  imports Connection_State
begin

text \<open>
  The goroutines of a connection and their interleaving (\<open>go/connection.go\<close>,
  \<open>go/call.go\<close>, \<open>go/receive.go\<close>, \<open>go/write.go\<close>). A goroutine is a program point with its
  local variables; one step runs it to its next synchronisation point: a section under the
  connection lock, a channel operation, one \<open>Write\<close> call of the stream, or a call into
  code the runtime does not own. Whatever such code returns (the encoder's payload or
  error, the decoder's verdict, the dispatch's response or panic, the byte counts and
  errors of the stream, the frames the peer sends, the moment a context is cancelled) is
  arbitrary: the rules take every value. A \<open>select\<close> with several ready cases may take any
  of them.

  Goroutine numbers identify pending calls: the entry of a \<open>Call\<close> is settled when
  \<open>w_done\<close> holds its result. Completing an entry twice or closing a closed channel panics
  in Go and sets \<open>w_panic\<close> here. The last fields are history: the frames whose write
  returned no error, the IDs allocated, whether a write failed, and the calls whose response
  decoder returned nil (\<open>w_accepted\<close>) or an error (\<open>w_rejected\<close>).
\<close>

datatype role = CallRole u64 | HandlerRole u64

datatype thread =
    Absent
  | Finished
    \<comment> \<open>\<open>Connection.Call\<close>\<close>
  | CallStart callArgs
  | CallEncode u64
  | CallRecheck u64 bytes
  | CallGate bytes
  | CallAdmit bytes
  | CallAbort go_error
  | CallWaiting u64
  | CallCanceling go_error
  | CallLost
  | CallReturned "go_error option"
    \<comment> \<open>\<open>writeFull\<close> under the gate and its release, in \<open>Call\<close> and \<open>handleRequest\<close>\<close>
  | WriteLoop role bytes nat bytes
  | Wrote role "go_error option"
  | Released role "go_error option"
    \<comment> \<open>\<open>handleRequest\<close>\<close>
  | HandlerStart u64 u64 bytes
  | HandlerGate u64 bytes
  | HandlerAdmit u64 bytes
  | HandlerAbort
    \<comment> \<open>\<open>receiveLoop\<close> and \<open>claimResponse\<close>\<close>
  | RecvRead
  | RecvDecode u64 nat
  | RecvFailed nat
  | RecvReject u64
  | RecvReturn
    \<comment> \<open>\<open>observeContext\<close>\<close>
  | ObsWait
  | ObsReturn
    \<comment> \<open>\<open>runTeardown\<close>\<close>
  | TdComplete go_error "nat list"
  | TdClose
  | TdCancel
  | TdFinish
    \<comment> \<open>\<open>Wait\<close>\<close>
  | WaitTeardown
  | WaitReceive
  | WaitObserver
  | WaitCause
  | WaitReturned "go_error option"

record world =
  w_conn :: connection
  w_threads :: "nat \<Rightarrow> thread"
  w_next :: nat
  w_done :: "nat \<rightharpoonup> go_error option"
  w_ctxErr :: "nat \<Rightarrow> go_error option"
  w_connErr :: "go_error option"
  w_out :: bytes
  w_panic :: bool
  w_frames :: "bytes list"
  w_ids :: "u64 list"
  w_failed :: bool
  w_accepted :: "nat set"
  w_rejected :: "nat set"

section \<open>Actions on the world\<close>

definition goto :: "nat \<Rightarrow> thread \<Rightarrow> world \<Rightarrow> world" where
  "goto t s w = w\<lparr>w_threads := (w_threads w)(t := s)\<rparr>"

definition spawn :: "thread \<Rightarrow> world \<Rightarrow> world" where
  "spawn s w = w\<lparr>w_threads := (w_threads w)(w_next w := s), w_next := Suc (w_next w)\<rparr>"

text \<open>\<open>selectTerminal\<close> with the start of the cleanup owner by the winner.\<close>

definition terminate :: "go_error \<Rightarrow> world \<Rightarrow> world" where
  "terminate err w = (case selectTerminal err (w_conn w) of
     (None, c) \<Rightarrow> w\<lparr>w_conn := c\<rparr>
   | (Some claims, c) \<Rightarrow> spawn (TdComplete err claims) (w\<lparr>w_conn := c\<rparr>))"

definition complete :: "nat \<Rightarrow> go_error option \<Rightarrow> world \<Rightarrow> world" where
  "complete pc r w =
     (if w_done w pc \<noteq> None then w\<lparr>w_panic := True\<rparr> else w\<lparr>w_done := (w_done w)(pc \<mapsto> r)\<rparr>)"

definition releaseWriteGate :: "world \<Rightarrow> world" where
  "releaseWriteGate w = w\<lparr>w_conn := (w_conn w)\<lparr>cn_gate := None\<rparr>\<rparr>"

definition acquireGate :: "nat \<Rightarrow> world \<Rightarrow> world" where
  "acquireGate t w = w\<lparr>w_conn := (w_conn w)\<lparr>cn_gate := Some t\<rparr>\<rparr>"

text \<open>One call of the stream's \<open>Write\<close>: it takes \<open>m\<close> bytes and reports the count \<open>n\<close>.\<close>

definition writeCall :: "bytes \<Rightarrow> nat \<Rightarrow> int \<Rightarrow> bool" where
  "writeCall b m n \<longleftrightarrow> m \<le> length b \<and> (0 \<le> n \<and> n \<le> int (length b) \<longrightarrow> n = int m)"

definition errMatchedResponse :: "u64 \<Rightarrow> go_error" where
  "errMatchedResponse i = Errorf ''intercall: matched response %d: %v: %w'' [uint i] ErrProtocol"

definition errAlreadyActive :: "u64 \<Rightarrow> go_error" where
  "errAlreadyActive i = Errorf ''intercall: incoming request ID %d already active: %w'' [uint i] ErrProtocol"

section \<open>The steps of a goroutine\<close>

text \<open>
  In every relation below goroutine \<open>t\<close> at \<open>s\<close> continues at \<open>s'\<close> and changes \<open>w\<close> to \<open>w'\<close>.
\<close>

text \<open>\<open>Connection.Call\<close> (\<open>go/call.go\<close>), with the claim of \<open>claimCancel\<close>.\<close>

inductive callStep :: "nat \<Rightarrow> thread \<Rightarrow> world \<Rightarrow> thread \<Rightarrow> world \<Rightarrow> bool" where
  call_invalid: "checkCall a (w_conn w) = Some e \<Longrightarrow> callStep t (CallStart a) w (CallReturned (Some e)) w"
| call_not_ready: "checkCall a (w_conn w) = None \<Longrightarrow> callReady (w_ctxErr w t) (w_conn w) = Some e \<Longrightarrow>
    callStep t (CallStart a) w (CallReturned (Some e)) w"
| call_start: "checkCall a (w_conn w) = None \<Longrightarrow> callReady (w_ctxErr w t) (w_conn w) = None \<Longrightarrow>
    callStep t (CallStart a) w (CallEncode (ca_key a)) w"
| call_encode_error: "callStep t (CallEncode k) w (CallReturned (Some e)) w"
| call_encode: "callStep t (CallEncode k) w (CallRecheck k payload) w"
| call_recheck_error: "callReady (w_ctxErr w t) (w_conn w) = Some e \<Longrightarrow>
    callStep t (CallRecheck k payload) w (CallReturned (Some e)) w"
| call_recheck: "callReady (w_ctxErr w t) (w_conn w) = None \<Longrightarrow>
    callStep t (CallRecheck k payload) w (CallGate (buildFrame requestFrame 0 k payload)) w"
| call_gate: "cn_gate (w_conn w) = None \<Longrightarrow> callStep t (CallGate fr) w (CallAdmit fr) (acquireGate t w)"
| call_gate_terminal: "cn_terminal (w_conn w) \<Longrightarrow>
    callStep t (CallGate fr) w (CallReturned (terminalCause (w_conn w))) w"
| call_gate_ctx: "w_ctxErr w t = Some e \<Longrightarrow> callStep t (CallGate fr) w (CallReturned (Some e)) w"
| call_refused: "admitCall t (w_ctxErr w t) (w_conn w) = Inl e \<Longrightarrow> callStep t (CallAdmit fr) w (CallAbort e) w"
| call_admit: "admitCall t (w_ctxErr w t) (w_conn w) = Inr (i, c) \<Longrightarrow>
    callStep t (CallAdmit fr) w (WriteLoop (CallRole i) (patchRequestID fr i) 0 (patchRequestID fr i))
      (w\<lparr>w_conn := c, w_ids := w_ids w @ [i]\<rparr>)"
| call_abort: "callStep t (CallAbort e) w (CallReturned (Some e)) (releaseWriteGate w)"
| call_write_failed: "callStep t (Released (CallRole i) (Some e)) w (CallWaiting i) (terminate e w)"
| call_written: "callStep t (Released (CallRole i) None) w (CallWaiting i) w"
| call_done: "w_done w t = Some r \<Longrightarrow> callStep t (CallWaiting i) w (CallReturned r) w"
| call_cancel: "w_ctxErr w t = Some e \<Longrightarrow> claim i (w_conn w) = Some (pc, c) \<Longrightarrow>
    callStep t (CallWaiting i) w (CallCanceling e) (w\<lparr>w_conn := c\<rparr>)"
| call_cancel_lost: "w_ctxErr w t = Some e \<Longrightarrow> claim i (w_conn w) = None \<Longrightarrow>
    callStep t (CallWaiting i) w CallLost w"
| call_canceled: "callStep t (CallCanceling e) w (CallReturned (Some e)) (complete t (Some e) w)"
| call_lost: "w_done w t = Some r \<Longrightarrow> callStep t CallLost w (CallReturned r) w"

text \<open>The write of one frame under the gate and the release of the gate (\<open>go/write.go\<close>).\<close>

inductive writeLoopStep :: "nat \<Rightarrow> thread \<Rightarrow> world \<Rightarrow> thread \<Rightarrow> world \<Rightarrow> bool" where
  write_more: "b \<noteq> [] \<Longrightarrow> writeCall b m n \<Longrightarrow> writeStep tot b n err = WriteMore tot' b' \<Longrightarrow>
    writeLoopStep t (WriteLoop r fr tot b) w (WriteLoop r fr tot' b') (w\<lparr>w_out := w_out w @ take m b\<rparr>)"
| write_fail: "b \<noteq> [] \<Longrightarrow> writeCall b m n \<Longrightarrow> writeStep tot b n err = WriteFail e \<Longrightarrow>
    writeLoopStep t (WriteLoop r fr tot b) w (Wrote r (Some e)) (w\<lparr>w_out := w_out w @ take m b, w_failed := True\<rparr>)"
| write_all: "writeLoopStep t (WriteLoop r fr tot []) w (Wrote r None) (w\<lparr>w_frames := w_frames w @ [fr]\<rparr>)"
| write_release: "writeLoopStep t (Wrote r e) w (Released r e) (releaseWriteGate w)"

text \<open>\<open>handleRequest\<close> (\<open>go/receive.go\<close>).\<close>

inductive handlerStep :: "nat \<Rightarrow> thread \<Rightarrow> world \<Rightarrow> thread \<Rightarrow> world \<Rightarrow> bool" where
  handler_dispatch: "recoverDispatch res = (ekey, epayload) \<Longrightarrow>
    handlerStep t (HandlerStart i k payload) w (HandlerGate i (buildFrame responseFrame i ekey epayload)) w"
| handler_gate: "cn_gate (w_conn w) = None \<Longrightarrow> handlerStep t (HandlerGate i fr) w (HandlerAdmit i fr) (acquireGate t w)"
| handler_gate_terminal: "cn_terminal (w_conn w) \<Longrightarrow> handlerStep t (HandlerGate i fr) w Finished w"
| handler_refused: "cn_cause (w_conn w) \<noteq> None \<Longrightarrow> handlerStep t (HandlerAdmit i fr) w HandlerAbort w"
| handler_admit: "cn_cause (w_conn w) = None \<Longrightarrow>
    handlerStep t (HandlerAdmit i fr) w (WriteLoop (HandlerRole i) fr 0 fr)
      (w\<lparr>w_conn := markIncomingWriting i (w_conn w)\<rparr>)"
| handler_abort: "handlerStep t HandlerAbort w Finished (releaseWriteGate w)"
| handler_write_failed: "handlerStep t (Released (HandlerRole i) (Some e)) w Finished (terminate e w)"
| handler_done: "completeIncomingWrite i (w_conn w) = (None, c) \<Longrightarrow>
    handlerStep t (Released (HandlerRole i) None) w Finished (w\<lparr>w_conn := c\<rparr>)"
| handler_next: "completeIncomingWrite i (w_conn w) = (Some (k, p), c) \<Longrightarrow>
    handlerStep t (Released (HandlerRole i) None) w Finished (spawn (HandlerStart i k p) (w\<lparr>w_conn := c\<rparr>))"

text \<open>\<open>receiveLoop\<close> (\<open>go/receive.go\<close>) with \<open>claimResponse\<close> (\<open>go/call.go\<close>).\<close>

inductive receiveStep :: "nat \<Rightarrow> thread \<Rightarrow> world \<Rightarrow> thread \<Rightarrow> world \<Rightarrow> bool" where
  recv_error: "receiveStep t RecvRead w RecvReturn (terminate e w)"
| recv_unmatched: "claim i (w_conn w) = None \<Longrightarrow> receiveStep t RecvRead w RecvRead w"
| recv_response: "claim i (w_conn w) = Some (pc, c) \<Longrightarrow>
    receiveStep t RecvRead w (RecvDecode i pc) (w\<lparr>w_conn := c\<rparr>)"
| recv_accept: "receiveStep t (RecvDecode i pc) w RecvRead (complete pc None (w\<lparr>w_accepted := insert pc (w_accepted w)\<rparr>))"
| recv_invalid: "receiveStep t (RecvDecode i pc) w (RecvFailed pc)
    (terminate (errMatchedResponse i) (w\<lparr>w_rejected := insert pc (w_rejected w)\<rparr>))"
| recv_failed: "receiveStep t (RecvFailed pc) w RecvRead (complete pc (cn_cause (w_conn w)) w)"
| recv_discard: "admitIncoming i k p (w_conn w) = (admissionDiscard, c) \<Longrightarrow>
    receiveStep t RecvRead w RecvReturn (w\<lparr>w_conn := c\<rparr>)"
| recv_deferred: "admitIncoming i k p (w_conn w) = (admissionDeferred, c) \<Longrightarrow>
    receiveStep t RecvRead w RecvRead (w\<lparr>w_conn := c\<rparr>)"
| recv_duplicate: "admitIncoming i k p (w_conn w) = (admissionTerminal, c) \<Longrightarrow>
    receiveStep t RecvRead w (RecvReject i) (w\<lparr>w_conn := c\<rparr>)"
| recv_dispatch: "admitIncoming i k p (w_conn w) = (admissionDispatch, c) \<Longrightarrow>
    receiveStep t RecvRead w RecvRead (spawn (HandlerStart i k p) (w\<lparr>w_conn := c\<rparr>))"
| recv_reject: "receiveStep t (RecvReject i) w RecvReturn (terminate (errAlreadyActive i) w)"
| recv_return: "receiveStep t RecvReturn w Finished
    (w\<lparr>w_panic := w_panic w \<or> cn_receiveExit (w_conn w), w_conn := (w_conn w)\<lparr>cn_receiveExit := True\<rparr>\<rparr>)"

text \<open>\<open>observeContext\<close> (\<open>go/connection.go\<close>).\<close>

inductive observeStep :: "nat \<Rightarrow> thread \<Rightarrow> world \<Rightarrow> thread \<Rightarrow> world \<Rightarrow> bool" where
  obs_context: "w_connErr w = Some e \<Longrightarrow> observeStep t ObsWait w ObsReturn (terminate e w)"
| obs_terminal: "cn_terminal (w_conn w) \<Longrightarrow> observeStep t ObsWait w ObsReturn w"
| obs_return: "observeStep t ObsReturn w Finished
    (w\<lparr>w_panic := w_panic w \<or> cn_observerExit (w_conn w), w_conn := (w_conn w)\<lparr>cn_observerExit := True\<rparr>\<rparr>)"

text \<open>\<open>runTeardown\<close> (\<open>go/connection.go\<close>).\<close>

inductive teardownStep :: "nat \<Rightarrow> thread \<Rightarrow> world \<Rightarrow> thread \<Rightarrow> world \<Rightarrow> bool" where
  td_complete: "pc \<in> set claims \<Longrightarrow>
    teardownStep t (TdComplete e claims) w (TdComplete e (remove1 pc claims)) (complete pc (Some e) w)"
| td_completed: "teardownStep t (TdComplete e []) w TdClose w"
| td_close: "teardownStep t TdClose w TdCancel (w\<lparr>w_conn := (w_conn w)\<lparr>cn_closes := Suc (cn_closes (w_conn w))\<rparr>\<rparr>)"
| td_cancel: "teardownStep t TdCancel w TdFinish (w\<lparr>w_conn := (w_conn w)\<lparr>cn_handlersCanceled := True\<rparr>\<rparr>)"
| td_finish: "teardownStep t TdFinish w Finished
    (w\<lparr>w_panic := w_panic w \<or> cn_teardown (w_conn w), w_conn := (w_conn w)\<lparr>cn_teardown := True\<rparr>\<rparr>)"

text \<open>\<open>Wait\<close> (\<open>go/connection.go\<close>).\<close>

inductive waitStep :: "nat \<Rightarrow> thread \<Rightarrow> world \<Rightarrow> thread \<Rightarrow> world \<Rightarrow> bool" where
  wait_teardown: "cn_teardown (w_conn w) \<Longrightarrow> waitStep t WaitTeardown w WaitReceive w"
| wait_receive: "cn_receiveExit (w_conn w) \<Longrightarrow> waitStep t WaitReceive w WaitObserver w"
| wait_observer: "cn_observerExit (w_conn w) \<Longrightarrow> waitStep t WaitObserver w WaitCause w"
| wait_cause: "waitStep t WaitCause w (WaitReturned (cn_cause (w_conn w))) w"

inductive act :: "nat \<Rightarrow> thread \<Rightarrow> world \<Rightarrow> thread \<Rightarrow> world \<Rightarrow> bool" where
  by_call: "callStep t s w s' w' \<Longrightarrow> act t s w s' w'"
| by_write: "writeLoopStep t s w s' w' \<Longrightarrow> act t s w s' w'"
| by_handler: "handlerStep t s w s' w' \<Longrightarrow> act t s w s' w'"
| by_receive: "receiveStep t s w s' w' \<Longrightarrow> act t s w s' w'"
| by_observer: "observeStep t s w s' w' \<Longrightarrow> act t s w s' w'"
| by_teardown: "teardownStep t s w s' w' \<Longrightarrow> act t s w s' w'"
| by_wait: "waitStep t s w s' w' \<Longrightarrow> act t s w s' w'"

text \<open>Case analysis over all steps of all goroutines.\<close>

lemma act_induct [consumes 1, case_names
    call_invalid call_not_ready call_start call_encode_error call_encode call_recheck_error call_recheck
    call_gate call_gate_terminal call_gate_ctx call_refused call_admit call_abort call_write_failed
    call_written call_done call_cancel call_cancel_lost call_canceled call_lost write_more
    write_fail write_all write_release handler_dispatch handler_gate handler_gate_terminal handler_refused
    handler_admit handler_abort handler_write_failed handler_done handler_next recv_error recv_unmatched
    recv_response recv_accept recv_invalid recv_failed recv_discard recv_deferred recv_duplicate
    recv_dispatch recv_reject recv_return obs_context obs_terminal obs_return td_complete
    td_completed td_close td_cancel td_finish wait_teardown wait_receive wait_observer
    wait_cause]:
  assumes act: "act t s w s' w'"
    and call_invalid: "\<And>a w e t. checkCall a (w_conn w) = Some e \<Longrightarrow> P t (CallStart a) w (CallReturned (Some e)) w"
    and call_not_ready: "\<And>a w t e. checkCall a (w_conn w) = None \<Longrightarrow> callReady (w_ctxErr w t) (w_conn w) = Some e \<Longrightarrow>
    P t (CallStart a) w (CallReturned (Some e)) w"
    and call_start: "\<And>a w t. checkCall a (w_conn w) = None \<Longrightarrow> callReady (w_ctxErr w t) (w_conn w) = None \<Longrightarrow>
    P t (CallStart a) w (CallEncode (ca_key a)) w"
    and call_encode_error: "\<And>t k w e. P t (CallEncode k) w (CallReturned (Some e)) w"
    and call_encode: "\<And>t k w payload. P t (CallEncode k) w (CallRecheck k payload) w"
    and call_recheck_error: "\<And>w t e k payload. callReady (w_ctxErr w t) (w_conn w) = Some e \<Longrightarrow>
    P t (CallRecheck k payload) w (CallReturned (Some e)) w"
    and call_recheck: "\<And>w t k payload. callReady (w_ctxErr w t) (w_conn w) = None \<Longrightarrow>
    P t (CallRecheck k payload) w (CallGate (buildFrame requestFrame 0 k payload)) w"
    and call_gate: "\<And>w t fr. cn_gate (w_conn w) = None \<Longrightarrow> P t (CallGate fr) w (CallAdmit fr) (acquireGate t w)"
    and call_gate_terminal: "\<And>w t fr. cn_terminal (w_conn w) \<Longrightarrow>
    P t (CallGate fr) w (CallReturned (terminalCause (w_conn w))) w"
    and call_gate_ctx: "\<And>w t e fr. w_ctxErr w t = Some e \<Longrightarrow> P t (CallGate fr) w (CallReturned (Some e)) w"
    and call_refused: "\<And>t w e fr. admitCall t (w_ctxErr w t) (w_conn w) = Inl e \<Longrightarrow> P t (CallAdmit fr) w (CallAbort e) w"
    and call_admit: "\<And>t w i c fr. admitCall t (w_ctxErr w t) (w_conn w) = Inr (i, c) \<Longrightarrow>
    P t (CallAdmit fr) w (WriteLoop (CallRole i) (patchRequestID fr i) 0 (patchRequestID fr i))
      (w\<lparr>w_conn := c, w_ids := w_ids w @ [i]\<rparr>)"
    and call_abort: "\<And>t e w. P t (CallAbort e) w (CallReturned (Some e)) (releaseWriteGate w)"
    and call_write_failed: "\<And>t i e w. P t (Released (CallRole i) (Some e)) w (CallWaiting i) (terminate e w)"
    and call_written: "\<And>t i w. P t (Released (CallRole i) None) w (CallWaiting i) w"
    and call_done: "\<And>w t r i. w_done w t = Some r \<Longrightarrow> P t (CallWaiting i) w (CallReturned r) w"
    and call_cancel: "\<And>w t e i pc c. w_ctxErr w t = Some e \<Longrightarrow> claim i (w_conn w) = Some (pc, c) \<Longrightarrow>
    P t (CallWaiting i) w (CallCanceling e) (w\<lparr>w_conn := c\<rparr>)"
    and call_cancel_lost: "\<And>w t e i. w_ctxErr w t = Some e \<Longrightarrow> claim i (w_conn w) = None \<Longrightarrow>
    P t (CallWaiting i) w CallLost w"
    and call_canceled: "\<And>t e w. P t (CallCanceling e) w (CallReturned (Some e)) (complete t (Some e) w)"
    and call_lost: "\<And>w t r. w_done w t = Some r \<Longrightarrow> P t CallLost w (CallReturned r) w"
    and write_more: "\<And>b m n tot err tot' b' t r fr w. b \<noteq> [] \<Longrightarrow> writeCall b m n \<Longrightarrow> writeStep tot b n err = WriteMore tot' b' \<Longrightarrow>
    P t (WriteLoop r fr tot b) w (WriteLoop r fr tot' b') (w\<lparr>w_out := w_out w @ take m b\<rparr>)"
    and write_fail: "\<And>b m n tot err e t r fr w. b \<noteq> [] \<Longrightarrow> writeCall b m n \<Longrightarrow> writeStep tot b n err = WriteFail e \<Longrightarrow>
    P t (WriteLoop r fr tot b) w (Wrote r (Some e)) (w\<lparr>w_out := w_out w @ take m b, w_failed := True\<rparr>)"
    and write_all: "\<And>t r fr tot w. P t (WriteLoop r fr tot []) w (Wrote r None) (w\<lparr>w_frames := w_frames w @ [fr]\<rparr>)"
    and write_release: "\<And>t r e w. P t (Wrote r e) w (Released r e) (releaseWriteGate w)"
    and handler_dispatch: "\<And>res ekey epayload t i k payload w. recoverDispatch res = (ekey, epayload) \<Longrightarrow>
    P t (HandlerStart i k payload) w (HandlerGate i (buildFrame responseFrame i ekey epayload)) w"
    and handler_gate: "\<And>w t i fr. cn_gate (w_conn w) = None \<Longrightarrow> P t (HandlerGate i fr) w (HandlerAdmit i fr) (acquireGate t w)"
    and handler_gate_terminal: "\<And>w t i fr. cn_terminal (w_conn w) \<Longrightarrow> P t (HandlerGate i fr) w Finished w"
    and handler_refused: "\<And>w t i fr. cn_cause (w_conn w) \<noteq> None \<Longrightarrow> P t (HandlerAdmit i fr) w HandlerAbort w"
    and handler_admit: "\<And>w t i fr. cn_cause (w_conn w) = None \<Longrightarrow>
    P t (HandlerAdmit i fr) w (WriteLoop (HandlerRole i) fr 0 fr)
      (w\<lparr>w_conn := markIncomingWriting i (w_conn w)\<rparr>)"
    and handler_abort: "\<And>t w. P t HandlerAbort w Finished (releaseWriteGate w)"
    and handler_write_failed: "\<And>t i e w. P t (Released (HandlerRole i) (Some e)) w Finished (terminate e w)"
    and handler_done: "\<And>i w c t. completeIncomingWrite i (w_conn w) = (None, c) \<Longrightarrow>
    P t (Released (HandlerRole i) None) w Finished (w\<lparr>w_conn := c\<rparr>)"
    and handler_next: "\<And>i w k p c t. completeIncomingWrite i (w_conn w) = (Some (k, p), c) \<Longrightarrow>
    P t (Released (HandlerRole i) None) w Finished (spawn (HandlerStart i k p) (w\<lparr>w_conn := c\<rparr>))"
    and recv_error: "\<And>t w e. P t RecvRead w RecvReturn (terminate e w)"
    and recv_unmatched: "\<And>i w t. claim i (w_conn w) = None \<Longrightarrow> P t RecvRead w RecvRead w"
    and recv_response: "\<And>i w pc c t. claim i (w_conn w) = Some (pc, c) \<Longrightarrow>
    P t RecvRead w (RecvDecode i pc) (w\<lparr>w_conn := c\<rparr>)"
    and recv_accept: "\<And>t i pc w. P t (RecvDecode i pc) w RecvRead
    (complete pc None (w\<lparr>w_accepted := insert pc (w_accepted w)\<rparr>))"
    and recv_invalid: "\<And>t i pc w. P t (RecvDecode i pc) w (RecvFailed pc)
    (terminate (errMatchedResponse i) (w\<lparr>w_rejected := insert pc (w_rejected w)\<rparr>))"
    and recv_failed: "\<And>t pc w. P t (RecvFailed pc) w RecvRead (complete pc (cn_cause (w_conn w)) w)"
    and recv_discard: "\<And>i k p w c t. admitIncoming i k p (w_conn w) = (admissionDiscard, c) \<Longrightarrow>
    P t RecvRead w RecvReturn (w\<lparr>w_conn := c\<rparr>)"
    and recv_deferred: "\<And>i k p w c t. admitIncoming i k p (w_conn w) = (admissionDeferred, c) \<Longrightarrow>
    P t RecvRead w RecvRead (w\<lparr>w_conn := c\<rparr>)"
    and recv_duplicate: "\<And>i k p w c t. admitIncoming i k p (w_conn w) = (admissionTerminal, c) \<Longrightarrow>
    P t RecvRead w (RecvReject i) (w\<lparr>w_conn := c\<rparr>)"
    and recv_dispatch: "\<And>i k p w c t. admitIncoming i k p (w_conn w) = (admissionDispatch, c) \<Longrightarrow>
    P t RecvRead w RecvRead (spawn (HandlerStart i k p) (w\<lparr>w_conn := c\<rparr>))"
    and recv_reject: "\<And>t i w. P t (RecvReject i) w RecvReturn (terminate (errAlreadyActive i) w)"
    and recv_return: "\<And>t w. P t RecvReturn w Finished
    (w\<lparr>w_panic := w_panic w \<or> cn_receiveExit (w_conn w), w_conn := (w_conn w)\<lparr>cn_receiveExit := True\<rparr>\<rparr>)"
    and obs_context: "\<And>w e t. w_connErr w = Some e \<Longrightarrow> P t ObsWait w ObsReturn (terminate e w)"
    and obs_terminal: "\<And>w t. cn_terminal (w_conn w) \<Longrightarrow> P t ObsWait w ObsReturn w"
    and obs_return: "\<And>t w. P t ObsReturn w Finished
    (w\<lparr>w_panic := w_panic w \<or> cn_observerExit (w_conn w), w_conn := (w_conn w)\<lparr>cn_observerExit := True\<rparr>\<rparr>)"
    and td_complete: "\<And>pc claims t e w. pc \<in> set claims \<Longrightarrow>
    P t (TdComplete e claims) w (TdComplete e (remove1 pc claims)) (complete pc (Some e) w)"
    and td_completed: "\<And>t e w. P t (TdComplete e []) w TdClose w"
    and td_close: "\<And>t w. P t TdClose w TdCancel (w\<lparr>w_conn := (w_conn w)\<lparr>cn_closes := Suc (cn_closes (w_conn w))\<rparr>\<rparr>)"
    and td_cancel: "\<And>t w. P t TdCancel w TdFinish (w\<lparr>w_conn := (w_conn w)\<lparr>cn_handlersCanceled := True\<rparr>\<rparr>)"
    and td_finish: "\<And>t w. P t TdFinish w Finished
    (w\<lparr>w_panic := w_panic w \<or> cn_teardown (w_conn w), w_conn := (w_conn w)\<lparr>cn_teardown := True\<rparr>\<rparr>)"
    and wait_teardown: "\<And>w t. cn_teardown (w_conn w) \<Longrightarrow> P t WaitTeardown w WaitReceive w"
    and wait_receive: "\<And>w t. cn_receiveExit (w_conn w) \<Longrightarrow> P t WaitReceive w WaitObserver w"
    and wait_observer: "\<And>w t. cn_observerExit (w_conn w) \<Longrightarrow> P t WaitObserver w WaitCause w"
    and wait_cause: "\<And>t w. P t WaitCause w (WaitReturned (cn_cause (w_conn w))) w"
  shows "P t s w s' w'"
  using act
proof cases
  case by_call
  then show ?thesis by cases (auto intro: call_invalid call_not_ready call_start call_encode_error call_encode call_recheck_error call_recheck call_gate call_gate_terminal call_gate_ctx call_refused call_admit call_abort call_write_failed call_written call_done call_cancel call_cancel_lost call_canceled call_lost)
next
  case by_write
  then show ?thesis by cases (auto intro: write_more write_fail write_all write_release)
next
  case by_handler
  then show ?thesis by cases (auto intro: handler_dispatch handler_gate handler_gate_terminal handler_refused handler_admit handler_abort handler_write_failed handler_done handler_next)
next
  case by_receive
  then show ?thesis by cases (auto intro: recv_error recv_unmatched recv_response recv_accept recv_invalid recv_failed recv_discard recv_deferred recv_duplicate recv_dispatch recv_reject recv_return)
next
  case by_observer
  then show ?thesis by cases (auto intro: obs_context obs_terminal obs_return)
next
  case by_teardown
  then show ?thesis by cases (auto intro: td_complete td_completed td_close td_cancel td_finish)
next
  case by_wait
  then show ?thesis by cases (auto intro: wait_teardown wait_receive wait_observer wait_cause)
qed

section \<open>The steps of a connection\<close>

text \<open>What callers and contexts do: start a call or a wait, close, cancel.\<close>

inductive env :: "world \<Rightarrow> world \<Rightarrow> bool" where
  new_call: "env w (spawn (CallStart a) w)"
| new_wait: "env w (spawn WaitTeardown w)"
| close: "env w (terminate ErrClosed w)"
| cancel_call: "w_ctxErr w t = None \<Longrightarrow> env w (w\<lparr>w_ctxErr := (w_ctxErr w)(t := Some e)\<rparr>)"
| cancel_connection: "w_connErr w = None \<Longrightarrow> env w (w\<lparr>w_connErr := Some e\<rparr>)"

inductive step :: "world \<Rightarrow> world \<Rightarrow> bool" where
  run: "act t (w_threads w t) w s' w' \<Longrightarrow> step w (goto t s' w')"
| outside: "env w w' \<Longrightarrow> step w w'"

text \<open>A connection as \<open>NewConnection\<close> returns it: the observer and the receive loop run.\<close>

definition start :: "ImportBinding \<Rightarrow> world" where
  "start imp = \<lparr>w_conn = freshConnection imp, w_threads = (\<lambda>_. Absent)(0 := ObsWait, 1 := RecvRead), w_next = 2,
     w_done = Map.empty, w_ctxErr = (\<lambda>_. None), w_connErr = None, w_out = [], w_panic = False,
     w_frames = [], w_ids = [], w_failed = False, w_accepted = {}, w_rejected = {}\<rparr>"

inductive reachable :: "ImportBinding \<Rightarrow> world \<Rightarrow> bool" for imp where
  init: "reachable imp (start imp)"
| more: "reachable imp w \<Longrightarrow> step w w' \<Longrightarrow> reachable imp w'"

inductive_cases stepE: "step w w'"

end
