(* ===== verification/Binding_Calls.thy ===== *)
theory Binding_Calls
  imports Import_Binding Export_Provider Interface_Key Connection
begin

text \<open>
  Calls from the import binding to the export binding: what the provider is given, what the
  caller gets back, and that both sides name procedures and exceptions by the same keys.
\<close>

section \<open>Keys\<close>

lemma procedure_keys:
  "ProcedureKey ''echo'' = 0x159eb91a98f8f42" "ProcedureKey ''add'' = 0x8425decb5e996afe"
  "ProcedureKey ''sample'' = 0x2549b9c663851f" "ProcedureKey ''wave'' = 0x664ffb9151feebb2"
  "ProcedureKey ''paint'' = 0x52095929e015a29f" "ProcedureKey ''locate'' = 0x1ac8478033777d33"
  "ProcedureKey ''fetch'' = 0xb50b5c7d5249d7a3" "ProcedureKey ''ping'' = 0xa3aa209174f340d1"
  "ProcedureKey ''stamp'' = 0xe1bf6d111c6bae5a" "ProcedureKey ''load'' = 0xc3d7bb918679d5ed"
  "ProcedureKey ''tiny'' = 0x7f875c91600f848b" "ProcedureKey ''crash'' = 0xd4fb7594c57f2f66"
  by (rule key_vectors | code_simp)+

lemma exception_keys:
  "ExceptionKey ''denied'' = 0x7fbdf637a78620b0" "ExceptionKey ''failed'' = 0x583fb304d69368ca"
  "ExceptionKey ''overloaded'' = 0xbe9110749ebcc72c" "ExceptionKey ''empty'' = 0xeab4dd94951d6a30"
  "ExceptionKey ''err_shared'' = 0x9af2b5f7e68bde66" "ExceptionKey ''err_weird'' = 0xc89fac47c60e0b40"
  "ExceptionKey ''shared'' = 0xa3f509f715a249fe" "ExceptionKey ''procedure_not_found'' = 0x970e76fcc5e2dacb"
  "ExceptionKey ''invalid_arguments'' = 0x3f5fc972f8477b07"
  "ExceptionKey ''internal_exception'' = 0x1aaec22e85996f50"
  by (rule key_vectors | code_simp)+

section \<open>Requests\<close>

text \<open>Each request decoder is the converse of the other side's request encoder.\<close>

interpretation req_add: wire_codec "\<lambda>buf (a, b). encreq_add buf a b" dereq_add "\<lambda>_. True" "\<lambda>v. v"
  by (rule wire_codec_cong [OF pair_codec [OF int64.wire_codec_axioms int64.wire_codec_axioms]])
    (auto simp: encreq_add_def dereq_add_def enc_pair_def dec_pair_def)

interpretation req_echo: wire_codec encreq_echo dereq_echo counted id
  by (rule wire_codec_cong [OF text_string.wire_codec_axioms]) (simp_all add: encreq_echo_def dereq_echo_def)

interpretation req_sample: wire_codec "\<lambda>buf (d, c). encreq_sample buf d c" dereq_sample "\<lambda>v. counted (fst v)" "\<lambda>v. v"
  by (rule wire_codec_cong [OF pair_codec [OF byte_string.wire_codec_axioms uint8.wire_codec_axioms]])
    (auto simp: encreq_sample_def dereq_sample_def enc_pair_def dec_pair_def)

interpretation req_wave: wire_codec encreq_wave dereq_wave counted "\<lambda>v. v"
  by (rule wire_codec_cong [OF list_uint8.wire_codec_axioms])
    (simp_all add: encreq_wave_def dereq_wave_def xdec_list_uint8_def dec_list_uint8_def list_all_iff)

interpretation req_paint: wire_codec "\<lambda>buf (origin, sz). encreq_paint buf origin sz" dereq_paint "\<lambda>_. True" "\<lambda>v. v"
  by (rule wire_codec_cong [OF pair_codec [OF xy.wire_codec_axioms size_rec.wire_codec_axioms]])
    (auto simp: encreq_paint_def dereq_paint_def enc_pair_def dec_pair_def xdec_record_xy_def dec_record_xy_def
      xdec_record_size_def dec_record_size_def)

interpretation req_fetch: wire_codec encreq_fetch dereq_fetch "\<lambda>_. True" id
  by (rule wire_codec_cong [OF user_id.wire_codec_axioms])
    (simp_all add: encreq_fetch_def dereq_fetch_def xdec_type_user_id_def dec_type_user_id_def)

interpretation req_ping: wire_codec "\<lambda>buf u. encreq_ping buf" dereq_ping "\<lambda>_. True" id
  by unfold_locales (auto simp: encreq_ping_def dereq_ping_def)

lemma withArguments_exact:
  assumes "wire_codec enc dec sized canon"
  shows "sized v \<Longrightarrow> canon v = v \<Longrightarrow> enc [] v = Inr payload \<Longrightarrow> withArguments (dec payload) body = body v"
    and "\<nexists>v. sized v \<and> canon v = v \<and> enc [] v = Inr payload \<Longrightarrow>
      withArguments (dec payload) body = Some (ExceptionKey ''invalid_arguments'', [])"
proof -
  note iff = wire_codec.dec_complete [OF assms, of payload]
  show "sized v \<Longrightarrow> canon v = v \<Longrightarrow> enc [] v = Inr payload \<Longrightarrow> withArguments (dec payload) body = body v"
    using iff [of v] by (simp add: withArguments_def)
  assume "\<nexists>v. sized v \<and> canon v = v \<and> enc [] v = Inr payload"
  then have "dec payload \<noteq> Inr (v, [])" for v using iff by blast
  then show "withArguments (dec payload) body = Some (ExceptionKey ''invalid_arguments'', [])"
    by (auto simp: withArguments_def exception_keys split: sum.split)
qed

section \<open>What the provider is given\<close>

text \<open>The payloads that are the exact encoding of some arguments of an exported procedure.\<close>

definition exportedNames :: "string list" where
  "exportedNames = [''add'', ''crash'', ''echo'', ''fetch'', ''paint'', ''ping'', ''sample'', ''wave'']"

definition validRequest :: "string \<Rightarrow> bytes \<Rightarrow> bool" where
  "validRequest n p \<longleftrightarrow>
     n = ''add'' \<and> (\<exists>a b. encreq_add [] a b = Inr p)
   \<or> n = ''crash'' \<and> (\<exists>v. counted v \<and> enc_string [] v = Inr p)
   \<or> n = ''echo'' \<and> (\<exists>v. counted v \<and> encreq_echo [] v = Inr p)
   \<or> n = ''fetch'' \<and> (\<exists>i. encreq_fetch [] i = Inr p)
   \<or> n = ''paint'' \<and> (\<exists>origin sz. encreq_paint [] origin sz = Inr p)
   \<or> n = ''ping'' \<and> p = []
   \<or> n = ''sample'' \<and> (\<exists>d c. counted d \<and> encreq_sample [] d c = Inr p)
   \<or> n = ''wave'' \<and> (\<exists>v. counted v \<and> encreq_wave [] v = Inr p)"

lemma dispatch_name:
  "dispatch P ctx (ProcedureKey ''add'') p = withArguments (dereq_add p) (\<lambda>(a, b). respond (pv_Add P ctx a b) (enc_int64 []))"
  "dispatch P ctx (ProcedureKey ''crash'') p = withArguments (dereq_crash p) (\<lambda>v. respondNone (pv_Crash P ctx v))"
  "dispatch P ctx (ProcedureKey ''echo'') p = withArguments (dereq_echo p) (\<lambda>v. respond (pv_Echo P ctx v) (enc_string []))"
  "dispatch P ctx (ProcedureKey ''fetch'') p = withArguments (dereq_fetch p) (\<lambda>i. respond (pv_Fetch P ctx i) (xenc_type_point []))"
  "dispatch P ctx (ProcedureKey ''paint'') p = withArguments (dereq_paint p) (\<lambda>(o', sz). respond (pv_Paint P ctx o' sz) (xenc_record_size []))"
  "dispatch P ctx (ProcedureKey ''ping'') p = withArguments (dereq_ping p) (\<lambda>u. respondNone (pv_Ping P ctx))"
  "dispatch P ctx (ProcedureKey ''sample'') p = withArguments (dereq_sample p) (\<lambda>(d, c). respond (pv_Sample P ctx d c) (enc_bytes []))"
  "dispatch P ctx (ProcedureKey ''wave'') p = withArguments (dereq_wave p) (\<lambda>v. respond (pv_Wave P ctx v) (enc_uint32 []))"
  by (simp_all add: dispatch_def procedure_keys)

lemma dereq_crash [simp]: "dereq_crash = dec_string"
  by (simp add: dereq_crash_def fun_eq_iff)

lemma validRequest_name:
  "validRequest ''add'' p \<longleftrightarrow> (\<exists>a b. encreq_add [] a b = Inr p)"
  "validRequest ''crash'' p \<longleftrightarrow> (\<exists>v. counted v \<and> enc_string [] v = Inr p)"
  "validRequest ''echo'' p \<longleftrightarrow> (\<exists>v. counted v \<and> encreq_echo [] v = Inr p)"
  "validRequest ''fetch'' p \<longleftrightarrow> (\<exists>i. encreq_fetch [] i = Inr p)"
  "validRequest ''paint'' p \<longleftrightarrow> (\<exists>origin sz. encreq_paint [] origin sz = Inr p)"
  "validRequest ''ping'' p \<longleftrightarrow> p = []"
  "validRequest ''sample'' p \<longleftrightarrow> (\<exists>d c. counted d \<and> encreq_sample [] d c = Inr p)"
  "validRequest ''wave'' p \<longleftrightarrow> (\<exists>v. counted v \<and> encreq_wave [] v = Inr p)"
  by (simp_all add: validRequest_def)

lemma rejects_all:
  "list_all (\<lambda>n. \<not> validRequest n p \<longrightarrow>
     dispatch P ctx (ProcedureKey n) p = Some (ExceptionKey ''invalid_arguments'', [])) exportedNames"
proof (unfold exportedNames_def list.pred_inject, intro conjI impI, goal_cases)
  case 1
  then show ?case unfolding validRequest_name dispatch_name
    by (intro withArguments_exact(2) [OF req_add.wire_codec_axioms]) (auto simp: encreq_ping_def)
next
  case 2
  then show ?case unfolding validRequest_name dispatch_name dereq_crash
    by (intro withArguments_exact(2) [OF text_string.wire_codec_axioms]) (auto simp: encreq_ping_def)
next
  case 3
  then show ?case unfolding validRequest_name dispatch_name
    by (intro withArguments_exact(2) [OF req_echo.wire_codec_axioms]) (auto simp: encreq_ping_def)
next
  case 4
  then show ?case unfolding validRequest_name dispatch_name
    by (intro withArguments_exact(2) [OF req_fetch.wire_codec_axioms]) (auto simp: encreq_ping_def)
next
  case 5
  then show ?case unfolding validRequest_name dispatch_name
    by (intro withArguments_exact(2) [OF req_paint.wire_codec_axioms]) (auto simp: encreq_ping_def)
next
  case 6
  then show ?case unfolding validRequest_name dispatch_name
    by (intro withArguments_exact(2) [OF req_ping.wire_codec_axioms]) (auto simp: encreq_ping_def)
next
  case 7
  then show ?case unfolding validRequest_name dispatch_name
    by (intro withArguments_exact(2) [OF req_sample.wire_codec_axioms]) (auto simp: encreq_ping_def)
next
  case 8
  then show ?case unfolding validRequest_name dispatch_name
    by (intro withArguments_exact(2) [OF req_wave.wire_codec_axioms]) (auto simp: encreq_ping_def)
qed simp

lemma rejects:
  "n \<in> set exportedNames \<Longrightarrow> \<not> validRequest n p \<Longrightarrow>
   dispatch P ctx (ProcedureKey n) p = Some (ExceptionKey ''invalid_arguments'', [])"
  using rejects_all [of p P ctx] by (auto simp only: list_all_iff)

lemma not_found:
  assumes "key \<notin> ProcedureKey ` set exportedNames"
  shows "dispatch P ctx key p = Some (ExceptionKey ''procedure_not_found'', [])"
  using assms by (simp add: exportedNames_def procedure_keys exception_keys dispatch_def)

section \<open>What the caller gets back\<close>

text \<open>
  A call that reaches the peer and whose response is delivered: the dispatch under the runtime's
  recovery, then the caller's decoder, whose error is the protocol error of that request.
\<close>

definition exchange :: "u64 \<Rightarrow> 'ctx Dispatch \<Rightarrow> 'ctx \<Rightarrow> 'a runtime_call" where
  "exchange i d h conn ctx key encoded decode = (case encoded of
     Inl e \<Rightarrow> Inl e
   | Inr payload \<Rightarrow> (case recoverDispatch (d h key payload) of (k, p) \<Rightarrow>
       (case decode k p of Inl e \<Rightarrow> Inl (errMatchedResponse i) | Inr r \<Rightarrow> Inr r)))"

text \<open>
  The specification: which error value arrives for which provider error. Everything without
  exactly one declared match is the internal exception; a declared exception the importing
  interface does not know ends the connection.
\<close>

fun carried :: "u64 \<Rightarrow> provError \<Rightarrow> import_error" where
  "carried i (ErrorString a) = (if a = Global 0 then Denied else RuntimeError ErrInternalException)"
| "carried i (FailedPtr (Some (a, v))) =
     (if ValidString (fl_Message v) then FailedError v else RuntimeError ErrInternalException)"
| "carried i (SharedPtr (Some (a, v))) =
     (if a = Global 1 then RuntimeError ErrInternalException else RuntimeError (errMatchedResponse i))"
| "carried i (EmptyPtr (Some a)) = RuntimeError (errMatchedResponse i)"
| "carried i e = RuntimeError ErrInternalException"

definition outcome :: "u64 \<Rightarrow> ('a \<Rightarrow> bool) \<Rightarrow> 'a \<Rightarrow> ('a \<times> provError option) option \<Rightarrow> 'a \<times> import_error option" where
  "outcome i encodable zero r = (case r of
     None \<Rightarrow> (zero, Some (RuntimeError ErrInternalException))
   | Some (out, Some err) \<Rightarrow> (zero, Some (carried i err))
   | Some (out, None) \<Rightarrow>
       if encodable out then (out, None) else (zero, Some (RuntimeError ErrInternalException)))"

text \<open>Results whose lengths are lengths of Go values.\<close>

fun sizedError :: "provError \<Rightarrow> bool" where
  "sizedError (FailedPtr (Some (a, v))) = counted (fl_Message v)"
| "sizedError e = True"

definition sizedResult :: "('a \<Rightarrow> bool) \<Rightarrow> ('a \<times> provError option) option \<Rightarrow> bool" where
  "sizedResult sized r = (case r of
     None \<Rightarrow> True | Some (out, None) \<Rightarrow> sized out | Some (out, Some err) \<Rightarrow> sizedError err)"

lemma xenc_failed: "xenc_record_failed = enc_record_failed"
  by (simp add: fun_eq_iff xenc_record_failed_def enc_record_failed_def)

lemma match_exc_value:
  "match_exc (ErrorString a) = Some (if a = Global 0 then ExceptionKey ''denied'' else internalExceptionKey, [])"
  "match_exc (FailedPtr (Some (a, v))) = Some (case enc_record_failed [] v of
     Inl e \<Rightarrow> (internalExceptionKey, []) | Inr p \<Rightarrow> (ExceptionKey ''failed'', p))"
  "match_exc (FailedPtr None) = Some (internalExceptionKey, [])"
  "match_exc (SharedPtr (Some (a, w))) = Some (if a = Global 1 then (internalExceptionKey, [])
     else (ExceptionKey ''shared'', le_bytes 4 (sh_Code w)))"
  "match_exc (SharedPtr None) = Some (internalExceptionKey, [])"
  "match_exc (EmptyPtr (Some a)) = Some (ExceptionKey ''empty'', [])"
  "match_exc (EmptyPtr None) = Some (internalExceptionKey, [])"
  "match_exc (WeirdVal t) = None"
  "match_exc (Wrapped e) = Some (internalExceptionKey, [])"
  by (simp_all add: match_exc_def matchSentinel_def matchPayload_def ErrDenied_def ErrShared_def ErrWeird_def
      internalExceptionKey_def exception_keys xenc_failed xenc_record_empty_def xenc_record_shared_def enc_le le_enc_def
      split: sum.split)

lemma decode_exception_value:
  "decode_exception (ExceptionKey ''denied'') [] = Inr Denied"
  "decode_exception internalExceptionKey [] = Inr (RuntimeError ErrInternalException)"
  "decode_exception (ExceptionKey ''procedure_not_found'') [] = Inr (RuntimeError ErrProcedureNotFound)"
  "decode_exception (ExceptionKey ''invalid_arguments'') [] = Inr (RuntimeError ErrInvalidArguments)"
  "decode_exception (ExceptionKey ''shared'') p = Inl errUnknownKey"
  "decode_exception (ExceptionKey ''empty'') p = Inl errUnknownKey"
  "decode_exception (ExceptionKey ''failed'') p = andThen (exhausted (dec_record_failed p)) (\<lambda>v. Inr (FailedError v))"
  by (simp_all add: decode_exception_def exception_keys internalExceptionKey_def decexc_failed_def)

lemma exhausted_complete:
  "wire_codec enc dec sized canon \<Longrightarrow> sized v \<Longrightarrow> enc [] v = Inr p \<Longrightarrow> exhausted (dec p) = Inr (canon v)"
  using wire_codec.round_trip [of enc dec sized canon v p "[]"] by (simp add: exhausted_def)

lemma match_exc_carried:
  assumes "sizedError err"
  shows "(case recoverDispatch (match_exc err) of (k, p) \<Rightarrow>
      k \<noteq> 0 \<and> (case decode_exception k p of Inl e \<Rightarrow> RuntimeError (errMatchedResponse i) | Inr e \<Rightarrow> e) = carried i err)"
proof -
  have key0: "internalExceptionKey \<noteq> 0" "ExceptionKey ''denied'' \<noteq> 0" "ExceptionKey ''failed'' \<noteq> 0"
    "ExceptionKey ''shared'' \<noteq> 0" "ExceptionKey ''empty'' \<noteq> 0"
    by (simp_all add: exception_keys internalExceptionKey_def)
  show ?thesis
  proof (cases "(i, err)" rule: carried.cases)
    case (2 i a v)
    show ?thesis
    proof (cases "enc_record_failed [] v")
      case (Inl e)
      then have "\<not> ValidString (fl_Message v)"
        by (auto simp: enc_record_failed_def enc_string_def enc_uint64_Inr enc_le le_enc_def split: if_splits)
      with 2 Inl key0 show ?thesis
        by (simp add: recoverDispatch_def match_exc_value decode_exception_value)
    next
      case (Inr p)
      then have "ValidString (fl_Message v)"
        by (auto simp: enc_record_failed_def enc_string_def andThen_Inr split: if_splits)
      with 2 Inr key0 assms exhausted_complete [OF failed.wire_codec_axioms _ Inr] show ?thesis
        by (simp add: recoverDispatch_def match_exc_value decode_exception_value)
    qed
  qed (use key0 in \<open>simp_all add: recoverDispatch_def match_exc_value decode_exception_value\<close>)
qed

section \<open>Calls\<close>

text \<open>The two steps every procedure shares: a decoder that also knows the exceptions, a provider outcome.\<close>

lemma respond_decoded:
  assumes out: "wire_codec enc dec sized (\<lambda>v. v)" and r: "sizedResult sized r"
    and dr: "\<And>k p. dr k p = (if k = 0 then andThen (exhausted (dec p)) (\<lambda>v. Inr (Out v))
      else andThen (decode_exception k p) (\<lambda>e. Inr (Exc e)))"
  shows "(case recoverDispatch (respond r (enc [])) of (k, p) \<Rightarrow>
      (case (case dr k p of Inl e \<Rightarrow> Inl (errMatchedResponse i) | Inr r \<Rightarrow> Inr r) of
         Inl e \<Rightarrow> (zero, Some (RuntimeError e))
       | Inr (Out v) \<Rightarrow> (v, None)
       | Inr (Exc e) \<Rightarrow> (zero, Some e)))
    = outcome i (\<lambda>v. \<exists>p. enc [] v = Inr p) zero r"
proof -
  have internal: "internalExceptionKey \<noteq> 0" by (simp add: internalExceptionKey_def)
  show ?thesis
  proof (cases r)
    case None
    with internal show ?thesis
      by (simp add: respond_def outcome_def recoverDispatch_def dr decode_exception_value)
  next
    case (Some x)
    obtain v e where x: "x = (v, e)" by (cases x)
    show ?thesis
    proof (cases e)
      case None
      show ?thesis
      proof (cases "enc [] v")
        case (Inl f)
        with Some x None internal show ?thesis
          by (simp add: respond_def outcome_def recoverDispatch_def dr decode_exception_value
              flip: internalExceptionKey_def)
      next
        case (Inr p)
        with Some x None r exhausted_complete [OF out _ Inr] show ?thesis
          by (simp add: respond_def outcome_def recoverDispatch_def dr sizedResult_def)
      qed
    next
      case (Some err)
      with \<open>r = Some x\<close> x r have "sizedError err" by (simp add: sizedResult_def)
      note carried = match_exc_carried [OF this, of i]
      obtain k p where kp: "recoverDispatch (match_exc err) = (k, p)" by fastforce
      with carried \<open>r = Some x\<close> x Some show ?thesis
        by (cases "decode_exception k p") (simp_all add: respond_def outcome_def dr)
    qed
  qed
qed

lemma callProcedure_exchange:
  assumes "ConnectionFromContext ctx = Inr conn" "encoded = Inr payload"
  shows "callProcedure (exchange i d h) ctx key zero encoded dr =
    (case recoverDispatch (d h key payload) of (k, p) \<Rightarrow>
      (case (case dr k p of Inl e \<Rightarrow> Inl (errMatchedResponse i) | Inr r \<Rightarrow> Inr r) of
         Inl e \<Rightarrow> (zero, Some (RuntimeError e))
       | Inr (Out v) \<Rightarrow> (v, None)
       | Inr (Exc e) \<Rightarrow> (zero, Some e)))"
  using assms by (simp add: callProcedure_def exchange_def split: prod.split)

lemma string_encodable: "(\<exists>p. enc_string [] v = Inr p) \<longleftrightarrow> ValidString v"
  by (simp add: enc_string_def enc_uint64_Inr)

lemma encodable:
  "(\<exists>p. enc_int64 [] v = Inr p)" "(\<exists>p. enc_bytes [] b = Inr p)" "(\<exists>p. enc_uint32 [] w = Inr p)"
  "(\<exists>p. enc_record_size [] z = Inr p)"
  by (simp_all add: enc_le le_enc_def enc_bytes_def enc_record_size_def)

lemma Echo_call:
  assumes "ConnectionFromContext ctx = Inr conn" "ValidString value" "counted value"
    and "sizedResult counted (pv_Echo P h value)"
  shows "Echo (exchange i (dispatch P) h) ctx value = outcome i ValidString [] (pv_Echo P h value)"
proof -
  from assms(2) obtain payload where payload: "encreq_echo [] value = Inr payload"
    by (auto simp: encreq_echo_def simp flip: string_encodable)
  from withArguments_exact(1) [OF req_echo.wire_codec_axioms assms(3) _ this]
  have d: "dispatch P h 0x159eb91a98f8f42 payload = respond (pv_Echo P h value) (enc_string [])"
    by (simp add: dispatch_name(3) flip: procedure_keys)
  show ?thesis
    unfolding Echo_def callProcedure_exchange [OF assms(1) payload] d
    by (subst respond_decoded [OF text_string.wire_codec_axioms [unfolded id_def] assms(4)])
      (simp_all add: decresp_echo_def string_encodable)
qed

text \<open>A context with the connection bound, for the examples.\<close>

definition connected :: "goctx option" where
  "connected = Some (WithValue Background ConnectionContextKey (Some 0))"

lemma respondNone_respond: "respondNone r = respond (map_option (\<lambda>e. ((), e)) r) (enc_record_empty [])"
  by (cases r) (auto simp: respondNone_def respond_def enc_record_empty_def split: option.split)

lemma Add_call:
  assumes "ConnectionFromContext ctx = Inr conn" "sizedResult (\<lambda>_. True) (pv_Add P h a b)"
  shows "Add (exchange i (dispatch P) h) ctx a b = outcome i (\<lambda>_. True) 0 (pv_Add P h a b)"
proof -
  have "encreq_add [] a b = Inr (le_bytes 8 a @ le_bytes 8 b)" by (simp add: encreq_add_def enc_le le_enc_def)
  note payload = this and exact = withArguments_exact(1) [OF req_add.wire_codec_axioms, of "(a, b)"]
  have d: "dispatch P h 0x8425decb5e996afe (le_bytes 8 a @ le_bytes 8 b) = respond (pv_Add P h a b) (enc_int64 [])"
    using exact payload by (simp add: dispatch_name(1) flip: procedure_keys)
  show ?thesis
    unfolding Add_def callProcedure_exchange [OF assms(1) payload] d
    by (subst respond_decoded [OF int64.wire_codec_axioms [unfolded id_def] assms(2)])
      (simp_all add: decresp_add_def encodable)
qed

lemma Sample_call:
  assumes "ConnectionFromContext ctx = Inr conn" "counted data" "sizedResult counted (pv_Sample P h data c)"
  shows "Sample (exchange i (dispatch P) h) ctx data c = outcome i (\<lambda>_. True) [] (pv_Sample P h data c)"
proof -
  obtain payload where payload: "encreq_sample [] data c = Inr payload"
    by (simp add: encreq_sample_def enc_bytes_def enc_le le_enc_def)
  have d: "dispatch P h 0x2549b9c663851f payload = respond (pv_Sample P h data c) (enc_bytes [])"
    using withArguments_exact(1) [OF req_sample.wire_codec_axioms, of "(data, c)"] payload assms(2)
    by (simp add: dispatch_name(7) flip: procedure_keys)
  show ?thesis
    unfolding Sample_def callProcedure_exchange [OF assms(1) payload] d
    by (subst respond_decoded [OF byte_string.wire_codec_axioms [unfolded id_def] assms(3)])
      (simp_all add: decresp_sample_def encodable)
qed

lemma loop_bytes: "enc_loop enc_uint8 buf v = Inr (buf @ v)"
  by (induction v arbitrary: buf) (simp_all add: enc_uint8_def)

lemma Wave_call:
  assumes "ConnectionFromContext ctx = Inr conn" "counted v" "sizedResult (\<lambda>_. True) (pv_Wave P h v)"
  shows "Wave (exchange i (dispatch P) h) ctx v = outcome i (\<lambda>_. True) 0 (pv_Wave P h v)"
proof -
  obtain payload where payload: "encreq_wave [] v = Inr payload"
    by (simp add: encreq_wave_def enc_list_uint8_def enc_uint64_Inr loop_bytes)
  have d: "dispatch P h 0x664ffb9151feebb2 payload = respond (pv_Wave P h v) (enc_uint32 [])"
    using withArguments_exact(1) [OF req_wave.wire_codec_axioms, of v] payload assms(2)
    by (simp add: dispatch_name(8) flip: procedure_keys)
  show ?thesis
    unfolding Wave_def callProcedure_exchange [OF assms(1) payload] d
    by (subst respond_decoded [OF uint32.wire_codec_axioms [unfolded id_def] assms(3)])
      (simp_all add: decresp_wave_def encodable)
qed

lemma xenc_size: "xenc_record_size = enc_record_size"
  by (simp add: fun_eq_iff xenc_record_size_def enc_record_size_def)

lemma Paint_call:
  assumes "ConnectionFromContext ctx = Inr conn" "sizedResult (\<lambda>_. True) (pv_Paint P h origin sz)"
  shows "Paint (exchange i (dispatch P) h) ctx origin sz
    = outcome i (\<lambda>_. True) \<lparr>sz_Width = 0, sz_Height = 0\<rparr> (pv_Paint P h origin sz)"
proof -
  obtain payload where payload: "encreq_paint [] origin sz = Inr payload"
    by (simp add: encreq_paint_def enc_record_xy_def enc_record_size_def enc_le le_enc_def)
  have d: "dispatch P h 0x52095929e015a29f payload = respond (pv_Paint P h origin sz) (enc_record_size [])"
    using withArguments_exact(1) [OF req_paint.wire_codec_axioms, of "(origin, sz)"] payload
    by (simp add: dispatch_name(5) xenc_size flip: procedure_keys)
  show ?thesis
    unfolding Paint_def callProcedure_exchange [OF assms(1) payload] d
    by (subst respond_decoded [OF size_rec.wire_codec_axioms assms(2)])
      (simp_all add: decresp_paint_def encodable)
qed

lemma Ping_call:
  assumes "ConnectionFromContext ctx = Inr conn" "sizedResult (\<lambda>_. True) (map_option (\<lambda>e. ((), e)) (pv_Ping P h))"
  shows "Ping (exchange i (dispatch P) h) ctx = snd (outcome i (\<lambda>_. True) () (map_option (\<lambda>e. ((), e)) (pv_Ping P h)))"
proof -
  have d: "dispatch P h 0xa3aa209174f340d1 [] = respond (map_option (\<lambda>e. ((), e)) (pv_Ping P h)) (enc_record_empty [])"
    by (simp add: dispatch_name(6) respondNone_respond dereq_ping_def withArguments_def flip: procedure_keys)
  show ?thesis
    unfolding Ping_def encreq_ping_def callProcedure_exchange [OF assms(1) refl] d
    by (subst respond_decoded [OF record_empty.wire_codec_axioms [unfolded id_def] assms(2)])
      (simp_all add: decresp_ping_def dec_record_empty_def enc_record_empty_def exhausted_def)
qed

text \<open>
  C11. A delivered call of \<open>Echo\<close>, \<open>Add\<close>, \<open>Sample\<close>, \<open>Wave\<close>, \<open>Paint\<close> or \<open>Ping\<close> is the provider's
  call: for every provider package, every connected context and all arguments (for \<open>Echo\<close> every
  valid string), with the lengths of arguments and results below the wire's limit, the caller gets exactly what the provider returned for those very arguments: its
  data result, the declared exception its error matches, the internal exception when it panics,
  when its error matches no or two declarations, or when its result cannot be encoded, and the
  protocol error when the importing interface does not declare the exception. These are the six
  procedures both bindings have with the same result type; \<open>Fetch\<close>, whose result the two sides
  declare differently, is not one of them.
\<close>

theorem calls_are_provider_calls:
  assumes "ConnectionFromContext ctx = Inr conn"
  shows "(ValidString value \<and> counted value \<and> sizedResult counted (pv_Echo P h value) \<longrightarrow>
        Echo (exchange i (dispatch P) h) ctx value = outcome i ValidString [] (pv_Echo P h value))
    \<and> (sizedResult (\<lambda>_. True) (pv_Add P h a b) \<longrightarrow>
        Add (exchange i (dispatch P) h) ctx a b = outcome i (\<lambda>_. True) 0 (pv_Add P h a b))
    \<and> (counted d \<and> sizedResult counted (pv_Sample P h d c) \<longrightarrow>
        Sample (exchange i (dispatch P) h) ctx d c = outcome i (\<lambda>_. True) [] (pv_Sample P h d c))
    \<and> (counted w \<and> sizedResult (\<lambda>_. True) (pv_Wave P h w) \<longrightarrow>
        Wave (exchange i (dispatch P) h) ctx w = outcome i (\<lambda>_. True) 0 (pv_Wave P h w))
    \<and> (sizedResult (\<lambda>_. True) (pv_Paint P h origin sz) \<longrightarrow>
        Paint (exchange i (dispatch P) h) ctx origin sz
          = outcome i (\<lambda>_. True) \<lparr>sz_Width = 0, sz_Height = 0\<rparr> (pv_Paint P h origin sz))
    \<and> (sizedResult (\<lambda>_. True) (map_option (\<lambda>e. ((), e)) (pv_Ping P h)) \<longrightarrow>
        Ping (exchange i (dispatch P) h) ctx
          = snd (outcome i (\<lambda>_. True) () (map_option (\<lambda>e. ((), e)) (pv_Ping P h))))"
  by (intro conjI impI; (elim conjE)?; rule Echo_call [OF assms] Add_call [OF assms] Sample_call [OF assms]
      Wave_call [OF assms] Paint_call [OF assms] Ping_call [OF assms]; assumption)

lemmas fixture_simps = fixtureProviders_def prov_Add_def prov_Sample_def prov_Wave_def prov_Paint_def
  prov_Ping_def sizedResult_def outcome_def

text \<open>The witness: the fixture's providers; \<open>Echo\<close> of \<open>failed\<close> raises a declared exception.\<close>

theorem calls_are_provider_calls_witness:
  "Echo (exchange 7 (dispatch fixtureProviders) ()) connected ''failed''
      = ([], Some (FailedError \<lparr>fl_Code = 7, fl_Message = ''boom''\<rparr>))
    \<and> Add (exchange 7 (dispatch fixtureProviders) ()) connected 2 (- 3) = (- 1, None)
    \<and> Sample (exchange 7 (dispatch fixtureProviders) ()) connected [1, 2] 9 = ([1, 2], None)
    \<and> Wave (exchange 7 (dispatch fixtureProviders) ()) connected [5, 6, 7] = (3, None)
    \<and> Paint (exchange 7 (dispatch fixtureProviders) ()) connected \<lparr>xy_X = 1, xy_Y = 2\<rparr> \<lparr>sz_Width = 3, sz_Height = 4\<rparr>
        = (\<lparr>sz_Width = 3, sz_Height = 4\<rparr>, None)
    \<and> Ping (exchange 7 (dispatch fixtureProviders) ()) connected = None"
proof -
  have valid: "ValidString ''failed''" "ValidString ''boom''"
    by (simp_all add: ValidString_def firstInvalidUTF8_def firstInvalidFrom.simps DecodeRune.simps RuneError_def)
  have failed: "pv_Echo fixtureProviders () ''failed''
    = Some ([], Some (FailedPtr (Some (Fresh 0, \<lparr>fl_Code = 7, fl_Message = ''boom''\<rparr>))))"
    by (simp add: fixtureProviders_def prov_Echo_def)
  have conn: "ConnectionFromContext connected = Inr 0" by (simp add: connected_def ConnectionFromContext_def)
  have sized: "counted ''failed''" "sizedResult counted (pv_Echo fixtureProviders () ''failed'')"
    unfolding failed by (simp_all add: counted_def sizedResult_def)
  note calls = calls_are_provider_calls [OF conn, of "''failed''" fixtureProviders "()" 7 2 "- 3" "[1, 2]" 9 "[5, 6, 7]"
      "\<lparr>xy_X = 1, xy_Y = 2\<rparr>" "\<lparr>sz_Width = 3, sz_Height = 4\<rparr>"]
  have "Echo (exchange 7 (dispatch fixtureProviders) ()) connected ''failed''
      = outcome 7 ValidString [] (pv_Echo fixtureProviders () ''failed'')"
    using calls [THEN conjunct1] valid sized by blast
  also have "\<dots> = ([], Some (FailedError \<lparr>fl_Code = 7, fl_Message = ''boom''\<rparr>))"
    unfolding failed by (simp add: outcome_def valid)
  finally show ?thesis using calls [THEN conjunct2] by (simp add: fixture_simps counted_def)
qed

text \<open>
  C12. No provider runs on arguments the caller did not encode: a payload that is not the exact,
  complete encoding of arguments of the named procedure is answered with \<open>invalid_arguments\<close>, and
  a key that is not the key of an exported name with \<open>procedure_not_found\<close>, whatever the provider
  package does, panics included.
\<close>

theorem dispatch_rejects_bad_requests:
  "(n \<in> set exportedNames \<longrightarrow> \<not> validRequest n p \<longrightarrow>
      dispatch P ctx (ProcedureKey n) p = Some (ExceptionKey ''invalid_arguments'', []))
   \<and> (key \<notin> ProcedureKey ` set exportedNames \<longrightarrow>
      dispatch P ctx key p = Some (ExceptionKey ''procedure_not_found'', []))"
  using rejects [of n p P ctx] not_found [of key P ctx p] by blast

lemma exported_example: "''ping'' \<in> set exportedNames" "0 \<notin> ProcedureKey ` set exportedNames"
  by (simp_all add: exportedNames_def procedure_keys)

theorem dispatch_rejects_bad_requests_witness:
  "dispatch fixtureProviders () (ProcedureKey ''ping'') [1] = Some (ExceptionKey ''invalid_arguments'', [])
   \<and> dispatch fixtureProviders () 0 [1] = Some (ExceptionKey ''procedure_not_found'', [])"
  using dispatch_rejects_bad_requests [of "''ping''" "[1]" fixtureProviders "()" 0] exported_example
  by (simp add: validRequest_name)

text \<open>
  C13. An application exception is sent only when exactly one declaration matches the provider's
  error directly: the sentinel itself, or a non-nil pointer to a payload type, with the exact
  encoding of its payload. A typed nil pointer, a wrapped error, a sentinel that is also a payload
  value and a payload that cannot be encoded give the internal exception; comparing an
  uncomparable value panics, and the runtime's recovery gives the internal exception again.
\<close>

theorem match_exc_direct:
  "recoverDispatch (match_exc err) = (case err of
     ErrorString a \<Rightarrow> (ExceptionKey (if err = ErrDenied then ''denied'' else ''internal_exception''), [])
   | FailedPtr (Some (a, v)) \<Rightarrow> (case enc_record_failed [] v of
       Inl e \<Rightarrow> (ExceptionKey ''internal_exception'', [])
     | Inr p \<Rightarrow> (ExceptionKey ''failed'', p))
   | SharedPtr (Some (a, w)) \<Rightarrow>
       if ifaceEq err ErrShared = Some True then (ExceptionKey ''internal_exception'', [])
       else (ExceptionKey ''shared'', le_bytes 4 (sh_Code w))
   | EmptyPtr (Some a) \<Rightarrow> (ExceptionKey ''empty'', [])
   | _ \<Rightarrow> (ExceptionKey ''internal_exception'', []))"
proof -
  have "internalExceptionKey = ExceptionKey ''internal_exception''"
    by (simp add: exception_keys internalExceptionKey_def)
  then show ?thesis
    by (cases err rule: sizedError.cases; (cases err)?)
      (auto simp: match_exc_value recoverDispatch_def ErrDenied_def ErrShared_def split: option.split sum.split)
qed

end
