(* ===== verification/Go_Names.thy ===== *)
theory Go_Names
  imports Scanner Interface_Key
begin

text \<open>
  The name layer of the generator: the two directions of the projection between wire names
  and Go identifiers (\<open>go/internal/tool/name.go\<close>), the fixed initialisms
  (\<open>initialisms.go\<close>) and the mangled private names (\<open>mangle.go\<close>). The Unicode tables of
  the standard library are a parameter: a record of the three classifications the code
  asks for.
\<close>

section \<open>Character classes\<close>

definition isLower :: "char \<Rightarrow> bool" where
  "isLower b \<longleftrightarrow> between 0x61 0x7A b"

definition isUpper :: "char \<Rightarrow> bool" where
  "isUpper b \<longleftrightarrow> between 0x41 0x5A b"

definition isDigit :: "char \<Rightarrow> bool" where
  "isDigit b \<longleftrightarrow> between 0x30 0x39 b"

definition isASCIILetter :: "char \<Rightarrow> bool" where
  "isASCIILetter b \<longleftrightarrow> isLower b \<or> isUpper b"

definition isWireChar :: "char \<Rightarrow> bool" where
  "isWireChar b \<longleftrightarrow> isASCIILetter b \<or> isDigit b \<or> b = CHR ''_''"

text \<open>\<open>unicode.IsLetter\<close>, \<open>unicode.IsDigit\<close> and \<open>unicode.IsUpper\<close>.\<close>

record unicode_tables =
  IsLetter :: "nat \<Rightarrow> bool"
  IsDigit :: "nat \<Rightarrow> bool"
  IsUpper :: "nat \<Rightarrow> bool"

text \<open>What is documented of the tables below \<open>utf8.RuneSelf\<close>.\<close>

definition asciiTables :: "unicode_tables \<Rightarrow> bool" where
  "asciiTables U \<longleftrightarrow> (\<forall>c. code c < 0x80 \<longrightarrow>
     IsLetter U (code c) = isASCIILetter c \<and> IsDigit U (code c) = isDigit c \<and> IsUpper U (code c) = isUpper c)"

datatype Case = PascalCase | CamelCase

section \<open>Go identifiers\<close>

definition goKeywords :: "string list" where
  "goKeywords =
     [''break'', ''case'', ''chan'', ''const'', ''continue'', ''default'', ''defer'', ''else'',
      ''fallthrough'', ''for'', ''func'', ''go'', ''goto'', ''if'', ''import'', ''interface'', ''map'',
      ''package'', ''range'', ''return'', ''select'', ''struct'', ''switch'', ''type'', ''var'']"

definition IsGoKeyword :: "string \<Rightarrow> bool" where
  "IsGoKeyword name \<longleftrightarrow> name \<in> set goKeywords"

text \<open>The runes a \<open>range\<close> loop over a string yields.\<close>

function runes :: "string \<Rightarrow> nat list" where
  "runes s = (if s = [] then [] else case DecodeRune s of (r, width) \<Rightarrow> r # runes (drop width s))"
  by pat_completeness auto
termination
proof (relation "measure length", goal_cases)
  case (2 s r width)
  then have "0 < width" using DecodeRune_size_pos [of s] by (metis snd_conv)
  with 2 show ?case by simp
qed simp

declare runes.simps [simp del]

definition underscore :: nat where
  "underscore = 0x5F"

text \<open>The loop of \<open>IsValidGoIdentifier\<close>; the flag is \<open>i = 0\<close>.\<close>

fun identLoop :: "unicode_tables \<Rightarrow> bool \<Rightarrow> nat list \<Rightarrow> bool" where
  "identLoop U start [] = True"
| "identLoop U start (r # rs) =
     (if r = underscore then identLoop U False rs
      else if start then (if \<not> IsLetter U r then False else identLoop U False rs)
      else if \<not> IsLetter U r \<and> \<not> IsDigit U r then False
      else identLoop U False rs)"

definition IsValidGoIdentifier :: "unicode_tables \<Rightarrow> string \<Rightarrow> bool" where
  "IsValidGoIdentifier U name =
     (if name = [] \<or> name = ''_'' \<or> IsGoKeyword name then False else identLoop U True (runes name))"

definition IsExportedGoIdentifier :: "unicode_tables \<Rightarrow> string \<Rightarrow> bool" where
  "IsExportedGoIdentifier U name =
     (if \<not> IsValidGoIdentifier U name then False else IsUpper U (fst (DecodeRune name)))"

definition isASCIIIdentifier :: "string \<Rightarrow> bool" where
  "isASCIIIdentifier name =
     (case name of [] \<Rightarrow> False
      | c # rest \<Rightarrow> if \<not> isASCIILetter c \<and> c \<noteq> CHR ''_'' then False else list_all isWireChar rest)"

definition IsValidWireName :: "string \<Rightarrow> bool" where
  "IsValidWireName name =
     (case name of [] \<Rightarrow> False
      | c # rest \<Rightarrow> if \<not> isASCIILetter c \<and> c \<noteq> CHR ''_'' then False else list_all isWireChar rest)"

section \<open>Canonical wire names\<close>

definition isWordChar :: "char \<Rightarrow> bool" where
  "isWordChar b \<longleftrightarrow> isLower b \<or> isDigit b"

text \<open>The outer loop of \<open>IsCanonicalWireName\<close>, at the end of a word.\<close>

function canonicalLoop :: "string \<Rightarrow> bool" where
  "canonicalLoop s =
     (case s of [] \<Rightarrow> True
      | c # rest \<Rightarrow>
          if c \<noteq> CHR ''_'' then False
          else (case rest of [] \<Rightarrow> False
                | d # rest' \<Rightarrow> if \<not> isLower d then False else canonicalLoop (dropWhile isWordChar rest')))"
  by pat_completeness auto
termination
proof (relation "measure length", goal_cases)
  case (2 s c rest d rest')
  then show ?case using length_dropWhile_le [of isWordChar rest'] by simp
qed simp

declare canonicalLoop.simps [simp del]

definition IsCanonicalWireName :: "string \<Rightarrow> bool" where
  "IsCanonicalWireName name =
     (case name of [] \<Rightarrow> False
      | c # rest \<Rightarrow> if \<not> isLower c then False else canonicalLoop (dropWhile isWordChar rest))"

section \<open>Initialisms\<close>

definition initialisms :: "string list" where
  "initialisms =
     [''ACL'', ''API'', ''ASCII'', ''CPU'', ''CSS'', ''DNS'', ''EOF'', ''GUID'', ''HTML'',
      ''HTTP'', ''HTTPS'', ''ID'', ''IP'', ''JSON'', ''QPS'', ''RAM'', ''RPC'', ''SLA'',
      ''SMTP'', ''SQL'', ''SSH'', ''TCP'', ''TLS'', ''TTL'', ''UDP'', ''UI'', ''UID'', ''URI'',
      ''URL'', ''UTF8'', ''UUID'', ''VM'', ''XML'', ''XMPP'', ''XSRF'', ''XSS'']"

definition isInitialism :: "string \<Rightarrow> bool" where
  "isInitialism s \<longleftrightarrow> s \<in> set initialisms"

definition hasPrefix :: "string \<Rightarrow> string \<Rightarrow> bool" where
  "hasPrefix s p \<longleftrightarrow> take (length p) s = p"

definition longestInitialism :: "string \<Rightarrow> string" where
  "longestInitialism s =
     foldl (\<lambda>best init. if length best < length init \<and> hasPrefix s init then init else best) [] initialisms"

section \<open>From wire names to Go identifiers\<close>

text \<open>Byte arithmetic on letters, modulo 256.\<close>

definition upperByte :: "char \<Rightarrow> char" where
  "upperByte c = char_of ((code c + 256 - 0x61 + 0x41) mod 256)"

definition lowerByte :: "char \<Rightarrow> char" where
  "lowerByte c = (if isUpper c then char_of ((code c + 256 - 0x41 + 0x61) mod 256) else c)"

definition lowerASCII :: "string \<Rightarrow> string" where
  "lowerASCII s = map lowerByte s"

text \<open>\<open>strings.ToUpper\<close> of an ASCII string, as it is used here.\<close>

definition upperASCII :: "string \<Rightarrow> string" where
  "upperASCII s = map (\<lambda>c. if isLower c then upperByte c else c) s"

text \<open>\<open>strings.Split\<close> at underscores and \<open>strings.Join\<close> with them.\<close>

fun splitWords :: "string \<Rightarrow> string list" where
  "splitWords [] = [[]]"
| "splitWords (c # s) =
     (if c = CHR ''_'' then [] # splitWords s
      else case splitWords s of [] \<Rightarrow> [[c]] | w # ws \<Rightarrow> (c # w) # ws)"

fun joinWords :: "string list \<Rightarrow> string" where
  "joinWords [] = []"
| "joinWords [w] = w"
| "joinWords (w # ws) = w @ ''_'' @ joinWords ws"

text \<open>The diagnostics, one constructor per message.\<close>

datatype name_error =
    NotCanonical string
  | NotUsable string
  | NotASCII string
  | HasUnderscore string
  | NoDecomposition string string
  | InIdentifier string name_error
  | NoProjection string name_error
  | NoRoundTrip string Case string
  | EmptyWord

text \<open>One word after its case has been decided; a canonical name has no empty word.\<close>

definition projectWord :: "string \<Rightarrow> string" where
  "projectWord w =
     (if isInitialism (upperASCII w) then upperASCII w
      else case w of [] \<Rightarrow> [] | c # rest \<Rightarrow> upperByte c # rest)"

definition projectWords :: "Case \<Rightarrow> string list \<Rightarrow> string" where
  "projectWords c ws =
     (case ws of [] \<Rightarrow> []
      | w # rest \<Rightarrow> (if c = CamelCase then w else projectWord w) @ concat (map projectWord rest))"

definition WireToGo :: "string \<Rightarrow> Case \<Rightarrow> name_error + string" where
  "WireToGo wire c =
     (if \<not> IsCanonicalWireName wire then Inl (NotCanonical wire) else Inr (projectWords c (splitWords wire)))"

section \<open>From Go identifiers to wire names\<close>

text \<open>The loop of \<open>splitGoWords\<close>: the word so far, the byte before, the rest.\<close>

fun splitLoop :: "string \<Rightarrow> char \<Rightarrow> string \<Rightarrow> string list" where
  "splitLoop w prev [] = [w]"
| "splitLoop w prev (c # rest) =
     (if isUpper c \<and> (isLower prev \<or> isDigit prev
           \<or> isUpper prev \<and> (case rest of d # _ \<Rightarrow> isLower d | [] \<Rightarrow> False))
      then w # splitLoop [c] c rest
      else splitLoop (w @ [c]) c rest)"

definition splitGoWords :: "string \<Rightarrow> string list" where
  "splitGoWords s = (case s of [] \<Rightarrow> [[]] | c # rest \<Rightarrow> splitLoop [c] c rest)"

text \<open>The decomposition of an uppercase run into initialisms.\<close>

function runLoop :: "string \<Rightarrow> string \<Rightarrow> name_error + string list" where
  "runLoop w rest =
     (if rest = [] then Inr []
      else let init = longestInitialism rest in
           if init = [] then Inl (NoDecomposition w rest)
           else case runLoop w (drop (length init) rest) of
                  Inl e \<Rightarrow> Inl e
                | Inr ws \<Rightarrow> Inr (lowerASCII init # ws))"
  by pat_completeness auto
termination by (relation "measure (\<lambda>(w, rest). length rest)") auto

declare runLoop.simps [simp del]

definition goWordToWire :: "string \<Rightarrow> name_error + string list" where
  "goWordToWire w =
     (if \<not> list_all (\<lambda>c. isUpper c \<or> isDigit c) w then Inr [lowerASCII w]
      else case w of [] \<Rightarrow> Inl EmptyWord
           | c # rest \<Rightarrow> if isUpper c \<and> list_all isDigit rest then Inr [lowerASCII w] else runLoop w w)"

fun wireWords :: "string list \<Rightarrow> name_error + string list" where
  "wireWords [] = Inr []"
| "wireWords (w # ws) =
     (case goWordToWire w of Inl e \<Rightarrow> Inl e
      | Inr found \<Rightarrow> (case wireWords ws of Inl e \<Rightarrow> Inl e | Inr rest \<Rightarrow> Inr (found @ rest)))"

definition GoToWire :: "unicode_tables \<Rightarrow> string \<Rightarrow> Case \<Rightarrow> name_error + string" where
  "GoToWire U goName c =
     (if \<not> IsValidGoIdentifier U goName then Inl (NotUsable goName)
      else if \<not> isASCIIIdentifier goName then Inl (NotASCII goName)
      else if CHR ''_'' \<in> set goName then Inl (HasUnderscore goName)
      else case wireWords (splitGoWords goName) of
        Inl e \<Rightarrow> Inl (InIdentifier goName e)
      | Inr ws \<Rightarrow>
          (let wire = joinWords ws in
           case WireToGo wire c of
             Inl e \<Rightarrow> Inl (NoProjection goName e)
           | Inr projected \<Rightarrow>
               if projected \<noteq> goName then Inl (NoRoundTrip goName c projected) else Inr wire))"

definition ValidGoPackageName :: "string \<Rightarrow> bool" where
  "ValidGoPackageName name \<longleftrightarrow>
     \<not> (\<not> isASCIIIdentifier name \<or> name = ''_'' \<or> name = ''main'' \<or> IsGoKeyword name)"

section \<open>Mangled private names\<close>

definition manglePrefix :: string where
  "manglePrefix = ''_intercall''"

definition mangleByte :: "char \<Rightarrow> char" where
  "mangleByte c = (if isASCIILetter c \<or> isDigit c then c else CHR ''_'')"

text \<open>The digits of \<open>%016x\<close>.\<close>

definition hexDigit :: "nat \<Rightarrow> char" where
  "hexDigit d = ''0123456789abcdef'' ! (d mod 16)"

fun hexDigits :: "nat \<Rightarrow> nat \<Rightarrow> string" where
  "hexDigits 0 n = []"
| "hexDigits (Suc k) n = hexDigits k (n div 16) @ [hexDigit n]"

definition joinNUL :: "string list \<Rightarrow> string" where
  "joinNUL parts = (case parts of [] \<Rightarrow> [] | p # ps \<Rightarrow> p @ concat (map (\<lambda>q. CHR 0x00 # q) ps))"

definition ManglePrivate :: "string list \<Rightarrow> string" where
  "ManglePrivate parts =
     manglePrefix @ joinWords (map (map mangleByte) parts) @ ''_'' @ hexDigits 16 (unat (fnv0 (joinNUL parts)))"

end
