(* ===== verification/Selectors.thy ===== *)
theory Selectors
  imports Go_Names Validate
begin

text \<open>
  The selectors of \<open>--go-name\<close> overrides (\<open>go/internal/tool/selector.go\<close>): parsing,
  printing and resolution against a syntax tree, and the set of fixed runtime exceptions of
  \<open>override.go\<close>.
\<close>

section \<open>Selectors\<close>

datatype SelectorKind = TypeSelector | ExceptionSelector | ProcedureSelector

fun kindName :: "SelectorKind \<Rightarrow> string" where
  "kindName TypeSelector = ''type''"
| "kindName ExceptionSelector = ''exception''"
| "kindName ProcedureSelector = ''procedure''"

datatype Step = ElementStep | FieldStep string

record Selector =
  sel_Kind :: SelectorKind
  sel_Name :: string
  sel_Param :: string
  sel_Return :: bool
  sel_Steps :: "Step list"

fun stepString :: "Step \<Rightarrow> string" where
  "stepString ElementStep = ''/element''"
| "stepString (FieldStep f) = ''/field:'' @ f"

abbreviation pathString :: "Step list \<Rightarrow> string" where
  "pathString ss \<equiv> concat (map stepString ss)"

definition selectorString :: "Selector \<Rightarrow> string" where
  "selectorString s =
     kindName (sel_Kind s) @ '':'' @ sel_Name s
       @ (if sel_Param s \<noteq> [] then ''/param:'' @ sel_Param s else [])
       @ (if sel_Return s then ''/return'' else [])
       @ pathString (sel_Steps s)"

section \<open>Parsing\<close>

datatype selector_error =
    NoKindPrefix string
  | MissingDeclName string
  | MissingParamName string
  | ExpectedParamOrReturn string
  | MissingFieldPath string
  | UnexpectedText string string
  | EmptyStep string
  | MissingFieldName string
  | ExpectedStep string
  | NoFinalField string
  | NoDecl SelectorKind Selector
  | WrongKind SelectorKind Selector string
  | FixedException Selector
  | NoPayload Selector
  | NoReturn Selector
  | NoParam Selector
  | RootTakesNoPath Selector
  | NamedNotTraversed Selector string string
  | NotAList Selector string string
  | NotARecord Selector string string string
  | NoField Selector string string
  | InternalNoFinalStep Selector

definition scanWireName :: "string \<Rightarrow> string \<times> string" where
  "scanWireName s =
     (case s of [] \<Rightarrow> ([], s)
      | c # r \<Rightarrow> if \<not> (isASCIILetter c \<or> c = CHR ''_'') then ([], s)
               else (c # takeWhile isWireChar r, dropWhile isWireChar r))"

lemma scanWireName_length: "length (snd (scanWireName s)) \<le> length s"
  by (auto simp: scanWireName_def length_dropWhile_le le_SucI split: list.splits)

text \<open>The loop of \<open>parseFieldPath\<close>: the steps so far and the remainder.\<close>

function pathLoop :: "string \<Rightarrow> Step list \<Rightarrow> string \<Rightarrow> selector_error + Step list" where
  "pathLoop text0 steps rest =
     (case rest of
        [] \<Rightarrow> (case rev steps of FieldStep f # _ \<Rightarrow> Inr steps | _ \<Rightarrow> Inl (NoFinalField text0))
      | c # r \<Rightarrow>
          if c \<noteq> CHR ''/'' then Inl (UnexpectedText text0 rest)
          else if r = [] then Inl (EmptyStep text0)
          else if hasPrefix r ''element'' \<and> (length r = 7 \<or> r ! 7 = CHR ''/'') then
            pathLoop text0 (steps @ [ElementStep]) (drop 7 r)
          else if hasPrefix r ''field:'' then
            (case scanWireName (drop 6 r) of (name, r') \<Rightarrow>
               if name = [] then Inl (MissingFieldName text0)
               else pathLoop text0 (steps @ [FieldStep name]) r')
          else Inl (ExpectedStep text0))"
  by pat_completeness auto
termination
proof (relation "measure (\<lambda>(t, steps, rest). length rest)", goal_cases)
  case (3 text0 steps rest c r name r')
  then have "length r' \<le> length (drop 6 r)" using scanWireName_length [of "drop 6 r"] by (metis snd_conv)
  with 3 show ?case by simp
qed auto

declare pathLoop.simps [simp del]

definition parseFieldPath :: "string \<Rightarrow> string \<Rightarrow> selector_error + Step list" where
  "parseFieldPath text0 rest =
     (if rest = [] then Inl (MissingFieldPath text0) else pathLoop text0 [] rest)"

definition parseKind :: "string \<Rightarrow> (SelectorKind \<times> string) option" where
  "parseKind text0 =
     (if hasPrefix text0 ''type:'' then Some (TypeSelector, drop 5 text0)
      else if hasPrefix text0 ''exception:'' then Some (ExceptionSelector, drop 10 text0)
      else if hasPrefix text0 ''procedure:'' then Some (ProcedureSelector, drop 10 text0)
      else None)"

definition ParseSelector :: "string \<Rightarrow> selector_error + Selector" where
  "ParseSelector text0 =
     (case parseKind text0 of None \<Rightarrow> Inl (NoKindPrefix text0)
      | Some (kind, rest0) \<Rightarrow>
          (case scanWireName rest0 of (name, rest) \<Rightarrow>
             if name = [] then Inl (MissingDeclName text0)
             else let sel = \<lparr>sel_Kind = kind, sel_Name = name, sel_Param = [], sel_Return = False, sel_Steps = []\<rparr> in
               if kind \<noteq> ProcedureSelector then
                 (if rest = [] then Inr sel
                  else case parseFieldPath text0 rest of Inl e \<Rightarrow> Inl e | Inr steps \<Rightarrow> Inr (sel\<lparr>sel_Steps := steps\<rparr>))
               else if rest = [] then Inr sel
               else if hasPrefix rest ''/param:'' then
                 (case scanWireName (drop 7 rest) of (pname, r) \<Rightarrow>
                    if pname = [] then Inl (MissingParamName text0)
                    else if r = [] then Inr (sel\<lparr>sel_Param := pname\<rparr>)
                    else case parseFieldPath text0 r of Inl e \<Rightarrow> Inl e
                         | Inr steps \<Rightarrow> Inr (sel\<lparr>sel_Param := pname, sel_Steps := steps\<rparr>))
               else if hasPrefix rest ''/return'' then
                 (case parseFieldPath text0 (drop 7 rest) of Inl e \<Rightarrow> Inl e
                  | Inr steps \<Rightarrow> Inr (sel\<lparr>sel_Return := True, sel_Steps := steps\<rparr>))
               else Inl (ExpectedParamOrReturn text0)))"

section \<open>Resolution\<close>

definition fixedExceptionNames :: "string list" where
  "fixedExceptionNames = [''internal_exception'', ''invalid_arguments'', ''procedure_not_found'']"

definition IsFixedRuntimeException :: "string \<Rightarrow> bool" where
  "IsFixedRuntimeException name \<longleftrightarrow> name \<in> set fixedExceptionNames"

record Target =
  tg_Selector :: Selector
  tg_Decl :: Decl
  tg_Param :: "Param option"
  tg_Field :: "Field option"
  tg_Record :: "TypeExpr option"

fun typeKind :: "TypeExpr \<Rightarrow> string" where
  "typeKind (PrimType d k sp) = ''primitive '' @ kindString k"
| "typeKind (NamedType d i) = ''named reference '' @ id_name i"
| "typeKind (ListType d ls t) = ''a list''"
| "typeKind (RecordType d rs lb fs rb) = ''a record''"

fun declKind :: "Decl \<Rightarrow> string" where
  "declKind (TypeDecl d kw i t semi) = ''type''"
| "declKind (ExceptionDecl d kw i t semi) = ''exception''"
| "declKind (ProcDecl d kw i lb ps rb res semi) = ''procedure''"

definition findDecl :: "'a ifile_scheme \<Rightarrow> string \<Rightarrow> Decl option" where
  "findDecl fl name = find (\<lambda>d. declaredName d = name) (fi_decls fl)"

fun walkFieldPath ::
  "Selector \<Rightarrow> string \<Rightarrow> TypeExpr \<Rightarrow> Step list \<Rightarrow> selector_error + Field \<times> TypeExpr" where
  "walkFieldPath sel ctx cur [] = Inl (InternalNoFinalStep sel)"
| "walkFieldPath sel ctx cur (st # rest) =
     (case cur of NamedType d i \<Rightarrow> Inl (NamedNotTraversed sel ctx (id_name i))
      | _ \<Rightarrow>
        (case st of
           ElementStep \<Rightarrow>
             (case cur of ListType d ls t \<Rightarrow> walkFieldPath sel ctx t rest
              | _ \<Rightarrow> Inl (NotAList sel ctx (typeKind cur)))
         | FieldStep f \<Rightarrow>
             (case cur of
                RecordType d rs lb fs rb \<Rightarrow>
                  (case find (\<lambda>fld. id_name (fieldName fld) = f) fs of
                     None \<Rightarrow> Inl (NoField sel f ctx)
                   | Some fld \<Rightarrow> if rest = [] then Inr (fld, cur) else walkFieldPath sel ctx (fieldType fld) rest)
              | _ \<Rightarrow> Inl (NotARecord sel f ctx (typeKind cur)))))"

text \<open>A root without a path, or a field below a type.\<close>

definition fieldTarget :: "Selector \<Rightarrow> Decl \<Rightarrow> Param option \<Rightarrow> string \<Rightarrow> TypeExpr \<Rightarrow> selector_error + Target" where
  "fieldTarget sel d p ctx t =
     (case walkFieldPath sel ctx t (sel_Steps sel) of Inl e \<Rightarrow> Inl e
      | Inr (fld, rec) \<Rightarrow>
          Inr \<lparr>tg_Selector = sel, tg_Decl = d, tg_Param = p, tg_Field = Some fld, tg_Record = Some rec\<rparr>)"

definition rootTarget :: "Selector \<Rightarrow> Decl \<Rightarrow> Param option \<Rightarrow> Target" where
  "rootTarget sel d p = \<lparr>tg_Selector = sel, tg_Decl = d, tg_Param = p, tg_Field = None, tg_Record = None\<rparr>"

definition resolveType :: "'a ifile_scheme \<Rightarrow> Selector \<Rightarrow> selector_error + Target" where
  "resolveType fl sel =
     (case findDecl fl (sel_Name sel) of
        None \<Rightarrow> Inl (NoDecl TypeSelector sel)
      | Some (TypeDecl d kw i t semi) \<Rightarrow>
          if sel_Steps sel \<noteq> [] then
            fieldTarget sel (TypeDecl d kw i t semi) None (''the underlying type of type '' @ quoted (sel_Name sel)) t
          else Inr (rootTarget sel (TypeDecl d kw i t semi) None)
      | Some other \<Rightarrow> Inl (WrongKind TypeSelector sel (declKind other)))"

definition resolveException :: "'a ifile_scheme \<Rightarrow> Selector \<Rightarrow> selector_error + Target" where
  "resolveException fl sel =
     (case findDecl fl (sel_Name sel) of
        None \<Rightarrow> Inl (NoDecl ExceptionSelector sel)
      | Some (ExceptionDecl d kw i ot semi) \<Rightarrow>
          if IsFixedRuntimeException (id_name i) then Inl (FixedException sel)
          else if sel_Steps sel \<noteq> [] then
            (case ot of None \<Rightarrow> Inl (NoPayload sel)
             | Some t \<Rightarrow>
                 fieldTarget sel (ExceptionDecl d kw i ot semi) None (''the payload of exception '' @ quoted (sel_Name sel)) t)
          else Inr (rootTarget sel (ExceptionDecl d kw i ot semi) None)
      | Some other \<Rightarrow> Inl (WrongKind ExceptionSelector sel (declKind other)))"

definition resolveProcedure :: "'a ifile_scheme \<Rightarrow> Selector \<Rightarrow> selector_error + Target" where
  "resolveProcedure fl sel =
     (case findDecl fl (sel_Name sel) of
        None \<Rightarrow> Inl (NoDecl ProcedureSelector sel)
      | Some (ProcDecl d kw i lb ps rb res semi) \<Rightarrow>
          (let dec = ProcDecl d kw i lb ps rb res semi in
           if sel_Param sel \<noteq> [] then
             (case find (\<lambda>p. id_name (paramName p) = sel_Param sel) ps of
                None \<Rightarrow> Inl (NoParam sel)
              | Some p \<Rightarrow>
                  if sel_Steps sel \<noteq> [] then
                    fieldTarget sel dec (Some p)
                      (''parameter '' @ quoted (sel_Param sel) @ '' of procedure '' @ quoted (sel_Name sel)) (paramType p)
                  else Inr (rootTarget sel dec (Some p)))
           else if sel_Return sel then
             (case res of None \<Rightarrow> Inl (NoReturn sel)
              | Some t \<Rightarrow> fieldTarget sel dec None (''the return value of procedure '' @ quoted (sel_Name sel)) t)
           else if sel_Steps sel \<noteq> [] then Inl (RootTakesNoPath sel)
           else Inr (rootTarget sel dec None))
      | Some other \<Rightarrow> Inl (WrongKind ProcedureSelector sel (declKind other)))"

definition ResolveSelector :: "'a ifile_scheme \<Rightarrow> Selector \<Rightarrow> selector_error + Target" where
  "ResolveSelector fl sel =
     (case sel_Kind sel of
        TypeSelector \<Rightarrow> resolveType fl sel
      | ExceptionSelector \<Rightarrow> resolveException fl sel
      | ProcedureSelector \<Rightarrow> resolveProcedure fl sel)"

end
