(* ===== verification/Overrides.thy ===== *)
theory Overrides
  imports Selectors
begin

text \<open>
  The \<open>--go-name\<close> overrides and the table of generated Go identifiers:
  \<open>go/internal/tool/override.go\<close>. The Unicode tables are the argument \<open>U\<close>. The code keys its
  tables by node pointers; a node is known here by the span of its name, which no other node of
  a parsed file has. Every message is a constructor with what it prints.
\<close>

record Override =
  ov_Selector :: Selector
  ov_Name :: string
  ov_Text :: string

datatype override_error =
    ExpectedAssignment string
  | BadSelector selector_error
  | FlagKeyword string string
  | FlagNotUsable string string
  | DuplicateOverride Selector string string
  | TargetKeyword Selector string
  | TargetNotUsable Selector string
  | DeclNotExported Selector string
  | FieldNotExported Selector string
  | NodeProjection string name_error
  | NodeKeyword string string
  | NodeNotUsable string string
  | NodeNotExported string string
  | ParamCollision string string string string
  | FieldCollision string string string string
  | DeclCollision string string string string string

section \<open>Parsing flags\<close>

definition overrideString :: "Override \<Rightarrow> string" where
  "overrideString o' = selectorString (ov_Selector o') @ ''='' @ ov_Name o'"

text \<open>\<open>strings.IndexByte(text, '=')\<close>: the text before the first equals sign and from it on.\<close>

definition ParseOverride :: "unicode_tables \<Rightarrow> string \<Rightarrow> override_error + Override" where
  "ParseOverride U text =
     (case dropWhile (\<lambda>c. c \<noteq> CHR ''='') text of
        [] \<Rightarrow> Inl (ExpectedAssignment text)
      | eq # name \<Rightarrow>
          (case ParseSelector (takeWhile (\<lambda>c. c \<noteq> CHR ''='') text) of
             Inl e \<Rightarrow> Inl (BadSelector e)
           | Inr sel \<Rightarrow>
               if \<not> IsValidGoIdentifier U name then
                 (if IsGoKeyword name then Inl (FlagKeyword text name) else Inl (FlagNotUsable text name))
               else Inr \<lparr>ov_Selector = sel, ov_Name = name, ov_Text = text\<rparr>))"

fun ParseOverrides :: "unicode_tables \<Rightarrow> string list \<Rightarrow> override_error + Override list" where
  "ParseOverrides U [] = Inr []"
| "ParseOverrides U (text # texts) =
     (case ParseOverride U text of Inl e \<Rightarrow> Inl e
      | Inr o' \<Rightarrow> (case ParseOverrides U texts of Inl e \<Rightarrow> Inl e | Inr os \<Rightarrow> Inr (o' # os)))"

section \<open>The name table\<close>

record Names =
  nm_Decl :: "span \<Rightarrow> string option"
  nm_Field :: "span \<Rightarrow> string option"
  nm_Param :: "span \<Rightarrow> string option"

definition emptyNames :: Names where
  "emptyNames = \<lparr>nm_Decl = (\<lambda>_. None), nm_Field = (\<lambda>_. None), nm_Param = (\<lambda>_. None)\<rparr>"

definition declNode :: "Decl \<Rightarrow> span" where
  "declNode d = id_span (declIdent d)"

definition fieldNode :: "Field \<Rightarrow> span" where
  "fieldNode f = id_span (fieldName f)"

definition paramNode :: "Param \<Rightarrow> span" where
  "paramNode p = id_span (paramName p)"

text \<open>The duplicate check: the flag text seen first for each canonical selector text.\<close>

fun duplicateLoop :: "(string \<Rightarrow> string option) \<Rightarrow> Override list \<Rightarrow> override_error option" where
  "duplicateLoop seen [] = None"
| "duplicateLoop seen (o' # os) =
     (case seen (selectorString (ov_Selector o')) of
        Some prev \<Rightarrow> Some (DuplicateOverride (ov_Selector o') prev (ov_Text o'))
      | None \<Rightarrow> duplicateLoop (seen(selectorString (ov_Selector o') \<mapsto> ov_Text o')) os)"

definition validateOverrideName :: "unicode_tables \<Rightarrow> Target \<Rightarrow> string \<Rightarrow> override_error option" where
  "validateOverrideName U t name =
     (if \<not> IsValidGoIdentifier U name then
        (if IsGoKeyword name then Some (TargetKeyword (tg_Selector t) name)
         else Some (TargetNotUsable (tg_Selector t) name))
      else if tg_Field t = None \<and> tg_Param t = None \<and> \<not> IsExportedGoIdentifier U name then
        Some (DeclNotExported (tg_Selector t) name)
      else if tg_Field t \<noteq> None \<and> \<not> IsExportedGoIdentifier U name then
        Some (FieldNotExported (tg_Selector t) name)
      else None)"

text \<open>\<open>byDecl\<close>, \<open>byField\<close> and \<open>byParam\<close> while the overrides are resolved.\<close>

definition assignOverride :: "Target \<Rightarrow> string \<Rightarrow> Names \<Rightarrow> Names" where
  "assignOverride t name by =
     (case tg_Field t of
        Some f \<Rightarrow> by\<lparr>nm_Field := (nm_Field by)(fieldNode f \<mapsto> name)\<rparr>
      | None \<Rightarrow>
          (case tg_Param t of
             Some p \<Rightarrow> by\<lparr>nm_Param := (nm_Param by)(paramNode p \<mapsto> name)\<rparr>
           | None \<Rightarrow> by\<lparr>nm_Decl := (nm_Decl by)(declNode (tg_Decl t) \<mapsto> name)\<rparr>))"

fun resolveLoop :: "unicode_tables \<Rightarrow> 'a ifile_scheme \<Rightarrow> Names \<Rightarrow> Override list \<Rightarrow> override_error + Names" where
  "resolveLoop U fl by [] = Inr by"
| "resolveLoop U fl by (o' # os) =
     (case ResolveSelector fl (ov_Selector o') of
        Inl e \<Rightarrow> Inl (BadSelector e)
      | Inr t \<Rightarrow>
          (case validateOverrideName U t (ov_Name o') of
             Some e \<Rightarrow> Inl e
           | None \<Rightarrow> resolveLoop U fl (assignOverride t (ov_Name o') by) os))"

text \<open>A missing entry of an override map is the empty string, which asks for the default projection.\<close>

definition nodeName ::
  "unicode_tables \<Rightarrow> string option \<Rightarrow> bool \<Rightarrow> string \<Rightarrow> string \<Rightarrow> Case \<Rightarrow> override_error + string" where
  "nodeName U override isParam what wire c =
     (case (case override of
              Some (ch # rest) \<Rightarrow> Inr (ch # rest)
            | _ \<Rightarrow> (case WireToGo wire c of Inl e \<Rightarrow> Inl (NodeProjection what e) | Inr g \<Rightarrow> Inr g)) of
        Inl e \<Rightarrow> Inl e
      | Inr name \<Rightarrow>
          if \<not> IsValidGoIdentifier U name then
            (if IsGoKeyword name then Inl (NodeKeyword what name) else Inl (NodeNotUsable what name))
          else if \<not> isParam \<and> \<not> IsExportedGoIdentifier U name then Inl (NodeNotExported what name)
          else Inr name)"

text \<open>The fields of the inline records of a type, each record with the names seen in it.\<close>

function walkType :: "unicode_tables \<Rightarrow> Names \<Rightarrow> string \<Rightarrow> TypeExpr \<Rightarrow> Names \<Rightarrow> override_error + Names"
and walkFields :: "unicode_tables \<Rightarrow> Names \<Rightarrow> string \<Rightarrow> (string \<Rightarrow> Field option) \<Rightarrow> Field list \<Rightarrow> Names \<Rightarrow> override_error + Names"
where
  "walkType U by w (PrimType dd k sp) n = Inr n"
| "walkType U by w (NamedType dd i) n = Inr n"
| "walkType U by w (ListType dd ls t) n = walkType U by w t n"
| "walkType U by w (RecordType dd rs lb fs rb) n = walkFields U by w (\<lambda>_. None) fs n"
| "walkFields U by w seen [] n = Inr n"
| "walkFields U by w seen (f # fs) n =
     (case nodeName U (nm_Field by (fieldNode f)) False (fieldWhere f w) (id_name (fieldName f)) PascalCase of
        Inl e \<Rightarrow> Inl e
      | Inr name \<Rightarrow>
          (case seen name of
             Some prev \<Rightarrow> Inl (FieldCollision (id_name (fieldName prev)) (id_name (fieldName f)) w name)
           | None \<Rightarrow>
               (case walkType U by (fieldWhere f w) (fieldType f)
                       (n\<lparr>nm_Field := (nm_Field n)(fieldNode f \<mapsto> name)\<rparr>) of
                  Inl e \<Rightarrow> Inl e
                | Inr n' \<Rightarrow> walkFields U by w (seen(name \<mapsto> f)) fs n')))"
  by pat_completeness auto
termination
  by (relation "measure (\<lambda>x. case x of Inl (U, by, w, t, n) \<Rightarrow> typeWork t
        | Inr (U, by, w, seen, fs, n) \<Rightarrow> Suc (sum_list (map fieldWork fs)))")
     (auto simp: fieldWork_type)

text \<open>The parameters of a procedure.\<close>

definition paramWhere :: "string \<Rightarrow> Param \<Rightarrow> string" where
  "paramWhere proc p = ''parameter '' @ quoted (id_name (paramName p)) @ '' of procedure '' @ quoted proc"

fun walkParams :: "unicode_tables \<Rightarrow> Names \<Rightarrow> string \<Rightarrow> (string \<Rightarrow> Param option) \<Rightarrow> Param list \<Rightarrow> Names \<Rightarrow> override_error + Names"
where
  "walkParams U by proc seen [] n = Inr n"
| "walkParams U by proc seen (p # ps) n =
     (case nodeName U (nm_Param by (paramNode p)) True (paramWhere proc p) (id_name (paramName p)) CamelCase of
        Inl e \<Rightarrow> Inl e
      | Inr name \<Rightarrow>
          (case seen name of
             Some prev \<Rightarrow> Inl (ParamCollision (id_name (paramName prev)) (id_name (paramName p)) proc name)
           | None \<Rightarrow>
               (case walkType U by (paramWhere proc p) (paramType p)
                       (n\<lparr>nm_Param := (nm_Param n)(paramNode p \<mapsto> name)\<rparr>) of
                  Inl e \<Rightarrow> Inl e
                | Inr n' \<Rightarrow> walkParams U by proc (seen(name \<mapsto> p)) ps n')))"

text \<open>One declaration; a fixed exception generates nothing.\<close>

definition declWhat :: "Decl \<Rightarrow> string" where
  "declWhat d = declKind d @ '' '' @ quoted (declaredName d)"

definition nameDecl :: "unicode_tables \<Rightarrow> Names \<Rightarrow> Decl \<Rightarrow> Names \<Rightarrow> override_error + Names" where
  "nameDecl U by d n =
     (case nodeName U (nm_Decl by (declNode d)) False (declWhat d) (declaredName d) PascalCase of
        Inl e \<Rightarrow> Inl e
      | Inr name \<Rightarrow> Inr (n\<lparr>nm_Decl := (nm_Decl n)(declNode d \<mapsto> name)\<rparr>))"

fun projectDecl :: "unicode_tables \<Rightarrow> Names \<Rightarrow> Decl \<Rightarrow> Names \<Rightarrow> override_error + Names" where
  "projectDecl U by (TypeDecl dd kw i t semi) n =
     (case nameDecl U by (TypeDecl dd kw i t semi) n of
        Inl e \<Rightarrow> Inl e
      | Inr n \<Rightarrow> walkType U by (''the underlying type of type '' @ quoted (id_name i)) t n)"
| "projectDecl U by (ExceptionDecl dd kw i ot semi) n =
     (if IsFixedRuntimeException (id_name i) then Inr n
      else case nameDecl U by (ExceptionDecl dd kw i ot semi) n of
        Inl e \<Rightarrow> Inl e
      | Inr n \<Rightarrow> (case ot of None \<Rightarrow> Inr n
          | Some t \<Rightarrow> walkType U by (''the payload of exception '' @ quoted (id_name i)) t n))"
| "projectDecl U by (ProcDecl dd kw i lb ps rb res semi) n =
     (case nameDecl U by (ProcDecl dd kw i lb ps rb res semi) n of
        Inl e \<Rightarrow> Inl e
      | Inr n \<Rightarrow>
          (case walkParams U by (id_name i) (\<lambda>_. None) ps n of
             Inl e \<Rightarrow> Inl e
           | Inr n \<Rightarrow> (case res of None \<Rightarrow> Inr n
               | Some t \<Rightarrow> walkType U by (''the return value of procedure '' @ quoted (id_name i)) t n)))"

fun projectDecls :: "unicode_tables \<Rightarrow> Names \<Rightarrow> Decl list \<Rightarrow> Names \<Rightarrow> override_error + Names" where
  "projectDecls U by [] n = Inr n"
| "projectDecls U by (d # ds) n =
     (case projectDecl U by d n of Inl e \<Rightarrow> Inl e | Inr n \<Rightarrow> projectDecls U by ds n)"

text \<open>The package scope.\<close>

fun scopeLoop :: "Names \<Rightarrow> (string \<Rightarrow> Decl option) \<Rightarrow> Decl list \<Rightarrow> override_error option" where
  "scopeLoop n byName [] = None"
| "scopeLoop n byName (d # ds) =
     (case nm_Decl n (declNode d) of
        None \<Rightarrow> scopeLoop n byName ds
      | Some name \<Rightarrow>
          (case byName name of
             Some prev \<Rightarrow> Some (DeclCollision (declKind prev) (declaredName prev) (declKind d) (declaredName d) name)
           | None \<Rightarrow> scopeLoop n (byName(name \<mapsto> d)) ds))"

definition ProjectNames :: "unicode_tables \<Rightarrow> 'a ifile_scheme \<Rightarrow> Override list \<Rightarrow> override_error + Names" where
  "ProjectNames U fl overrides =
     (case duplicateLoop (\<lambda>_. None) overrides of
        Some e \<Rightarrow> Inl e
      | None \<Rightarrow>
          (case resolveLoop U fl emptyNames overrides of
             Inl e \<Rightarrow> Inl e
           | Inr by \<Rightarrow>
               (case projectDecls U by (fi_decls fl) emptyNames of
                  Inl e \<Rightarrow> Inl e
                | Inr n \<Rightarrow> (case scopeLoop n (\<lambda>_. None) (fi_decls fl) of Some e \<Rightarrow> Inl e | None \<Rightarrow> Inr n))))"

end
