(* ===== verification/Format.thy ===== *)
theory Format
  imports Parse_Errors
begin

text \<open>
  The canonical printer of \<open>go/internal/syntax/format.go\<close>. The builder is the string
  written so far; the stack of pending items is kept as the source has it, with its top at
  the head of the list, and proved equal to the recursive printer of the same layout.
\<close>

section \<open>Documentation\<close>

text \<open>\<open>strings.Split\<close> at line feeds.\<close>

fun splitLines :: "string \<Rightarrow> string list" where
  "splitLines [] = [[]]"
| "splitLines (c # s) =
     (if c = newline then [] # splitLines s
      else case splitLines s of [] \<Rightarrow> [[c]] | l # ls \<Rightarrow> (c # l) # ls)"

definition indentStep :: string where
  "indentStep = ''    ''"

definition docLine :: "string \<Rightarrow> string \<Rightarrow> string" where
  "docLine indent line = (if line = [] then [newline] else indent @ indentStep @ line @ [newline])"

definition writeDoc :: "string \<Rightarrow> string \<Rightarrow> string \<Rightarrow> string" where
  "writeDoc b indent docu =
     (if docu = [] then b
      else if newline \<notin> set docu then b @ indent @ ''/* '' @ docu @ '' */'' @ [newline]
      else b @ indent @ ''/*'' @ [newline] @ concat (map (docLine indent) (splitLines docu))
             @ indent @ ''*/'' @ [newline])"

fun typeDoc :: "TypeExpr \<Rightarrow> string" where
  "typeDoc (PrimType d k sp) = d"
| "typeDoc (NamedType d i) = d"
| "typeDoc (ListType d ls t) = d"
| "typeDoc (RecordType d rs lb fs rb) = d"

section \<open>The item stack\<close>

datatype fmtItem =
    FmtType TypeExpr string
  | FmtField Field string
  | FmtParam Param string
  | FmtSemi
  | FmtTail string

fun writeTypeBody :: "string \<Rightarrow> fmtItem list \<Rightarrow> TypeExpr \<Rightarrow> string \<Rightarrow> string \<times> fmtItem list" where
  "writeTypeBody b stack (PrimType d k sp) indent = (b @ kindString k, stack)"
| "writeTypeBody b stack (NamedType d i) indent = (b @ id_name i, stack)"
| "writeTypeBody b stack (ListType d ls e) indent = (b @ ''list'', FmtType e indent # stack)"
| "writeTypeBody b stack (RecordType d rs lb fs rb) indent =
     (if fs \<noteq> []
      then (b @ ''record {'' @ [newline],
            map (\<lambda>fld. FmtField fld (indent @ indentStep)) fs @ FmtTail indent # stack)
      else (b @ ''record {'' @ ''}'', stack))"

definition writeType :: "string \<Rightarrow> fmtItem list \<Rightarrow> TypeExpr \<Rightarrow> string \<Rightarrow> string \<times> fmtItem list" where
  "writeType b stack t indent =
     (if typeDoc t \<noteq> []
      then writeTypeBody (writeDoc (b @ [newline]) indent (typeDoc t) @ indent) stack t indent
      else writeTypeBody (b @ '' '') stack t indent)"

fun fmtWork :: "TypeExpr \<Rightarrow> nat"
and fmtFieldWork :: "Field \<Rightarrow> nat" where
  "fmtWork (PrimType d k sp) = 1"
| "fmtWork (NamedType d i) = 1"
| "fmtWork (ListType d ls t) = Suc (fmtWork t)"
| "fmtWork (RecordType d rs lb fs rb) = Suc (Suc (sum_list (map fmtFieldWork fs)))"
| "fmtFieldWork (Field d i t semi) = Suc (Suc (fmtWork t))"

fun itemWork :: "fmtItem \<Rightarrow> nat" where
  "itemWork (FmtType t indent) = fmtWork t"
| "itemWork (FmtField fld indent) = fmtFieldWork fld"
| "itemWork (FmtParam p indent) = Suc (Suc (fmtWork (paramType p)))"
| "itemWork FmtSemi = 1"
| "itemWork (FmtTail indent) = 1"

lemma fmtWork_pos [simp]: "0 < fmtWork t"
  by (cases t) auto

lemma fmtFieldWork_type: "fmtFieldWork fld = Suc (Suc (fmtWork (fieldType fld)))"
  by (cases fld) simp

lemma itemWork_fields: "map (itemWork \<circ> (\<lambda>fld. FmtField fld indent)) fs = map fmtFieldWork fs"
  by simp

lemma writeType_work:
  "writeType b stack t indent = (b', stack') \<Longrightarrow>
   sum_list (map itemWork stack') < fmtWork t + sum_list (map itemWork stack)"
  by (cases t) (auto simp: writeType_def itemWork_fields split: if_splits)

function runFormat :: "string \<Rightarrow> fmtItem list \<Rightarrow> string" where
  "runFormat b [] = b"
| "runFormat b (FmtType t indent # stack) =
     (case writeType b stack t indent of (b', stack') \<Rightarrow> runFormat b' stack')"
| "runFormat b (FmtField fld indent # stack) =
     runFormat (writeDoc b indent (fieldDoc fld) @ indent @ id_name (fieldName fld))
       (FmtType (fieldType fld) indent # FmtSemi # stack)"
| "runFormat b (FmtParam p indent # stack) =
     runFormat (writeDoc b indent (paramDoc p) @ indent @ id_name (paramName p))
       (FmtType (paramType p) indent # FmtSemi # stack)"
| "runFormat b (FmtSemi # stack) = runFormat (b @ '';'' @ [newline]) stack"
| "runFormat b (FmtTail indent # stack) = runFormat (b @ indent @ ''}'') stack"
  by pat_completeness auto
termination
  by (relation "measure (\<lambda>(b, stack). sum_list (map itemWork stack))")
     (auto simp: fmtFieldWork_type dest: writeType_work split: prod.splits)

declare runFormat.simps(2) [simp del]

section \<open>Declarations and files\<close>

definition resultItems :: "TypeExpr option \<Rightarrow> string \<Rightarrow> fmtItem list" where
  "resultItems t indent = (case t of None \<Rightarrow> [] | Some t \<Rightarrow> [FmtType t indent])"

fun writeDecl :: "string \<Rightarrow> Decl \<Rightarrow> string \<Rightarrow> string" where
  "writeDecl b (TypeDecl d kw i t semi) indent =
     runFormat (writeDoc b indent d @ indent @ ''type '' @ id_name i) [FmtType t indent, FmtSemi]"
| "writeDecl b (ExceptionDecl d kw i t semi) indent =
     runFormat (writeDoc b indent d @ indent @ ''exception '' @ id_name i) (resultItems t indent @ [FmtSemi])"
| "writeDecl b (ProcDecl d kw i lb ps rb res semi) indent =
     (let b1 = writeDoc b indent d @ indent @ ''procedure '' @ id_name i @ '' {'' in
      if ps \<noteq> []
      then runFormat (b1 @ [newline])
             (map (\<lambda>p. FmtParam p (indent @ indentStep)) ps @ FmtTail indent # resultItems res indent @ [FmtSemi])
      else case res of
        Some t \<Rightarrow> runFormat (b1 @ ''}'') [FmtType t indent, FmtSemi]
      | None \<Rightarrow> b1 @ ''}'' @ '';'' @ [newline])"

fun formatRest :: "string \<Rightarrow> Decl list \<Rightarrow> string" where
  "formatRest b [] = b"
| "formatRest b (d # ds) = formatRest (writeDecl (b @ [newline]) d []) ds"

definition Format :: "'a ifile_scheme \<Rightarrow> string" where
  "Format fl = (case fi_decls fl of [] \<Rightarrow> [] | d # ds \<Rightarrow> formatRest (writeDecl [] d []) ds)"

section \<open>The recursive printer\<close>

definition docText :: "string \<Rightarrow> string \<Rightarrow> string" where
  "docText indent docu = writeDoc [] indent docu"

lemma writeDoc_append: "writeDoc b indent docu = b @ docText indent docu"
  by (simp add: docText_def writeDoc_def)

fun printType :: "string \<Rightarrow> TypeExpr \<Rightarrow> string"
and printField :: "string \<Rightarrow> Field \<Rightarrow> string" where
  "printType indent (PrimType d k sp) =
     (if d \<noteq> [] then newline # docText indent d @ indent else '' '') @ kindString k"
| "printType indent (NamedType d i) =
     (if d \<noteq> [] then newline # docText indent d @ indent else '' '') @ id_name i"
| "printType indent (ListType d ls t) =
     (if d \<noteq> [] then newline # docText indent d @ indent else '' '') @ ''list'' @ printType indent t"
| "printType indent (RecordType d rs lb fs rb) =
     (if d \<noteq> [] then newline # docText indent d @ indent else '' '') @ ''record {''
     @ (if fs = [] then [] else newline # concat (map (printField (indent @ indentStep)) fs) @ indent) @ ''}''"
| "printField indent (Field d i t semi) =
     docText indent d @ indent @ id_name i @ printType indent t @ '';'' @ [newline]"

fun printParam :: "string \<Rightarrow> Param \<Rightarrow> string" where
  "printParam indent (Param d i t semi) =
     docText indent d @ indent @ id_name i @ printType indent t @ '';'' @ [newline]"

definition printOpt :: "string \<Rightarrow> TypeExpr option \<Rightarrow> string" where
  "printOpt indent t = (case t of None \<Rightarrow> [] | Some t \<Rightarrow> printType indent t)"

fun printDecl :: "string \<Rightarrow> Decl \<Rightarrow> string" where
  "printDecl indent (TypeDecl d kw i t semi) =
     docText indent d @ indent @ ''type '' @ id_name i @ printType indent t @ '';'' @ [newline]"
| "printDecl indent (ExceptionDecl d kw i t semi) =
     docText indent d @ indent @ ''exception '' @ id_name i @ printOpt indent t @ '';'' @ [newline]"
| "printDecl indent (ProcDecl d kw i lb ps rb res semi) =
     docText indent d @ indent @ ''procedure '' @ id_name i @ '' {''
     @ (if ps = [] then [] else newline # concat (map (printParam (indent @ indentStep)) ps) @ indent) @ ''}''
     @ printOpt indent res @ '';'' @ [newline]"

fun printDecls :: "Decl list \<Rightarrow> string" where
  "printDecls [] = []"
| "printDecls [d] = printDecl [] d"
| "printDecls (d # ds) = printDecl [] d @ newline # printDecls ds"

fun printItem :: "fmtItem \<Rightarrow> string" where
  "printItem (FmtType t indent) = printType indent t"
| "printItem (FmtField fld indent) = printField indent fld"
| "printItem (FmtParam p indent) = printParam indent p"
| "printItem FmtSemi = '';'' @ [newline]"
| "printItem (FmtTail indent) = indent @ ''}''"

lemma printField_sel:
  "printField indent fld = docText indent (fieldDoc fld) @ indent @ id_name (fieldName fld)
     @ printType indent (fieldType fld) @ '';'' @ [newline]"
  by (cases fld) simp

lemma printParam_sel:
  "printParam indent p = docText indent (paramDoc p) @ indent @ id_name (paramName p)
     @ printType indent (paramType p) @ '';'' @ [newline]"
  by (cases p) simp

lemma writeType_print:
  "writeType b stack t indent = (b', stack') \<Longrightarrow>
   b' @ concat (map printItem stack') = b @ printType indent t @ concat (map printItem stack)"
  by (cases t) (auto simp: writeType_def writeDoc_append comp_def split: if_splits)

lemma runFormat_print: "runFormat b stack = b @ concat (map printItem stack)"
proof (induction b stack rule: runFormat.induct)
  case (2 b t indent stack)
  obtain b' stack' where w: "writeType b stack t indent = (b', stack')" by force
  from "2.IH" [OF w [symmetric]] writeType_print [OF w] w show ?case
    by (simp add: runFormat.simps(2))
qed (simp_all add: writeDoc_append printField_sel printParam_sel)

lemma writeDecl_print: "writeDecl b d indent = b @ printDecl indent d"
  by (cases d)
     (auto simp: runFormat_print writeDoc_append resultItems_def printOpt_def Let_def comp_def split: option.splits)

lemma formatRest_print: "ds \<noteq> [] \<Longrightarrow> formatRest b ds = b @ newline # printDecls ds"
proof (induction b ds rule: formatRest.induct)
  case (2 b d ds)
  then show ?case by (cases ds) (simp_all add: writeDecl_print)
qed simp

lemma Format_print: "Format fl = printDecls (fi_decls fl)"
proof (cases "fi_decls fl")
  case (Cons d ds)
  then show ?thesis
    by (cases ds) (simp_all add: Format_def writeDecl_print formatRest_print del: formatRest.simps(2))
qed (simp add: Format_def)

text \<open>
  The item stack is the recursive printer: formatting writes, byte for byte, the
  pre-order text of the declarations with one blank line between them, and it always ends;
  no declarations give no bytes.
\<close>

theorem Format_recursive_printer:
  "Format fl = printDecls (fi_decls fl)"
  by (rule Format_print)

end
