(* ===== verification/Docs.thy ===== *)
theory Docs
  imports Format Validate "HOL-Library.Multiset"
begin

text \<open>
  Documentation attachment (\<open>go/internal/syntax/docs.go\<close>). \<open>collect\<close> gathers the ends of
  tokens, nodes and type prefixes and the anchors of all documentation slots in source
  order, with the explicit frame stack of \<open>walkType\<close> and the list chains of
  \<open>walkListChain\<close>; \<open>attach\<close> finds the document of every anchor; \<open>setDocs\<close> stores them in
  the slots, which the source does through the closures the anchors carry, in the order the
  anchors were made. \<open>sort.Ints\<close> is \<open>sort\<close> and \<open>sort.Search\<close> the binary search of
  \<open>Source_Position\<close>.
\<close>

section \<open>Normalization\<close>

definition carriageReturn :: char where
  "carriageReturn = CHR 0x0D"

text \<open>The two \<open>strings.ReplaceAll\<close> calls.\<close>

fun replaceCRLF :: "string \<Rightarrow> string" where
  "replaceCRLF (c # d # s) =
     (if c = carriageReturn \<and> d = newline then newline # replaceCRLF s else c # replaceCRLF (d # s))"
| "replaceCRLF s = s"

definition replaceCR :: "string \<Rightarrow> string" where
  "replaceCR s = map (\<lambda>c. if c = carriageReturn then newline else c) s"

definition isWS :: "char \<Rightarrow> bool" where
  "isWS c \<longleftrightarrow> c = CHR '' '' \<or> c = CHR 0x09"

definition trimRight :: "string \<Rightarrow> string" where
  "trimRight s = rev (dropWhile isWS (rev s))"

definition leadingWS :: "string \<Rightarrow> string" where
  "leadingWS s = takeWhile isWS s"

text \<open>The inner loop: the common prefix of two prefixes.\<close>

fun commonPrefix :: "string \<Rightarrow> string \<Rightarrow> string" where
  "commonPrefix (a # as) (b # bs) = (if a = b then a # commonPrefix as bs else [])"
| "commonPrefix _ _ = []"

fun prefixLoop :: "string \<Rightarrow> string list \<Rightarrow> string" where
  "prefixLoop prefix [] = prefix"
| "prefixLoop prefix (ln # lns) =
     (if ln = [] then prefixLoop prefix lns
      else let p = commonPrefix prefix (leadingWS ln) in if p = [] then [] else prefixLoop p lns)"

definition joinWith :: "string \<Rightarrow> string list \<Rightarrow> string" where
  "joinWith sep ls = (case ls of [] \<Rightarrow> [] | l # rest \<Rightarrow> l @ concat (map (\<lambda>x. sep @ x) rest))"

definition dropBlankEnds :: "string list \<Rightarrow> string list" where
  "dropBlankEnds ls = rev (dropWhile (\<lambda>l. l = []) (rev (dropWhile (\<lambda>l. l = []) ls)))"

definition normalizeDoc :: "string \<Rightarrow> string" where
  "normalizeDoc text0 =
     (let text1 = replaceCR (replaceCRLF text0);
          lines = dropBlankEnds (map trimRight (splitLines text1))
      in case lines of
           [] \<Rightarrow> []
         | l # ls \<Rightarrow>
             (let prefix = prefixLoop (leadingWS l) ls in
              joinWith [newline]
                (if prefix \<noteq> [] then map (\<lambda>ln. if ln \<noteq> [] then drop (length prefix) ln else ln) lines
                 else lines)))"

definition groupDoc :: "comment list \<Rightarrow> string" where
  "groupDoc g = joinWith [newline, newline] (filter (\<lambda>d. d \<noteq> []) (map (\<lambda>c. normalizeDoc (cm_text c)) g))"

section \<open>Collecting\<close>

record attacher =
  at_tokens :: "nat list"
  at_ends :: "nat list"
  at_prefixes :: "nat list"
  at_anchors :: "nat list"

definition addEnd :: "nat \<Rightarrow> attacher \<Rightarrow> attacher" where
  "addEnd e a = a\<lparr>at_ends := at_ends a @ [e]\<rparr>"

definition addPrefix :: "nat \<Rightarrow> attacher \<Rightarrow> attacher" where
  "addPrefix e a = a\<lparr>at_prefixes := at_prefixes a @ [e]\<rparr>"

definition addAnchor :: "nat \<Rightarrow> attacher \<Rightarrow> attacher" where
  "addAnchor s a = a\<lparr>at_anchors := at_anchors a @ [s]\<rparr>"

fun typeAnchor :: "TypeExpr \<Rightarrow> attacher \<Rightarrow> attacher" where
  "typeAnchor (PrimType d k sp) a = addAnchor (sp_start sp) (addEnd (sp_end sp) a)"
| "typeAnchor (NamedType d i) a = addAnchor (sp_start (id_span i)) (addEnd (sp_end (id_span i)) a)"
| "typeAnchor (ListType d ls t) a =
     addAnchor (sp_start ls) (addEnd (sp_end (typeSpan (ListType d ls t))) (addPrefix (sp_end ls) a))"
| "typeAnchor (RecordType d rs lb fs rb) a =
     addAnchor (sp_start rs) (addEnd (sp_end (typeSpan (RecordType d rs lb fs rb))) a)"

definition fieldAnchor :: "Field \<Rightarrow> attacher \<Rightarrow> attacher" where
  "fieldAnchor fld a =
     addAnchor (sp_start (id_span (fieldName fld)))
       (addPrefix (sp_end (id_span (fieldName fld))) (addEnd (sp_end (fieldSpan fld)) a))"

definition paramAnchor :: "Param \<Rightarrow> attacher \<Rightarrow> attacher" where
  "paramAnchor p a =
     addAnchor (sp_start (id_span (paramName p)))
       (addPrefix (sp_end (id_span (paramName p))) (addEnd (sp_end (paramSpan p)) a))"

text \<open>The loop of \<open>walkListChain\<close> at a list node, with its keyword span and element.\<close>

fun walkListChain :: "nat \<Rightarrow> span \<Rightarrow> TypeExpr \<Rightarrow> attacher \<Rightarrow> attacher \<times> TypeExpr" where
  "walkListChain cnt ls (ListType d ls' e) a =
     walkListChain (Suc cnt) ls' e (addAnchor (sp_start ls) (addPrefix (sp_end ls) a))"
| "walkListChain cnt ls e a =
     (let a1 = addAnchor (sp_start ls) (addPrefix (sp_end ls) a)
      in (a1\<lparr>at_ends := at_ends a1 @ replicate (Suc cnt) (sp_end (typeSpan e))\<rparr>, e))"

text \<open>The next pending field, popping the exhausted frames.\<close>

fun descend :: "(Field list \<times> nat) list \<Rightarrow> (Field \<times> (Field list \<times> nat) list) option" where
  "descend [] = None"
| "descend ((fs, n) # stack) =
     (if length fs \<le> n then descend stack else Some (fs ! n, (fs, Suc n) # stack))"

definition frameWork :: "Field list \<times> nat \<Rightarrow> nat" where
  "frameWork fr = sum_list (map fieldWork (drop (snd fr) (fst fr)))"

lemma descend_work:
  "descend stack = Some (fld, stack') \<Longrightarrow>
   fieldWork fld + sum_list (map frameWork stack') = sum_list (map frameWork stack)"
  by (induction stack rule: descend.induct)
     (auto simp: frameWork_def drop_nth_work split: if_splits)

lemma walkListChain_work: "walkListChain cnt ls e a = (a', e') \<Longrightarrow> typeWork e' \<le> typeWork e"
  by (induction cnt ls e a arbitrary: a' e' rule: walkListChain.induct) (auto simp: Let_def le_SucI)

definition openFrame :: "TypeExpr \<Rightarrow> (Field list \<times> nat) list \<Rightarrow> (Field list \<times> nat) list" where
  "openFrame t stack = (case t of RecordType d rs lb fs rb \<Rightarrow> (fs, 0) # stack | _ \<Rightarrow> stack)"

lemma openFrame_work: "sum_list (map frameWork (openFrame t stack)) < typeWork t + sum_list (map frameWork stack)"
  by (cases t) (auto simp: openFrame_def frameWork_def)

lemma descend_open_work:
  "descend (openFrame t stack) = Some (fld, stack') \<Longrightarrow>
   typeWork (fieldType fld) + sum_list (map frameWork stack') < typeWork t + sum_list (map frameWork stack)"
  using descend_work [of "openFrame t stack" fld stack'] openFrame_work [of t stack] by (simp add: fieldWork_type)

function walkLoop :: "attacher \<Rightarrow> (Field list \<times> nat) list \<Rightarrow> TypeExpr \<Rightarrow> attacher" where
  "walkLoop a stack t =
     (case t of
        ListType d ls e \<Rightarrow> (case walkListChain 0 ls e a of (a', e') \<Rightarrow> walkLoop a' stack e')
      | _ \<Rightarrow>
          (let a1 = typeAnchor t a in
           case descend (openFrame t stack) of
             None \<Rightarrow> a1
           | Some (fld, stack') \<Rightarrow> walkLoop (fieldAnchor fld a1) stack' (fieldType fld)))"
  by pat_completeness auto
termination
  by (relation "measure (\<lambda>(a, stack, t). typeWork t + sum_list (map frameWork stack))")
     (auto dest: walkListChain_work [OF sym] descend_open_work)

declare walkLoop.simps [simp del]

definition walkType :: "TypeExpr \<Rightarrow> attacher \<Rightarrow> attacher" where
  "walkType root a = walkLoop a [] root"

definition walkOpt :: "TypeExpr option \<Rightarrow> attacher \<Rightarrow> attacher" where
  "walkOpt t a = (case t of None \<Rightarrow> a | Some t \<Rightarrow> walkType t a)"

fun collectDecl :: "Decl \<Rightarrow> attacher \<Rightarrow> attacher" where
  "collectDecl (TypeDecl d kw i t semi) a =
     walkType t (addAnchor (sp_start kw) (addPrefix (sp_end (id_span i))
       (addEnd (sp_end (declSpan (TypeDecl d kw i t semi))) a)))"
| "collectDecl (ExceptionDecl d kw i t semi) a =
     walkOpt t (addAnchor (sp_start kw) (addPrefix (sp_end (id_span i))
       (addEnd (sp_end (declSpan (ExceptionDecl d kw i t semi))) a)))"
| "collectDecl (ProcDecl d kw i lb ps rb res semi) a =
     walkOpt res (foldl (\<lambda>a p. walkType (paramType p) (paramAnchor p a))
       (addAnchor (sp_start kw) (addPrefix (sp_end rb)
         (addEnd (sp_end (declSpan (ProcDecl d kw i lb ps rb res semi))) a))) ps)"

definition collect :: "'a ifile_scheme \<Rightarrow> attacher" where
  "collect fl =
     (let a0 = \<lparr>at_tokens = map (\<lambda>t. sp_end (tk_span t))
                  (filter (\<lambda>t. tk_kind t \<noteq> TokComment) (fst (scanAll (source.truncate fl) NewScanner))),
                at_ends = [], at_prefixes = [], at_anchors = []\<rparr>;
          a1 = foldl (\<lambda>a d. collectDecl d a) a0 (fi_decls fl)
      in a1\<lparr>at_ends := sort (at_ends a1), at_prefixes := sort (at_prefixes a1)\<rparr>)"

section \<open>Attaching\<close>

definition isBlankContent :: "string \<Rightarrow> bool" where
  "isBlankContent b = list_all (\<lambda>c. c = CHR '' '' \<or> c = CHR 0x09) b"

text \<open>The loop over \<open>src[a:b]\<close>; \<open>prevEnd\<close> is \<open>None\<close> for \<open>-1\<close>.\<close>

function hasBlankFrom :: "string \<Rightarrow> nat \<Rightarrow> nat \<Rightarrow> nat \<Rightarrow> nat option \<Rightarrow> bool" where
  "hasBlankFrom src a b i prevEnd =
     (if \<not> i < b then False
      else if src ! i \<noteq> newline then hasBlankFrom src a b (Suc i) prevEnd
      else
        let contentEnd = (if a < i \<and> src ! (i - 1) = carriageReturn then i - 1 else i) in
        if (case prevEnd of None \<Rightarrow> False | Some p \<Rightarrow> isBlankContent (drop p (take contentEnd src))) then True
        else hasBlankFrom src a b (Suc i) (Some (Suc i)))"
  by pat_completeness auto
termination
  by (relation "measure (\<lambda>(src, a, b, i, p). b - i)") auto

declare hasBlankFrom.simps [simp del]

definition hasBlankLine :: "string \<Rightarrow> nat \<Rightarrow> nat \<Rightarrow> bool" where
  "hasBlankLine src a b = hasBlankFrom src a b a None"

definition lineOf :: "'a source_scheme \<Rightarrow> nat \<Rightarrow> int" where
  "lineOf f offset = int (sort_Search (length (so_lines f)) (\<lambda>i. offset < so_lines f ! i)) - 1"

definition isTrailing :: "'a source_scheme \<Rightarrow> attacher \<Rightarrow> comment \<Rightarrow> bool" where
  "isTrailing f a c =
     (let i = sort_Search (length (at_ends a)) (\<lambda>i. sp_start (cm_span c) < at_ends a ! i) in
      if i = 0 then False
      else lineOf f (at_ends a ! (i - 1) - 1) = lineOf f (sp_start (cm_span c)))"

definition isPrefixEnd :: "attacher \<Rightarrow> nat \<Rightarrow> bool" where
  "isPrefixEnd a e =
     (let i = sort_Search (length (at_prefixes a)) (\<lambda>i. e \<le> at_prefixes a ! i)
      in i < length (at_prefixes a) \<and> at_prefixes a ! i = e)"

text \<open>The maximal run of comments without a blank line between them, from the last one back.\<close>

fun segment :: "string \<Rightarrow> comment list \<Rightarrow> nat \<Rightarrow> nat" where
  "segment src g 0 = 0"
| "segment src g (Suc n) =
     (if \<not> hasBlankLine src (sp_end (cm_span (g ! n))) (sp_start (cm_span (g ! Suc n)))
      then segment src g n else Suc n)"

definition skipTrailing :: "'a source_scheme \<Rightarrow> attacher \<Rightarrow> comment list \<Rightarrow> comment list" where
  "skipTrailing f a g = dropWhile (isTrailing f a) g"

text \<open>The end of the token before an anchor and the comments in its trivia.\<close>

definition prevTokenEnd :: "attacher \<Rightarrow> nat \<Rightarrow> nat" where
  "prevTokenEnd a start =
     (let i = sort_Search (length (at_tokens a)) (\<lambda>i. start < at_tokens a ! i)
      in if 0 < i then at_tokens a ! (i - 1) else 0)"

definition trivia :: "comment list \<Rightarrow> nat \<Rightarrow> nat \<Rightarrow> comment list" where
  "trivia comments prevEnd start =
     (let ends = map (\<lambda>c. sp_end (cm_span c)) comments;
          lo = sort_Search (length ends) (\<lambda>i. prevEnd < ends ! i);
          hi = sort_Search (length ends) (\<lambda>i. start < ends ! i)
      in take (hi - lo) (drop lo comments))"

text \<open>The body of the loop of \<open>attach\<close>: the document of one anchor, none when it sets nothing.\<close>

definition anchorDoc :: "'a ifile_scheme \<Rightarrow> attacher \<Rightarrow> nat \<Rightarrow> string option" where
  "anchorDoc fl a start =
     (let prevEnd = prevTokenEnd a start;
          group = trivia (fi_comments fl) prevEnd start
      in if group = [] then None
         else
           let seg = segment (so_src fl) group (length group - 1) in
           if hasBlankLine (so_src fl) (sp_end (cm_span (last group))) start then None
           else
             let rest = (if \<not> isPrefixEnd a prevEnd then skipTrailing fl a (drop seg group) else drop seg group)
             in if rest = [] then None else Some (groupDoc rest))"

definition attach :: "'a ifile_scheme \<Rightarrow> attacher \<Rightarrow> string list" where
  "attach fl a = map (\<lambda>start. case anchorDoc fl a start of None \<Rightarrow> [] | Some d \<Rightarrow> d) (at_anchors a)"

text \<open>Storing documents in the slots, in the order of the anchors; every slot was reset before.\<close>

definition slot :: "string list \<Rightarrow> string" where
  "slot ds = (case ds of [] \<Rightarrow> [] | d # _ \<Rightarrow> d)"

fun setType :: "TypeExpr \<Rightarrow> string list \<Rightarrow> TypeExpr \<times> string list"
and setFields :: "Field list \<Rightarrow> string list \<Rightarrow> Field list \<times> string list"
and setField :: "Field \<Rightarrow> string list \<Rightarrow> Field \<times> string list" where
  "setType (PrimType d k sp) ds = (PrimType (slot ds) k sp, tl ds)"
| "setType (NamedType d i) ds = (NamedType (slot ds) i, tl ds)"
| "setType (ListType d ls t) ds = (case setType t (tl ds) of (t', ds') \<Rightarrow> (ListType (slot ds) ls t', ds'))"
| "setType (RecordType d rs lb fs rb) ds =
     (case setFields fs (tl ds) of (fs', ds') \<Rightarrow> (RecordType (slot ds) rs lb fs' rb, ds'))"
| "setFields [] ds = ([], ds)"
| "setFields (fld # fs) ds =
     (case setField fld ds of (fld', ds1) \<Rightarrow> (case setFields fs ds1 of (fs', ds2) \<Rightarrow> (fld' # fs', ds2)))"
| "setField (Field d i t semi) ds = (case setType t (tl ds) of (t', ds') \<Rightarrow> (Field (slot ds) i t' semi, ds'))"

fun setParams :: "Param list \<Rightarrow> string list \<Rightarrow> Param list \<times> string list" where
  "setParams [] ds = ([], ds)"
| "setParams (Param d i t semi # ps) ds =
     (case setType t (tl ds) of (t', ds1) \<Rightarrow>
        (case setParams ps ds1 of (ps', ds2) \<Rightarrow> (Param (slot ds) i t' semi # ps', ds2)))"

definition setOpt :: "TypeExpr option \<Rightarrow> string list \<Rightarrow> TypeExpr option \<times> string list" where
  "setOpt t ds = (case t of None \<Rightarrow> (None, ds) | Some t \<Rightarrow> (case setType t ds of (t', ds') \<Rightarrow> (Some t', ds')))"

fun setDecl :: "Decl \<Rightarrow> string list \<Rightarrow> Decl \<times> string list" where
  "setDecl (TypeDecl d kw i t semi) ds =
     (case setType t (tl ds) of (t', ds') \<Rightarrow> (TypeDecl (slot ds) kw i t' semi, ds'))"
| "setDecl (ExceptionDecl d kw i t semi) ds =
     (case setOpt t (tl ds) of (t', ds') \<Rightarrow> (ExceptionDecl (slot ds) kw i t' semi, ds'))"
| "setDecl (ProcDecl d kw i lb ps rb res semi) ds =
     (case setParams ps (tl ds) of (ps', ds1) \<Rightarrow>
        (case setOpt res ds1 of (res', ds2) \<Rightarrow> (ProcDecl (slot ds) kw i lb ps' rb res' semi, ds2)))"

fun setDecls :: "Decl list \<Rightarrow> string list \<Rightarrow> Decl list \<times> string list" where
  "setDecls [] ds = ([], ds)"
| "setDecls (d # dcs) ds =
     (case setDecl d ds of (d', ds1) \<Rightarrow> (case setDecls dcs ds1 of (dcs', ds2) \<Rightarrow> (d' # dcs', ds2)))"

definition AttachDocs :: "'a ifile_scheme \<Rightarrow> 'a ifile_scheme" where
  "AttachDocs fl = fl\<lparr>fi_decls := fst (setDecls (fi_decls fl) (attach fl (collect fl)))\<rparr>"

section \<open>The traversal\<close>

text \<open>The anchors, node ends and prefix ends of a tree by recursion.\<close>

fun typeStarts :: "TypeExpr \<Rightarrow> nat list"
and fieldStarts :: "Field \<Rightarrow> nat list" where
  "typeStarts (PrimType d k sp) = [sp_start sp]"
| "typeStarts (NamedType d i) = [sp_start (id_span i)]"
| "typeStarts (ListType d ls t) = sp_start ls # typeStarts t"
| "typeStarts (RecordType d rs lb fs rb) = sp_start rs # concat (map fieldStarts fs)"
| "fieldStarts (Field d i t semi) = sp_start (id_span i) # typeStarts t"

fun typePrefixes :: "TypeExpr \<Rightarrow> nat list"
and fieldPrefixes :: "Field \<Rightarrow> nat list" where
  "typePrefixes (PrimType d k sp) = []"
| "typePrefixes (NamedType d i) = []"
| "typePrefixes (ListType d ls t) = sp_end ls # typePrefixes t"
| "typePrefixes (RecordType d rs lb fs rb) = concat (map fieldPrefixes fs)"
| "fieldPrefixes (Field d i t semi) = sp_end (id_span i) # typePrefixes t"

fun typeEnds :: "TypeExpr \<Rightarrow> nat list"
and fieldEnds :: "Field \<Rightarrow> nat list" where
  "typeEnds (PrimType d k sp) = [sp_end sp]"
| "typeEnds (NamedType d i) = [sp_end (id_span i)]"
| "typeEnds (ListType d ls t) = sp_end (typeSpan t) # typeEnds t"
| "typeEnds (RecordType d rs lb fs rb) = sp_end rb # concat (map fieldEnds fs)"
| "fieldEnds (Field d i t semi) = sp_end semi # typeEnds t"

text \<open>What a stretch of the traversal adds to the attacher, the node ends in any order.\<close>

definition gathers :: "attacher \<Rightarrow> attacher \<Rightarrow> nat list \<Rightarrow> nat list \<Rightarrow> nat list \<Rightarrow> bool" where
  "gathers a a' starts prefixes ends \<longleftrightarrow>
     at_tokens a' = at_tokens a \<and> at_anchors a' = at_anchors a @ starts
     \<and> at_prefixes a' = at_prefixes a @ prefixes \<and> mset (at_ends a') = mset (at_ends a @ ends)"

lemma gathers_trans:
  "gathers a b s p e \<Longrightarrow> gathers b c s' p' e' \<Longrightarrow> gathers a c (s @ s') (p @ p') (e @ e')"
  by (simp add: gathers_def)

lemmas add_defs = addEnd_def addPrefix_def addAnchor_def

lemma walkListChain_gathers:
  "walkListChain cnt ls e a = (a', e') \<Longrightarrow>
   (\<exists>s p q. gathers a a' s p (replicate cnt (sp_end (typeSpan e)) @ q)
      \<and> s @ typeStarts e' = sp_start ls # typeStarts e \<and> p @ typePrefixes e' = sp_end ls # typePrefixes e
      \<and> mset (q @ typeEnds e') = mset (sp_end (typeSpan e) # typeEnds e))
   \<and> (\<forall>d ls t. e' \<noteq> ListType d ls t)"
proof (induction cnt ls e a arbitrary: a' e' rule: walkListChain.induct)
  case (1 cnt ls d ls' e a)
  from "1.IH" [of a' e'] "1.prems" obtain s p q where
    g: "gathers (addAnchor (sp_start ls) (addPrefix (sp_end ls) a)) a' s p
          (replicate (Suc cnt) (sp_end (typeSpan e)) @ q)"
    "s @ typeStarts e' = sp_start ls' # typeStarts e" "p @ typePrefixes e' = sp_end ls' # typePrefixes e"
    "mset (q @ typeEnds e') = mset (sp_end (typeSpan e) # typeEnds e)" "\<forall>d ls t. e' \<noteq> ListType d ls t"
    by auto
  from g show ?case
    by (intro conjI exI [of _ "sp_start ls # s"] exI [of _ "sp_end ls # p"] exI [of _ "sp_end (typeSpan e) # q"])
       (auto simp: gathers_def add_defs)
qed (auto simp: gathers_def add_defs Let_def)

definition stackStarts :: "(Field list \<times> nat) list \<Rightarrow> nat list" where
  "stackStarts stack = concat (map (\<lambda>(fs, n). concat (map fieldStarts (drop n fs))) stack)"

definition stackPrefixes :: "(Field list \<times> nat) list \<Rightarrow> nat list" where
  "stackPrefixes stack = concat (map (\<lambda>(fs, n). concat (map fieldPrefixes (drop n fs))) stack)"

definition stackEnds :: "(Field list \<times> nat) list \<Rightarrow> nat list" where
  "stackEnds stack = concat (map (\<lambda>(fs, n). concat (map fieldEnds (drop n fs))) stack)"

lemmas stack_defs = stackStarts_def stackPrefixes_def stackEnds_def

lemma descend_None: "descend stack = None \<Longrightarrow> stackStarts stack = [] \<and> stackPrefixes stack = [] \<and> stackEnds stack = []"
  by (induction stack rule: descend.induct) (auto simp: stack_defs split: if_splits)

lemma descend_Some:
  "descend stack = Some (fld, stack') \<Longrightarrow>
   stackStarts stack = fieldStarts fld @ stackStarts stack' \<and> stackPrefixes stack = fieldPrefixes fld @ stackPrefixes stack'
   \<and> stackEnds stack = fieldEnds fld @ stackEnds stack'"
  by (induction stack rule: descend.induct)
     (auto simp: stack_defs Cons_nth_drop_Suc [symmetric] split: if_splits)

lemma gathers_step:
  assumes "\<forall>d ls e. t \<noteq> ListType d ls e"
  shows "\<exists>s p q. gathers a (typeAnchor t a) s p q
    \<and> typeStarts t @ stackStarts stack = s @ stackStarts (openFrame t stack)
    \<and> typePrefixes t @ stackPrefixes stack = p @ stackPrefixes (openFrame t stack)
    \<and> typeEnds t @ stackEnds stack = q @ stackEnds (openFrame t stack)"
  using assms
  by (cases t) (auto simp: gathers_def add_defs openFrame_def stack_defs)

lemma gathers_field:
  "gathers a (fieldAnchor fld a) [sp_start (id_span (fieldName fld))] [sp_end (id_span (fieldName fld))]
     [sp_end (fieldSpan fld)]"
  by (simp add: gathers_def fieldAnchor_def add_defs)

lemma field_lists:
  "fieldStarts fld = sp_start (id_span (fieldName fld)) # typeStarts (fieldType fld)"
  "fieldPrefixes fld = sp_end (id_span (fieldName fld)) # typePrefixes (fieldType fld)"
  "fieldEnds fld = sp_end (fieldSpan fld) # typeEnds (fieldType fld)"
  by (cases fld; simp)+

lemma gathers_mset: "gathers a a' s p e \<Longrightarrow> mset e = mset e' \<Longrightarrow> gathers a a' s p e'"
  by (simp add: gathers_def)

lemma walkLoop_gathers:
  "gathers a (walkLoop a stack t) (typeStarts t @ stackStarts stack) (typePrefixes t @ stackPrefixes stack)
     (typeEnds t @ stackEnds stack)"
proof (induction a stack t rule: walkLoop.induct)
  case (1 a stack t)
  show ?case
  proof (cases "\<exists>d ls e. t = ListType d ls e")
    case True
    then obtain d ls e where t: "t = ListType d ls e" by blast
    obtain a' e' where w: "walkListChain 0 ls e a = (a', e')" by force
    from walkListChain_gathers [OF w] obtain s p q where
      g: "gathers a a' s p q" "s @ typeStarts e' = typeStarts t" "p @ typePrefixes e' = typePrefixes t"
        "mset (q @ typeEnds e') = mset (typeEnds t)" by (auto simp: t)
    have run: "walkLoop a stack t = walkLoop a' stack e'"
      by (subst walkLoop.simps) (simp add: t w)
    from gathers_trans [OF g(1) "1.IH"(3) [OF t w [symmetric]]]
    have "gathers a (walkLoop a stack t) (s @ typeStarts e' @ stackStarts stack)
       (p @ typePrefixes e' @ stackPrefixes stack) (q @ typeEnds e' @ stackEnds stack)"
      by (simp add: run)
    moreover have "s @ typeStarts e' @ stackStarts stack = typeStarts t @ stackStarts stack"
      using g(2) by (metis append.assoc)
    moreover have "p @ typePrefixes e' @ stackPrefixes stack = typePrefixes t @ stackPrefixes stack"
      using g(3) by (metis append.assoc)
    moreover have "mset (q @ typeEnds e' @ stackEnds stack) = mset (typeEnds t @ stackEnds stack)"
      using g(4) by (metis append.assoc mset_append)
    ultimately show ?thesis by (simp add: gathers_def)
  next
    case False
    from gathers_step [of t a stack] False obtain s p q where
      g: "gathers a (typeAnchor t a) s p q"
        "typeStarts t @ stackStarts stack = s @ stackStarts (openFrame t stack)"
        "typePrefixes t @ stackPrefixes stack = p @ stackPrefixes (openFrame t stack)"
        "typeEnds t @ stackEnds stack = q @ stackEnds (openFrame t stack)" by blast
    show ?thesis
    proof (cases "descend (openFrame t stack)")
      case None
      with False have "walkLoop a stack t = typeAnchor t a"
        by (subst walkLoop.simps) (auto simp: Let_def split: TypeExpr.splits)
      with g descend_None [OF None] show ?thesis by simp
    next
      case (Some x)
      then obtain fld stack' where x: "descend (openFrame t stack) = Some (fld, stack')" by (cases x) simp
      from False x have run: "walkLoop a stack t = walkLoop (fieldAnchor fld (typeAnchor t a)) stack' (fieldType fld)"
        by (subst walkLoop.simps) (auto simp: Let_def split: TypeExpr.splits)
      have ih: "gathers (fieldAnchor fld (typeAnchor t a)) (walkLoop a stack t) (typeStarts (fieldType fld) @ stackStarts stack')
         (typePrefixes (fieldType fld) @ stackPrefixes stack') (typeEnds (fieldType fld) @ stackEnds stack')"
      proof (cases t)
        case (PrimType d k sp)
        from "1.IH"(1) [OF this refl x refl] run show ?thesis by simp
      next
        case (NamedType d i)
        from "1.IH"(2) [OF this refl x refl] run show ?thesis by simp
      next
        case (RecordType d rs lb fs rb)
        from "1.IH"(4) [OF this refl x refl] run show ?thesis by simp
      qed (use False in simp)
      from gathers_trans [OF gathers_trans [OF g(1) gathers_field [of _ fld]] ih] descend_Some [OF x] g(2-4)
      show ?thesis by (simp add: field_lists)
    qed
  qed
qed

lemma walkType_gathers: "gathers a (walkType t a) (typeStarts t) (typePrefixes t) (typeEnds t)"
  using walkLoop_gathers [of a "[]" t] by (simp add: walkType_def stack_defs)

definition optStarts :: "TypeExpr option \<Rightarrow> nat list" where
  "optStarts t = (case t of None \<Rightarrow> [] | Some t \<Rightarrow> typeStarts t)"

definition optPrefixes :: "TypeExpr option \<Rightarrow> nat list" where
  "optPrefixes t = (case t of None \<Rightarrow> [] | Some t \<Rightarrow> typePrefixes t)"

definition optEnds :: "TypeExpr option \<Rightarrow> nat list" where
  "optEnds t = (case t of None \<Rightarrow> [] | Some t \<Rightarrow> typeEnds t)"

lemma walkOpt_gathers: "gathers a (walkOpt t a) (optStarts t) (optPrefixes t) (optEnds t)"
  by (cases t) (simp_all add: walkOpt_def optStarts_def optPrefixes_def optEnds_def walkType_gathers, simp add: gathers_def)

definition paramStarts :: "Param \<Rightarrow> nat list" where
  "paramStarts p = sp_start (id_span (paramName p)) # typeStarts (paramType p)"

definition paramPrefixes :: "Param \<Rightarrow> nat list" where
  "paramPrefixes p = sp_end (id_span (paramName p)) # typePrefixes (paramType p)"

definition paramEnds :: "Param \<Rightarrow> nat list" where
  "paramEnds p = sp_end (paramSpan p) # typeEnds (paramType p)"

lemma params_gather:
  "gathers a (foldl (\<lambda>a p. walkType (paramType p) (paramAnchor p a)) a ps)
     (concat (map paramStarts ps)) (concat (map paramPrefixes ps)) (concat (map paramEnds ps))"
proof (induction ps arbitrary: a)
  case (Cons p ps)
  have "gathers a (walkType (paramType p) (paramAnchor p a)) (paramStarts p) (paramPrefixes p) (paramEnds p)"
    using gathers_trans [OF _ walkType_gathers, of a "paramAnchor p a"]
    by (auto simp: gathers_def paramAnchor_def add_defs paramStarts_def paramPrefixes_def paramEnds_def)
  from gathers_trans [OF this Cons.IH] show ?case by simp
qed (simp add: gathers_def)

fun declStarts :: "Decl \<Rightarrow> nat list" where
  "declStarts (TypeDecl d kw i t semi) = sp_start kw # typeStarts t"
| "declStarts (ExceptionDecl d kw i t semi) = sp_start kw # optStarts t"
| "declStarts (ProcDecl d kw i lb ps rb res semi) = sp_start kw # concat (map paramStarts ps) @ optStarts res"

fun declPrefixes :: "Decl \<Rightarrow> nat list" where
  "declPrefixes (TypeDecl d kw i t semi) = sp_end (id_span i) # typePrefixes t"
| "declPrefixes (ExceptionDecl d kw i t semi) = sp_end (id_span i) # optPrefixes t"
| "declPrefixes (ProcDecl d kw i lb ps rb res semi) = sp_end rb # concat (map paramPrefixes ps) @ optPrefixes res"

fun declEnds :: "Decl \<Rightarrow> nat list" where
  "declEnds (TypeDecl d kw i t semi) = sp_end semi # typeEnds t"
| "declEnds (ExceptionDecl d kw i t semi) = sp_end semi # optEnds t"
| "declEnds (ProcDecl d kw i lb ps rb res semi) = sp_end semi # concat (map paramEnds ps) @ optEnds res"

lemma gathers_head: "gathers a (addAnchor s (addPrefix p (addEnd e a))) [s] [p] [e]"
  by (simp add: gathers_def add_defs)

lemma collectDecl_gathers: "gathers a (collectDecl d a) (declStarts d) (declPrefixes d) (declEnds d)"
proof (cases d)
  case (TypeDecl dc kw i t semi)
  from gathers_trans [OF gathers_head walkType_gathers] show ?thesis by (simp add: TypeDecl)
next
  case (ExceptionDecl dc kw i t semi)
  from gathers_trans [OF gathers_head walkOpt_gathers] show ?thesis by (simp add: ExceptionDecl)
next
  case (ProcDecl dc kw i lb ps rb res semi)
  from gathers_trans [OF gathers_trans [OF gathers_head params_gather] walkOpt_gathers] show ?thesis
    by (simp add: ProcDecl)
qed

lemma collectDecls_gather:
  "gathers a (foldl (\<lambda>a d. collectDecl d a) a ds) (concat (map declStarts ds)) (concat (map declPrefixes ds))
     (concat (map declEnds ds))"
proof (induction ds arbitrary: a)
  case (Cons d ds)
  from gathers_trans [OF collectDecl_gathers Cons.IH] show ?case by simp
qed (simp add: gathers_def)

lemma collect_recursive:
  "collect fl =
     \<lparr>at_tokens = map (\<lambda>t. sp_end (tk_span t)) (filter (\<lambda>t. tk_kind t \<noteq> TokComment) (fst (scanAll (source.truncate fl) NewScanner))),
      at_ends = sort (concat (map declEnds (fi_decls fl))),
      at_prefixes = sort (concat (map declPrefixes (fi_decls fl))),
      at_anchors = concat (map declStarts (fi_decls fl))\<rparr>"
proof -
  let ?start = "\<lparr>at_tokens = map (\<lambda>t. sp_end (tk_span t)) (filter (\<lambda>t. tk_kind t \<noteq> TokComment) (fst (scanAll (source.truncate fl) NewScanner))),
                at_ends = [], at_prefixes = [], at_anchors = []\<rparr>"
  let ?acc = "foldl (\<lambda>a d. collectDecl d a) ?start (fi_decls fl)"
  from collectDecls_gather [of ?start "fi_decls fl"] have
    "at_tokens ?acc = at_tokens ?start" "at_anchors ?acc = concat (map declStarts (fi_decls fl))"
    "at_prefixes ?acc = concat (map declPrefixes (fi_decls fl))" "mset (at_ends ?acc) = mset (concat (map declEnds (fi_decls fl)))"
    by (simp_all add: gathers_def)
  moreover from this(4) have "sort (at_ends ?acc) = sort (concat (map declEnds (fi_decls fl)))"
    by (metis mset_sort properties_for_sort sorted_sort)
  ultimately show ?thesis by (simp add: collect_def Let_def)
qed

section \<open>The slots\<close>

text \<open>Every slot set to the value of a function at the slot's anchor.\<close>

fun redocType :: "(nat \<Rightarrow> string) \<Rightarrow> TypeExpr \<Rightarrow> TypeExpr"
and redocField :: "(nat \<Rightarrow> string) \<Rightarrow> Field \<Rightarrow> Field" where
  "redocType g (PrimType d k sp) = PrimType (g (sp_start sp)) k sp"
| "redocType g (NamedType d i) = NamedType (g (sp_start (id_span i))) i"
| "redocType g (ListType d ls t) = ListType (g (sp_start ls)) ls (redocType g t)"
| "redocType g (RecordType d rs lb fs rb) = RecordType (g (sp_start rs)) rs lb (map (redocField g) fs) rb"
| "redocField g (Field d i t semi) = Field (g (sp_start (id_span i))) i (redocType g t) semi"

fun redocParam :: "(nat \<Rightarrow> string) \<Rightarrow> Param \<Rightarrow> Param" where
  "redocParam g (Param d i t semi) = Param (g (sp_start (id_span i))) i (redocType g t) semi"

fun redocDecl :: "(nat \<Rightarrow> string) \<Rightarrow> Decl \<Rightarrow> Decl" where
  "redocDecl g (TypeDecl d kw i t semi) = TypeDecl (g (sp_start kw)) kw i (redocType g t) semi"
| "redocDecl g (ExceptionDecl d kw i t semi) =
     ExceptionDecl (g (sp_start kw)) kw i (map_option (redocType g) t) semi"
| "redocDecl g (ProcDecl d kw i lb ps rb res semi) =
     ProcDecl (g (sp_start kw)) kw i lb (map (redocParam g) ps) rb (map_option (redocType g) res) semi"

lemma slot_Cons [simp]: "slot (d # ds) = d"
  by (simp add: slot_def)

lemma setFields_redoc:
  "(\<And>fld ds. fld \<in> set fs \<Longrightarrow> setField fld (map g (fieldStarts fld) @ ds) = (redocField g fld, ds)) \<Longrightarrow>
   setFields fs (map g (concat (map fieldStarts fs)) @ ds) = (map (redocField g) fs, ds)"
  by (induction fs arbitrary: ds) auto

lemma setType_redoc:
  shows "setType t (map g (typeStarts t) @ ds) = (redocType g t, ds)"
    and "setField fld (map g (fieldStarts fld) @ ds) = (redocField g fld, ds)"
proof (induction t and fld arbitrary: ds and ds)
  case (RecordType d rs lb fs rb)
  then show ?case by (simp add: setFields_redoc)
qed simp_all

lemma setParams_redoc: "setParams ps (map g (concat (map paramStarts ps)) @ ds) = (map (redocParam g) ps, ds)"
proof (induction ps arbitrary: ds)
  case (Cons p ps)
  then show ?case by (cases p) (simp add: paramStarts_def setType_redoc)
qed simp

lemma setOpt_redoc: "setOpt t (map g (optStarts t) @ ds) = (map_option (redocType g) t, ds)"
  by (cases t) (simp_all add: setOpt_def optStarts_def setType_redoc)

lemma setDecl_redoc: "setDecl d (map g (declStarts d) @ ds) = (redocDecl g d, ds)"
  by (cases d) (simp_all add: setType_redoc setOpt_redoc setParams_redoc)

lemma setDecls_redoc: "setDecls dcs (map g (concat (map declStarts dcs)) @ ds) = (map (redocDecl g) dcs, ds)"
  by (induction dcs arbitrary: ds) (simp_all add: setDecl_redoc)

text \<open>The document of the anchor at an offset.\<close>

definition docAt :: "'a ifile_scheme \<Rightarrow> nat \<Rightarrow> string" where
  "docAt fl start = (case anchorDoc fl (collect fl) start of None \<Rightarrow> [] | Some d \<Rightarrow> d)"

lemma AttachDocs_slots: "AttachDocs fl = fl\<lparr>fi_decls := map (redocDecl (docAt fl)) (fi_decls fl)\<rparr>"
proof -
  have "attach fl (collect fl) = map (docAt fl) (concat (map declStarts (fi_decls fl)))"
    by (simp add: attach_def docAt_def collect_recursive)
  with setDecls_redoc [of "fi_decls fl" "docAt fl" "[]"] show ?thesis by (simp add: AttachDocs_def)
qed

text \<open>Documents change no span, hence nothing that attachment looks at.\<close>

lemma redoc_spans_type:
  shows "typeSpan (redocType g t) = typeSpan t \<and> typeStarts (redocType g t) = typeStarts t
      \<and> typePrefixes (redocType g t) = typePrefixes t \<and> typeEnds (redocType g t) = typeEnds t
      \<and> redocType h (redocType g t) = redocType h t"
    and "fieldStarts (redocField g fld) = fieldStarts fld
      \<and> fieldPrefixes (redocField g fld) = fieldPrefixes fld \<and> fieldEnds (redocField g fld) = fieldEnds fld
      \<and> redocField h (redocField g fld) = redocField h fld"
proof (induction t and fld)
  case (RecordType d rs lb fs rb)
  then have m: "map (fieldStarts \<circ> redocField g) fs = map fieldStarts fs"
    "map (fieldPrefixes \<circ> redocField g) fs = map fieldPrefixes fs" "map (fieldEnds \<circ> redocField g) fs = map fieldEnds fs"
    "map (redocField h \<circ> redocField g) fs = map (redocField h) fs"
    by (auto intro!: map_cong)
  show ?case by (simp add: m)
qed simp_all

lemma redoc_spans_param:
  "paramStarts (redocParam g p) = paramStarts p \<and> paramPrefixes (redocParam g p) = paramPrefixes p
   \<and> paramEnds (redocParam g p) = paramEnds p \<and> redocParam h (redocParam g p) = redocParam h p"
  by (cases p) (simp add: paramStarts_def paramPrefixes_def paramEnds_def redoc_spans_type)

lemma redoc_spans_opt:
  "optStarts (map_option (redocType g) t) = optStarts t \<and> optPrefixes (map_option (redocType g) t) = optPrefixes t
   \<and> optEnds (map_option (redocType g) t) = optEnds t
   \<and> map_option (redocType h) (map_option (redocType g) t) = map_option (redocType h) t"
  by (cases t) (simp_all add: optStarts_def optPrefixes_def optEnds_def redoc_spans_type)

lemma redoc_spans_decl:
  "declStarts (redocDecl g d) = declStarts d \<and> declPrefixes (redocDecl g d) = declPrefixes d
   \<and> declEnds (redocDecl g d) = declEnds d \<and> redocDecl h (redocDecl g d) = redocDecl h d"
  by (cases d) (simp_all add: redoc_spans_type redoc_spans_opt redoc_spans_param comp_def del: option.map_comp)

lemma truncate_decls [simp]: "source.truncate (fl\<lparr>fi_decls := ds\<rparr>) = source.truncate fl"
  by (cases fl) (simp add: source.truncate_def)

lemma collect_redoc: "collect (fl\<lparr>fi_decls := map (redocDecl g) (fi_decls fl)\<rparr>) = collect fl"
  by (simp add: collect_recursive redoc_spans_decl comp_def)

lemma isTrailing_decls: "isTrailing (fl\<lparr>fi_decls := ds\<rparr>) a = isTrailing fl a"
  by (rule ext) (simp add: isTrailing_def lineOf_def)

lemma anchorDoc_decls: "anchorDoc (fl\<lparr>fi_decls := ds\<rparr>) a start = anchorDoc fl a start"
  by (simp add: anchorDoc_def skipTrailing_def isTrailing_decls Let_def)

lemma docAt_AttachDocs: "docAt (AttachDocs fl) = docAt fl"
  by (rule ext) (simp add: docAt_def AttachDocs_slots collect_redoc anchorDoc_decls)

section \<open>Properties of attachment\<close>

text \<open>
  The frame stack and the list chains of \<open>collect\<close> are the pre-order traversal: for
  every file the anchors are those of the recursive traversal in source order, and the
  sorted ends of nodes and of type prefixes are those of the recursive traversal.
\<close>

theorem collect_preorder:
  "collect fl =
     \<lparr>at_tokens = map (\<lambda>t. sp_end (tk_span t))
        (filter (\<lambda>t. tk_kind t \<noteq> TokComment) (fst (scanAll (source.truncate fl) NewScanner))),
      at_ends = sort (concat (map declEnds (fi_decls fl))),
      at_prefixes = sort (concat (map declPrefixes (fi_decls fl))),
      at_anchors = concat (map declStarts (fi_decls fl))\<rparr>"
  by (rule collect_recursive)

text \<open>
  Attachment gives every slot the document of its own anchor and nothing else changes,
  so it forgets documents set before, and attaching again changes nothing.
\<close>

theorem AttachDocs_idempotent:
  "AttachDocs fl = fl\<lparr>fi_decls := map (redocDecl (docAt fl)) (fi_decls fl)\<rparr>
   \<and> AttachDocs (AttachDocs fl) = AttachDocs fl
   \<and> AttachDocs (fl\<lparr>fi_decls := map (redocDecl g) (fi_decls fl)\<rparr>) = AttachDocs fl"
proof -
  have again: "AttachDocs (fl\<lparr>fi_decls := map (redocDecl g) (fi_decls fl)\<rparr>) = AttachDocs fl" for g
    by (simp add: AttachDocs_slots docAt_def [abs_def] collect_redoc anchorDoc_decls redoc_spans_decl comp_def)
  from again [of "docAt fl"] again [of g] show ?thesis by (simp add: AttachDocs_slots)
qed

end
