(* ===== verification/Generation_Model.thy ===== *)
theory Generation_Model
  imports Overrides Projection_Depth Docs "HOL-Library.AList"
begin

text \<open>
  The generation records of a validated interface: \<open>go/internal/tool/model.go\<close>. The map of type
  declarations is the association list its assignments build, looked up by \<open>map_of\<close>; a missing
  entry of a name table is the empty string. \<open>zeroWidthOf\<close> follows named references through
  that map, which could go on for ever: it takes the number of references it may follow, one
  more than there are declarations, which is enough on a validated interface.
\<close>

section \<open>Records\<close>

record TypeFact =
  tf_Type :: TypeExpr
  tf_GoType :: string
  tf_ZeroWidth :: bool

record TypeRec =
  tr_Decl :: Decl
  tr_GoName :: string
  tr_ZeroWidth :: bool

record ExceptionRec =
  xr_Decl :: Decl
  xr_GoName :: string
  xr_Key :: u64
  xr_Payload :: "TypeFact option"

record ParamRec =
  pm_Decl :: Param
  pm_GoName :: string
  pm_Type :: TypeFact

record ProcRec =
  pc_Decl :: Decl
  pc_GoName :: string
  pc_Key :: u64
  pc_Params :: "ParamRec list"
  pc_Result :: "TypeFact option"

type_synonym type_decls = "(string \<times> Decl) list"

record Model =
  md_Types :: "TypeRec list"
  md_Exceptions :: "ExceptionRec list"
  md_Procs :: "ProcRec list"
  md_names :: Names
  md_types :: type_decls

section \<open>Go types and wire texts\<close>

definition goDeclName :: "Names \<Rightarrow> Decl \<Rightarrow> string" where
  "goDeclName names d = (case nm_Decl names (declNode d) of None \<Rightarrow> [] | Some g \<Rightarrow> g)"

definition goFieldName :: "Names \<Rightarrow> Field \<Rightarrow> string" where
  "goFieldName names f = (case nm_Field names (fieldNode f) of None \<Rightarrow> [] | Some g \<Rightarrow> g)"

definition goParamName :: "Names \<Rightarrow> Param \<Rightarrow> string" where
  "goParamName names p = (case nm_Param names (paramNode p) of None \<Rightarrow> [] | Some g \<Rightarrow> g)"

text \<open>\<open>names.Decl[types[name]]\<close>: an undeclared name has the name of no declaration, the empty string.\<close>

definition namedGoType :: "Names \<Rightarrow> type_decls \<Rightarrow> string \<Rightarrow> string" where
  "namedGoType names types n = (case map_of types n of None \<Rightarrow> [] | Some d \<Rightarrow> goDeclName names d)"

fun goTypeOf :: "Names \<Rightarrow> type_decls \<Rightarrow> TypeExpr \<Rightarrow> string"
and goFieldLine :: "Names \<Rightarrow> type_decls \<Rightarrow> Field \<Rightarrow> string" where
  "goTypeOf names types (PrimType d k sp) = (if k = TokBytes then ''[]byte'' else kindString k)"
| "goTypeOf names types (NamedType d i) = namedGoType names types (id_name i)"
| "goTypeOf names types (ListType d ls t) = ''[]'' @ goTypeOf names types t"
| "goTypeOf names types (RecordType d rs lb fs rb) =
     (if fs = [] then ''struct{}''
      else ''struct {'' @ [CHR 0x0A] @ concat (map (goFieldLine names types) fs) @ ''}'')"
| "goFieldLine names types (Field d i t semi) =
     [CHR 0x09] @ goFieldName names (Field d i t semi) @ '' '' @ goTypeOf names types t
       @ '' '' @ [CHR 0x60] @ ''intercall:'' @ quoted (id_name i) @ [CHR 0x60, CHR 0x0A]"

fun typeKeyOf :: "TypeExpr \<Rightarrow> string" and fieldKey :: "Field \<Rightarrow> string" where
  "typeKeyOf (PrimType d k sp) = kindString k"
| "typeKeyOf (NamedType d i) = id_name i"
| "typeKeyOf (ListType d ls t) = ''list '' @ typeKeyOf t"
| "typeKeyOf (RecordType d rs lb fs rb) =
     ''record{'' @ joinWith [CHR '';''] (map fieldKey fs) @ ''}''"
| "fieldKey (Field d i t semi) = id_name i @ '' '' @ typeKeyOf t"

fun isAnonymousType :: "TypeExpr \<Rightarrow> bool" where
  "isAnonymousType (ListType d ls t) = True"
| "isAnonymousType (RecordType d rs lb fs rb) = True"
| "isAnonymousType t = False"

section \<open>Zero width\<close>

text \<open>The underlying type of a name; a missing declaration is the dereference of a nil pointer.\<close>

definition namedType :: "type_decls \<Rightarrow> string \<Rightarrow> TypeExpr option" where
  "namedType types n = (case map_of types n of Some (TypeDecl d kw i t semi) \<Rightarrow> Some t | _ \<Rightarrow> None)"

function zeroWidthOf :: "nat \<Rightarrow> type_decls \<Rightarrow> TypeExpr \<Rightarrow> bool option"
and zeroWidthFields :: "nat \<Rightarrow> type_decls \<Rightarrow> Field list \<Rightarrow> bool option" where
  "zeroWidthOf k types (PrimType d p sp) = Some False"
| "zeroWidthOf k types (NamedType d i) =
     (case k of 0 \<Rightarrow> None
      | Suc k' \<Rightarrow> (case namedType types (id_name i) of None \<Rightarrow> None | Some t \<Rightarrow> zeroWidthOf k' types t))"
| "zeroWidthOf k types (ListType d ls t) = Some False"
| "zeroWidthOf k types (RecordType d rs lb fs rb) = zeroWidthFields k types fs"
| "zeroWidthFields k types [] = Some True"
| "zeroWidthFields k types (f # fs) =
     (case zeroWidthOf k types (fieldType f) of
        None \<Rightarrow> None
      | Some zero \<Rightarrow> if \<not> zero then Some False else zeroWidthFields k types fs)"
  by pat_completeness auto
termination
  by (relation "measures [\<lambda>x. case x of Inl (k, types, t) \<Rightarrow> k | Inr (k, types, fs) \<Rightarrow> k,
        \<lambda>x. case x of Inl (k, types, t) \<Rightarrow> typeWork t | Inr (k, types, fs) \<Rightarrow> Suc (sum_list (map fieldWork fs))]")
     (auto simp: fieldWork_type)

text \<open>The call of \<open>zeroWidthOf\<close>, with enough steps.\<close>

definition zeroWidth :: "type_decls \<Rightarrow> TypeExpr \<Rightarrow> bool" where
  "zeroWidth types t = (zeroWidthOf (Suc (length types)) types t = Some True)"

section \<open>Building\<close>

definition typeFact :: "TypeExpr \<Rightarrow> Names \<Rightarrow> type_decls \<Rightarrow> TypeFact" where
  "typeFact t names types = \<lparr>tf_Type = t, tf_GoType = goTypeOf names types t, tf_ZeroWidth = zeroWidth types t\<rparr>"

fun addType :: "Decl \<Rightarrow> type_decls \<Rightarrow> type_decls" where
  "addType (TypeDecl d kw i t semi) types = AList.update (id_name i) (TypeDecl d kw i t semi) types"
| "addType d types = types"

definition paramRec :: "Names \<Rightarrow> type_decls \<Rightarrow> Param \<Rightarrow> ParamRec" where
  "paramRec names types p =
     \<lparr>pm_Decl = p, pm_GoName = goParamName names p, pm_Type = typeFact (paramType p) names types\<rparr>"

fun addRec :: "Decl \<Rightarrow> Model \<Rightarrow> Model" where
  "addRec (TypeDecl d kw i t semi) m =
     (let dec = TypeDecl d kw i t semi
      in m\<lparr>md_Types := md_Types m @
            [\<lparr>tr_Decl = dec, tr_GoName = goDeclName (md_names m) dec, tr_ZeroWidth = zeroWidth (md_types m) t\<rparr>]\<rparr>)"
| "addRec (ExceptionDecl d kw i ot semi) m =
     (let dec = ExceptionDecl d kw i ot semi
      in m\<lparr>md_Exceptions := md_Exceptions m @
            [\<lparr>xr_Decl = dec, xr_GoName = goDeclName (md_names m) dec, xr_Key = ExceptionKey (id_name i),
              xr_Payload = (case ot of None \<Rightarrow> None | Some t \<Rightarrow> Some (typeFact t (md_names m) (md_types m)))\<rparr>]\<rparr>)"
| "addRec (ProcDecl d kw i lb ps rb res semi) m =
     (let dec = ProcDecl d kw i lb ps rb res semi
      in m\<lparr>md_Procs := md_Procs m @
            [\<lparr>pc_Decl = dec, pc_GoName = goDeclName (md_names m) dec, pc_Key = ProcedureKey (id_name i),
              pc_Params = map (paramRec (md_names m) (md_types m)) ps,
              pc_Result = (case res of None \<Rightarrow> None | Some t \<Rightarrow> Some (typeFact t (md_names m) (md_types m)))\<rparr>]\<rparr>)"

definition buildModel :: "unicode_tables \<Rightarrow> 'a ifile_scheme \<Rightarrow> Override list \<Rightarrow> override_error + Model" where
  "buildModel U fl overrides =
     (case ProjectNames U fl overrides of
        Inl e \<Rightarrow> Inl e
      | Inr names \<Rightarrow>
          Inr (fold addRec (fi_decls fl)
            \<lparr>md_Types = [], md_Exceptions = [], md_Procs = [], md_names = names,
             md_types = fold addType (fi_decls fl) []\<rparr>))"

datatype model_error = TooDeep depth_error | BadNames override_error

definition BuildModel :: "unicode_tables \<Rightarrow> 'a ifile_scheme \<Rightarrow> model_error + Model" where
  "BuildModel U fl =
     (case checkSyntaxProjectionDepth fl of
        Some e \<Rightarrow> Inl (TooDeep e)
      | None \<Rightarrow> (case buildModel U fl [] of Inl e \<Rightarrow> Inl (BadNames e) | Inr m \<Rightarrow> Inr m))"

end
