(* ===== verification/Codec_Emitter.thy ===== *)
theory Codec_Emitter
  imports Generation_Model
begin

text \<open>
  The emission of value codecs: \<open>go/internal/tool/codec.go\<close> with the buffer of \<open>emit.go\<close> and the
  file frame of \<open>fixture.go\<close>. The emitter writes lines; here it first makes the statements those
  lines are, and \<open>encText\<close> and \<open>decText\<close> print them with the indentation the buffer tracks. An
  expression the code keeps as text is its tree, \<open>exprText\<close> prints it. What the statements do
  when they run is the matter of \<open>Codec_Programs\<close>.
\<close>

section \<open>Lines\<close>

text \<open>\<open>source.linef\<close> at an indentation: a list of lines, joined by \<open>sourceText\<close>.\<close>

definition line :: "nat \<Rightarrow> string \<Rightarrow> string" where
  "line ind s = replicate ind CHR 0x09 @ s"

definition sourceText :: "string list \<Rightarrow> string" where
  "sourceText ls = concat (map (\<lambda>l. l @ [CHR 0x0A]) ls)"

fun showNat :: "nat \<Rightarrow> string" where
  "showNat n = (if n < 10 then [char_of (48 + n)] else showNat (n div 10) @ [char_of (48 + n mod 10)])"

declare showNat.simps [simp del]

section \<open>Names\<close>

definition codecName :: "string \<Rightarrow> string list \<Rightarrow> string" where
  "codecName kind parts = ManglePrivate (kind # parts)"

definition primitiveParts :: "TokenKind \<Rightarrow> string list" where
  "primitiveParts k = [kindString k]"

definition namedParts :: "string \<Rightarrow> string list" where
  "namedParts wire = [''type'', wire]"

definition maxIntName :: string where "maxIntName = ManglePrivate [''maxint'']"
definition errShortName :: string where "errShortName = ManglePrivate [''error'', ''short'']"
definition errLongName :: string where "errLongName = ManglePrivate [''error'', ''long'']"
definition errNaNName :: string where "errNaNName = ManglePrivate [''error'', ''nan'']"
definition errUTF8Name :: string where "errUTF8Name = ManglePrivate [''error'', ''utf8'']"

definition primitiveKinds :: "TokenKind list" where
  "primitiveKinds =
    [TokInt8, TokInt16, TokInt32, TokInt64, TokUint8, TokUint16, TokUint32, TokUint64,
     TokFloat32, TokFloat64, TokString, TokBytes]"

section \<open>Registration of anonymous types\<close>

record codecEmitter =
  em_anon :: "(string \<times> TypeExpr) list"
  em_order :: "string list"

definition newCodecEmitter :: codecEmitter where
  "newCodecEmitter = \<lparr>em_anon = [], em_order = []\<rparr>"

fun registerType :: "TypeExpr \<Rightarrow> codecEmitter \<Rightarrow> codecEmitter"
and registerField :: "Field \<Rightarrow> codecEmitter \<Rightarrow> codecEmitter" where
  "registerType (PrimType d k sp) e = e"
| "registerType (NamedType d i) e = e"
| "registerType (ListType d ls t) e =
     (let akey = typeKeyOf (ListType d ls t) in
      if map_of (em_anon e) akey \<noteq> None then e
      else registerType t (e\<lparr>em_anon := (akey, ListType d ls t) # em_anon e, em_order := em_order e @ [akey]\<rparr>))"
| "registerType (RecordType d rs lb fs rb) e =
     (let akey = typeKeyOf (RecordType d rs lb fs rb) in
      if map_of (em_anon e) akey \<noteq> None then e
      else fold registerField fs
        (e\<lparr>em_anon := (akey, RecordType d rs lb fs rb) # em_anon e, em_order := em_order e @ [akey]\<rparr>))"
| "registerField (Field d i t semi) e = registerType t e"

fun registerUnderlying :: "TypeExpr \<Rightarrow> codecEmitter \<Rightarrow> codecEmitter" where
  "registerUnderlying (ListType d ls t) e = registerType t e"
| "registerUnderlying (RecordType d rs lb fs rb) e = fold registerField fs e"
| "registerUnderlying t e = e"

fun declUnderlying :: "Decl \<Rightarrow> TypeExpr option" where
  "declUnderlying (TypeDecl d kw i t semi) = Some t"
| "declUnderlying d = None"

definition registerAnonymous :: "TypeFact \<Rightarrow> codecEmitter \<Rightarrow> codecEmitter" where
  "registerAnonymous tf e = (if isAnonymousType (tf_Type tf) then registerType (tf_Type tf) e else e)"

definition registerOpt :: "TypeFact option \<Rightarrow> codecEmitter \<Rightarrow> codecEmitter" where
  "registerOpt opt e = (case opt of None \<Rightarrow> e | Some tf \<Rightarrow> registerAnonymous tf e)"

definition register :: "Model \<Rightarrow> codecEmitter \<Rightarrow> codecEmitter" where
  "register m e =
     fold (\<lambda>p e. registerOpt (pc_Result p) (fold (\<lambda>pr. registerAnonymous (pm_Type pr)) (pc_Params p) e)) (md_Procs m)
       (fold (\<lambda>x. registerOpt (xr_Payload x)) (md_Exceptions m)
         (fold (\<lambda>t e. case declUnderlying (tr_Decl t) of None \<Rightarrow> e | Some u \<Rightarrow> registerUnderlying u e) (md_Types m) e))"

section \<open>Statements\<close>

text \<open>
  A place of the value: \<open>v\<close>, a field of a place, an element at a loop index. A statement is one
  emitted group: a call of a codec with its error check, the count of a list, a loop; for
  decoders also the local count, its two checks and the allocation.
\<close>

datatype place = PVar | PSel place string | PIdx place nat

datatype encstmt =
    EncPart "string list" place
  | EncCount place
  | EncRange nat place "encstmt list"

datatype decstmt =
    DecPart place "string list"
  | DecCount nat
  | DecLimitInt nat
  | DecLimitRest nat
  | DecMake place TypeExpr nat
  | DecRange nat place "decstmt list"

text \<open>The fresh indices \<open>i0, i1, ...\<close> and counts of one pair.\<close>

definition indexName :: "nat \<Rightarrow> string" where
  "indexName k = ''i'' @ showNat k"

definition countName :: "nat \<Rightarrow> string" where
  "countName k = ''count'' @ showNat k"

text \<open>\<open>emitEncBody\<close> and \<open>emitEncList\<close>, with the sequence of loop indices.\<close>

fun emitEncBody :: "Names \<Rightarrow> type_decls \<Rightarrow> TypeExpr \<Rightarrow> place \<Rightarrow> nat \<Rightarrow> encstmt list \<times> nat"
and emitEncFields :: "Names \<Rightarrow> type_decls \<Rightarrow> Field list \<Rightarrow> place \<Rightarrow> nat \<Rightarrow> encstmt list \<times> nat" where
  "emitEncBody names types (PrimType d k sp) val idx = ([EncPart (primitiveParts k) val], idx)"
| "emitEncBody names types (NamedType d i) val idx = ([EncPart (namedParts (id_name i)) val], idx)"
| "emitEncBody names types (ListType d ls t) val idx =
     (if zeroWidth types t then ([EncCount val], idx)
      else let (body, idx') = emitEncBody names types t (PIdx val idx) (Suc idx)
        in ([EncCount val, EncRange idx val body], idx'))"
| "emitEncBody names types (RecordType d rs lb fs rb) val idx = emitEncFields names types fs val idx"
| "emitEncFields names types [] val idx = ([], idx)"
| "emitEncFields names types (Field d i t semi # fs) val idx =
     (if zeroWidth types t then emitEncFields names types fs val idx
      else let (part, idx1) = emitEncBody names types t (PSel val (goFieldName names (Field d i t semi))) idx;
               (rest, idx2) = emitEncFields names types fs val idx1
        in (part @ rest, idx2))"

text \<open>\<open>emitDecBody\<close> and \<open>emitDecList\<close>, with the sequences of loop indices and counts.\<close>

fun emitDecBody :: "Names \<Rightarrow> type_decls \<Rightarrow> TypeExpr \<Rightarrow> place \<Rightarrow> nat \<Rightarrow> nat \<Rightarrow> decstmt list \<times> nat \<times> nat"
and emitDecFields :: "Names \<Rightarrow> type_decls \<Rightarrow> Field list \<Rightarrow> place \<Rightarrow> nat \<Rightarrow> nat \<Rightarrow> decstmt list \<times> nat \<times> nat" where
  "emitDecBody names types (PrimType d k sp) dst idx cnt = ([DecPart dst (primitiveParts k)], idx, cnt)"
| "emitDecBody names types (NamedType d i) dst idx cnt = ([DecPart dst (namedParts (id_name i))], idx, cnt)"
| "emitDecBody names types (ListType d ls t) dst idx cnt =
     (if zeroWidth types t then
        ([DecCount cnt, DecLimitInt cnt, DecMake dst (ListType d ls t) cnt], idx, Suc cnt)
      else let (body, idx', cnt') = emitDecBody names types t (PIdx dst idx) (Suc idx) (Suc cnt)
        in ([DecCount cnt, DecLimitRest cnt, DecMake dst (ListType d ls t) cnt, DecRange idx dst body], idx', cnt'))"
| "emitDecBody names types (RecordType d rs lb fs rb) dst idx cnt = emitDecFields names types fs dst idx cnt"
| "emitDecFields names types [] dst idx cnt = ([], idx, cnt)"
| "emitDecFields names types (Field d i t semi # fs) dst idx cnt =
     (if zeroWidth types t then emitDecFields names types fs dst idx cnt
      else let (part, idx1, cnt1) = emitDecBody names types t (PSel dst (goFieldName names (Field d i t semi))) idx cnt;
               (rest, idx2, cnt2) = emitDecFields names types fs dst idx1 cnt1
        in (part @ rest, idx2, cnt2))"

section \<open>Codec pairs\<close>

datatype pairBody =
    PrimPair TokenKind
  | ZeroPair
  | DelegatePair string "string list"
  | GeneralPair "encstmt list" "decstmt list"

record codecPair =
  cp_parts :: "string list"
  cp_type :: TypeExpr
  cp_goType :: string
  cp_body :: pairBody

text \<open>\<open>emitGeneralPair\<close>: the indices run on from the encoder to the decoder.\<close>

definition generalBody :: "Names \<Rightarrow> type_decls \<Rightarrow> TypeExpr \<Rightarrow> pairBody" where
  "generalBody names types t =
     (let (es, idx) = emitEncBody names types t PVar 0; (ds, idx', cnt') = emitDecBody names types t PVar idx 0
      in GeneralPair es ds)"

definition emitPair :: "Names \<Rightarrow> type_decls \<Rightarrow> string list \<Rightarrow> string \<Rightarrow> TypeExpr \<Rightarrow> bool \<Rightarrow> codecPair" where
  "emitPair names types parts gt t zero =
     \<lparr>cp_parts = parts, cp_type = t, cp_goType = gt, cp_body =
       (if zero then ZeroPair
        else case t of
          PrimType d k sp \<Rightarrow> DelegatePair (goTypeOf names types t) (primitiveParts k)
        | NamedType d i \<Rightarrow> DelegatePair (goTypeOf names types t) (namedParts (id_name i))
        | _ \<Rightarrow> generalBody names types t)\<rparr>"

definition primPair :: "TokenKind \<Rightarrow> codecPair" where
  "primPair k = \<lparr>cp_parts = primitiveParts k, cp_type = PrimType [] k (Span 0 0),
     cp_goType = (if k \<noteq> TokBytes then kindString k else ''[]byte''), cp_body = PrimPair k\<rparr>"

definition emitNamedPair :: "Model \<Rightarrow> TypeRec \<Rightarrow> codecPair option" where
  "emitNamedPair m t =
     (case declUnderlying (tr_Decl t) of None \<Rightarrow> None
      | Some u \<Rightarrow> Some (emitPair (md_names m) (md_types m) (namedParts (declaredName (tr_Decl t))) (tr_GoName t) u (tr_ZeroWidth t)))"

definition emitAnonPair :: "Model \<Rightarrow> codecEmitter \<Rightarrow> string \<Rightarrow> codecPair option" where
  "emitAnonPair m e akey =
     (case map_of (em_anon e) akey of None \<Rightarrow> None
      | Some t \<Rightarrow> Some (emitPair (md_names m) (md_types m) [akey] (goTypeOf (md_names m) (md_types m) t) t (zeroWidth (md_types m) t)))"

text \<open>All pairs in the order \<open>emit\<close> writes them.\<close>

definition emitPairs :: "Model \<Rightarrow> codecPair list" where
  "emitPairs m =
     (let e = register m newCodecEmitter
      in map primPair primitiveKinds @ List.map_filter (emitNamedPair m) (md_Types m)
           @ List.map_filter (emitAnonPair m e) (em_order e))"

section \<open>Text\<close>

fun placeText :: "place \<Rightarrow> string" where
  "placeText PVar = ''v''"
| "placeText (PSel p f) = placeText p @ ''.'' @ f"
| "placeText (PIdx p k) = placeText p @ ''['' @ indexName k @ '']''"

definition emitEncErr :: "nat \<Rightarrow> string list" where
  "emitEncErr ind = [line ind ''if err != nil {'', line (ind + 1) ''return nil, err'', line ind ''}'']"

definition emitDecErr :: "nat \<Rightarrow> string \<Rightarrow> string list" where
  "emitDecErr ind errVal =
     [line ind ''if err != nil {'', line (ind + 1) (''return '' @ errVal @ '', nil, err''), line ind ''}'']"

definition encUint64 :: string where "encUint64 = codecName ''enc'' (primitiveParts TokUint64)"
definition decUint64 :: string where "decUint64 = codecName ''dec'' (primitiveParts TokUint64)"

fun encText :: "nat \<Rightarrow> encstmt \<Rightarrow> string list" where
  "encText ind (EncPart parts val) =
     line ind (''buf, err = '' @ codecName ''enc'' parts @ ''(buf, '' @ placeText val @ '')'') # emitEncErr ind"
| "encText ind (EncCount val) =
     line ind (''buf, err = '' @ encUint64 @ ''(buf, uint64(len('' @ placeText val @ '')))'') # emitEncErr ind"
| "encText ind (EncRange idx val body) =
     [line ind (''for '' @ indexName idx @ '' := range '' @ placeText val @ '' {'')]
       @ concat (map (encText (ind + 1)) body) @ [line ind ''}'']"

text \<open>A check of a count against a limit.\<close>

definition limitText :: "nat \<Rightarrow> nat \<Rightarrow> string \<Rightarrow> string \<Rightarrow> string list" where
  "limitText ind cnt limit errVal =
     [line ind (''if '' @ countName cnt @ '' > uint64('' @ limit @ '') {''),
      line (ind + 1) (''return '' @ errVal @ '', nil, '' @ errLongName), line ind ''}'']"

fun decText :: "Names \<Rightarrow> type_decls \<Rightarrow> string \<Rightarrow> nat \<Rightarrow> decstmt \<Rightarrow> string list" where
  "decText names types errVal ind (DecPart dst parts) =
     line ind (placeText dst @ '', src, err = '' @ codecName ''dec'' parts @ ''(src)'') # emitDecErr ind errVal"
| "decText names types errVal ind (DecCount cnt) =
     [line ind (''var '' @ countName cnt @ '' uint64''),
      line ind (countName cnt @ '', src, err = '' @ decUint64 @ ''(src)'')] @ emitDecErr ind errVal"
| "decText names types errVal ind (DecLimitInt cnt) = limitText ind cnt maxIntName errVal"
| "decText names types errVal ind (DecLimitRest cnt) = limitText ind cnt ''len(src)'' errVal"
| "decText names types errVal ind (DecMake dst t cnt) =
     [line ind (placeText dst @ '' = make('' @ goTypeOf names types t @ '', int('' @ countName cnt @ ''))'')]"
| "decText names types errVal ind (DecRange idx dst body) =
     [line ind (''for '' @ indexName idx @ '' := range '' @ placeText dst @ '' {'')]
       @ concat (map (decText names types errVal (ind + 1)) body) @ [line ind ''}'']"

text \<open>The heads of the two functions of a pair.\<close>

definition encHead :: "string list \<Rightarrow> string \<Rightarrow> string" where
  "encHead parts gt = ''func '' @ codecName ''enc'' parts @ ''(buf []byte, v '' @ gt @ '') ([]byte, error) {''"

definition decHead :: "string list \<Rightarrow> string \<Rightarrow> string" where
  "decHead parts gt = ''func '' @ codecName ''dec'' parts @ ''(src []byte) ('' @ gt @ '', []byte, error) {''"

definition delegateText :: "string list \<Rightarrow> string \<Rightarrow> string \<Rightarrow> string list \<Rightarrow> string list" where
  "delegateText parts gt conv target =
     [encHead parts gt,
      line 1 ''var err error'',
      line 1 (''buf, err = '' @ codecName ''enc'' target @ ''(buf, '' @ conv @ ''(v))'')] @ emitEncErr 1 @
     [line 1 ''return buf, nil'', ''}'', [],
      decHead parts gt,
      line 1 (''v, src, err := '' @ codecName ''dec'' target @ ''(src)''),
      line 1 ''if err != nil {'', line 2 (''return '' @ gt @ ''(v), nil, err''), line 1 ''}'',
      line 1 (''return '' @ gt @ ''(v), src, nil''), ''}'']"

definition generalText :: "Names \<Rightarrow> type_decls \<Rightarrow> string list \<Rightarrow> string \<Rightarrow> encstmt list \<Rightarrow> decstmt list \<Rightarrow> string list" where
  "generalText names types parts gt es ds =
     [encHead parts gt, line 1 ''var err error''] @ concat (map (encText 1) es) @ [line 1 ''return buf, nil'', ''}'', []]
     @ [decHead parts gt, line 1 (''var v '' @ gt), line 1 ''var err error'']
     @ concat (map (decText names types ''v'' 1) ds) @ [line 1 ''return v, src, nil'', ''}'']"

definition zeroText :: "string list \<Rightarrow> string \<Rightarrow> string list" where
  "zeroText parts gt =
     [encHead parts gt, line 1 ''return buf, nil'', ''}'', [],
      decHead parts gt, line 1 (''return '' @ gt @ ''{}, src, nil''), ''}'']"

section \<open>Primitive pairs\<close>

fun primWidth :: "TokenKind \<Rightarrow> nat" where
  "primWidth k =
     (if k \<in> {TokInt8, TokUint8} then 1
      else if k \<in> {TokInt16, TokUint16} then 2
      else if k \<in> {TokInt32, TokUint32, TokFloat32} then 4
      else if k \<in> {TokInt64, TokUint64, TokFloat64} then 8
      else 0)"

definition encIntBytes :: "TokenKind \<Rightarrow> string" where
  "encIntBytes k = joinWith '', ''
     (map (\<lambda>i. if i = 0 then ''byte(v)'' else ''byte(v>>'' @ showNat (8 * i) @ '')'') [0..<primWidth k])"

definition decIntExpr :: "TokenKind \<Rightarrow> string" where
  "decIntExpr k = joinWith '' | ''
     (map (\<lambda>i. if i = 0 then kindString k @ ''(src[0])''
               else kindString k @ ''(src['' @ showNat i @ ''])<<'' @ showNat (8 * i)) [0..<primWidth k])"

definition isIntKind :: "TokenKind \<Rightarrow> bool" where
  "isIntKind k \<longleftrightarrow> k \<in> {TokInt8, TokInt16, TokInt32, TokInt64, TokUint8, TokUint16, TokUint32, TokUint64}"

definition shortCheck :: "string \<Rightarrow> string list" where
  "shortCheck width =
     [line 1 (''if len(src) < '' @ width @ '' {''), line 2 (''return 0, nil, '' @ errShortName), line 1 ''}'']"

definition encFloat :: "string \<Rightarrow> string \<Rightarrow> string \<Rightarrow> string list" where
  "encFloat width nan conv =
     [line 1 (''var bits uint'' @ width), line 1 ''if v != v {'', line 2 (''bits = '' @ nan), line 1 ''} else {'',
      line 2 (''bits = math.Float'' @ width @ ''bits(v)''), line 1 ''}'', line 1 (''return append(buf, '' @ conv @ ''), nil'')]"

definition nanCheck :: "string \<Rightarrow> string list" where
  "nanCheck nan =
     [line 1 (''if v != v && bits != '' @ nan @ '' {''), line 2 (''return 0, nil, '' @ errNaNName), line 1 ''}'']"

text \<open>The length and bound check of strings and byte strings; \<open>none\<close> is their zero value.\<close>

definition encCounted :: "string list" where
  "encCounted =
     [line 1 ''var err error'', line 1 (''buf, err = '' @ encUint64 @ ''(buf, uint64(len(v)))'')]
     @ emitEncErr 1 @ [line 1 ''return append(buf, v...), nil'']"

definition decCounted :: "string \<Rightarrow> string list" where
  "decCounted none =
     [line 1 (''n64, src, err := '' @ decUint64 @ ''(src)'')] @ emitDecErr 1 none
     @ [line 1 ''if n64 > uint64(len(src)) {'', line 2 (''return '' @ none @ '', nil, '' @ errLongName), line 1 ''}'',
        line 1 ''n := int(n64)'']"

definition primEncBody :: "TokenKind \<Rightarrow> string list" where
  "primEncBody k =
     (if isIntKind k then [line 1 (''return append(buf, '' @ encIntBytes k @ ''), nil'')]
      else if k = TokFloat32 then
        encFloat ''32'' ''0x7fc00000'' ''byte(bits), byte(bits>>8), byte(bits>>16), byte(bits>>24)''
      else if k = TokFloat64 then
        encFloat ''64'' ''0x7ff8000000000000''
          ''byte(bits), byte(bits>>8), byte(bits>>16), byte(bits>>24), byte(bits>>32), byte(bits>>40), byte(bits>>48), byte(bits>>56)''
      else if k = TokString then
        [line 1 ''if !utf8.ValidString(v) {'', line 2 (''return nil, '' @ errUTF8Name), line 1 ''}''] @ encCounted
      else if k = TokBytes then encCounted else [])"

definition primDecBody :: "TokenKind \<Rightarrow> string list" where
  "primDecBody k =
     (if isIntKind k then
        shortCheck (showNat (primWidth k)) @ [line 1 (''return '' @ decIntExpr k @ '', src['' @ showNat (primWidth k) @ '':], nil'')]
      else if k = TokFloat32 then
        shortCheck ''4'' @
        [line 1 ''bits := uint32(src[0]) | uint32(src[1])<<8 | uint32(src[2])<<16 | uint32(src[3])<<24'',
         line 1 ''v := math.Float32frombits(bits)''] @ nanCheck ''0x7fc00000'' @ [line 1 ''return v, src[4:], nil'']
      else if k = TokFloat64 then
        shortCheck ''8'' @
        [line 1 ''bits := uint64(src[0]) | uint64(src[1])<<8 | uint64(src[2])<<16 | uint64(src[3])<<24 |'',
         line 2 ''uint64(src[4])<<32 | uint64(src[5])<<40 | uint64(src[6])<<48 | uint64(src[7])<<56'',
         line 1 ''v := math.Float64frombits(bits)''] @ nanCheck ''0x7ff8000000000000'' @ [line 1 ''return v, src[8:], nil'']
      else if k = TokString then
        decCounted [CHR 0x22, CHR 0x22] @
        [line 1 ''b := src[:n]'', line 1 ''if !utf8.Valid(b) {'',
         line 2 (''return '' @ [CHR 0x22, CHR 0x22] @ '', nil, '' @ errUTF8Name), line 1 ''}'',
         line 1 ''return string(b), src[n:], nil'']
      else if k = TokBytes then
        decCounted ''nil'' @
        [line 1 ''dst := make([]byte, n)'', line 1 ''copy(dst, src[:n])'', line 1 ''return dst, src[n:], nil'']
      else [])"

definition emitPrimPair :: "TokenKind \<Rightarrow> string list" where
  "emitPrimPair k =
     (let parts = primitiveParts k; gt = (if k \<noteq> TokBytes then kindString k else ''[]byte'')
      in [encHead parts gt] @ primEncBody k @ [''}'', [], decHead parts gt] @ primDecBody k @ [''}'', []])"

section \<open>The file\<close>

definition pairText :: "Model \<Rightarrow> codecPair \<Rightarrow> string list" where
  "pairText m p =
     (case cp_body p of
        PrimPair k \<Rightarrow> emitPrimPair k
      | ZeroPair \<Rightarrow> zeroText (cp_parts p) (cp_goType p)
      | DelegatePair conv target \<Rightarrow> delegateText (cp_parts p) (cp_goType p) conv target
      | GeneralPair es ds \<Rightarrow> generalText (md_names m) (md_types m) (cp_parts p) (cp_goType p) es ds)"

definition emitTypeDecl :: "Model \<Rightarrow> TypeRec \<Rightarrow> string list" where
  "emitTypeDecl m t =
     (case declUnderlying (tr_Decl t) of None \<Rightarrow> []
      | Some u \<Rightarrow> [''// @intercall type '' @ declaredName (tr_Decl t),
          ''type '' @ tr_GoName t @ '' '' @ goTypeOf (md_names m) (md_types m) u, []])"

definition emit :: "Model \<Rightarrow> string list" where
  "emit m = concat (map (emitTypeDecl m) (md_Types m)) @ concat (map (pairText m) (emitPairs m))"

definition newError :: "string \<Rightarrow> string \<Rightarrow> string" where
  "newError name msg = line 1 (name @ '' = errors.New('' @ quoted msg @ '')'')"

definition emitCodecSupport :: "string list" where
  "emitCodecSupport =
     [''const '' @ maxIntName @ '' = int(^uint(0) >> 1)'', [], ''var ('',
      newError errLongName ''intercall: wire length exceeds available bytes'',
      newError errNaNName ''intercall: noncanonical NaN bit pattern'',
      newError errShortName ''intercall: truncated wire value'',
      newError errUTF8Name ''intercall: string is not valid UTF-8'', '')'', []]"

text \<open>\<open>go/format\<close> is the argument \<open>formatSource\<close>.\<close>

definition generateCodecFile :: "(string \<Rightarrow> 'e + string) \<Rightarrow> string \<Rightarrow> Model \<Rightarrow> 'e + string" where
  "generateCodecFile formatSource pkg m =
     formatSource (sourceText
       ([''// Code generated by intercall-go; DO NOT EDIT.'', [], ''package '' @ pkg, [], ''import ('',
         line 1 (quoted ''errors''), line 1 (quoted ''math''), line 1 (quoted ''unicode/utf8''), '')'', []]
        @ emitCodecSupport @ emit m))"

end
