(* ===== verification/Codec_Programs.thy ===== *)
theory Codec_Programs
  imports Codec_Emitter Wire_Codec
begin

text \<open>
  What the emitted codec pairs do when they run. A Go value is one of the twelve primitives, a
  slice or a struct of named fields; a defined type has the values of its underlying type, so a
  conversion between them changes nothing. The bodies of the primitive pairs are the functions
  of \<open>Wire_Codec\<close>. A program is a list of pairs; a call runs the pair of its parts. \<open>None\<close> is
  a program that would not compile or does not return: a missing function or field, an index out
  of range, or more nested calls than allowed.
\<close>

section \<open>Values\<close>

datatype goval =
    GInt8 "8 word" | GInt16 "16 word" | GInt32 "32 word" | GInt64 "64 word"
  | GUint8 "8 word" | GUint16 "16 word" | GUint32 "32 word" | GUint64 "64 word"
  | GFloat32 float32 | GFloat64 float64 | GString string | GBytes bytes
  | GSlice "goval list"
  | GStruct "(string \<times> goval) list"

text \<open>Codecs of the primitive values; a value of another type is not encoded.\<close>

definition encVia :: "(goval \<Rightarrow> 'a option) \<Rightarrow> (bytes \<Rightarrow> 'a \<Rightarrow> bytes result) \<Rightarrow> bytes \<Rightarrow> goval \<Rightarrow> bytes result" where
  "encVia un enc buf v = (case un v of None \<Rightarrow> Inl errLength | Some a \<Rightarrow> enc buf a)"

definition decVia :: "('a \<Rightarrow> goval) \<Rightarrow> (bytes \<Rightarrow> ('a \<times> bytes) result) \<Rightarrow> bytes \<Rightarrow> (goval \<times> bytes) result" where
  "decVia mk dec src = map_sum id (apfst mk) (dec src)"

fun encPrim :: "TokenKind \<Rightarrow> bytes \<Rightarrow> goval \<Rightarrow> bytes result" where
  "encPrim TokInt8 = encVia (\<lambda>v. case v of GInt8 a \<Rightarrow> Some a | _ \<Rightarrow> None) enc_int8"
| "encPrim TokInt16 = encVia (\<lambda>v. case v of GInt16 a \<Rightarrow> Some a | _ \<Rightarrow> None) enc_int16"
| "encPrim TokInt32 = encVia (\<lambda>v. case v of GInt32 a \<Rightarrow> Some a | _ \<Rightarrow> None) enc_int32"
| "encPrim TokInt64 = encVia (\<lambda>v. case v of GInt64 a \<Rightarrow> Some a | _ \<Rightarrow> None) enc_int64"
| "encPrim TokUint8 = encVia (\<lambda>v. case v of GUint8 a \<Rightarrow> Some a | _ \<Rightarrow> None) enc_uint8"
| "encPrim TokUint16 = encVia (\<lambda>v. case v of GUint16 a \<Rightarrow> Some a | _ \<Rightarrow> None) enc_uint16"
| "encPrim TokUint32 = encVia (\<lambda>v. case v of GUint32 a \<Rightarrow> Some a | _ \<Rightarrow> None) enc_uint32"
| "encPrim TokUint64 = encVia (\<lambda>v. case v of GUint64 a \<Rightarrow> Some a | _ \<Rightarrow> None) enc_uint64"
| "encPrim TokFloat32 = encVia (\<lambda>v. case v of GFloat32 a \<Rightarrow> Some a | _ \<Rightarrow> None) enc_float32"
| "encPrim TokFloat64 = encVia (\<lambda>v. case v of GFloat64 a \<Rightarrow> Some a | _ \<Rightarrow> None) enc_float64"
| "encPrim TokString = encVia (\<lambda>v. case v of GString a \<Rightarrow> Some a | _ \<Rightarrow> None) enc_string"
| "encPrim _ = encVia (\<lambda>v. case v of GBytes a \<Rightarrow> Some a | _ \<Rightarrow> None) enc_bytes"

fun decPrim :: "TokenKind \<Rightarrow> bytes \<Rightarrow> (goval \<times> bytes) result" where
  "decPrim TokInt8 = decVia GInt8 dec_int8"
| "decPrim TokInt16 = decVia GInt16 dec_int16"
| "decPrim TokInt32 = decVia GInt32 dec_int32"
| "decPrim TokInt64 = decVia GInt64 dec_int64"
| "decPrim TokUint8 = decVia GUint8 dec_uint8"
| "decPrim TokUint16 = decVia GUint16 dec_uint16"
| "decPrim TokUint32 = decVia GUint32 dec_uint32"
| "decPrim TokUint64 = decVia GUint64 dec_uint64"
| "decPrim TokFloat32 = decVia GFloat32 dec_float32"
| "decPrim TokFloat64 = decVia GFloat64 dec_float64"
| "decPrim TokString = decVia GString dec_string"
| "decPrim _ = decVia GBytes dec_bytes"

text \<open>The zero value of a primitive Go type; the zero byte slice is empty.\<close>

fun zeroPrim :: "TokenKind \<Rightarrow> goval" where
  "zeroPrim TokInt8 = GInt8 0"
| "zeroPrim TokInt16 = GInt16 0"
| "zeroPrim TokInt32 = GInt32 0"
| "zeroPrim TokInt64 = GInt64 0"
| "zeroPrim TokUint8 = GUint8 0"
| "zeroPrim TokUint16 = GUint16 0"
| "zeroPrim TokUint32 = GUint32 0"
| "zeroPrim TokUint64 = GUint64 0"
| "zeroPrim TokFloat32 = GFloat32 0"
| "zeroPrim TokFloat64 = GFloat64 0"
| "zeroPrim TokString = GString []"
| "zeroPrim _ = GBytes []"

fun primKind :: "goval \<Rightarrow> TokenKind option" where
  "primKind (GInt8 a) = Some TokInt8"
| "primKind (GInt16 a) = Some TokInt16"
| "primKind (GInt32 a) = Some TokInt32"
| "primKind (GInt64 a) = Some TokInt64"
| "primKind (GUint8 a) = Some TokUint8"
| "primKind (GUint16 a) = Some TokUint16"
| "primKind (GUint32 a) = Some TokUint32"
| "primKind (GUint64 a) = Some TokUint64"
| "primKind (GFloat32 a) = Some TokFloat32"
| "primKind (GFloat64 a) = Some TokFloat64"
| "primKind (GString a) = Some TokString"
| "primKind (GBytes a) = Some TokBytes"
| "primKind v = None"

section \<open>Places\<close>

datatype access = Fld string | Elem nat

fun accesses :: "(nat \<Rightarrow> nat) \<Rightarrow> place \<Rightarrow> access list" where
  "accesses ix PVar = []"
| "accesses ix (PSel p f) = accesses ix p @ [Fld f]"
| "accesses ix (PIdx p k) = accesses ix p @ [Elem (ix k)]"

fun stepAt :: "goval \<Rightarrow> access \<Rightarrow> goval option" where
  "stepAt (GStruct fs) (Fld f) = map_of fs f"
| "stepAt (GSlice vs) (Elem j) = (if j < length vs then Some (vs ! j) else None)"
| "stepAt v a = None"

fun putStep :: "goval \<Rightarrow> access \<Rightarrow> goval \<Rightarrow> goval option" where
  "putStep (GStruct fs) (Fld f) x = (if map_of fs f = None then None else Some (GStruct (AList.update f x fs)))"
| "putStep (GSlice vs) (Elem j) x = (if j < length vs then Some (GSlice (vs[j := x])) else None)"
| "putStep v a x = None"

fun getAt :: "goval \<Rightarrow> access list \<Rightarrow> goval option" where
  "getAt v [] = Some v"
| "getAt v (a # as) = Option.bind (stepAt v a) (\<lambda>u. getAt u as)"

fun setAt :: "goval \<Rightarrow> access list \<Rightarrow> goval \<Rightarrow> goval option" where
  "setAt v [] x = Some x"
| "setAt v (a # as) x = Option.bind (stepAt v a) (\<lambda>u. Option.bind (setAt u as x) (putStep v a))"

section \<open>Running statements\<close>

type_synonym enc_call = "string list \<Rightarrow> bytes \<Rightarrow> goval \<Rightarrow> bytes result option"
type_synonym dec_call = "string list \<Rightarrow> bytes \<Rightarrow> (goval \<times> bytes) result option"

text \<open>A loop with a body that may fail or get stuck.\<close>

fun rangeLoop :: "(nat \<Rightarrow> 's \<Rightarrow> 's result option) \<Rightarrow> nat list \<Rightarrow> 's \<Rightarrow> 's result option" where
  "rangeLoop body [] s = Some (Inr s)"
| "rangeLoop body (j # js) s =
     (case body j s of
        None \<Rightarrow> None
      | Some (Inl e) \<Rightarrow> Some (Inl e)
      | Some (Inr s') \<Rightarrow> rangeLoop body js s')"

fun sliceLength :: "goval option \<Rightarrow> nat option" where
  "sliceLength (Some (GSlice vs)) = Some (length vs)"
| "sliceLength v = None"

fun execEnc :: "enc_call \<Rightarrow> goval \<Rightarrow> (nat \<Rightarrow> nat) \<Rightarrow> encstmt list \<Rightarrow> bytes \<Rightarrow> bytes result option"
and execEncStmt :: "enc_call \<Rightarrow> goval \<Rightarrow> (nat \<Rightarrow> nat) \<Rightarrow> encstmt \<Rightarrow> bytes \<Rightarrow> bytes result option" where
  "execEnc call v ix [] buf = Some (Inr buf)"
| "execEnc call v ix (s # ss) buf =
     (case execEncStmt call v ix s buf of
        None \<Rightarrow> None
      | Some (Inl e) \<Rightarrow> Some (Inl e)
      | Some (Inr buf') \<Rightarrow> execEnc call v ix ss buf')"
| "execEncStmt call v ix (EncPart parts p) buf =
     (case getAt v (accesses ix p) of None \<Rightarrow> None | Some u \<Rightarrow> call parts buf u)"
| "execEncStmt call v ix (EncCount p) buf =
     (case sliceLength (getAt v (accesses ix p)) of
        None \<Rightarrow> None
      | Some n \<Rightarrow> call (primitiveParts TokUint64) buf (GUint64 (word_of_nat n)))"
| "execEncStmt call v ix (EncRange k p body) buf =
     (case sliceLength (getAt v (accesses ix p)) of
        None \<Rightarrow> None
      | Some n \<Rightarrow> rangeLoop (\<lambda>j. execEnc call v (ix(k := j)) body) [0..<n] buf)"

text \<open>The locals of a decoder: the value, the counts and the unconsumed input.\<close>

type_synonym dec_state = "goval \<times> (nat \<Rightarrow> nat) \<times> bytes"

definition assign :: "access list \<Rightarrow> goval \<Rightarrow> (nat \<Rightarrow> nat) \<Rightarrow> bytes \<Rightarrow> goval \<Rightarrow> dec_state result option" where
  "assign as x cnt src v = map_option (\<lambda>v. Inr (v, cnt, src)) (setAt v as x)"

text \<open>\<open>zero t\<close> is the zero value of the Go type of \<open>t\<close>.\<close>

fun elemOf :: "TypeExpr \<Rightarrow> TypeExpr" where
  "elemOf (ListType d ls t) = t"
| "elemOf t = t"

fun execDec :: "dec_call \<Rightarrow> (TypeExpr \<Rightarrow> goval) \<Rightarrow> (nat \<Rightarrow> nat) \<Rightarrow> decstmt list \<Rightarrow> dec_state \<Rightarrow> dec_state result option"
and execDecStmt :: "dec_call \<Rightarrow> (TypeExpr \<Rightarrow> goval) \<Rightarrow> (nat \<Rightarrow> nat) \<Rightarrow> decstmt \<Rightarrow> dec_state \<Rightarrow> dec_state result option" where
  "execDec call zero ix [] st = Some (Inr st)"
| "execDec call zero ix (s # ss) st =
     (case execDecStmt call zero ix s st of
        None \<Rightarrow> None
      | Some (Inl e) \<Rightarrow> Some (Inl e)
      | Some (Inr st') \<Rightarrow> execDec call zero ix ss st')"
| "execDecStmt call zero ix (DecPart p parts) (v, cnt, src) =
     (case call parts src of
        None \<Rightarrow> None
      | Some (Inl e) \<Rightarrow> Some (Inl e)
      | Some (Inr (x, src')) \<Rightarrow> assign (accesses ix p) x cnt src' v)"
| "execDecStmt call zero ix (DecCount c) (v, cnt, src) =
     (case call (primitiveParts TokUint64) src of
        Some (Inl e) \<Rightarrow> Some (Inl e)
      | Some (Inr (GUint64 n, src')) \<Rightarrow> Some (Inr (v, cnt(c := unat n), src'))
      | _ \<Rightarrow> None)"
| "execDecStmt call zero ix (DecLimitInt c) (v, cnt, src) =
     Some (if maxInt < cnt c then Inl errLength else Inr (v, cnt, src))"
| "execDecStmt call zero ix (DecLimitRest c) (v, cnt, src) =
     Some (if length src < cnt c then Inl errLength else Inr (v, cnt, src))"
| "execDecStmt call zero ix (DecMake p t c) (v, cnt, src) =
     assign (accesses ix p) (GSlice (replicate (cnt c) (zero (elemOf t)))) cnt src v"
| "execDecStmt call zero ix (DecRange k p body) (v, cnt, src) =
     (case sliceLength (getAt v (accesses ix p)) of
        None \<Rightarrow> None
      | Some n \<Rightarrow> rangeLoop (\<lambda>j. execDec call zero (ix(k := j)) body) [0..<n] (v, cnt, src))"

section \<open>Running programs\<close>

text \<open>
  A call names its pair by the identity parts that \<open>codecName\<close> mangles into the name of the
  function; two different identities with one mangled name would not compile.
\<close>

definition findPair :: "codecPair list \<Rightarrow> string list \<Rightarrow> codecPair option" where
  "findPair prog parts = find (\<lambda>p. cp_parts p = parts) prog"

fun runEnc :: "nat \<Rightarrow> codecPair list \<Rightarrow> enc_call" where
  "runEnc 0 prog parts buf v = None"
| "runEnc (Suc k) prog parts buf v =
     (case findPair prog parts of
        None \<Rightarrow> None
      | Some p \<Rightarrow>
          (case cp_body p of
             PrimPair pk \<Rightarrow> Some (encPrim pk buf v)
           | ZeroPair \<Rightarrow> Some (Inr buf)
           | DelegatePair conv target \<Rightarrow> runEnc k prog target buf v
           | GeneralPair es ds \<Rightarrow> execEnc (runEnc k prog) v (\<lambda>_. 0) es buf))"

fun runDec :: "nat \<Rightarrow> codecPair list \<Rightarrow> (TypeExpr \<Rightarrow> goval) \<Rightarrow> dec_call" where
  "runDec 0 prog zero parts src = None"
| "runDec (Suc k) prog zero parts src =
     (case findPair prog parts of
        None \<Rightarrow> None
      | Some p \<Rightarrow>
          (case cp_body p of
             PrimPair pk \<Rightarrow> Some (decPrim pk src)
           | ZeroPair \<Rightarrow> Some (Inr (zero (cp_type p), src))
           | DelegatePair conv target \<Rightarrow> runDec k prog zero target src
           | GeneralPair es ds \<Rightarrow>
               map_option (map_sum id (\<lambda>(v, cnt, src). (v, src)))
                 (execDec (runDec k prog zero) zero (\<lambda>_. 0) ds (zero (cp_type p), \<lambda>_. 0, src))))"

section \<open>The wire form of a type\<close>

text \<open>
  A type with every reference followed and the Go names of its fields. Its codec says what the
  wire rules are: fields in order without padding, a list as its count and its elements, elements
  of no width as their count alone.
\<close>

datatype shape = SPrim TokenKind | SList shape | SRec "(string \<times> shape) list"

fun noWidth :: "shape \<Rightarrow> bool" where
  "noWidth (SPrim k) = False"
| "noWidth (SList s) = False"
| "noWidth (SRec fs) = list_all (\<lambda>(f, s). noWidth s) fs"

fun zeroOf :: "shape \<Rightarrow> goval" where
  "zeroOf (SPrim k) = zeroPrim k"
| "zeroOf (SList s) = GSlice []"
| "zeroOf (SRec fs) = GStruct (map (\<lambda>(f, s). (f, zeroOf s)) fs)"

fun hasShape :: "shape \<Rightarrow> goval \<Rightarrow> bool" and fieldsHave :: "(string \<times> shape) list \<Rightarrow> (string \<times> goval) list \<Rightarrow> bool" where
  "hasShape (SPrim k) v = (primKind v = Some k)"
| "hasShape (SList s) v = (case v of GSlice vs \<Rightarrow> list_all (hasShape s) vs | _ \<Rightarrow> False)"
| "hasShape (SRec fs) v = (case v of GStruct vs \<Rightarrow> fieldsHave fs vs | _ \<Rightarrow> False)"
| "fieldsHave [] vs = (vs = [])"
| "fieldsHave ((f, s) # fs) vs = (case vs of (g, v) # vs \<Rightarrow> g = f \<and> hasShape s v \<and> fieldsHave fs vs | [] \<Rightarrow> False)"

fun wireEnc :: "shape \<Rightarrow> bytes \<Rightarrow> goval \<Rightarrow> bytes result"
and wireEncFields :: "(string \<times> shape) list \<Rightarrow> bytes \<Rightarrow> (string \<times> goval) list \<Rightarrow> bytes result" where
  "wireEnc (SPrim k) buf v = encPrim k buf v"
| "wireEnc (SList s) buf v =
     (case v of
        GSlice vs \<Rightarrow> if noWidth s then enc_count buf vs else enc_list (wireEnc s) buf vs
      | _ \<Rightarrow> Inl errLength)"
| "wireEnc (SRec fs) buf v = (case v of GStruct vs \<Rightarrow> wireEncFields fs buf vs | _ \<Rightarrow> Inl errLength)"
| "wireEncFields [] buf vs = Inr buf"
| "wireEncFields ((f, s) # fs) buf vs =
     (case vs of [] \<Rightarrow> Inl errLength
      | (g, v) # vs \<Rightarrow> andThen (wireEnc s buf v) (\<lambda>buf. wireEncFields fs buf vs))"

fun wireDec :: "shape \<Rightarrow> bytes \<Rightarrow> (goval \<times> bytes) result"
and wireDecFields :: "(string \<times> shape) list \<Rightarrow> bytes \<Rightarrow> ((string \<times> goval) list \<times> bytes) result" where
  "wireDec (SPrim k) src = decPrim k src"
| "wireDec (SList s) src =
     map_sum id (apfst GSlice) (if noWidth s then dec_count (zeroOf s) src else dec_list (wireDec s) src)"
| "wireDec (SRec fs) src = map_sum id (apfst GStruct) (wireDecFields fs src)"
| "wireDecFields [] src = Inr ([], src)"
| "wireDecFields ((f, s) # fs) src =
     andThen (wireDec s src) (\<lambda>(v, src). andThen (wireDecFields fs src) (\<lambda>(vs, src). Inr ((f, v) # vs, src)))"

text \<open>The shape of a type in an environment of declarations, each before the ones that use it.\<close>

function shapeOf :: "Names \<Rightarrow> type_env \<Rightarrow> TypeExpr \<Rightarrow> shape"
and fieldShapes :: "Names \<Rightarrow> type_env \<Rightarrow> Field list \<Rightarrow> (string \<times> shape) list" where
  "shapeOf names env (PrimType d k sp) = SPrim k"
| "shapeOf names env (NamedType d i) =
     (case lookupBefore env (id_name i) of None \<Rightarrow> SRec [] | Some (t, env') \<Rightarrow> shapeOf names env' t)"
| "shapeOf names env (ListType d ls t) = SList (shapeOf names env t)"
| "shapeOf names env (RecordType d rs lb fs rb) = SRec (fieldShapes names env fs)"
| "fieldShapes names env [] = []"
| "fieldShapes names env (f # fs) =
     (goFieldName names f, shapeOf names env (fieldType f)) # fieldShapes names env fs"
  by pat_completeness auto
termination
  by (relation "measures [\<lambda>x. case x of Inl (names, env, t) \<Rightarrow> length env | Inr (names, env, fs) \<Rightarrow> length env,
        \<lambda>x. case x of Inl (names, env, t) \<Rightarrow> typeWork t | Inr (names, env, fs) \<Rightarrow> Suc (sum_list (map fieldWork fs))]")
     (auto simp: lookupBefore_length fieldWork_type)

end
