(* ===== verification/Codec_Laws.thy ===== *)
theory Codec_Laws
  imports Codec_Programs
begin

text \<open>
  The wire codec of every shape keeps the contract \<open>wire_codec\<close>: its decoder accepts exactly the
  encodings of values of the shape, and encodings take no bytes exactly for shapes of no width.
\<close>

section \<open>Values that fit\<close>

fun primShape :: "shape \<Rightarrow> bool" where
  "primShape (SPrim k) = (k \<in> set primitiveKinds)"
| "primShape (SList s) = primShape s"
| "primShape (SRec fs) = list_all (\<lambda>(f, s). primShape s) fs"

text \<open>A value of the shape whose lengths the wire can carry.\<close>

fun fits :: "shape \<Rightarrow> goval \<Rightarrow> bool" and fieldsFit :: "(string \<times> shape) list \<Rightarrow> (string \<times> goval) list \<Rightarrow> bool" where
  "fits (SPrim k) v = (primKind v = Some k \<and>
     (case v of GString a \<Rightarrow> counted a | GBytes a \<Rightarrow> counted a | _ \<Rightarrow> True))"
| "fits (SList s) v =
     (case v of
        GSlice vs \<Rightarrow> (if noWidth s then length vs \<le> maxInt else counted vs) \<and> list_all (fits s) vs
      | _ \<Rightarrow> False)"
| "fits (SRec fs) v = (case v of GStruct vs \<Rightarrow> fieldsFit fs vs | _ \<Rightarrow> False)"
| "fieldsFit [] vs = (vs = [])"
| "fieldsFit ((f, s) # fs) vs = (case vs of (g, v) # vs \<Rightarrow> g = f \<and> fits s v \<and> fieldsFit fs vs | [] \<Rightarrow> False)"

lemma fits_hasShape:
  "fits s v \<Longrightarrow> hasShape s v"
  "fieldsFit fs vs \<Longrightarrow> fieldsHave fs vs"
  by (induction s v and fs vs rule: fits_fieldsFit.induct)
     (auto simp: list_all_iff split: goval.splits list.splits if_splits)

text \<open>What a receiver sees: every NaN canonical.\<close>

fun canonVal :: "goval \<Rightarrow> goval" where
  "canonVal (GFloat32 a) = GFloat32 (canon32 a)"
| "canonVal (GFloat64 a) = GFloat64 (canon64 a)"
| "canonVal (GSlice vs) = GSlice (map canonVal vs)"
| "canonVal (GStruct vs) = GStruct (map (\<lambda>(f, v). (f, canonVal v)) vs)"
| "canonVal v = v"

section \<open>Shapes of no width\<close>

lemma noWidth_value:
  "noWidth s \<Longrightarrow> hasShape s v \<Longrightarrow> v = zeroOf s"
  "list_all (\<lambda>(f, s). noWidth s) fs \<Longrightarrow> fieldsHave fs vs \<Longrightarrow> vs = map (\<lambda>(f, s). (f, zeroOf s)) fs"
  by (induction s v and fs vs rule: hasShape_fieldsHave.induct) (auto split: goval.splits list.splits)

lemma noWidth_fits_zero:
  "noWidth s \<Longrightarrow> fits s (zeroOf s)"
  "list_all (\<lambda>(f, s). noWidth s) fs \<Longrightarrow> fieldsFit fs (map (\<lambda>(f, s). (f, zeroOf s)) fs)"
  by (induction s "zeroOf s" and fs "map (\<lambda>(f, s). (f, zeroOf s)) fs" rule: fits_fieldsFit.induct)
     auto

lemma noWidth_codec:
  "noWidth s \<Longrightarrow> hasShape s v \<Longrightarrow> wireEnc s buf v = Inr buf"
  "list_all (\<lambda>(f, s). noWidth s) fs \<Longrightarrow> fieldsHave fs vs \<Longrightarrow> wireEncFields fs buf vs = Inr buf"
  by (induction s v and fs vs arbitrary: buf and buf rule: hasShape_fieldsHave.induct) (auto split: goval.splits list.splits)

lemma noWidth_dec:
  "noWidth s \<Longrightarrow> wireDec s src = Inr (zeroOf s, src)"
  "list_all (\<lambda>(f, s). noWidth s) fs \<Longrightarrow> wireDecFields fs src = Inr (map (\<lambda>(f, s). (f, zeroOf s)) fs, src)"
  by (induction s src and fs src rule: wireDec_wireDecFields.induct) auto

section \<open>Codecs of one variant of a universal type\<close>

lemma injected_codec:
  assumes c: "wire_codec enc dec sized cval"
    and un: "\<And>a. un (mk a) = Some a"
    and enc': "\<And>buf v. enc' buf v = (case un v of None \<Rightarrow> Inl e | Some a \<Rightarrow> enc buf a)"
    and dec': "\<And>src. dec' src = map_sum id (apfst mk) (dec src)"
    and sized': "\<And>v. sized' v \<longleftrightarrow> (\<exists>a. v = mk a \<and> sized a)"
    and cval': "\<And>a. sized a \<Longrightarrow> cval' (mk a) = mk (cval a)"
  shows "wire_codec enc' dec' sized' cval'"
proof (intro wire_codecI)
  fix buf v show "enc' buf v = map_sum id ((@) buf) (enc' [] v)"
    using wire_codec.appends [OF c, of buf] by (simp add: enc' split: option.split)
next
  fix v bs rest assume "sized' v" "enc' [] v = Inr bs"
  then obtain a where a: "v = mk a" "sized a" "enc [] a = Inr bs" by (auto simp: sized' enc' un)
  from wire_codec.round_trip [OF c a(2,3), of rest] a(2)
  show "dec' (bs @ rest) = Inr (cval' v, rest)" by (simp add: a(1) cval' dec')
next
  fix src v rest assume "dec' src = Inr (v, rest)"
  then obtain a where a: "dec src = Inr (a, rest)" "v = mk a" by (cases "dec src") (auto simp: dec')
  from wire_codec.exact [OF c a(1)] show "sized' v \<and> cval' v = v \<and> (\<exists>bs. enc' [] v = Inr bs \<and> src = bs @ rest)"
    by (auto simp: a(2) sized' cval' enc' un)
qed

text \<open>A list of values without width: its length, at most the largest \<open>int\<close>.\<close>

lemma fixed_count_codec:
  assumes fixed: "\<And>v. ok v \<longleftrightarrow> v = u" and c: "c u = u"
  shows "wire_codec enc_count (dec_count u) (\<lambda>vs. length vs \<le> maxInt \<and> list_all ok vs) (map c)"
proof (intro wire_codecI)
  fix v :: "'a list" and bs rest assume v: "length v \<le> maxInt \<and> list_all ok v" and enc: "enc_count [] v = Inr bs"
  from v have "v = replicate (length v) u" by (intro replicate_eqI) (auto simp: list_all_iff fixed)
  moreover from this c have "map c v = v" by (metis map_replicate)
  moreover from v have "counted v" by (simp add: counted_def maxInt_def)
  ultimately show "dec_count u (bs @ rest) = Inr (map c v, rest)"
    using enc v by (auto simp: enc_count_def dec_count_def enc_uint64_Inr counted_unat)
next
  fix src v rest assume "dec_count u src = Inr (v, rest)"
  then obtain n64 where n: "dec_uint64 src = Inr (n64, rest)" "unat n64 \<le> maxInt" "v = replicate (unat n64) u"
    by (auto simp: dec_count_def andThen_Inr split: if_splits)
  from dec_uint64_exact [OF n(1)] n(2,3)
  show "(length v \<le> maxInt \<and> list_all ok v) \<and> map c v = v \<and> (\<exists>bs. enc_count [] v = Inr bs \<and> src = bs @ rest)"
    by (simp add: enc_count_def enc_uint64_Inr list_all_iff fixed c)
qed (simp add: enc_count_def enc_uint64_Inr)

lemma injected_wide:
  assumes "wide_codec enc dec sized cval" "\<And>buf v. enc' buf v = (case un v of None \<Rightarrow> Inl e | Some a \<Rightarrow> enc buf a)"
  shows "enc' [] v = Inr bs \<Longrightarrow> bs \<noteq> []"
  using wide_codec.wide [OF assms(1)] by (auto simp: assms(2) split: option.splits)

section \<open>Primitives\<close>

lemma prim_via:
  assumes "wide_codec enc dec sized cval" "\<And>a. un (mk a) = Some a"
    "\<And>v. fits (SPrim k) v \<longleftrightarrow> (\<exists>a. v = mk a \<and> sized a)" "\<And>a. canonVal (mk a) = mk (cval a)"
    "encPrim k = encVia un enc" "decPrim k = decVia mk dec"
  shows "wide_codec (encPrim k) (decPrim k) (fits (SPrim k)) canonVal"
proof (rule wide_codecI)
  show "wire_codec (encPrim k) (decPrim k) (fits (SPrim k)) canonVal"
    by (rule injected_codec [OF wide_wire [OF assms(1)] assms(2) _ _ assms(3)])
       (simp_all add: assms encVia_def decVia_def)
  show "encPrim k [] v = Inr bs \<Longrightarrow> bs \<noteq> []" for v bs
    by (rule injected_wide [OF assms(1), where un = un and e = errLength and enc' = "encPrim k"]) (simp_all add: assms encVia_def)
qed

lemma prim_codec:
  assumes k: "k \<in> set primitiveKinds"
  shows "wide_codec (encPrim k) (decPrim k) (fits (SPrim k)) canonVal"
proof -
  note via = prim_via [OF int8.wide_codec_axioms _ _ _ encPrim.simps(1) decPrim.simps(1)]
    prim_via [OF int16.wide_codec_axioms _ _ _ encPrim.simps(2) decPrim.simps(2)]
    prim_via [OF int32.wide_codec_axioms _ _ _ encPrim.simps(3) decPrim.simps(3)]
    prim_via [OF int64.wide_codec_axioms _ _ _ encPrim.simps(4) decPrim.simps(4)]
    prim_via [OF uint8.wide_codec_axioms _ _ _ encPrim.simps(5) decPrim.simps(5)]
    prim_via [OF uint16.wide_codec_axioms _ _ _ encPrim.simps(6) decPrim.simps(6)]
    prim_via [OF uint32.wide_codec_axioms _ _ _ encPrim.simps(7) decPrim.simps(7)]
    prim_via [OF uint64.wide_codec_axioms _ _ _ encPrim.simps(8) decPrim.simps(8)]
    prim_via [OF float32.wide_codec_axioms _ _ _ encPrim.simps(9) decPrim.simps(9)]
    prim_via [OF float64.wide_codec_axioms _ _ _ encPrim.simps(10) decPrim.simps(10)]
    prim_via [OF text_string.wide_codec_axioms _ _ _ encPrim.simps(11) decPrim.simps(11)]
    prim_via [OF byte_string.wide_codec_axioms _ _ _ encPrim.simps(21) decPrim.simps(21)]
  have prim: "primKind v = Some k \<longleftrightarrow> (\<exists>a. v = GInt8 a) \<and> k = TokInt8 \<or> (\<exists>a. v = GInt16 a) \<and> k = TokInt16
      \<or> (\<exists>a. v = GInt32 a) \<and> k = TokInt32 \<or> (\<exists>a. v = GInt64 a) \<and> k = TokInt64
      \<or> (\<exists>a. v = GUint8 a) \<and> k = TokUint8 \<or> (\<exists>a. v = GUint16 a) \<and> k = TokUint16
      \<or> (\<exists>a. v = GUint32 a) \<and> k = TokUint32 \<or> (\<exists>a. v = GUint64 a) \<and> k = TokUint64
      \<or> (\<exists>a. v = GFloat32 a) \<and> k = TokFloat32 \<or> (\<exists>a. v = GFloat64 a) \<and> k = TokFloat64
      \<or> (\<exists>a. v = GString a) \<and> k = TokString \<or> (\<exists>a. v = GBytes a) \<and> k = TokBytes" for v k
    by (cases v) auto
  from k have "k = TokInt8 \<or> k = TokInt16 \<or> k = TokInt32 \<or> k = TokInt64 \<or> k = TokUint8 \<or> k = TokUint16
    \<or> k = TokUint32 \<or> k = TokUint64 \<or> k = TokFloat32 \<or> k = TokFloat64 \<or> k = TokString \<or> k = TokBytes"
    by (auto simp: primitiveKinds_def)
  then show ?thesis
    by (elim disjE; simp only:) (rule via; auto simp: prim)+
qed

section \<open>All shapes\<close>

text \<open>A codec of the shape, wide when the shape is.\<close>

definition lawful :: "shape \<Rightarrow> bool" where
  "lawful s \<longleftrightarrow> wire_codec (wireEnc s) (wireDec s) (fits s) canonVal
     \<and> (\<not> noWidth s \<longrightarrow> (\<forall>v bs. wireEnc s [] v = Inr bs \<longrightarrow> bs \<noteq> []))"

lemma fields_codec:
  "list_all (\<lambda>(f, s). lawful s) fs \<Longrightarrow>
     wire_codec (wireEncFields fs) (wireDecFields fs) (fieldsFit fs) (map (\<lambda>(f, v). (f, canonVal v)))
     \<and> (\<not> list_all (\<lambda>(f, s). noWidth s) fs \<longrightarrow> (\<forall>vs bs. wireEncFields fs [] vs = Inr bs \<longrightarrow> bs \<noteq> []))"
proof (induction fs)
  case Nil
  show ?case by (auto intro!: wire_codecI)
next
  case (Cons x fs)
  obtain f s where x: "x = (f, s)" by fastforce
  from Cons x have s: "wire_codec (wireEnc s) (wireDec s) (fits s) canonVal"
    and ws: "\<not> noWidth s \<Longrightarrow> wireEnc s [] v = Inr bs \<Longrightarrow> bs \<noteq> []" for v bs
    by (auto simp: lawful_def)
  from Cons have fs: "wire_codec (wireEncFields fs) (wireDecFields fs) (fieldsFit fs) (map (\<lambda>(f, v). (f, canonVal v)))"
    and wfs: "\<not> list_all (\<lambda>(f, s). noWidth s) fs \<Longrightarrow> wireEncFields fs [] vs = Inr bs \<Longrightarrow> bs \<noteq> []" for vs bs
    by auto
  let ?un = "\<lambda>vs. case vs of [] \<Rightarrow> None | (g, v) # vs \<Rightarrow> Some (v, vs)"
  have enc: "wireEncFields (x # fs) buf vs
      = (case ?un vs of None \<Rightarrow> Inl errLength | Some a \<Rightarrow> enc_pair (wireEnc s) (wireEncFields fs) buf a)" for buf vs
    by (simp add: x enc_pair_def split: list.split prod.split)
  have "wire_codec (wireEncFields (x # fs)) (wireDecFields (x # fs)) (fieldsFit (x # fs)) (map (\<lambda>(f, v). (f, canonVal v)))"
  proof (rule injected_codec [OF pair_codec [OF s fs], where un = ?un and mk = "\<lambda>(v, vs). (f, v) # vs"])
    show "wireDecFields (x # fs) src = map_sum id (apfst (\<lambda>(v, vs). (f, v) # vs)) (dec_pair (wireDec s) (wireDecFields fs) src)" for src
      by (simp add: x dec_pair_def andThen_def split: sum.split prod.split)
    show "fieldsFit (x # fs) v \<longleftrightarrow> (\<exists>a. v = (case a of (v, vs) \<Rightarrow> (f, v) # vs) \<and> pred_prod (fits s) (fieldsFit fs) a)" for v
      by (auto simp: x split: list.splits)
  qed (auto simp: enc split: prod.splits)
  moreover have "bs \<noteq> []" if n: "\<not> list_all (\<lambda>(f, s). noWidth s) (x # fs)" and e: "wireEncFields (x # fs) [] vs = Inr bs" for vs bs
  proof -
    from e obtain v vs' where "?un vs = Some (v, vs')" "enc_pair (wireEnc s) (wireEncFields fs) [] (v, vs') = Inr bs"
      by (auto simp: enc split: option.splits)
    then obtain a b where "wireEnc s [] v = Inr a" "wireEncFields fs [] vs' = Inr b" "bs = a @ b"
      by (auto simp: enc_pair_Inr [OF s fs])
    with n x ws [of v a] wfs [of vs' b] show ?thesis by auto
  qed
  ultimately show ?case by blast
qed

lemma shape_lawful: "primShape s \<Longrightarrow> lawful s"
proof (induction s)
  case (SPrim k)
  then have w: "wide_codec (encPrim k) (decPrim k) (fits (SPrim k)) canonVal" by (simp add: prim_codec)
  have "wireEnc (SPrim k) = encPrim k" "wireDec (SPrim k) = decPrim k" by (auto intro!: ext)
  with wide_wire [OF w] wide_codec.wide [OF w] show ?case by (auto simp: lawful_def simp del: wireEnc.simps wireDec.simps fits.simps)
next
  case (SList s)
  let ?un = "\<lambda>v. case v of GSlice vs \<Rightarrow> Some vs | _ \<Rightarrow> None"
  from SList have s: "wire_codec (wireEnc s) (wireDec s) (fits s) canonVal"
    and ws: "\<not> noWidth s \<Longrightarrow> wireEnc s [] v = Inr bs \<Longrightarrow> bs \<noteq> []" for v bs
    by (auto simp: lawful_def)
  show ?case
  proof (cases "noWidth s")
    case True
    have fixed: "fits s v \<longleftrightarrow> v = zeroOf s" for v
      using noWidth_value(1) [OF True] fits_hasShape(1) noWidth_fits_zero(1) [OF True] by blast
    have "canonVal (zeroOf s) = zeroOf s"
      using wire_codec.exact [OF s noWidth_dec(1) [OF True]] by simp
    note c = fixed_count_codec [where ok = "fits s" and u = "zeroOf s" and c = canonVal, OF fixed this]
    have "wire_codec (wireEnc (SList s)) (wireDec (SList s)) (fits (SList s)) canonVal"
      by (rule injected_codec [OF c, where un = ?un and mk = GSlice and e = errLength])
         (auto simp: True split: goval.splits)
    moreover have "bs \<noteq> []" if "wireEnc (SList s) [] v = Inr bs" for v bs
      using that by (auto simp: True enc_count_def enc_uint64_Inr split: goval.splits)
    ultimately show ?thesis by (auto simp: lawful_def simp del: wireEnc.simps)
  next
    case False
    from ws [OF False] have w: "wide_codec (wireEnc s) (wireDec s) (fits s) canonVal" by (intro wide_codecI s)
    note c = list_codec [OF w]
    have "wire_codec (wireEnc (SList s)) (wireDec (SList s)) (fits (SList s)) canonVal"
      by (rule injected_codec [OF wide_wire [OF c], where un = ?un and mk = GSlice and e = errLength])
         (auto simp: False split: goval.splits)
    moreover have "bs \<noteq> []" if "wireEnc (SList s) [] v = Inr bs" for v bs
      using that wide_codec.wide [OF c] by (auto simp: False split: goval.splits)
    ultimately show ?thesis by (auto simp: lawful_def simp del: wireEnc.simps)
  qed
next
  case (SRec fs)
  then have "list_all (\<lambda>(f, s). lawful s) fs" by (force simp: list_all_iff)
  note fs = fields_codec [OF this]
  let ?un = "\<lambda>v. case v of GStruct vs \<Rightarrow> Some vs | _ \<Rightarrow> None"
  have "wire_codec (wireEnc (SRec fs)) (wireDec (SRec fs)) (fits (SRec fs)) canonVal"
    by (rule injected_codec [OF conjunct1 [OF fs], where un = ?un and mk = GStruct and e = errLength])
       (auto split: goval.splits)
  moreover have "bs \<noteq> []" if "\<not> noWidth (SRec fs)" "wireEnc (SRec fs) [] v = Inr bs" for v bs
    using that conjunct2 [OF fs] by (auto split: goval.splits)
  ultimately show ?case by (auto simp: lawful_def simp del: wireEnc.simps noWidth.simps)
qed

text \<open>\<open>noWidth\<close> is what it says: every value of the shape is encoded in no bytes.\<close>

lemma noWidth_iff:
  assumes "primShape s" "fits s v" "wireEnc s [] v = Inr bs"
  shows "noWidth s \<longleftrightarrow> bs = []"
  using shape_lawful [OF assms(1)] noWidth_codec(1) [of s v "[]"] fits_hasShape(1) [OF assms(2)] assms(3)
  by (auto simp: lawful_def)

end
