(* ===== verification/Codec_Correctness.thy ===== *)
theory Codec_Correctness
  imports Codec_Laws
begin

text \<open>
  The emitted bodies compute the wire codec of their type: running the statements
  \<open>emitEncBody\<close> and \<open>emitDecBody\<close> make for a type does what \<open>wireEnc\<close> and \<open>wireDec\<close> of its shape
  do, and so do all emitted pairs that are reachable by calls.
\<close>

section \<open>Types in an environment\<close>

fun primTyped :: "TypeExpr \<Rightarrow> bool" and primField :: "Field \<Rightarrow> bool" where
  "primTyped (PrimType d k sp) = (k \<in> set primitiveKinds)"
| "primTyped (NamedType d i) = True"
| "primTyped (ListType d ls t) = primTyped t"
| "primTyped (RecordType d rs lb fs rb) = list_all primField fs"
| "primField (Field d i t semi) = primTyped t"

definition typedIn :: "type_env \<Rightarrow> TypeExpr \<Rightarrow> bool" where
  "typedIn env t \<longleftrightarrow> typeNames t \<subseteq> fst ` set env \<and> primTyped t"

definition fieldTyped :: "type_env \<Rightarrow> Field \<Rightarrow> bool" where
  "fieldTyped env f \<longleftrightarrow> typedIn env (fieldType f)"

lemma typedIn_simps [simp]:
  "typedIn env (PrimType d k sp) \<longleftrightarrow> k \<in> set primitiveKinds"
  "typedIn env (NamedType d i) \<longleftrightarrow> id_name i \<in> fst ` set env"
  "typedIn env (ListType d ls t) \<longleftrightarrow> typedIn env t"
  "typedIn env (RecordType d rs lb fs rb) \<longleftrightarrow> list_all (fieldTyped env) fs"
proof -
  have "fieldNames f \<subseteq> fst ` set env \<and> primField f \<longleftrightarrow> fieldTyped env f" for f
    by (cases f) (simp add: fieldTyped_def typedIn_def)
  then show "typedIn env (RecordType d rs lb fs rb) \<longleftrightarrow> list_all (fieldTyped env) fs"
    by (auto simp: typedIn_def list_all_iff)
qed (auto simp: typedIn_def)

lemma fieldTyped_Field [simp]: "fieldTyped env (Field d i t semi) = typedIn env t"
  by (simp add: fieldTyped_def)

text \<open>The declarations of an environment are those of the map, each one before its users.\<close>

definition envOf :: "type_decls \<Rightarrow> type_env \<Rightarrow> bool" where
  "envOf types env \<longleftrightarrow> scopedEnv env \<and> length env \<le> length types
     \<and> (\<forall>n t env'. lookupBefore env n = Some (t, env') \<longrightarrow> namedType types n = Some t \<and> primTyped t)"

lemma envOf_lookup:
  assumes "envOf types env" "lookupBefore env n = Some (t, env')"
  shows "envOf types env' \<and> typedIn env' t \<and> namedType types n = Some t"
proof -
  from lookupBefore_split [OF assms(2)] obtain pre where env: "env = pre @ (n, t) # env'" by blast
  from assms(1) have sc: "scopedEnv env" by (simp add: envOf_def)
  then have inner: "scopedEnv ((n, t) # env')" unfolding env by (rule scopedEnv_suffix)
  have "lookupBefore env m = lookupBefore env' m" if "m \<in> fst ` set env'" for m
  proof -
    from sc that have "m \<notin> fst ` set (pre @ [(n, t)])"
      unfolding env using scopedEnv_disjoint [of "pre @ [(n, t)]" env' m] by simp
    from lookupBefore_skip [OF this, of env'] show ?thesis by (simp add: env)
  qed
  moreover have "m \<in> fst ` set env'" if "lookupBefore env' m = Some r" for m r
    using that by (induction env' m rule: lookupBefore.induct) (auto split: if_splits)
  ultimately have "\<forall>m u e. lookupBefore env' m = Some (u, e) \<longrightarrow> namedType types m = Some u \<and> primTyped u"
    using assms(1) by (metis envOf_def)
  moreover from assms have "namedType types n = Some t \<and> primTyped t" by (auto simp: envOf_def)
  moreover from assms(1) have "length env' \<le> length types" by (simp add: envOf_def env)
  ultimately show ?thesis using inner by (simp add: envOf_def typedIn_def)
qed

lemma lookup_some: "n \<in> fst ` set env \<Longrightarrow> \<exists>t env'. lookupBefore env n = Some (t, env')"
  by (rule lookupBefore_names)

section \<open>Zero width\<close>

lemma zeroWidthOf_shape:
  "envOf types env \<Longrightarrow> typedIn env t \<Longrightarrow> length env < k \<Longrightarrow>
     zeroWidthOf k types t = Some (noWidth (shapeOf names env t))"
  "envOf types env \<Longrightarrow> list_all (fieldTyped env) fs \<Longrightarrow> length env < k \<Longrightarrow>
     zeroWidthFields k types fs = Some (list_all (\<lambda>(f, s). noWidth s) (fieldShapes names env fs))"
proof (induction names env t and names env fs arbitrary: k and k rule: shapeOf_fieldShapes.induct)
  case (2 names env d i)
  from "2.prems"(2) lookup_some obtain t env' where l: "lookupBefore env (id_name i) = Some (t, env')" by fastforce
  from envOf_lookup [OF "2.prems"(1) l] lookupBefore_length [OF l] "2.IH" [OF l refl, of "k - 1"] "2.prems"(3)
  show ?case by (cases k) (simp_all add: l)
next
  case (6 names env f fs)
  then show ?case by (auto simp: fieldTyped_def)
qed auto

lemma zeroWidth_shape:
  "envOf types env \<Longrightarrow> typedIn env t \<Longrightarrow> zeroWidth types t = noWidth (shapeOf names env t)"
  using zeroWidthOf_shape(1) [of types env t "Suc (length types)" names] by (simp add: zeroWidth_def envOf_def)

section \<open>Shapes that can be structs\<close>

fun apart :: "shape \<Rightarrow> bool" where
  "apart (SPrim k) = True"
| "apart (SList s) = apart s"
| "apart (SRec fs) = (distinct (map fst fs) \<and> list_all (\<lambda>(f, s). apart s) fs)"

lemma shapeOf_prim: 
  "envOf types env \<Longrightarrow> typedIn env t \<Longrightarrow> primShape (shapeOf names env t)"
  "envOf types env \<Longrightarrow> list_all (fieldTyped env) fs \<Longrightarrow> list_all (\<lambda>(f, s). primShape s) (fieldShapes names env fs)"
proof (induction names env t and names env fs rule: shapeOf_fieldShapes.induct)
  case (2 names env d i)
  from "2.prems"(2) lookup_some obtain t env' where l: "lookupBefore env (id_name i) = Some (t, env')" by fastforce
  from envOf_lookup [OF "2.prems"(1) l] "2.IH" [OF l refl] show ?case by (simp add: l)
qed (auto simp: fieldTyped_def)

lemma fieldsHave_names: "fieldsHave fs vs \<Longrightarrow> map fst vs = map fst fs"
proof (induction fs arbitrary: vs)
  case (Cons x fs)
  then show ?case by (cases x; cases vs) auto
qed simp

section \<open>Encoder bodies\<close>

text \<open>The loop indices of a place are below the next fresh one.\<close>

fun below :: "place \<Rightarrow> nat \<Rightarrow> bool" where
  "below PVar i = True"
| "below (PSel p f) i = below p i"
| "below (PIdx p k) i = (k < i \<and> below p i)"

lemma accesses_fresh: "below p i \<Longrightarrow> i \<le> j \<Longrightarrow> accesses (ix(j := x)) p = accesses ix p"
  by (induction p) auto

lemma below_mono: "below p i \<Longrightarrow> i \<le> j \<Longrightarrow> below p j"
  by (induction p) auto

lemma getAt_append: "getAt v (as @ bs) = Option.bind (getAt v as) (\<lambda>u. getAt u bs)"
  by (induction as arbitrary: v) (auto simp: Option.bind_eq_Some_conv bind_eq_None_conv split: Option.bind_split)

lemma emitEnc_mono:
  "idx \<le> snd (emitEncBody names types t val idx)"
  "idx \<le> snd (emitEncFields names types fs val idx)"
  by (induction names types t val idx and names types fs val idx rule: emitEncBody_emitEncFields.induct)
     (force split: prod.splits)+

lemma execEnc_append:
  "execEnc call v ix (a @ b) buf = (case execEnc call v ix a buf of None \<Rightarrow> None | Some (Inl e) \<Rightarrow> Some (Inl e)
     | Some (Inr buf') \<Rightarrow> execEnc call v ix b buf')"
  by (induction a arbitrary: buf) (auto split: option.splits sum.splits)

lemma rangeLoop_enc:
  "list_all2 (\<lambda>j x. \<forall>buf. body j buf = Some (enc buf x)) js vs \<Longrightarrow> rangeLoop body js buf = Some (enc_loop enc buf vs)"
proof (induction js vs arbitrary: buf rule: list_all2_induct)
  case (Cons j js x vs)
  then show ?case by (cases "enc buf x") auto
qed simp

text \<open>What a body relies on: calls of primitive pairs and of the pairs of declared names.\<close>

definition encCalls :: "enc_call \<Rightarrow> Names \<Rightarrow> type_env \<Rightarrow> bool" where
  "encCalls call names env \<longleftrightarrow>
     (\<forall>k \<in> set primitiveKinds. \<forall>buf v. call (primitiveParts k) buf v = Some (encPrim k buf v))
   \<and> (\<forall>n t env'. lookupBefore env n = Some (t, env') \<longrightarrow>
        (\<forall>buf v. hasShape (shapeOf names env' t) v \<longrightarrow>
           call (namedParts n) buf v = Some (wireEnc (shapeOf names env' t) buf v)))"

lemma emitEnc_correct:
  "encCalls call names env \<Longrightarrow> envOf types env \<Longrightarrow> typedIn env t \<Longrightarrow> apart (shapeOf names env t) \<Longrightarrow> below val idx \<Longrightarrow>
     getAt v (accesses ix val) = Some u \<Longrightarrow> hasShape (shapeOf names env t) u \<Longrightarrow>
     execEnc call v ix (fst (emitEncBody names types t val idx)) buf = Some (wireEnc (shapeOf names env t) buf u)"
  "encCalls call names env \<Longrightarrow> envOf types env \<Longrightarrow> list_all (fieldTyped env) fs \<Longrightarrow>
     list_all (\<lambda>(f, s). apart s) (fieldShapes names env fs) \<Longrightarrow> below val idx \<Longrightarrow>
     getAt v (accesses ix val) = Some (GStruct all) \<Longrightarrow> \<forall>(f, x) \<in> set vs. map_of all f = Some x \<Longrightarrow>
     fieldsHave (fieldShapes names env fs) vs \<Longrightarrow>
     execEnc call v ix (fst (emitEncFields names types fs val idx)) buf
       = Some (wireEncFields (fieldShapes names env fs) buf vs)"
proof (induction names types t val idx and names types fs val idx arbitrary: u ix buf and all vs ix buf
    rule: emitEncBody_emitEncFields.induct)
  case (1 names types d k sp val idx)
  then show ?case by (auto simp: encCalls_def split: sum.splits)
next
  case (2 names types d i val idx)
  then obtain t env' where l: "lookupBefore env (id_name i) = Some (t, env')" using lookup_some by fastforce
  with 2 show ?case by (auto simp: encCalls_def split: sum.splits)
next
  case (3 names types d ls t val idx)
  from "3.prems"(7) obtain vs where u: "u = GSlice vs" "list_all (hasShape (shapeOf names env t)) vs"
    by (auto split: goval.splits)
  have count: "call (primitiveParts TokUint64) buf (GUint64 n) = Some (enc_uint64 buf n)" for buf n
    using "3.prems"(1) by (simp add: encCalls_def primitiveKinds_def encVia_def)
  have nw: "zeroWidth types t = noWidth (shapeOf names env t)"
    using "3.prems"(2,3) by (simp add: zeroWidth_shape)
  show ?case
  proof (cases "zeroWidth types t")
    case True
    with "3.prems"(6) u nw count show ?thesis by (auto simp: enc_count_def split: sum.split)
  next
    case False
    obtain body idx' where e: "emitEncBody names types t (PIdx val idx) (Suc idx) = (body, idx')" by fastforce
    have "execEnc call v (ix(idx := j)) body buf = Some (wireEnc (shapeOf names env t) buf (vs ! j))"
      if j: "j < length vs" for j buf
    proof -
      from "3.prems"(5) have "accesses (ix(idx := j)) val = accesses ix val" by (rule accesses_fresh) simp
      with "3.prems"(6) u j have at: "getAt v (accesses (ix(idx := j)) (PIdx val idx)) = Some (vs ! j)"
        by (simp add: getAt_append)
      from u j have shape: "hasShape (shapeOf names env t) (vs ! j)" by (simp add: list_all_length)
      from "3.prems"(3-5) have "typedIn env t" "apart (shapeOf names env t)" "below (PIdx val idx) (Suc idx)"
        by (simp_all add: below_mono [of val idx])
      from "3.IH" [OF False "3.prems"(1,2) this at shape, of buf] show ?thesis by (simp only: e fst_conv)
    qed
    then have "rangeLoop (\<lambda>j. execEnc call v (ix(idx := j)) body) [0..<length vs] b
        = Some (enc_loop (wireEnc (shapeOf names env t)) b vs)" for b
      by (intro rangeLoop_enc) (simp add: list_all2_conv_all_nth)
    with False "3.prems"(6) u nw count e show ?thesis by (auto simp: enc_list_def split: sum.split)
  qed
next
  case (4 names types d rs lb fs rb val idx)
  then obtain vs where u: "u = GStruct vs" "fieldsHave (fieldShapes names env fs) vs" by (auto split: goval.splits)
  from 4 u(2) have "distinct (map fst vs)" by (simp add: fieldsHave_names)
  then have "\<forall>(f, x) \<in> set vs. map_of vs f = Some x" by auto
  with 4 u show ?case by simp
next
  case (5 names types val idx)
  then show ?case by simp
next
  case (6 names types d i t semi fs val idx)
  let ?f = "Field d i t semi"
  from "6.prems"(8) obtain x vs' where vs: "vs = (goFieldName names ?f, x) # vs'" "hasShape (shapeOf names env t) x"
    "fieldsHave (fieldShapes names env fs) vs'" by (auto split: list.splits)
  have nw: "zeroWidth types t = noWidth (shapeOf names env t)"
    using "6.prems"(2,3) by (simp add: zeroWidth_shape)
  show ?case
  proof (cases "zeroWidth types t")
    case True
    with 6 vs nw noWidth_codec(1) [of "shapeOf names env t" x] show ?thesis by simp
  next
    case False
    obtain part idx1 where e1: "emitEncBody names types t (PSel val (goFieldName names ?f)) idx = (part, idx1)" by fastforce
    obtain rest idx2 where e2: "emitEncFields names types fs val idx1 = (rest, idx2)" by fastforce
    have "getAt v (accesses ix (PSel val (goFieldName names ?f))) = Some x"
      using "6.prems"(6,7) vs(1) by (simp add: getAt_append)
    with "6.IH"(2) [OF False "6.prems"(1,2), of ix x] "6.prems"(3-5) vs e1
    have part: "execEnc call v ix part buf = Some (wireEnc (shapeOf names env t) buf x)" for buf by simp
    have "below val idx1" using below_mono [OF "6.prems"(5)] emitEnc_mono(1) [of idx names types t] e1 by (metis snd_conv)
    with "6.IH"(3) [OF False e1 [symmetric] refl "6.prems"(1,2), of ix all vs'] "6.prems"(3-7) vs e1 e2
    have "execEnc call v ix rest buf = Some (wireEncFields (fieldShapes names env fs) buf vs')" for buf by simp
    with False e1 e2 part vs show ?thesis by (auto simp: execEnc_append split: sum.split)
  qed
qed

section \<open>Assignments\<close>

lemma putStep_step: "putStep v a x = Some v' \<Longrightarrow> stepAt v' a = Some x \<and> putStep v' a y = putStep v a y"
  by (cases v; cases a) (auto simp: update_conv' AList.update_Some_unfold split: if_splits)

lemma stepAt_put: "stepAt v a = Some u \<Longrightarrow> \<exists>v'. putStep v a x = Some v'"
  by (cases v; cases a) (auto split: if_splits)

lemma setAt_append:
  "setAt r (as @ bs) x = Option.bind (getAt r as) (\<lambda>u. Option.bind (setAt u bs x) (setAt r as))"
proof (induction as arbitrary: r)
  case (Cons a as)
  then show ?case by (cases "stepAt r a"; simp; cases "getAt (the (stepAt r a)) as"; simp)
next
  case Nil
  show ?case by (cases "setAt r bs x") simp_all
qed

lemma setAt_exists: "getAt r as = Some u \<Longrightarrow> \<exists>r'. setAt r as x = Some r'"
proof (induction as arbitrary: r)
  case (Cons a as)
  then show ?case using stepAt_put by (fastforce simp: bind_eq_Some_conv)
qed simp

lemma setAt_get: "setAt r as x = Some r' \<Longrightarrow> getAt r' as = Some x \<and> setAt r' as y = setAt r as y"
proof (induction as arbitrary: r r')
  case (Cons a as)
  from Cons.prems obtain u u' where u: "stepAt r a = Some u" "setAt u as x = Some u'" "putStep r a u' = Some r'"
    by (auto simp: bind_eq_Some_conv)
  from putStep_step [OF u(3)] Cons.IH [OF u(2)] u show ?case
    by (cases "setAt u as y") (auto simp: putStep_step [OF u(3)])
qed simp

text \<open>The update of one component of the value at a place.\<close>

lemma setAt_component:
  assumes "getAt r as = Some u" "putStep u a x = Some u'"
  shows "setAt r (as @ [a]) x = setAt r as u'"
proof -
  have "stepAt u a \<noteq> None" using assms(2) by (cases u; cases a) (auto split: if_splits)
  with assms show ?thesis by (auto simp: setAt_append)
qed

lemma putStep_field:
  "f \<notin> fst ` set pre \<Longrightarrow> putStep (GStruct (pre @ (f, z) # rest)) (Fld f) x = Some (GStruct (pre @ (f, x) # rest))"
proof -
  assume f: "f \<notin> fst ` set pre"
  then have "AList.update f x (pre @ (f, z) # rest) = pre @ (f, x) # rest" by (induction pre) auto
  moreover from f have "map_of (pre @ (f, z) # rest) f = Some z" by (induction pre) auto
  ultimately show ?thesis by simp
qed

lemma putStep_elem:
  "length xs = j \<Longrightarrow> putStep (GSlice (xs @ z # zs)) (Elem j) x = Some (GSlice (xs @ x # zs))"
  by auto

section \<open>Decoder bodies\<close>

lemma emitDec_mono:
  "idx \<le> fst (snd (emitDecBody names types t dst idx cnt))"
  "idx \<le> fst (snd (emitDecFields names types fs dst idx cnt))"
  by (induction names types t dst idx cnt and names types fs dst idx cnt rule: emitDecBody_emitDecFields.induct)
     (force split: prod.splits)+

lemma execDec_append:
  "execDec call zero ix (a @ b) st = (case execDec call zero ix a st of None \<Rightarrow> None | Some (Inl e) \<Rightarrow> Some (Inl e)
     | Some (Inr st') \<Rightarrow> execDec call zero ix b st')"
  by (induction a arbitrary: st) (auto split: option.splits sum.splits)

text \<open>A run that leaves what was decoded at a place, or fails as the decoder does.\<close>

definition decodesTo :: "dec_state result option \<Rightarrow> goval \<Rightarrow> access list \<Rightarrow> (goval \<times> bytes) result \<Rightarrow> bool" where
  "decodesTo run root as r \<longleftrightarrow>
     (case r of
        Inl e \<Rightarrow> run = Some (Inl e)
      | Inr (x, rest) \<Rightarrow> \<exists>root' cs. setAt root as x = Some root' \<and> run = Some (Inr (root', cs, rest)))"

definition decCalls :: "dec_call \<Rightarrow> (TypeExpr \<Rightarrow> goval) \<Rightarrow> Names \<Rightarrow> type_env \<Rightarrow> bool" where
  "decCalls call zero names env \<longleftrightarrow>
     (\<forall>k \<in> set primitiveKinds. \<forall>src. call (primitiveParts k) src = Some (decPrim k src))
   \<and> (\<forall>n t env' src. lookupBefore env n = Some (t, env') \<longrightarrow> call (namedParts n) src = Some (wireDec (shapeOf names env' t) src))
   \<and> (\<forall>t. typedIn env t \<longrightarrow> zero t = zeroOf (shapeOf names env t))"

text \<open>The element loop of a list whose elements start as zero values.\<close>

lemma putStep_same: "stepAt v a = Some u \<Longrightarrow> putStep v a u = Some v"
proof (cases v)
  case (GStruct fs)
  moreover have "map_of fs f = Some u \<Longrightarrow> AList.update f u fs = fs" for f by (induction fs) auto
  moreover assume "stepAt v a = Some u"
  ultimately show ?thesis by (cases a) auto
qed (cases a; auto split: if_splits)+

lemma setAt_same: "getAt r as = Some u \<Longrightarrow> setAt r as u = Some r"
  by (induction as arbitrary: r) (auto simp: bind_eq_Some_conv putStep_same)

lemma rangeLoop_dec:
  assumes body: "\<And>j root cs src. getAt root (as @ [Elem j]) = Some z \<Longrightarrow>
      decodesTo (body j (root, cs, src)) root (as @ [Elem j]) (dec src)"
  shows "getAt root as = Some (GSlice (xs @ replicate n z)) \<Longrightarrow>
    decodesTo (rangeLoop body [length xs..<length xs + n] (root, cs, src)) root as
      (map_sum id (apfst (\<lambda>ys. GSlice (xs @ ys))) (dec_loop dec n src))"
proof (induction n arbitrary: xs root cs src)
  case 0
  then show ?case by (simp add: decodesTo_def setAt_same)
next
  case (Suc n)
  let ?j = "length xs"
  have range: "[?j..<?j + Suc n] = ?j # [Suc ?j..<Suc ?j + n]" by (simp add: upt_conv_Cons)
  from Suc.prems have "getAt root (as @ [Elem ?j]) = Some z" by (simp add: getAt_append nth_append)
  note step = body [OF this, of cs src]
  show ?case
  proof (cases "dec src")
    case (Inl e)
    with step show ?thesis by (simp only: range) (simp add: decodesTo_def)
  next
    case (Inr q)
    then obtain x rest where q: "dec src = Inr (x, rest)" by (cases q) simp
    with step obtain root1 cs1 where root1: "setAt root (as @ [Elem ?j]) x = Some root1"
      "body ?j (root, cs, src) = Some (Inr (root1, cs1, rest))" by (auto simp: decodesTo_def)
    have set1: "setAt root as (GSlice (xs @ x # replicate n z)) = Some root1"
      using setAt_component [OF Suc.prems, of "Elem ?j" x] putStep_elem [of xs ?j z "replicate n z" x] root1(1) by simp
    from setAt_get [OF set1] have "getAt root1 as = Some (GSlice ((xs @ [x]) @ replicate n z))" by simp
    note ih = Suc.IH [OF this, of cs1 rest]
    have "setAt root1 as y = setAt root as y" for y using setAt_get [OF set1] by blast
    with ih q root1 show ?thesis
      by (simp only: range) (cases "dec_loop dec n rest", auto simp: decodesTo_def)
  qed
qed

lemma shape_names: "map fst (fieldShapes names env fs) = map (goFieldName names) fs"
  by (induction fs) simp_all

lemma decodes_part:
  assumes "call parts src = Some r" "getAt root (accesses ix p) = Some z"
  shows "decodesTo (execDec call zero ix [DecPart p parts] (root, cs, src)) root (accesses ix p) r"
proof (cases r)
  case (Inr q)
  then obtain x rest where q: "r = Inr (x, rest)" by (cases q) simp
  from setAt_exists [OF assms(2)] obtain root' where "setAt root (accesses ix p) x = Some root'" by blast
  with q assms(1) show ?thesis by (simp add: decodesTo_def assign_def)
qed (simp add: assms(1) decodesTo_def)

lemma emitDec_correct:
  "decCalls call zero names env \<Longrightarrow> envOf types env \<Longrightarrow> typedIn env t \<Longrightarrow> apart (shapeOf names env t) \<Longrightarrow> below dst idx \<Longrightarrow>
     getAt root (accesses ix dst) = Some (zeroOf (shapeOf names env t)) \<Longrightarrow>
     decodesTo (execDec call zero ix (fst (emitDecBody names types t dst idx cnt)) (root, cs, src)) root (accesses ix dst)
       (wireDec (shapeOf names env t) src)"
  "decCalls call zero names env \<Longrightarrow> envOf types env \<Longrightarrow> list_all (fieldTyped env) fs \<Longrightarrow>
     list_all (\<lambda>(f, s). apart s) (fieldShapes names env fs) \<Longrightarrow> below dst idx \<Longrightarrow>
     distinct (map fst pre @ map fst (fieldShapes names env fs)) \<Longrightarrow>
     getAt root (accesses ix dst) = Some (GStruct (pre @ map (\<lambda>(f, s). (f, zeroOf s)) (fieldShapes names env fs))) \<Longrightarrow>
     decodesTo (execDec call zero ix (fst (emitDecFields names types fs dst idx cnt)) (root, cs, src)) root (accesses ix dst)
       (map_sum id (apfst (\<lambda>vs. GStruct (pre @ vs))) (wireDecFields (fieldShapes names env fs) src))"
proof (induction names types t dst idx cnt and names types fs dst idx cnt arbitrary: root ix cs src and pre root ix cs src
    rule: emitDecBody_emitDecFields.induct)
  case (1 names types d k sp dst idx cnt)
  then have "call (primitiveParts k) src = Some (wireDec (shapeOf names env (PrimType d k sp)) src)" by (simp add: decCalls_def)
  from decodes_part [where call = call and ix = ix and p = dst, OF this "1.prems"(6)] show ?case by simp
next
  case (2 names types d i dst idx cnt)
  then obtain t env' where l: "lookupBefore env (id_name i) = Some (t, env')" using lookup_some by fastforce
  with 2 have "call (namedParts (id_name i)) src = Some (wireDec (shapeOf names env (NamedType d i)) src)"
    by (simp add: decCalls_def)
  from decodes_part [where call = call and ix = ix and p = dst, OF this "2.prems"(6)] show ?case by simp
next
  case (3 names types d ls t dst idx cnt)
  let ?s = "shapeOf names env t" and ?as = "accesses ix dst"
  have count: "call (primitiveParts TokUint64) src = Some (decVia GUint64 dec_uint64 src)" for src
    using "3.prems"(1) by (simp add: decCalls_def primitiveKinds_def)
  from "3.prems"(2,3) have nw: "zeroWidth types t = noWidth ?s" by (simp add: zeroWidth_shape)
  from "3.prems"(1,3) have z: "zero t = zeroOf ?s" by (simp add: decCalls_def)
  show ?case
  proof (cases "dec_uint64 src")
    case (Inl e)
    with count nw show ?thesis
      by (auto simp: decodesTo_def decVia_def dec_count_def dec_list_def split: prod.split)
  next
    case (Inr q)
    then obtain n rest where q: "dec_uint64 src = Inr (n, rest)" by (cases q) simp
    from setAt_exists [OF "3.prems"(6)] obtain root1 where
      root1: "setAt root ?as (GSlice (replicate (unat n) (zeroOf ?s))) = Some root1" by blast
    show ?thesis
    proof (cases "zeroWidth types t")
      case True
      with count nw q z root1 show ?thesis
        by (auto simp: decodesTo_def decVia_def dec_count_def assign_def)
    next
      case False
      obtain body idx' cnt' where e: "emitDecBody names types t (PIdx dst idx) (Suc idx) (Suc cnt) = (body, idx', cnt')"
        by (metis prod_cases3)
      have acc: "accesses (ix(idx := j)) dst = ?as" for j using "3.prems"(5) by (rule accesses_fresh) simp
      from "3.prems"(3-5) have prems: "typedIn env t" "apart ?s" "below (PIdx dst idx) (Suc idx)"
        by (simp_all add: below_mono [of dst idx])
      have body: "decodesTo (execDec call zero (ix(idx := j)) body (root, cs, src)) root (?as @ [Elem j]) (wireDec ?s src)"
        if at: "getAt root (?as @ [Elem j]) = Some (zeroOf ?s)" for root j cs src
      proof -
        from at have "getAt root (accesses (ix(idx := j)) (PIdx dst idx)) = Some (zeroOf ?s)" by (simp add: acc)
        from "3.IH" [OF False "3.prems"(1,2) prems this, of cs src]
        have "decodesTo (execDec call zero (ix(idx := j)) body (root, cs, src)) root
            (accesses (ix(idx := j)) (PIdx dst idx)) (wireDec ?s src)" by (simp only: e fst_conv)
        then show ?thesis by (simp add: acc)
      qed
      from setAt_get [OF root1] have at1: "getAt root1 ?as = Some (GSlice ([] @ replicate (unat n) (zeroOf ?s)))"
        and same: "setAt root1 ?as y = setAt root ?as y" for y by auto
      note loop = rangeLoop_dec [where body = "\<lambda>j. execDec call zero (ix(idx := j)) body", OF body at1,
          of "cs(cnt := unat n)" rest]
      show ?thesis
        using loop False count nw q z root1 same at1 e
        by (cases "dec_loop (wireDec ?s) (unat n) rest")
           (auto simp: decodesTo_def decVia_def dec_list_def assign_def)
    qed
  qed
next
  case (4 names types d rs lb fs rb dst idx cnt)
  from "4.IH" [of "[]" root ix cs src] "4.prems" show ?case by (simp add: id_def sum.map_comp)
next
  case (5 names types dst idx cnt)
  then show ?case by (simp add: decodesTo_def setAt_same)
next
  case (6 names types d i t semi fs dst idx cnt)
  let ?f = "goFieldName names (Field d i t semi)" and ?s = "shapeOf names env t" and ?as = "accesses ix dst"
  let ?zs = "map (\<lambda>(f, s). (f, zeroOf s)) (fieldShapes names env fs)"
  have nw: "zeroWidth types t = noWidth ?s" using "6.prems"(2,3) by (simp add: zeroWidth_shape)
  have at: "getAt root ?as = Some (GStruct (pre @ (?f, zeroOf ?s) # ?zs))" using "6.prems"(7) by simp
  show ?case
  proof (cases "zeroWidth types t")
    case True
    with "6.IH"(1) [OF True "6.prems"(1,2), of "pre @ [(?f, zeroOf ?s)]" root ix cs src] "6.prems"(3-6) at nw
      noWidth_dec(1) [of ?s src]
    show ?thesis by (cases "wireDecFields (fieldShapes names env fs) src") auto
  next
    case False
    obtain part idx1 cnt1 where e1: "emitDecBody names types t (PSel dst ?f) idx cnt = (part, idx1, cnt1)"
      by (metis prod_cases3)
    obtain after idx2 cnt2 where e2: "emitDecFields names types fs dst idx1 cnt1 = (after, idx2, cnt2)"
      by (metis prod_cases3)
    from "6.prems"(6) have f: "?f \<notin> fst ` set pre" by auto
    then have "map_of (pre @ (?f, zeroOf ?s) # ?zs) ?f = Some (zeroOf ?s)" by (induction pre) auto
    with at have "getAt root (accesses ix (PSel dst ?f)) = Some (zeroOf ?s)" by (simp add: getAt_append)
    from "6.IH"(2) [OF False "6.prems"(1,2) _ _ _ this, of cs src] "6.prems"(3-5)
    have part: "decodesTo (execDec call zero ix part (root, cs, src)) root (?as @ [Fld ?f]) (wireDec ?s src)"
      by (simp add: e1)
    show ?thesis
    proof (cases "wireDec ?s src")
      case (Inl e)
      with part False e1 e2 show ?thesis by (simp add: decodesTo_def execDec_append)
    next
      case (Inr q)
      then obtain x rest where q: "wireDec ?s src = Inr (x, rest)" by (cases q) simp
      with part obtain root1 cs1 where root1: "setAt root (?as @ [Fld ?f]) x = Some root1"
        "execDec call zero ix part (root, cs, src) = Some (Inr (root1, cs1, rest))" by (auto simp: decodesTo_def)
      have set1: "setAt root ?as (GStruct (pre @ (?f, x) # ?zs)) = Some root1"
        using setAt_component [OF at putStep_field [OF f]] root1(1) by simp
      from setAt_get [OF set1] have at1: "getAt root1 ?as = Some (GStruct ((pre @ [(?f, x)]) @ ?zs))"
        and same: "setAt root1 ?as y = setAt root ?as y" for y by auto
      have "below dst idx1" using below_mono [OF "6.prems"(5)] emitDec_mono(1) [of idx names types t "PSel dst ?f" cnt] e1 by simp
      moreover have "distinct (map fst (pre @ [(?f, x)]) @ map fst (fieldShapes names env fs))" using "6.prems"(6) by simp
      ultimately have "decodesTo (execDec call zero ix after (root1, cs1, rest)) root1 ?as
          (map_sum id (apfst (\<lambda>vs. GStruct ((pre @ [(?f, x)]) @ vs))) (wireDecFields (fieldShapes names env fs) rest))"
        using "6.IH"(3) [OF False e1 [symmetric] refl refl "6.prems"(1,2) _ _ _ _ at1, of cs1 rest] "6.prems"(3,4) by (simp add: e2 id_def)
      with q root1 same False e1 e2 show ?thesis
        by (cases "wireDecFields (fieldShapes names env fs) rest") (auto simp: decodesTo_def execDec_append)
    qed
  qed
qed

section \<open>Programs\<close>

text \<open>The program has the pairs of the primitives and of every declaration of the environment.\<close>

definition declares :: "codecPair list \<Rightarrow> Names \<Rightarrow> type_decls \<Rightarrow> type_env \<Rightarrow> bool" where
  "declares prog names types env \<longleftrightarrow>
     (\<forall>k \<in> set primitiveKinds. findPair prog (primitiveParts k) = Some (primPair k))
   \<and> (\<forall>n t env'. lookupBefore env n = Some (t, env') \<longrightarrow> apart (shapeOf names env' t)
        \<and> (\<exists>gt. findPair prog (namedParts n) = Some (emitPair names types (namedParts n) gt t (zeroWidth types t))))"

definition zeroAgrees :: "(TypeExpr \<Rightarrow> goval) \<Rightarrow> Names \<Rightarrow> type_env \<Rightarrow> bool" where
  "zeroAgrees zero names env \<longleftrightarrow> (\<forall>t. typedIn env t \<longrightarrow> zero t = zeroOf (shapeOf names env t))"

text \<open>One pair, given that the calls of its bodies are right.\<close>

lemma run_pair:
  assumes found: "findPair prog parts = Some (emitPair names types parts gt t (zeroWidth types t))"
    and enc: "encCalls (runEnc k prog) names env" and dec: "decCalls (runDec k prog zero) zero names env"
    and env: "envOf types env" and t: "typedIn env t" "apart (shapeOf names env t)"
  shows "hasShape (shapeOf names env t) v \<Longrightarrow> runEnc (Suc k) prog parts buf v = Some (wireEnc (shapeOf names env t) buf v)"
    and "runDec (Suc k) prog zero parts src = Some (wireDec (shapeOf names env t) src)"
proof -
  let ?s = "shapeOf names env t"
  have nw: "zeroWidth types t = noWidth ?s" by (rule zeroWidth_shape [OF env t(1)])
  have z: "zero t = zeroOf ?s" using dec t(1) by (simp add: decCalls_def)
  have parts: "(hasShape ?s v \<longrightarrow> runEnc (Suc k) prog parts buf v = Some (wireEnc ?s buf v))
    \<and> runDec (Suc k) prog zero parts src = Some (wireDec ?s src)" for v buf src
  proof (cases "noWidth ?s")
    case True
    then show ?thesis by (simp add: found emitPair_def nw z noWidth_codec noWidth_dec)
  next
    case False
    have general: ?thesis if body: "cp_body (emitPair names types parts gt t (zeroWidth types t)) = generalBody names types t"
    proof -
      obtain es idx where es: "emitEncBody names types t PVar 0 = (es, idx)" by fastforce
      obtain ds idx' cnt' where ds: "emitDecBody names types t PVar idx 0 = (ds, idx', cnt')" by (metis prod_cases3)
      have "hasShape ?s v \<Longrightarrow> execEnc (runEnc k prog) v (\<lambda>_. 0) es buf = Some (wireEnc ?s buf v)"
        using emitEnc_correct(1) [OF enc env t, of PVar 0 v "\<lambda>_. 0" v buf] by (simp add: es)
      moreover have "decodesTo (execDec (runDec k prog zero) zero (\<lambda>_. 0) ds (zeroOf ?s, \<lambda>_. 0, src)) (zeroOf ?s) [] (wireDec ?s src)"
        using emitDec_correct(1) [OF dec env t, of PVar idx "zeroOf ?s" "\<lambda>_. 0" 0 "\<lambda>_. 0" src] by (simp add: ds)
      then have "map_option (map_sum id (\<lambda>(v, cnt, src). (v, src)))
          (execDec (runDec k prog zero) zero (\<lambda>_. 0) ds (zeroOf ?s, \<lambda>_. 0, src)) = Some (wireDec ?s src)"
        by (cases "wireDec ?s src") (auto simp: decodesTo_def)
      moreover have "cp_type (emitPair names types parts gt t (zeroWidth types t)) = t" by (simp add: emitPair_def)
      ultimately show ?thesis by (simp add: found body generalBody_def es ds z)
    qed
    show ?thesis
    proof (cases t)
      case (PrimType d p sp)
      with t(1) enc dec False nw show ?thesis by (simp add: found emitPair_def encCalls_def decCalls_def)
    next
      case (NamedType d i)
      with t(1) lookup_some obtain u env' where "lookupBefore env (id_name i) = Some (u, env')" by fastforce
      with NamedType enc dec False nw show ?thesis by (simp add: found emitPair_def encCalls_def decCalls_def)
    next
      case (ListType d ls u)
      with False nw show ?thesis by (intro general) (simp add: emitPair_def)
    next
      case (RecordType d rs lb fs rb)
      with False nw show ?thesis by (intro general) (simp add: emitPair_def)
    qed
  qed
  show "hasShape ?s v \<Longrightarrow> runEnc (Suc k) prog parts buf v = Some (wireEnc ?s buf v)" using parts by blast
  show "runDec (Suc k) prog zero parts src = Some (wireDec ?s src)" using parts by blast
qed

text \<open>The declarations before a declaration are declarations.\<close>

lemma lookup_inner:
  assumes "envOf types env" "lookupBefore env n = Some (t, env')" "lookupBefore env' m = Some r"
  shows "lookupBefore env m = Some r"
proof -
  from lookupBefore_split [OF assms(2)] obtain pre where env: "env = pre @ (n, t) # env'" by blast
  from assms(3) have "m \<in> fst ` set env'" by (induction env' m rule: lookupBefore.induct) (auto split: if_splits)
  with assms(1) have "m \<notin> fst ` set (pre @ [(n, t)])"
    using scopedEnv_disjoint [of "pre @ [(n, t)]" env' m] by (simp add: envOf_def env)
  from lookupBefore_skip [OF this, of env'] show ?thesis using assms(3) by (simp add: env)
qed

lemma shapeOf_inner:
  "envOf types env \<Longrightarrow> \<forall>m r. lookupBefore env m = Some r \<longrightarrow> lookupBefore E m = Some r \<Longrightarrow> typedIn env t \<Longrightarrow>
     shapeOf names E t = shapeOf names env t"
  "envOf types env \<Longrightarrow> \<forall>m r. lookupBefore env m = Some r \<longrightarrow> lookupBefore E m = Some r \<Longrightarrow> list_all (fieldTyped env) fs \<Longrightarrow>
     fieldShapes names E fs = fieldShapes names env fs"
proof (induction names env t and names env fs rule: shapeOf_fieldShapes.induct)
  case (2 names env d i)
  from "2.prems"(3) lookup_some obtain t env' where l: "lookupBefore env (id_name i) = Some (t, env')" by fastforce
  with "2.prems"(2) show ?case by simp
qed (auto simp: fieldTyped_def)

lemma declares_inner:
  assumes "envOf types env" "lookupBefore env n = Some (t, env')" "declares prog names types env"
  shows "declares prog names types env'"
  using assms(3) lookup_inner [OF assms(1,2)] unfolding declares_def by blast

lemma zeroAgrees_inner:
  assumes env: "envOf types env" and l: "lookupBefore env n = Some (t, env')" and z: "zeroAgrees zero names env"
  shows "zeroAgrees zero names env'"
  unfolding zeroAgrees_def
proof (intro allI impI)
  fix u assume u: "typedIn env' u"
  from lookupBefore_split [OF l] have "fst ` set env' \<subseteq> fst ` set env" by auto
  with u have "typedIn env u" by (auto simp: typedIn_def)
  with z have "zero u = zeroOf (shapeOf names env u)" by (simp add: zeroAgrees_def)
  also have "shapeOf names env u = shapeOf names env' u"
    using envOf_lookup [OF env l] lookup_inner [OF env l] u by (intro shapeOf_inner(1)) auto
  finally show "zero u = zeroOf (shapeOf names env' u)" .
qed

text \<open>With one more step than there are declarations, all calls are right.\<close>

lemma run_calls:
  "declares prog names types env \<Longrightarrow> envOf types env \<Longrightarrow> zeroAgrees zero names env \<Longrightarrow> length env < k \<Longrightarrow>
     encCalls (runEnc k prog) names env \<and> decCalls (runDec k prog zero) zero names env"
proof (induction k arbitrary: env)
  case (Suc k)
  have prim: "findPair prog (primitiveParts pk) = Some (primPair pk)" if "pk \<in> set primitiveKinds" for pk
    using Suc.prems(1) that by (simp add: declares_def)
  have "(hasShape (shapeOf names env' t) v \<longrightarrow> runEnc (Suc k) prog (namedParts n) buf v = Some (wireEnc (shapeOf names env' t) buf v))
      \<and> runDec (Suc k) prog zero (namedParts n) src = Some (wireDec (shapeOf names env' t) src)"
    if l: "lookupBefore env n = Some (t, env')" for n t env' buf v src
  proof -
    from Suc.prems(4) lookupBefore_length [OF l] have "length env' < k" by simp
    from Suc.IH [OF declares_inner [OF Suc.prems(2) l Suc.prems(1)] _ zeroAgrees_inner [OF Suc.prems(2) l Suc.prems(3)] this]
      envOf_lookup [OF Suc.prems(2) l]
    have calls: "encCalls (runEnc k prog) names env'" "decCalls (runDec k prog zero) zero names env'" by blast+
    from Suc.prems(1) l obtain gt where
      found: "findPair prog (namedParts n) = Some (emitPair names types (namedParts n) gt t (zeroWidth types t))"
      and ap: "apart (shapeOf names env' t)" unfolding declares_def by blast
    from envOf_lookup [OF Suc.prems(2) l] have "envOf types env'" "typedIn env' t" by blast+
    from run_pair [OF found calls this ap] show ?thesis by blast
  qed
  then show ?case using prim Suc.prems(3)
    by (auto simp: encCalls_def decCalls_def zeroAgrees_def primPair_def simp del: shapeOf.simps)
qed simp

end
