(* ===== verification/Format_Roundtrip.thy ===== *)
theory Format_Roundtrip
  imports Format
begin

text \<open>
  Parsing what the formatter prints. The printed text is a list of pieces, blanks and
  tokens; scanning a text of separated pieces yields exactly its tokens, and these are the
  tokens of the printed declarations, so \<open>Parse\<close> returns the same declarations up to spans
  and documentation slots, with the documentation as comments in order.
\<close>

section \<open>Scanning one token\<close>

definition isWord :: "TokenKind \<Rightarrow> bool" where
  "isWord k \<longleftrightarrow> k \<notin> {TokLBrace, TokRBrace, TokSemicolon, TokComment}"

definition boundary :: "string \<Rightarrow> bool" where
  "boundary s \<longleftrightarrow> s = [] \<or> \<not> isIdentPart (hd s)"

lemma commentEnd_append: "commentEnd s = Some n \<Longrightarrow> commentEnd (s @ r) = Some n"
  by (induction s arbitrary: n rule: commentEnd.induct) (auto split: if_splits)

lemma keywordKind_kindString:
  "k \<notin> {TokInvalid, TokEOF, TokIdent, TokComment, TokLBrace, TokRBrace, TokSemicolon} \<Longrightarrow>
   keywordKind (kindString k) = Some k"
  by (cases k) (simp_all add: keywordKind_def keywordTable_def kindString_def tokenLiterals_def)

lemma keyword_chars:
  "k \<notin> {TokInvalid, TokEOF, TokIdent, TokComment, TokLBrace, TokRBrace, TokSemicolon} \<Longrightarrow>
   kindString k \<noteq> [] \<and> isIdentStart (hd (kindString k)) \<and> list_all isIdentPart (kindString k)"
  by (cases k) (simp_all add: kindString_def tokenLiterals_def isIdentPart_def isIdentStart_def between_def)

lemma word_lexeme:
  assumes "wf_token t" "isWord (tk_kind t)" "tk_kind t \<noteq> TokEOF"
  shows "lexeme t = tk_lit t \<and> tk_lit t \<noteq> [] \<and> isIdentStart (hd (tk_lit t)) \<and> list_all isIdentPart (tk_lit t)
    \<and> (case keywordKind (tk_lit t) of Some k \<Rightarrow> k | None \<Rightarrow> TokIdent) = tk_kind t"
proof (cases "tk_kind t = TokIdent")
  case True
  with assms show ?thesis by (simp add: wf_token_def lexeme_def is_ident_def)
next
  case False
  with assms have k: "tk_kind t \<notin> {TokInvalid, TokEOF, TokIdent, TokComment, TokLBrace, TokRBrace, TokSemicolon}"
    by (auto simp: isWord_def wf_token_def)
  with assms have "tk_lit t = kindString (tk_kind t)"
    by (auto simp: wf_token_def split: TokenKind.splits)
  moreover from k have "lexeme t = kindString (tk_kind t)"
    by (auto simp: lexeme_def split: TokenKind.splits)
  ultimately show ?thesis using keyword_chars [OF k] keywordKind_kindString [OF k] by simp
qed

lemma identStart_not:
  assumes "isIdentStart c"
  shows "\<not> isSpace c" "c \<noteq> CHR ''{''" "c \<noteq> CHR ''}''" "c \<noteq> CHR '';''" "c \<noteq> CHR ''/''"
  using assms by (auto simp: isIdentStart_def isSpace_def between_def)

lemma takeWhile_all_append: "list_all P a \<Longrightarrow> (b = [] \<or> \<not> P (hd b)) \<Longrightarrow> takeWhile P (a @ b) = a"
  by (cases b) (auto simp: takeWhile_append list_all_iff)

lemma lexeme_start:
  assumes "wf_token t" "tk_kind t \<noteq> TokEOF"
  shows "lexeme t \<noteq> [] \<and> \<not> isSpace (hd (lexeme t))"
proof (cases "isWord (tk_kind t)")
  case True
  with word_lexeme [OF assms(1) True assms(2)] show ?thesis by (auto dest: identStart_not)
next
  case False
  then show ?thesis
    by (auto simp: isWord_def lexeme_def kindString_def tokenLiterals_def isSpace_def)
qed

lemma Next_token:
  assumes ok: "sc_err s = None" "in_range f s"
    and rest: "rest_of f s = sp @ lexeme t @ r" "list_all isSpace sp"
    and t: "wf_token t" "tk_kind t \<noteq> TokEOF" "isWord (tk_kind t) \<longrightarrow> boundary r"
      "tk_span t = Span (sc_off s + length sp) (sc_off s + length sp + length (lexeme t))"
  shows "Next f s = (Inr t, s\<lparr>sc_off := sc_off s + length sp + length (lexeme t)\<rparr>)"
proof -
  let ?st = "sc_off s + length sp"
  let ?s1 = "s\<lparr>sc_off := ?st\<rparr>"
  note ls = lexeme_start [OF t(1,2)]
  have tw: "takeWhile isSpace (drop (sc_off s) (so_src f)) = sp"
    using rest ls takeWhile_all_append [of isSpace sp "lexeme t @ r"] by (simp add: rest_of_def)
  have dr: "drop ?st (so_src f) = lexeme t @ r"
    using rest(1) by (metis add.commute append_eq_conv_conj drop_drop rest_of_def)
  with ls have len: "?st < length (so_src f)"
    by (metis append_is_Nil_conv drop_eq_Nil2 not_le)
  have c: "so_src f ! ?st = hd (lexeme t)"
    using dr ls len by (metis hd_append hd_drop_conv_nth)
  show ?thesis
  proof (cases "isWord (tk_kind t)")
    case True
    note w = word_lexeme [OF t(1) True t(2)]
    have "takeWhile isIdentPart (drop ?st (so_src f)) = tk_lit t"
      using w dr t(3) True takeWhile_all_append [of isIdentPart "tk_lit t" r] by (simp add: boundary_def)
    then have "scanIdent f ?s1 = (t, s\<lparr>sc_off := ?st + length (lexeme t)\<rparr>)"
      using w t(4) by (simp add: scanIdent_def Let_def Token_def)
    then show ?thesis
      using ok tw len c w identStart_not [of "hd (tk_lit t)"] by (simp add: Next_def Let_def not_le)
  next
    case False
    show ?thesis
    proof (cases "tk_kind t = TokComment")
      case True
      then have lx: "lexeme t = ''/*'' @ tk_lit t @ ''*/''" by (simp add: lexeme_def)
      have d2: "drop (Suc (Suc ?st)) (so_src f) = tk_lit t @ ''*/'' @ r"
      proof -
        have "drop (Suc (Suc ?st)) (so_src f) = drop 2 (drop ?st (so_src f))" by simp
        then show ?thesis by (simp only: dr lx) simp
      qed
      have "Suc ?st < length (so_src f)" "so_src f ! Suc ?st = CHR ''*''"
        using arg_cong [OF dr, of length] arg_cong [OF dr, of "\<lambda>x. x ! 1"] lx len by auto
      moreover from t(1) True have "commentEnd (tk_lit t @ ''*/'') = Some (length (tk_lit t))"
        "firstInvalidUTF8 (tk_lit t) = None" by (simp_all add: wf_token_def)
      then have "scanComment f ?s1 = (Inr t, s\<lparr>sc_off := ?st + length (lexeme t)\<rparr>)"
        using commentEnd_append [of "tk_lit t @ ''*/''" "length (tk_lit t)" r] d2 lx t(4) True
        by (simp add: scanComment_def Let_def Token_def)
      ultimately show ?thesis
        using ok tw len c lx by (simp add: Next_def Let_def not_le)
    next
      case nc: False
      with False have "tk_kind t = TokLBrace \<or> tk_kind t = TokRBrace \<or> tk_kind t = TokSemicolon" by (simp add: isWord_def)
      then show ?thesis
        using ok tw len c t(1,4)
        by (elim disjE) (simp_all add: Next_def Let_def not_le lexeme_def kindString_def tokenLiterals_def wf_token_def Token_def)
    qed
  qed
qed

section \<open>Scanning pieces\<close>

datatype piece = Blank string | Tok TokenKind string

definition pieceToken :: "TokenKind \<Rightarrow> string \<Rightarrow> token" where
  "pieceToken k l = \<lparr>tk_kind = k, tk_span = Span 0 0, tk_lit = l\<rparr>"

fun renderPiece :: "piece \<Rightarrow> string" where
  "renderPiece (Blank s) = s"
| "renderPiece (Tok k l) = lexeme (pieceToken k l)"

abbreviation render :: "piece list \<Rightarrow> string" where
  "render ps \<equiv> concat (map renderPiece ps)"

fun goodPiece :: "piece \<Rightarrow> bool" where
  "goodPiece (Blank s) \<longleftrightarrow> list_all isSpace s"
| "goodPiece (Tok k l) \<longleftrightarrow> wf_token (pieceToken k l) \<and> k \<noteq> TokEOF"

text \<open>Every word of the pieces is followed by a character that ends it, given the text after them.\<close>

fun separated :: "piece list \<Rightarrow> string \<Rightarrow> bool" where
  "separated [] r = True"
| "separated (Blank s # ps) r = separated ps r"
| "separated (Tok k l # ps) r = ((isWord k \<longrightarrow> boundary (render ps @ r)) \<and> separated ps r)"

lemma separated_append [simp]: "separated (ps @ qs) r \<longleftrightarrow> separated ps (render qs @ r) \<and> separated qs r"
  by (induction ps r rule: separated.induct) auto

fun place :: "nat \<Rightarrow> piece list \<Rightarrow> token list" where
  "place off [] = []"
| "place off (Blank s # ps) = place (off + length s) ps"
| "place off (Tok k l # ps) =
     (let n = off + length (renderPiece (Tok k l)) in Token k off n l # place n ps)"

lemma lexeme_span: "lexeme \<lparr>tk_kind = k, tk_span = sp, tk_lit = l\<rparr> = lexeme (pieceToken k l)"
  by (cases k) (simp_all add: lexeme_def pieceToken_def)

lemma wf_token_span: "wf_token \<lparr>tk_kind = k, tk_span = sp, tk_lit = l\<rparr> = wf_token (pieceToken k l)"
  by (cases k) (simp_all add: wf_token_def pieceToken_def)

lemma scanAll_pieces:
  assumes "sc_err s = None" "in_range f s" "rest_of f s = sp @ render ps" "list_all isSpace sp"
    "list_all goodPiece ps" "separated ps []"
  shows "scanAll f s = (place (sc_off s + length sp) ps, None)"
  using assms
proof (induction ps arbitrary: s sp)
  case Nil
  then have "takeWhile isSpace (drop (sc_off s) (so_src f)) = sp" "length (so_src f) = sc_off s + length sp"
    by (auto simp: rest_of_def in_range_def list_all_iff takeWhile_eq_all_conv dest: arg_cong [of _ _ length])
  with Nil have "Next f s = (Inr (Token TokEOF (sc_off s + length sp) (sc_off s + length sp) []),
      s\<lparr>sc_off := sc_off s + length sp\<rparr>)"
    by (simp add: Next_def Let_def)
  then show ?case by (simp add: scanAll.simps [of f s])
next
  case (Cons p ps)
  show ?case
  proof (cases p)
    case (Blank b)
    with Cons.IH [of s "sp @ b"] Cons.prems show ?thesis by (simp add: add.assoc)
  next
    case (Tok k l)
    let ?n = "sc_off s + length sp + length (lexeme (pieceToken k l))"
    let ?t = "Token k (sc_off s + length sp) ?n l"
    let ?s = "s\<lparr>sc_off := ?n\<rparr>"
    have lx: "lexeme ?t = lexeme (pieceToken k l)" "wf_token ?t = wf_token (pieceToken k l)"
      by (simp_all add: Token_def lexeme_span wf_token_span)
    from Cons.prems Tok have "Next f s = (Inr ?t, ?s)"
      using Next_token [of s f sp ?t "render ps"] by (simp add: lx)
    moreover have "drop ?n (so_src f) = render ps"
    proof -
      have "drop ?n (so_src f) = drop (length sp + length (lexeme (pieceToken k l))) (rest_of f s)"
        by (simp add: rest_of_def ac_simps)
      then show ?thesis using Cons.prems(3) Tok by simp
    qed
    moreover from Cons.prems(2,3) Tok have "?n \<le> length (so_src f)"
      by (auto simp: in_range_def rest_of_def dest: arg_cong [of _ _ length])
    ultimately have "scanAll f ?s = (place ?n ps, None)"
      using Cons.IH [of ?s "[]"] Cons.prems Tok by (simp add: rest_of_def in_range_def)
    with \<open>Next f s = (Inr ?t, ?s)\<close> Cons.prems(5) Tok show ?thesis
      by (simp add: scanAll.simps [of f s] Let_def)
  qed
qed

lemma scanAll_rendered:
  assumes "list_all goodPiece ps" "separated ps []"
  shows "scanAll (NewFile name (render ps)) NewScanner = (place 0 ps, None)"
  using scanAll_pieces [of NewScanner "NewFile name (render ps)" "[]" ps] assms
  by (simp add: NewScanner_def NewFile_def in_range_def rest_of_def)

section \<open>The pieces of the printed text\<close>

definition docBody :: "string \<Rightarrow> string \<Rightarrow> string" where
  "docBody indent d =
     (if newline \<notin> set d then '' '' @ d @ '' ''
      else newline # concat (map (docLine indent) (splitLines d)) @ indent)"

definition docPieces :: "string \<Rightarrow> string \<Rightarrow> piece list" where
  "docPieces indent d = (if d = [] then [] else [Blank indent, Tok TokComment (docBody indent d), Blank [newline]])"

definition typeLead :: "string \<Rightarrow> string \<Rightarrow> piece list" where
  "typeLead indent d = (if d \<noteq> [] then Blank [newline] # docPieces indent d @ [Blank indent] else [Blank '' ''])"

abbreviation keyword :: "TokenKind \<Rightarrow> piece" where
  "keyword k \<equiv> Tok k (kindString k)"

abbreviation punct :: "TokenKind \<Rightarrow> piece" where
  "punct k \<equiv> Tok k []"

abbreviation identPiece :: "ident \<Rightarrow> piece" where
  "identPiece i \<equiv> Tok TokIdent (id_name i)"

fun typePieces :: "string \<Rightarrow> TypeExpr \<Rightarrow> piece list"
and fieldPieces :: "string \<Rightarrow> Field \<Rightarrow> piece list" where
  "typePieces indent (PrimType d k sp) = typeLead indent d @ [keyword k]"
| "typePieces indent (NamedType d i) = typeLead indent d @ [identPiece i]"
| "typePieces indent (ListType d ls t) = typeLead indent d @ [keyword TokList] @ typePieces indent t"
| "typePieces indent (RecordType d rs lb fs rb) =
     typeLead indent d @ [keyword TokRecord, Blank '' '', punct TokLBrace]
     @ (if fs = [] then [] else Blank [newline] # concat (map (fieldPieces (indent @ indentStep)) fs) @ [Blank indent])
     @ [punct TokRBrace]"
| "fieldPieces indent (Field d i t semi) =
     docPieces indent d @ [Blank indent, identPiece i] @ typePieces indent t @ [punct TokSemicolon, Blank [newline]]"

fun paramPieces :: "string \<Rightarrow> Param \<Rightarrow> piece list" where
  "paramPieces indent (Param d i t semi) =
     docPieces indent d @ [Blank indent, identPiece i] @ typePieces indent t @ [punct TokSemicolon, Blank [newline]]"

definition optPieces :: "string \<Rightarrow> TypeExpr option \<Rightarrow> piece list" where
  "optPieces indent t = (case t of None \<Rightarrow> [] | Some t \<Rightarrow> typePieces indent t)"

fun declPieces :: "string \<Rightarrow> Decl \<Rightarrow> piece list" where
  "declPieces indent (TypeDecl d kw i t semi) =
     docPieces indent d @ [Blank indent, keyword TokType, Blank '' '', identPiece i] @ typePieces indent t
     @ [punct TokSemicolon, Blank [newline]]"
| "declPieces indent (ExceptionDecl d kw i t semi) =
     docPieces indent d @ [Blank indent, keyword TokException, Blank '' '', identPiece i] @ optPieces indent t
     @ [punct TokSemicolon, Blank [newline]]"
| "declPieces indent (ProcDecl d kw i lb ps rb res semi) =
     docPieces indent d @ [Blank indent, keyword TokProcedure, Blank '' '', identPiece i, Blank '' '', punct TokLBrace]
     @ (if ps = [] then [] else Blank [newline] # concat (map (paramPieces (indent @ indentStep)) ps) @ [Blank indent])
     @ [punct TokRBrace] @ optPieces indent res @ [punct TokSemicolon, Blank [newline]]"

fun declsPieces :: "Decl list \<Rightarrow> piece list" where
  "declsPieces [] = []"
| "declsPieces [d] = declPieces [] d"
| "declsPieces (d # ds) = declPieces [] d @ Blank [newline] # declsPieces ds"

lemma render_docPieces: "render (docPieces indent d) = docText indent d"
  by (simp add: docPieces_def docText_def writeDoc_def docBody_def lexeme_def pieceToken_def)

lemma render_lead:
  "render (typeLead indent d) = (if d \<noteq> [] then newline # docText indent d @ indent else '' '')"
  by (simp add: typeLead_def render_docPieces)

lemma lexeme_punct [simp]:
  "lexeme (pieceToken TokLBrace l) = ''{''" "lexeme (pieceToken TokRBrace l) = ''}''"
  "lexeme (pieceToken TokSemicolon l) = '';''" "lexeme (pieceToken TokIdent l) = l"
  "lexeme (pieceToken TokType l) = ''type''" "lexeme (pieceToken TokException l) = ''exception''"
  "lexeme (pieceToken TokProcedure l) = ''procedure''" "lexeme (pieceToken TokList l) = ''list''"
  "lexeme (pieceToken TokRecord l) = ''record''"
  by (simp_all add: lexeme_def pieceToken_def kindString_def tokenLiterals_def)

lemma lexeme_prim: "k \<in> set primKinds \<Longrightarrow> lexeme (pieceToken k l) = kindString k"
  by (auto simp: lexeme_def pieceToken_def primKinds_def)

text \<open>
  What can be printed and read back: identifiers are identifiers, primitive kinds are
  primitive, and the lines of a document are valid UTF-8 without a comment terminator.
\<close>

fun noTerminator :: "string \<Rightarrow> bool" where
  "noTerminator (c # d # s) \<longleftrightarrow> \<not> (c = CHR ''*'' \<and> d = CHR ''/'') \<and> noTerminator (d # s)"
| "noTerminator s \<longleftrightarrow> True"

definition printableDoc :: "string \<Rightarrow> bool" where
  "printableDoc d \<longleftrightarrow> list_all (\<lambda>l. noTerminator l \<and> firstInvalidUTF8 l = None) (splitLines d)"

fun printableType :: "TypeExpr \<Rightarrow> bool"
and printableField :: "Field \<Rightarrow> bool" where
  "printableType (PrimType d k sp) \<longleftrightarrow> printableDoc d \<and> k \<in> set primKinds"
| "printableType (NamedType d i) \<longleftrightarrow> printableDoc d \<and> is_ident (id_name i)"
| "printableType (ListType d ls t) \<longleftrightarrow> printableDoc d \<and> printableType t"
| "printableType (RecordType d rs lb fs rb) \<longleftrightarrow> printableDoc d \<and> list_all printableField fs"
| "printableField (Field d i t semi) \<longleftrightarrow> printableDoc d \<and> is_ident (id_name i) \<and> printableType t"

fun printableParam :: "Param \<Rightarrow> bool" where
  "printableParam (Param d i t semi) \<longleftrightarrow> printableDoc d \<and> is_ident (id_name i) \<and> printableType t"

fun printableDecl :: "Decl \<Rightarrow> bool" where
  "printableDecl (TypeDecl d kw i t semi) \<longleftrightarrow> printableDoc d \<and> is_ident (id_name i) \<and> printableType t"
| "printableDecl (ExceptionDecl d kw i t semi) \<longleftrightarrow>
     printableDoc d \<and> is_ident (id_name i) \<and> pred_option printableType t"
| "printableDecl (ProcDecl d kw i lb ps rb res semi) \<longleftrightarrow>
     printableDoc d \<and> is_ident (id_name i) \<and> list_all printableParam ps \<and> pred_option printableType res"

lemma concat_map_cong:
  "(\<And>x. x \<in> set xs \<Longrightarrow> f x = g x) \<Longrightarrow> concat (map f xs) = concat (map g xs)"
  by (induction xs) auto

lemma render_concat: "render (concat pss) = concat (map render pss)"
  by (induction pss) auto

lemma render_type:
  shows "printableType t \<Longrightarrow> render (typePieces indent t) = printType indent t"
    and "printableField fld \<Longrightarrow> render (fieldPieces indent fld) = printField indent fld"
proof (induction indent t and indent fld rule: typePieces_fieldPieces.induct)
  case (4 indent d rs lb fs rb)
  then have "concat (map (\<lambda>fld. render (fieldPieces (indent @ indentStep) fld)) fs)
      = concat (map (printField (indent @ indentStep)) fs)"
    by (intro concat_map_cong) (cases "fs = []"; auto simp: list_all_iff)
  then show ?case by (simp add: render_lead render_concat comp_def)
qed (simp_all add: render_lead render_docPieces lexeme_prim)

lemma render_param: "printableParam p \<Longrightarrow> render (paramPieces indent p) = printParam indent p"
  by (cases p) (simp add: render_docPieces render_type)

lemma render_opt: "pred_option printableType t \<Longrightarrow> render (optPieces indent t) = printOpt indent t"
  by (cases t) (simp_all add: optPieces_def printOpt_def render_type)

lemma render_decl: "printableDecl d \<Longrightarrow> render (declPieces indent d) = printDecl indent d"
proof (cases d)
  case (ProcDecl dc kw i lb ps rb res semi)
  assume "printableDecl d"
  with ProcDecl have "concat (map (\<lambda>p. render (paramPieces (indent @ indentStep) p)) ps)
      = concat (map (printParam (indent @ indentStep)) ps)"
    by (intro concat_map_cong) (auto simp: list_all_iff render_param)
  with ProcDecl \<open>printableDecl d\<close> show ?thesis
    by (simp add: render_docPieces render_opt render_concat comp_def)
qed (simp_all add: render_docPieces render_type render_opt)

lemma render_decls: "list_all printableDecl ds \<Longrightarrow> render (declsPieces ds) = printDecls ds"
  by (induction ds rule: declsPieces.induct) (simp_all add: render_decl)

section \<open>The pieces are good tokens, well separated\<close>

lemma space_newline [simp]: "isSpace newline" "isSpace (CHR '' '')"
  by (simp_all add: isSpace_def newline_def)

lemma spaces_step [simp]: "list_all isSpace indentStep"
  by (simp add: indentStep_def)

lemma noTerminator_Cons: "noTerminator b \<Longrightarrow> c \<noteq> CHR ''*'' \<or> b = [] \<or> hd b \<noteq> CHR ''/'' \<Longrightarrow> noTerminator (c # b)"
  by (cases b) auto

lemma noTerminator_append:
  "noTerminator a \<Longrightarrow> noTerminator b \<Longrightarrow> b = [] \<or> hd b \<noteq> CHR ''/'' \<Longrightarrow> noTerminator (a @ b)"
  by (induction a rule: noTerminator.induct) (auto intro: noTerminator_Cons)

lemma noTerminator_spaces: "list_all isSpace s \<Longrightarrow> noTerminator s"
  by (induction s rule: noTerminator.induct) (auto simp: isSpace_def)

lemma commentEnd_noTerminator: "noTerminator s \<Longrightarrow> commentEnd (s @ ''*/'') = Some (length s)"
  by (induction s rule: noTerminator.induct) auto

lemma space_not_slash: "isSpace c \<Longrightarrow> c \<noteq> CHR ''/''"
  by (auto simp: isSpace_def)

text \<open>Valid encodings can be put together.\<close>

lemma DecodeRune_append:
  "a \<noteq> [] \<Longrightarrow> DecodeRune a = (r, w) \<Longrightarrow> \<not> (r = RuneError \<and> w = 1) \<Longrightarrow> DecodeRune (a @ b) = (r, w)"
proof -
  assume ne: "a \<noteq> []" and d: "DecodeRune a = (r, w)" and ok: "\<not> (r = RuneError \<and> w = 1)"
  from ne obtain x s where a: "a = x # s" by (cases a) auto
  consider (one) "code x < 0x80"
    | (two) y u where "\<not> code x < 0x80" "between 0xC2 0xDF x" "s = y # u"
    | (three) y z u where "\<not> code x < 0x80" "\<not> between 0xC2 0xDF x" "between 0xE0 0xEF x" "s = y # z # u"
    | (four) y z v u where "\<not> code x < 0x80" "\<not> between 0xC2 0xDF x" "\<not> between 0xE0 0xEF x" "s = y # z # v # u"
  proof (cases "code x < 0x80")
    case False
    note f1 = False
    show ?thesis
    proof (cases "between 0xC2 0xDF x")
      case True
      with f1 d ok a show ?thesis by (cases s) (auto simp: DecodeRune.simps intro: two)
    next
      case False
      note f2 = False
      show ?thesis
      proof (cases "between 0xE0 0xEF x")
        case True
        with f1 f2 d ok a show ?thesis
          by (cases s; cases "tl s") (auto simp: DecodeRune.simps intro: three)
      next
        case False
        with f1 f2 d ok a show ?thesis
          by (cases s; cases "tl s"; cases "tl (tl s)") (auto simp: DecodeRune.simps intro: four split: if_splits)
      qed
    qed
  qed
  then have "DecodeRune (a @ b) = DecodeRune a"
    by cases (simp_all add: a DecodeRune.simps)
  with d show ?thesis by simp
qed

lemma firstInvalidFrom_Nil [simp]: "firstInvalidFrom i [] = None"
  by (simp add: firstInvalidFrom.simps)

lemma firstInvalidFrom_append:
  "firstInvalidFrom i a = None \<Longrightarrow> firstInvalidFrom (i + length a) b = None \<Longrightarrow> firstInvalidFrom i (a @ b) = None"
proof (induction i a rule: firstInvalidFrom.induct)
  case (1 i a)
  show ?case
  proof (cases "a = []")
    case False
    obtain r w where d: "DecodeRune a = (r, w)" by force
    have w: "w \<le> length a" using DecodeRune_size_le [of a] d by simp
    from "1.prems"(1) False d have ok: "\<not> (r = RuneError \<and> w = 1)" "firstInvalidFrom (i + w) (drop w a) = None"
      by (auto simp: firstInvalidFrom.simps [of i a] split: if_splits)
    have "firstInvalidFrom (i + w) (drop w a @ b) = None"
      using "1.IH" [OF False d [symmetric] ok(1) ok(2)] "1.prems"(2) w by simp
    with False ok(1) w DecodeRune_append [OF False d ok(1), of b] show ?thesis
      by (simp add: firstInvalidFrom.simps [of i "a @ b"])
  qed (use "1.prems" in simp)
qed

lemma firstInvalidFrom_shift: "firstInvalidFrom i a = None \<longleftrightarrow> firstInvalidFrom j a = None"
proof (induction i a arbitrary: j rule: firstInvalidFrom.induct)
  case (1 i a)
  show ?case
    by (cases "a = []"; cases "DecodeRune a")
       (auto simp: firstInvalidFrom.simps [of i a] firstInvalidFrom.simps [of j a] "1.IH")
qed

lemma valid_append: "firstInvalidUTF8 a = None \<Longrightarrow> firstInvalidUTF8 b = None \<Longrightarrow> firstInvalidUTF8 (a @ b) = None"
  unfolding firstInvalidUTF8_def
  using firstInvalidFrom_append [of 0 a b] firstInvalidFrom_shift [of "length a" b 0] by simp

lemma valid_spaces: "list_all isSpace s \<Longrightarrow> firstInvalidUTF8 s = None"
proof (induction s)
  case (Cons c s)
  then have c: "isSpace c" by simp
  then have "firstInvalidFrom 0 [c] = None"
    by (auto simp: isSpace_def firstInvalidFrom.simps DecodeRune.simps RuneError_def)
  with Cons valid_append [of "[c]" s] show ?case by (simp add: firstInvalidUTF8_def)
qed (simp add: firstInvalidUTF8_def)

definition clean :: "string \<Rightarrow> bool" where
  "clean s \<longleftrightarrow> noTerminator s \<and> firstInvalidUTF8 s = None"

lemma clean_append: "clean a \<Longrightarrow> clean b \<Longrightarrow> b = [] \<or> hd b \<noteq> CHR ''/'' \<Longrightarrow> clean (a @ b)"
  by (auto simp: clean_def noTerminator_append valid_append)

lemma clean_spaces: "list_all isSpace s \<Longrightarrow> clean s"
  by (simp add: clean_def noTerminator_spaces valid_spaces)

lemma clean_lead:
  assumes "list_all isSpace sp" "sp \<noteq> []" "clean b"
  shows "clean (sp @ b)"
proof -
  have "noTerminator (sp @ b)"
    using assms(1,2,3)
  proof (induction sp)
    case (Cons c sp)
    then show ?case
      by (cases "sp = []") (auto simp: isSpace_def clean_def intro!: noTerminator_Cons)
  qed simp
  with assms show ?thesis by (auto simp: clean_def valid_append valid_spaces)
qed

lemma splitLines_single: "newline \<notin> set d \<Longrightarrow> splitLines d = [d]"
  by (induction d) auto

lemma clean_docLine:
  assumes "list_all isSpace indent" "clean l"
  shows "clean (docLine indent l) \<and> docLine indent l \<noteq> [] \<and> hd (docLine indent l) \<noteq> CHR ''/''"
proof (cases "l = []")
  case True
  then show ?thesis by (simp add: clean_spaces docLine_def) (simp add: newline_def)
next
  case False
  have "clean ((indent @ indentStep) @ l)"
    using assms by (intro clean_lead) (auto simp: indentStep_def)
  then have "clean (((indent @ indentStep) @ l) @ [newline])"
    by (rule clean_append) (auto simp: clean_spaces, simp add: newline_def)
  moreover have "hd (indent @ indentStep) \<noteq> CHR ''/''"
    using assms(1) by (cases indent) (auto simp: indentStep_def isSpace_def)
  ultimately show ?thesis using False by (cases indent) (auto simp: indentStep_def docLine_def)
qed

lemma clean_docLines:
  "list_all isSpace indent \<Longrightarrow> list_all clean ls \<Longrightarrow> clean (concat (map (docLine indent) ls) @ indent)"
proof (induction ls)
  case (Cons l ls)
  let ?rest = "concat (map (docLine indent) ls) @ indent"
  from Cons have "clean ?rest" by simp
  moreover have "?rest = [] \<or> hd ?rest \<noteq> CHR ''/''"
    using Cons.prems clean_docLine [of indent "hd ls"]
    by (cases ls; cases indent) (auto simp: space_not_slash)
  ultimately show ?case
    using clean_append [of "docLine indent l" ?rest] clean_docLine [of indent l] Cons.prems
    by simp
qed (simp add: clean_spaces)

lemma good_docPieces:
  assumes "list_all isSpace indent" "printableDoc d"
  shows "list_all goodPiece (docPieces indent d)"
proof -
  have "clean (docBody indent d)"
  proof (cases "newline \<in> set d")
    case True
    have "clean (concat (map (docLine indent) (splitLines d)) @ indent)"
      using assms by (intro clean_docLines) (auto simp: printableDoc_def clean_def list_all_iff)
    from clean_lead [of "[newline]", OF _ _ this] True show ?thesis by (simp add: docBody_def)
  next
    case False
    with assms(2) have "clean d" by (simp add: printableDoc_def splitLines_single clean_def)
    then have "clean (d @ '' '')" by (rule clean_append) (simp_all add: clean_spaces)
    from clean_lead [of "'' ''", OF _ _ this] False show ?thesis by (simp add: docBody_def)
  qed
  with assms show ?thesis
    by (simp add: docPieces_def clean_def wf_token_def pieceToken_def commentEnd_noTerminator)
qed

lemma good_keyword [simp]:
  "k \<notin> {TokInvalid, TokEOF, TokIdent, TokComment, TokLBrace, TokRBrace, TokSemicolon} \<Longrightarrow> goodPiece (keyword k)"
  by (cases k) (simp_all add: wf_token_def pieceToken_def)

lemma good_prim: "k \<in> set primKinds \<Longrightarrow> goodPiece (keyword k)"
  by (rule good_keyword) (auto simp: primKinds_def)

lemma good_punct [simp]: "k \<in> {TokLBrace, TokRBrace, TokSemicolon} \<Longrightarrow> goodPiece (punct k)"
  by (auto simp: wf_token_def pieceToken_def)

lemma good_ident [simp]: "goodPiece (identPiece i) \<longleftrightarrow> is_ident (id_name i)"
  by (simp add: wf_token_def pieceToken_def)

declare goodPiece.simps(2) [simp del]

lemma good_lead: "list_all isSpace indent \<Longrightarrow> printableDoc d \<Longrightarrow> list_all goodPiece (typeLead indent d)"
  by (simp add: typeLead_def good_docPieces)

lemma good_concat:
  "(\<And>x. x \<in> set xs \<Longrightarrow> list_all goodPiece (f x)) \<Longrightarrow> list_all goodPiece (concat (map f xs))"
  by (induction xs) auto

lemma good_type:
  shows "list_all isSpace indent \<Longrightarrow> printableType t \<Longrightarrow> list_all goodPiece (typePieces indent t)"
    and "list_all isSpace indent \<Longrightarrow> printableField fld \<Longrightarrow> list_all goodPiece (fieldPieces indent fld)"
proof (induction indent t and indent fld rule: typePieces_fieldPieces.induct)
  case (4 indent d rs lb fs rb)
  have "list_all goodPiece (concat (map (fieldPieces (indent @ indentStep)) fs))"
  proof (rule good_concat)
    fix fld assume "fld \<in> set fs"
    then show "list_all goodPiece (fieldPieces (indent @ indentStep) fld)"
      using 4 by (intro "4.IH") (auto simp: list_all_iff indentStep_def)
  qed
  with 4 show ?case by (simp add: good_lead)
qed (simp_all add: good_lead good_docPieces good_prim)

lemma good_param: "list_all isSpace indent \<Longrightarrow> printableParam p \<Longrightarrow> list_all goodPiece (paramPieces indent p)"
  by (cases p) (simp add: good_docPieces good_type)

lemma good_opt: "list_all isSpace indent \<Longrightarrow> pred_option printableType t \<Longrightarrow> list_all goodPiece (optPieces indent t)"
  by (cases t) (simp_all add: optPieces_def good_type)

lemma good_decl:
  assumes "list_all isSpace indent" "printableDecl d"
  shows "list_all goodPiece (declPieces indent d)"
proof (cases d)
  case (ProcDecl dc kw i lb ps rb res semi)
  have "list_all goodPiece (concat (map (paramPieces (indent @ indentStep)) ps))"
    by (rule good_concat, rule good_param) (use ProcDecl assms in \<open>auto simp: list_all_iff indentStep_def\<close>)
  with ProcDecl assms show ?thesis by (simp add: good_docPieces good_opt)
qed (use assms in \<open>simp_all add: good_docPieces good_type good_opt\<close>)

lemma goodPieces_decls: "list_all printableDecl ds \<Longrightarrow> list_all goodPiece (declsPieces ds)"
  by (induction ds rule: declsPieces.induct) (simp_all add: good_decl)

text \<open>Words are followed by a blank, a punctuation mark or the start of a comment.\<close>

lemma boundary_lead [simp]:
  "boundary (newline # s)" "boundary (CHR '' '' # s)" "boundary (CHR ''{'' # s)" "boundary (CHR ''}'' # s)"
  "boundary (CHR '';'' # s)" "boundary []"
  by (simp_all add: boundary_def isIdentPart_def isIdentStart_def between_def newline_def)

lemma boundary_typeLead [simp]: "boundary (render (typeLead indent d) @ r)"
  by (simp add: typeLead_def)

lemma boundary_type [simp]: "boundary (render (typePieces indent t) @ r)"
  by (cases t) (simp_all del: renderPiece.simps)

lemma notWord [simp]:
  "\<not> isWord TokLBrace" "\<not> isWord TokRBrace" "\<not> isWord TokSemicolon" "\<not> isWord TokComment"
  by (simp_all add: isWord_def)

lemma separated_lead [simp]: "separated (typeLead indent d) r" "separated (docPieces indent d) r"
  by (simp_all add: typeLead_def docPieces_def)

lemma separated_concat:
  "(\<And>ps r. ps \<in> set pss \<Longrightarrow> separated ps r) \<Longrightarrow> separated (concat pss) r"
  by (induction pss arbitrary: r) auto

lemma separated_type:
  shows "boundary r \<Longrightarrow> separated (typePieces indent t) r"
    and "separated (fieldPieces indent fld) r"
proof (induction indent t and indent fld arbitrary: r and r rule: typePieces_fieldPieces.induct)
  case (4 indent d rs lb fs rb)
  have "separated (concat (map (fieldPieces (indent @ indentStep)) fs)) r" for r
    using "4.IH" by (intro separated_concat) (cases "fs = []"; auto)
  then show ?case by simp
qed simp_all

lemma separated_param: "separated (paramPieces indent p) r"
  by (cases p) (simp add: separated_type)

lemma boundary_opt: "boundary r \<Longrightarrow> boundary (render (optPieces indent t) @ r)"
  by (cases t) (simp_all add: optPieces_def)

lemma separated_opt: "boundary r \<Longrightarrow> separated (optPieces indent t) r"
  by (cases t) (simp_all add: optPieces_def separated_type)

lemma separated_decl: "separated (declPieces indent d) r"
proof (cases d)
  case (ProcDecl dc kw i lb ps rb res semi)
  have "separated (concat (map (paramPieces (indent @ indentStep)) ps)) r" for r
    by (rule separated_concat) (auto simp: separated_param)
  with ProcDecl show ?thesis by (simp add: separated_opt)
qed (simp_all add: separated_type separated_opt boundary_opt)

lemma separated_decls: "separated (declsPieces ds) r"
  by (induction ds arbitrary: r rule: declsPieces.induct) (simp_all add: separated_decl)

section \<open>Trees up to spans and documentation\<close>

definition noSpan :: span where
  "noSpan = Span 0 0"

definition eraseIdent :: "ident \<Rightarrow> ident" where
  "eraseIdent i = i\<lparr>id_span := noSpan\<rparr>"

fun eraseType :: "TypeExpr \<Rightarrow> TypeExpr"
and eraseField :: "Field \<Rightarrow> Field" where
  "eraseType (PrimType d k sp) = PrimType [] k noSpan"
| "eraseType (NamedType d i) = NamedType [] (eraseIdent i)"
| "eraseType (ListType d ls t) = ListType [] noSpan (eraseType t)"
| "eraseType (RecordType d rs lb fs rb) = RecordType [] noSpan noSpan (map eraseField fs) noSpan"
| "eraseField (Field d i t semi) = Field [] (eraseIdent i) (eraseType t) noSpan"

fun eraseParam :: "Param \<Rightarrow> Param" where
  "eraseParam (Param d i t semi) = Param [] (eraseIdent i) (eraseType t) noSpan"

fun eraseDecl :: "Decl \<Rightarrow> Decl" where
  "eraseDecl (TypeDecl d kw i t semi) = TypeDecl [] noSpan (eraseIdent i) (eraseType t) noSpan"
| "eraseDecl (ExceptionDecl d kw i t semi) =
     ExceptionDecl [] noSpan (eraseIdent i) (map_option eraseType t) noSpan"
| "eraseDecl (ProcDecl d kw i lb ps rb res semi) =
     ProcDecl [] noSpan (eraseIdent i) noSpan (map eraseParam ps) noSpan (map_option eraseType res) noSpan"

text \<open>A token without its span.\<close>

definition shape :: "token \<Rightarrow> TokenKind \<times> string" where
  "shape t = (tk_kind t, tk_lit t)"

lemma shape_tok_of:
  "shape t = shape (tok_of k sp) \<longleftrightarrow> t = tok_of k (tk_span t)"
  "shape (tok_of k sp) = shape t \<longleftrightarrow> t = tok_of k (tk_span t)"
  by (cases t; auto simp: shape_def tok_of_def)+

lemma shape_ident:
  "shape t = shape (ident_tok i) \<longleftrightarrow> t = ident_tok (i\<lparr>id_span := tk_span t\<rparr>)"
  "shape (ident_tok i) = shape t \<longleftrightarrow> t = ident_tok (i\<lparr>id_span := tk_span t\<rparr>)"
  by (cases t; auto simp: shape_def ident_tok_def)+

lemma erase_respan [simp]: "eraseIdent (i\<lparr>id_span := sp\<rparr>) = eraseIdent i"
  by (simp add: eraseIdent_def)

text \<open>
  Tokens of the shape of a tree are the tokens of the same tree with their own spans.
\<close>

definition respans :: "('n \<Rightarrow> token list) \<Rightarrow> ('n \<Rightarrow> 'n) \<Rightarrow> ('n \<Rightarrow> bool) \<Rightarrow> 'n \<Rightarrow> bool" where
  "respans toks erase bare n \<longleftrightarrow>
     (\<forall>ts. map shape ts = map shape (toks n) \<longrightarrow> (\<exists>n'. toks n' = ts \<and> erase n' = erase n \<and> bare n'))"

lemma respans_list:
  assumes "\<And>n. n \<in> set ns \<Longrightarrow> respans toks erase bare n"
    and "map shape ts = map shape (concat (map toks ns))"
  shows "\<exists>ns'. concat (map toks ns') = ts \<and> map erase ns' = map erase ns \<and> list_all bare ns'"
  using assms
proof (induction ns arbitrary: ts)
  case (Cons n ns)
  from Cons.prems(2) obtain us vs where ts: "ts = us @ vs" "map shape us = map shape (toks n)"
    "map shape vs = map shape (concat (map toks ns))" by (auto simp: map_eq_append_conv)
  from Cons.prems(1) [of n] ts(2) obtain n' where "toks n' = us" "erase n' = erase n" "bare n'"
    by (auto simp: respans_def)
  moreover from Cons.IH [OF _ ts(3)] Cons.prems(1) obtain ns' where "concat (map toks ns') = vs"
    "map erase ns' = map erase ns" "list_all bare ns'" by auto
  ultimately show ?case using ts(1) by (intro exI [of _ "n' # ns'"]) simp
qed simp

lemma respans_type:
  shows "printableType t \<Longrightarrow> respans type_toks eraseType bare_type t"
    and "printableField fld \<Longrightarrow> respans field_toks eraseField bare_field fld"
proof (induction t and fld)
  case (PrimType d k sp)
  then have "\<exists>n'. type_toks n' = ts \<and> eraseType n' = eraseType (PrimType d k sp) \<and> bare_type n'"
    if "map shape ts = map shape (type_toks (PrimType d k sp))" for ts
    using that by (auto simp: map_eq_Cons_conv shape_tok_of intro!: exI [of _ "PrimType [] k (tk_span (hd ts))"])
  then show ?case by (auto simp: respans_def)
next
  case (NamedType d i)
  have "\<exists>n'. type_toks n' = ts \<and> eraseType n' = eraseType (NamedType d i) \<and> bare_type n'"
    if "map shape ts = map shape (type_toks (NamedType d i))" for ts
    using that by (auto simp: map_eq_Cons_conv shape_ident intro!: exI [of _ "NamedType [] (i\<lparr>id_span := tk_span (hd ts)\<rparr>)"])
  then show ?case by (auto simp: respans_def)
next
  case (ListType d ls t)
  have "\<exists>n'. type_toks n' = ts \<and> eraseType n' = eraseType (ListType d ls t) \<and> bare_type n'"
    if "map shape ts = map shape (type_toks (ListType d ls t))" for ts
  proof -
    from that obtain a us where ts: "ts = a # us" "a = tok_of TokList (tk_span a)" "map shape us = map shape (type_toks t)"
      by (auto simp: map_eq_Cons_conv shape_tok_of)
    with ListType obtain t' where "type_toks t' = us" "eraseType t' = eraseType t" "bare_type t'"
      by (auto simp: respans_def)
    with ts show ?thesis by (intro exI [of _ "ListType [] (tk_span a) t'"]) simp
  qed
  then show ?case by (auto simp: respans_def)
next
  case (RecordType d rs lb fs rb)
  have "\<exists>n'. type_toks n' = ts \<and> eraseType n' = eraseType (RecordType d rs lb fs rb) \<and> bare_type n'"
    if "map shape ts = map shape (type_toks (RecordType d rs lb fs rb))" for ts
  proof -
    from that obtain a b us c where ts: "ts = a # b # us @ [c]" "a = tok_of TokRecord (tk_span a)"
      "b = tok_of TokLBrace (tk_span b)" "c = tok_of TokRBrace (tk_span c)"
      "map shape us = map shape (concat (map field_toks fs))"
      by (auto simp: map_eq_Cons_conv map_eq_append_conv shape_tok_of)
    from RecordType have "respans field_toks eraseField bare_field fld" if "fld \<in> set fs" for fld
      using that by (auto simp: list_all_iff)
    from respans_list [OF this ts(5)] obtain fs' where "concat (map field_toks fs') = us"
      "map eraseField fs' = map eraseField fs" "list_all bare_field fs'" by auto
    with ts show ?thesis
      by (intro exI [of _ "RecordType [] (tk_span a) (tk_span b) fs' (tk_span c)"]) simp
  qed
  then show ?case by (auto simp: respans_def)
next
  case (Field d i t semi)
  have "\<exists>n'. field_toks n' = ts \<and> eraseField n' = eraseField (Field d i t semi) \<and> bare_field n'"
    if "map shape ts = map shape (field_toks (Field d i t semi))" for ts
  proof -
    from that obtain a us c where ts: "ts = a # us @ [c]" "a = ident_tok (i\<lparr>id_span := tk_span a\<rparr>)"
      "c = tok_of TokSemicolon (tk_span c)" "map shape us = map shape (type_toks t)"
      by (auto simp: map_eq_Cons_conv map_eq_append_conv append_eq_map_conv Cons_eq_map_conv shape_tok_of shape_ident)
    with Field obtain t' where "type_toks t' = us" "eraseType t' = eraseType t" "bare_type t'"
      by (auto simp: respans_def)
    with ts show ?thesis
      by (intro exI [of _ "Field [] (i\<lparr>id_span := tk_span a\<rparr>) t' (tk_span c)"]) simp
  qed
  then show ?case by (auto simp: respans_def)
qed

lemma respans_param: "printableParam p \<Longrightarrow> respans param_toks eraseParam bare_param p"
proof (cases p)
  case (Param d i t semi)
  assume "printableParam p"
  with Param have "respans field_toks eraseField bare_field (Field d i t semi)"
    by (intro respans_type) simp
  then have "\<exists>n'. param_toks n' = ts \<and> eraseParam n' = eraseParam p \<and> bare_param n'"
    if "map shape ts = map shape (param_toks p)" for ts
  proof -
    from that Param have "map shape ts = map shape (field_toks (Field d i t semi))" by simp
    with \<open>respans field_toks eraseField bare_field (Field d i t semi)\<close>
    obtain n' where n': "field_toks n' = ts" "eraseField n' = eraseField (Field d i t semi)" "bare_field n'"
      unfolding respans_def by blast
    obtain d' i' t' semi' where "n' = Field d' i' t' semi'" by (cases n')
    with n' Param show ?thesis by (intro exI [of _ "Param d' i' t' semi'"]) simp
  qed
  then show ?thesis by (auto simp: respans_def)
qed

lemma respans_opt:
  assumes "pred_option printableType t" "map shape ts = map shape (opt_toks t)"
  shows "\<exists>t'. opt_toks t' = ts \<and> map_option eraseType t' = map_option eraseType t \<and> pred_option bare_type t'"
proof (cases t)
  case None
  with assms show ?thesis by (intro exI [of _ None]) (simp add: opt_toks_def)
next
  case (Some u)
  with assms respans_type(1) [of u] obtain u' where "type_toks u' = ts" "eraseType u' = eraseType u" "bare_type u'"
    by (auto simp: respans_def opt_toks_def)
  with Some show ?thesis by (intro exI [of _ "Some u'"]) (simp add: opt_toks_def)
qed

lemma respans_decl: "printableDecl d \<Longrightarrow> respans decl_toks eraseDecl bare_decl d"
  unfolding respans_def
proof (intro allI impI, goal_cases)
  case (1 ts)
  show ?case
  proof (cases d)
    case (TypeDecl dc kw i t semi)
    with 1(2) obtain a b us c where ts: "ts = a # b # us @ [c]" "a = tok_of TokType (tk_span a)"
      "b = ident_tok (i\<lparr>id_span := tk_span b\<rparr>)" "c = tok_of TokSemicolon (tk_span c)"
      "map shape us = map shape (type_toks t)"
      by (auto simp: map_eq_Cons_conv map_eq_append_conv append_eq_map_conv Cons_eq_map_conv shape_tok_of shape_ident)
    with TypeDecl 1 respans_type(1) [of t] obtain t' where
      "type_toks t' = us" "eraseType t' = eraseType t" "bare_type t'" by (auto simp: respans_def)
    with ts TypeDecl show ?thesis
      by (intro exI [of _ "TypeDecl [] (tk_span a) (i\<lparr>id_span := tk_span b\<rparr>) t' (tk_span c)"]) simp
  next
    case (ExceptionDecl dc kw i t semi)
    with 1(2) obtain a b us c where ts: "ts = a # b # us @ [c]" "a = tok_of TokException (tk_span a)"
      "b = ident_tok (i\<lparr>id_span := tk_span b\<rparr>)" "c = tok_of TokSemicolon (tk_span c)"
      "map shape us = map shape (opt_toks t)"
      by (auto simp: map_eq_Cons_conv map_eq_append_conv append_eq_map_conv Cons_eq_map_conv shape_tok_of shape_ident)
    from respans_opt [OF _ ts(5)] ExceptionDecl 1(1) obtain t' where "opt_toks t' = us"
      "map_option eraseType t' = map_option eraseType t" "pred_option bare_type t'" by auto
    with ts ExceptionDecl show ?thesis
      by (intro exI [of _ "ExceptionDecl [] (tk_span a) (i\<lparr>id_span := tk_span b\<rparr>) t' (tk_span c)"]) simp
  next
    case (ProcDecl dc kw i lb ps rb res semi)
    with 1(2) obtain a b l us r vs c where ts: "ts = a # b # l # us @ r # vs @ [c]"
      "a = tok_of TokProcedure (tk_span a)" "b = ident_tok (i\<lparr>id_span := tk_span b\<rparr>)"
      "l = tok_of TokLBrace (tk_span l)" "r = tok_of TokRBrace (tk_span r)" "c = tok_of TokSemicolon (tk_span c)"
      "map shape us = map shape (concat (map param_toks ps))" "map shape vs = map shape (opt_toks res)"
      by (auto simp: map_eq_Cons_conv map_eq_append_conv append_eq_map_conv Cons_eq_map_conv shape_tok_of shape_ident)
    from respans_opt [OF _ ts(8)] ProcDecl 1(1) obtain res' where res': "opt_toks res' = vs"
      "map_option eraseType res' = map_option eraseType res" "pred_option bare_type res'" by auto
    have "respans param_toks eraseParam bare_param p" if "p \<in> set ps" for p
      using that ProcDecl 1(1) by (intro respans_param) (auto simp: list_all_iff)
    from respans_list [OF this ts(7)] obtain ps' where "concat (map param_toks ps') = us"
      "map eraseParam ps' = map eraseParam ps" "list_all bare_param ps'" by auto
    with ts res' ProcDecl show ?thesis
      by (intro exI [of _ "ProcDecl [] (tk_span a) (i\<lparr>id_span := tk_span b\<rparr>) (tk_span l) ps' (tk_span r) res' (tk_span c)"])
         simp
  qed
qed

section \<open>The printed text has the tokens of the tree\<close>

fun pieceShapes :: "piece list \<Rightarrow> (TokenKind \<times> string) list" where
  "pieceShapes [] = []"
| "pieceShapes (Blank s # ps) = pieceShapes ps"
| "pieceShapes (Tok k l # ps) = (k, l) # pieceShapes ps"

lemma pieceShapes_append [simp]: "pieceShapes (ps @ qs) = pieceShapes ps @ pieceShapes qs"
  by (induction ps rule: pieceShapes.induct) auto

lemma pieceShapes_concat: "pieceShapes (concat (map f xs)) = concat (map (\<lambda>x. pieceShapes (f x)) xs)"
  by (induction xs) auto

lemma shape_place: "map shape (place off ps) = pieceShapes ps"
  by (induction off ps rule: place.induct) (auto simp: Let_def shape_def)

fun isCode :: "TokenKind \<times> string \<Rightarrow> bool" where
  "isCode (k, l) \<longleftrightarrow> k \<noteq> TokComment"

abbreviation codeShapes :: "piece list \<Rightarrow> (TokenKind \<times> string) list" where
  "codeShapes ps \<equiv> filter isCode (pieceShapes ps)"

lemma codeShapes_lead [simp]: "codeShapes (typeLead indent d) = []" "codeShapes (docPieces indent d) = []"
  by (simp_all add: typeLead_def docPieces_def)

lemma shape_simps:
  "shape (ident_tok i) = (TokIdent, id_name i)"
  "k \<notin> {TokLBrace, TokRBrace, TokSemicolon} \<Longrightarrow> shape (tok_of k sp) = (k, kindString k)"
  "k \<in> {TokLBrace, TokRBrace, TokSemicolon} \<Longrightarrow> shape (tok_of k sp) = (k, [])"
  by (auto simp: shape_def ident_tok_def tok_of_def)

lemma codeShapes_concat: "codeShapes (concat (map f xs)) = concat (map (\<lambda>x. codeShapes (f x)) xs)"
  by (induction xs) auto

lemma map_shape_concat: "map shape (concat (map f xs)) = concat (map (\<lambda>x. map shape (f x)) xs)"
  by (induction xs) auto

lemma codeShapes_type:
  shows "printableType t \<Longrightarrow> codeShapes (typePieces indent t) = map shape (type_toks t)"
    and "printableField fld \<Longrightarrow> codeShapes (fieldPieces indent fld) = map shape (field_toks fld)"
proof (induction indent t and indent fld rule: typePieces_fieldPieces.induct)
  case (1 indent d k sp)
  then show ?case by (auto simp: shape_simps primKinds_def)
next
  case (4 indent d rs lb fs rb)
  then have "concat (map (\<lambda>fld. codeShapes (fieldPieces (indent @ indentStep) fld)) fs)
      = concat (map (\<lambda>fld. map shape (field_toks fld)) fs)"
    by (intro concat_map_cong) (cases "fs = []"; auto simp: list_all_iff)
  then show ?case by (simp add: shape_simps codeShapes_concat map_shape_concat)
qed (simp_all add: shape_simps)

lemma codeShapes_param: "printableParam p \<Longrightarrow> codeShapes (paramPieces indent p) = map shape (param_toks p)"
  by (cases p) (simp add: shape_simps codeShapes_type)

lemma codeShapes_opt: "pred_option printableType t \<Longrightarrow> codeShapes (optPieces indent t) = map shape (opt_toks t)"
  by (cases t) (simp_all add: optPieces_def opt_toks_def codeShapes_type)

lemma codeShapes_decl: "printableDecl d \<Longrightarrow> codeShapes (declPieces indent d) = map shape (decl_toks d)"
proof (cases d)
  case (ProcDecl dc kw i lb ps rb res semi)
  assume "printableDecl d"
  with ProcDecl have "concat (map (\<lambda>p. codeShapes (paramPieces (indent @ indentStep) p)) ps)
      = concat (map (\<lambda>p. map shape (param_toks p)) ps)"
    by (intro concat_map_cong) (auto simp: list_all_iff codeShapes_param)
  with ProcDecl \<open>printableDecl d\<close> show ?thesis
    by (simp add: shape_simps codeShapes_concat map_shape_concat codeShapes_opt)
qed (simp_all add: shape_simps codeShapes_type codeShapes_opt)

lemma codeShapes_decls:
  "list_all printableDecl ds \<Longrightarrow> codeShapes (declsPieces ds) = map shape (concat (map decl_toks ds))"
  by (induction ds rule: declsPieces.induct) (simp_all add: codeShapes_decl)

section \<open>Properties\<close>

text \<open>The comments of the printed text: the documents in order, each as it is laid out.\<close>

definition commentShapes :: "piece list \<Rightarrow> string list" where
  "commentShapes ps = map snd (filter (\<lambda>s. \<not> isCode s) (pieceShapes ps))"

lemma isComment_shape: "isComment t \<longleftrightarrow> \<not> isCode (shape t)"
  by (simp add: isComment_def shape_def)

lemma filter_shape: "map shape (filter (\<lambda>t. P (shape t)) ts) = filter P (map shape ts)"
  by (induction ts) auto

lemma printed_tokens:
  assumes "list_all printableDecl ds"
  shows "snd (scanAll (NewFile name (printDecls ds)) NewScanner) = None
    \<and> map shape (codeTokens name (printDecls ds)) = map shape (concat (map decl_toks ds))
    \<and> map cm_text (fileComments name (printDecls ds)) = commentShapes (declsPieces ds)"
proof -
  have run: "scanAll (NewFile name (printDecls ds)) NewScanner = (place 0 (declsPieces ds), None)"
    using scanAll_rendered [OF goodPieces_decls [OF assms] separated_decls, of name] render_decls [OF assms] by simp
  have "map shape (codeTokens name (printDecls ds)) = codeShapes (declsPieces ds)"
    by (simp add: codeTokens_def run isComment_shape filter_shape shape_place)
  moreover have "map cm_text (fileComments name (printDecls ds))
      = map snd (map shape (filter (\<lambda>t. \<not> isCode (shape t)) (place 0 (declsPieces ds))))"
  proof -
    have "isComment = (\<lambda>t. \<not> isCode (shape t))" by (rule ext) (rule isComment_shape)
    then show ?thesis by (simp add: fileComments_def run commentOf_def shape_def)
  qed
  ultimately show ?thesis
    using run codeShapes_decls [OF assms]
    by (simp add: commentShapes_def filter_shape [of "\<lambda>s. \<not> isCode s"] shape_place)
qed

text \<open>Files as the parser leaves them are printable, and their text depends on the erased tree only.\<close>

lemma printableDoc_Nil [simp]: "printableDoc []"
  by (simp add: printableDoc_def firstInvalidUTF8_def)

lemma bare_printable_type:
  shows "bare_type t \<Longrightarrow> (\<And>i. ident_tok i \<in> set (type_toks t) \<Longrightarrow> is_ident (id_name i)) \<Longrightarrow> printableType t"
    and "bare_field fld \<Longrightarrow> (\<And>i. ident_tok i \<in> set (field_toks fld) \<Longrightarrow> is_ident (id_name i)) \<Longrightarrow> printableField fld"
proof (induction t and fld)
  case (RecordType d rs lb fs rb)
  have "printableField fld" if "fld \<in> set fs" for fld
    using that RecordType.prems by (intro RecordType.IH) (auto simp: list_all_iff)
  with RecordType.prems show ?case by (simp add: list_all_iff)
qed auto

lemma bare_printable_param:
  "bare_param p \<Longrightarrow> (\<And>i. ident_tok i \<in> set (param_toks p) \<Longrightarrow> is_ident (id_name i)) \<Longrightarrow> printableParam p"
  by (cases p) (auto intro: bare_printable_type)

lemma bare_printable_opt:
  "pred_option bare_type t \<Longrightarrow> (\<And>i. ident_tok i \<in> set (opt_toks t) \<Longrightarrow> is_ident (id_name i)) \<Longrightarrow>
   pred_option printableType t"
  by (cases t) (auto simp: opt_toks_def intro: bare_printable_type)

lemma bare_printable:
  assumes "bare_decl d" "\<And>i. ident_tok i \<in> set (decl_toks d) \<Longrightarrow> is_ident (id_name i)"
  shows "printableDecl d"
proof (cases d)
  case (ProcDecl dc kw i lb ps rb res semi)
  have "printableParam p" if "p \<in> set ps" for p
    using that assms ProcDecl by (intro bare_printable_param) (auto simp: list_all_iff)
  moreover have "pred_option printableType res"
    using assms ProcDecl by (intro bare_printable_opt) auto
  ultimately show ?thesis using assms ProcDecl by (simp add: list_all_iff)
qed (use assms in \<open>auto intro: bare_printable_type bare_printable_opt\<close>)

lemma parsed_printable:
  assumes "Parse name src = Inr fl"
  shows "list_all bare_decl (fi_decls fl) \<and> list_all printableDecl (fi_decls fl)"
proof -
  from assms have toks: "codeTokens name src = concat (map decl_toks (fi_decls fl))"
    and bare: "list_all bare_decl (fi_decls fl)" by (simp_all add: Parse_grammar)
  have "is_ident (id_name i)" if "d \<in> set (fi_decls fl)" "ident_tok i \<in> set (decl_toks d)" for d i
    using codeTokens_text [of "ident_tok i" name src] that toks by (auto simp: wf_token_def)
  with bare show ?thesis by (auto simp: list_all_iff intro: bare_printable)
qed

lemma docText_Nil [simp]: "docText indent [] = []"
  by (simp add: docText_def writeDoc_def)

lemma eraseIdent_name [simp]: "id_name (eraseIdent i) = id_name i"
  by (simp add: eraseIdent_def)

lemma print_erased_type:
  shows "bare_type t \<Longrightarrow> printType indent (eraseType t) = printType indent t"
    and "bare_field fld \<Longrightarrow> printField indent (eraseField fld) = printField indent fld"
proof (induction indent t and indent fld rule: printType_printField.induct)
  case (4 indent d rs lb fs rb)
  then have "concat (map (\<lambda>fld. printField (indent @ indentStep) (eraseField fld)) fs)
      = concat (map (printField (indent @ indentStep)) fs)"
    by (intro concat_map_cong) (cases "fs = []"; auto simp: list_all_iff)
  with 4 show ?case by (simp add: comp_def)
qed simp_all

lemma print_erased_param: "bare_param p \<Longrightarrow> printParam indent (eraseParam p) = printParam indent p"
  by (cases p) (simp add: print_erased_type)

lemma print_erased_opt: "pred_option bare_type t \<Longrightarrow> printOpt indent (map_option eraseType t) = printOpt indent t"
  by (cases t) (simp_all add: printOpt_def print_erased_type)

lemma print_erased: "bare_decl d \<Longrightarrow> printDecl indent (eraseDecl d) = printDecl indent d"
proof (cases d)
  case (ProcDecl dc kw i lb ps rb res semi)
  assume b: "bare_decl d"
  with ProcDecl have "concat (map (\<lambda>p. printParam (indent @ indentStep) (eraseParam p)) ps)
      = concat (map (printParam (indent @ indentStep)) ps)"
    by (intro concat_map_cong) (auto simp: list_all_iff print_erased_param)
  with b ProcDecl show ?thesis by (simp add: comp_def print_erased_opt)
qed (simp_all add: print_erased_type print_erased_opt)

lemma print_erased_decls: "list_all bare_decl ds \<Longrightarrow> printDecls (map eraseDecl ds) = printDecls ds"
  by (induction ds rule: printDecls.induct) (simp_all add: print_erased)

lemma Format_Parse:
  assumes "list_all printableDecl (fi_decls fl)"
  shows "\<exists>fl'. Parse name (Format fl) = Inr fl'
    \<and> map eraseDecl (fi_decls fl') = map eraseDecl (fi_decls fl)
    \<and> map cm_text (fi_comments fl') = commentShapes (declsPieces (fi_decls fl))
    \<and> so_src fl' = Format fl"
proof -
  let ?src = "Format fl"
  note pt = printed_tokens [OF assms, of name, folded Format_print]
  from assms have "respans decl_toks eraseDecl bare_decl d" if "d \<in> set (fi_decls fl)" for d
    using that by (auto simp: list_all_iff intro: respans_decl)
  from respans_list [OF this] pt obtain ds where
    ds: "concat (map decl_toks ds) = codeTokens name ?src" "map eraseDecl ds = map eraseDecl (fi_decls fl)"
      "list_all bare_decl ds" by blast
  let ?fl = "\<lparr>so_name = name, so_size = length ?src, so_src = ?src, so_lines = 0 # line_starts 0 ?src,
      fi_decls = ds, fi_comments = fileComments name ?src\<rparr>"
  have "Parse name ?src = Inr ?fl"
    using pt ds by (simp add: Parse_grammar source.truncate_def NewFile_def)
  with pt ds show ?thesis by (intro exI [of _ ?fl]) simp
qed

definition sampleDocs :: ifile where
  "sampleDocs = \<lparr>so_name = [], so_size = 0, so_src = [], so_lines = [0],
     fi_decls = [TypeDecl ''a b'' noSpan \<lparr>id_name = ''t'', id_span = noSpan\<rparr>
       (ListType [] noSpan (PrimType ''x'' TokInt8 noSpan)) noSpan], fi_comments = []\<rparr>"

text \<open>
  C23. Print and parse: for a file whose identifiers, primitive kinds and documents are
  printable, parsing the formatted bytes succeeds and returns the same declarations in the
  same order, up to source spans and documentation slots, with every document present as a
  comment, in order and laid out as the formatter writes it.
\<close>

theorem Parse_Format_roundtrip:
  assumes "list_all printableDecl (fi_decls fl)"
  shows "\<exists>fl'. Parse name (Format fl) = Inr fl'
    \<and> map eraseDecl (fi_decls fl') = map eraseDecl (fi_decls fl)
    \<and> map cm_text (fi_comments fl') = commentShapes (declsPieces (fi_decls fl))
    \<and> so_src fl' = Format fl"
  by (rule Format_Parse [OF assms])

theorem Parse_Format_roundtrip_witness:
  "\<exists>fl'. Parse ''g'' (Format sampleDocs) = Inr fl'
    \<and> map eraseDecl (fi_decls fl') = map eraseDecl (fi_decls sampleDocs)
    \<and> map cm_text (fi_comments fl') = ['' a b '', '' x '']"
proof -
  have ok: "list_all printableDecl (fi_decls sampleDocs)"
    by (simp add: sampleDocs_def printableDoc_def firstInvalidUTF8_def firstInvalidFrom.simps DecodeRune.simps
        is_ident_def keywordKind_def keywordTable_def isIdentStart_def isIdentPart_def between_def RuneError_def
        primKinds_def newline_def)
  have "commentShapes (declsPieces (fi_decls sampleDocs)) = ['' a b '', '' x '']" by code_simp
  then show ?thesis using Parse_Format_roundtrip [OF ok, of "''g''"] by metis
qed

text \<open>
  Formatting is canonical: whatever the layout of an accepted source without
  documentation slots, formatting it, parsing the result and formatting again gives the same
  bytes, so two sources with the same declarations have the same canonical text.
\<close>

theorem Format_canonical:
  assumes "Parse name src = Inr fl"
  shows "(\<exists>fl'. Parse name' (Format fl) = Inr fl' \<and> Format fl' = Format fl)
    \<and> (\<forall>fl2 src2. Parse name' src2 = Inr fl2 \<and> map eraseDecl (fi_decls fl2) = map eraseDecl (fi_decls fl)
          \<longrightarrow> Format fl2 = Format fl)"
proof -
  note p = parsed_printable [OF assms]
  have same: "Format fl2 = Format fl"
    if "Parse name' src2 = Inr fl2" "map eraseDecl (fi_decls fl2) = map eraseDecl (fi_decls fl)" for fl2 src2
    using that parsed_printable [OF that(1)] p print_erased_decls
    by (metis Format_print)
  with Format_Parse [of fl name'] p show ?thesis by blast
qed

theorem Format_canonical_witness:
  "\<exists>fl fl'. Parse ''f'' ''type a int8;'' = Inr fl \<and> Parse ''g'' (Format fl) = Inr fl' \<and> Format fl' = Format fl"
proof -
  have "\<not> isl (Parse ''f'' ''type a int8;'')" by code_simp
  then have "\<exists>fl. Parse ''f'' ''type a int8;'' = Inr fl" by (metis sum.collapse(2))
  then show ?thesis using Format_canonical [of "''f''" "''type a int8;''" _ "''g''"] by metis
qed

end
