(* ===== verification/Selector_Resolution.thy ===== *)
theory Selector_Resolution
  imports Selectors Format_Roundtrip
begin

text \<open>
  Selectors are exactly their canonical texts, and resolution is lookup in the list of all
  generated identifiers of a valid interface.
\<close>

section \<open>Well-formed selectors\<close>

fun wfStep :: "Step \<Rightarrow> bool" where
  "wfStep ElementStep = True"
| "wfStep (FieldStep f) = IsValidWireName f"

definition pathEnds :: "Step list \<Rightarrow> bool" where
  "pathEnds ss = (case rev ss of FieldStep f # _ \<Rightarrow> True | _ \<Rightarrow> False)"

definition wfPath :: "Step list \<Rightarrow> bool" where
  "wfPath ss \<longleftrightarrow> list_all wfStep ss \<and> pathEnds ss"

definition wfSelector :: "Selector \<Rightarrow> bool" where
  "wfSelector s \<longleftrightarrow> IsValidWireName (sel_Name s) \<and>
     (if sel_Kind s \<noteq> ProcedureSelector then
        sel_Param s = [] \<and> \<not> sel_Return s \<and> (sel_Steps s = [] \<or> wfPath (sel_Steps s))
      else if sel_Param s \<noteq> [] then
        IsValidWireName (sel_Param s) \<and> \<not> sel_Return s \<and> (sel_Steps s = [] \<or> wfPath (sel_Steps s))
      else if sel_Return s then wfPath (sel_Steps s)
      else sel_Steps s = [])"

lemma hasPrefix_append [simp]: "hasPrefix (p @ s) p"
  by (simp add: hasPrefix_def)

lemma stepString_ne [simp]: "stepString st \<noteq> []"
  by (cases st) auto

lemma hasPrefix_drop: "hasPrefix s p \<Longrightarrow> n = length p \<Longrightarrow> s = p @ drop n s"
  unfolding hasPrefix_def by (metis append_take_drop_id)

text \<open>Where a name stops.\<close>

definition nameStops :: "string \<Rightarrow> bool" where
  "nameStops r \<longleftrightarrow> (case r of [] \<Rightarrow> True | c # _ \<Rightarrow> \<not> isWireChar c)"

lemma nameStops_hd: "nameStops r \<longleftrightarrow> r = [] \<or> \<not> isWireChar (hd r)"
  by (cases r) (simp_all add: nameStops_def)

lemma scanWireName_valid:
  "IsValidWireName name \<Longrightarrow> nameStops r \<Longrightarrow> scanWireName (name @ r) = (name, r)"
  by (cases name; cases r)
     (auto simp: IsValidWireName_def scanWireName_def nameStops_def list_all_iff takeWhile_append dropWhile_append
        split: if_splits)

lemma scanWireName_result:
  assumes "scanWireName s = (name, r)" "name \<noteq> []"
  shows "IsValidWireName name \<and> s = name @ r \<and> nameStops r"
proof -
  from assms obtain c t where s: "s = c # t" "isASCIILetter c \<or> c = CHR ''_''" "name = c # takeWhile isWireChar t"
      "r = dropWhile isWireChar t"
    by (auto simp: scanWireName_def split: list.splits if_splits)
  have "list_all isWireChar (takeWhile isWireChar t)" by (auto simp: list_all_iff dest: set_takeWhileD)
  moreover have "nameStops (dropWhile isWireChar t)"
    using hd_dropWhile by (metis nameStops_hd)
  ultimately show ?thesis using s by (auto simp: IsValidWireName_def)
qed

lemma slash_not_wire [simp]: "\<not> isWireChar CHR ''/''"
  by (simp add: isWireChar_def isASCIILetter_def isLower_def isUpper_def isDigit_def between_def)

lemma pathString_start: "pathString ss = [] \<or> (\<exists>t. pathString ss = CHR ''/'' # t)"
  by (cases ss rule: list.exhaust; cases "hd ss") auto

lemma nameStops_path [simp]: "nameStops (pathString ss)"
  using pathString_start [of ss] by (metis nameStops_hd list.sel(1) slash_not_wire)

lemma validWireName_ne: "IsValidWireName n \<Longrightarrow> n \<noteq> []"
  by (auto simp: IsValidWireName_def)

section \<open>Parsing and printing\<close>

lemma pathLoop_Nil: "pathLoop t steps [] = (if pathEnds steps then Inr steps else Inl (NoFinalField t))"
  by (subst pathLoop.simps) (auto simp: pathEnds_def split: list.splits Step.splits)

lemma pathLoop_element: "pathLoop t steps (''/element'' @ pathString ss) = pathLoop t (steps @ [ElementStep]) (pathString ss)"
proof -
  have "length (''element'' @ pathString ss) = 7 \<or> (''element'' @ pathString ss) ! 7 = CHR ''/''"
    using pathString_start [of ss] by (auto simp: nth_append)
  then show ?thesis by (subst pathLoop.simps) (simp add: hasPrefix_def)
qed

lemma pathLoop_field:
  "IsValidWireName f \<Longrightarrow>
   pathLoop t steps (''/field:'' @ f @ pathString ss) = pathLoop t (steps @ [FieldStep f]) (pathString ss)"
  using validWireName_ne [of f] scanWireName_valid [of f "pathString ss"]
  by (subst pathLoop.simps) (simp add: hasPrefix_def)

lemma pathLoop_print:
  "list_all wfStep ss \<Longrightarrow> pathEnds (steps @ ss) \<Longrightarrow> pathLoop t steps (pathString ss) = Inr (steps @ ss)"
proof (induction ss arbitrary: steps)
  case (Cons st ss)
  show ?case
  proof (cases st)
    case ElementStep
    with Cons pathLoop_element [of t steps ss] show ?thesis by simp
  next
    case (FieldStep f)
    with Cons pathLoop_field [of f t steps ss] show ?thesis by simp
  qed
qed (simp add: pathLoop_Nil)

lemma pathLoop_parse:
  "pathLoop t steps rest = Inr r \<Longrightarrow>
   \<exists>ss. rest = pathString ss \<and> list_all wfStep ss \<and> r = steps @ ss \<and> pathEnds r"
proof (induction t steps rest rule: pathLoop.induct)
  case (1 t steps rest)
  show ?case
  proof (cases rest)
    case Nil
    with 1 show ?thesis by (auto simp: pathLoop_Nil split: if_splits)
  next
    case (Cons c u)
    note step = "1.prems" [unfolded Cons, simplified pathLoop.simps [of t steps "c # u"]]
    consider (element) "c = CHR ''/''" "u \<noteq> []" "hasPrefix u ''element'' \<and> (length u = 7 \<or> u ! 7 = CHR ''/'')"
        "pathLoop t (steps @ [ElementStep]) (drop 7 u) = Inr r"
      | (field) name r' where "c = CHR ''/''" "u \<noteq> []" "\<not> (hasPrefix u ''element'' \<and> (length u = 7 \<or> u ! 7 = CHR ''/''))"
          "hasPrefix u ''field:''" "scanWireName (drop 6 u) = (name, r')" "name \<noteq> []"
          "pathLoop t (steps @ [FieldStep name]) r' = Inr r"
      using step by (auto split: if_splits prod.splits)
    then show ?thesis
    proof cases
      case element
      from "1.IH"(1) [OF Cons] element obtain ss
        where ss: "drop 7 u = pathString ss" "list_all wfStep ss" "r = (steps @ [ElementStep]) @ ss" "pathEnds r" by auto
      from element(3) hasPrefix_drop [of u "''element''" 7] have "u = ''element'' @ drop 7 u" by simp
      with Cons element(1) ss show ?thesis by (intro exI [of _ "ElementStep # ss"]) simp
    next
      case (field name r')
      from "1.IH"(2) [OF Cons _ _ _ field(4) field(5) [symmetric]] field obtain ss
        where ss: "r' = pathString ss" "list_all wfStep ss" "r = (steps @ [FieldStep name]) @ ss" "pathEnds r" by auto
      from field(4) hasPrefix_drop [of u "''field:''" 6] have "u = ''field:'' @ drop 6 u" by simp
      with scanWireName_result [OF field(5,6)] Cons field(1) ss show ?thesis
        by (intro exI [of _ "FieldStep name # ss"]) simp
    qed
  qed
qed

lemma parseFieldPath_iff:
  "parseFieldPath t rest = Inr r \<longleftrightarrow> rest = pathString r \<and> wfPath r"
proof -
  have "wfPath r \<Longrightarrow> pathString r \<noteq> []" by (cases r) (auto simp: wfPath_def pathEnds_def)
  then show ?thesis
    using pathLoop_parse [of t "[]" rest r] pathLoop_print [of r "[]" t]
    by (auto simp: parseFieldPath_def wfPath_def)
qed

lemma parseKind_iff: "parseKind t = Some (k, r) \<longleftrightarrow> t = kindName k @ '':'' @ r"
proof
  assume "parseKind t = Some (k, r)"
  then show "t = kindName k @ '':'' @ r"
    using hasPrefix_drop [of t "''type:''" 5] hasPrefix_drop [of t "''exception:''" 10]
      hasPrefix_drop [of t "''procedure:''" 10]
    by (auto simp: parseKind_def split: if_splits)
next
  assume "t = kindName k @ '':'' @ r"
  then show "parseKind t = Some (k, r)" by (cases k) (simp_all add: parseKind_def hasPrefix_def)
qed

lemma parseFieldPath_ne: "wfPath ss \<Longrightarrow> ss \<noteq> [] \<and> pathString ss \<noteq> []"
  by (cases ss) (auto simp: wfPath_def pathEnds_def)

lemma ParseSelector_print:
  assumes "wfSelector s"
  shows "ParseSelector (selectorString s) = Inr s"
proof -
  obtain k name pn ret steps where s: "s = \<lparr>sel_Kind = k, sel_Name = name, sel_Param = pn, sel_Return = ret, sel_Steps = steps\<rparr>"
    by (cases s) auto
  let ?tail = "(if pn \<noteq> [] then ''/param:'' @ pn else []) @ (if ret then ''/return'' else []) @ pathString steps"
  have name: "IsValidWireName name" "name \<noteq> []" using assms s validWireName_ne by (auto simp: wfSelector_def)
  have "nameStops ?tail" using nameStops_path [of steps] by (auto simp: nameStops_def)
  then have scan: "scanWireName (name @ ?tail) = (name, ?tail)" by (rule scanWireName_valid [OF name(1)])
  have kind: "parseKind (selectorString s) = Some (k, name @ ?tail)"
    by (simp add: parseKind_iff selectorString_def s)
  have path: "parseFieldPath t (pathString steps) = Inr steps" if "wfPath steps" for t
    using that by (simp add: parseFieldPath_iff)
  consider (flat) "k \<noteq> ProcedureSelector" | (param) "k = ProcedureSelector" "pn \<noteq> []"
    | (return) "k = ProcedureSelector" "pn = []" "ret" | (root) "k = ProcedureSelector" "pn = []" "\<not> ret" by blast
  then show ?thesis
  proof cases
    case flat
    with assms s have "pn = []" "\<not> ret" "steps = [] \<or> wfPath steps" by (auto simp: wfSelector_def)
    with flat name kind scan path parseFieldPath_ne [of steps] show ?thesis
      by (auto simp: ParseSelector_def s)
  next
    case param
    with assms s have p: "IsValidWireName pn" "\<not> ret" "steps = [] \<or> wfPath steps" by (auto simp: wfSelector_def)
    then have "scanWireName (pn @ pathString steps) = (pn, pathString steps)" by (simp add: scanWireName_valid)
    with param p name kind scan path parseFieldPath_ne [of steps] show ?thesis
      by (auto simp: ParseSelector_def s hasPrefix_def)
  next
    case return
    with assms s have "wfPath steps" by (auto simp: wfSelector_def)
    with return name kind scan path show ?thesis by (auto simp: ParseSelector_def s hasPrefix_def)
  next
    case root
    with assms s have "steps = []" by (auto simp: wfSelector_def)
    with root name kind scan show ?thesis by (auto simp: ParseSelector_def s)
  qed
qed

lemma ParseSelector_parse:
  assumes "ParseSelector t = Inr s"
  shows "wfSelector s \<and> t = selectorString s"
proof -
  obtain k rest0 where k: "parseKind t = Some (k, rest0)"
    using assms by (auto simp: ParseSelector_def split: option.splits)
  then have t: "t = kindName k @ '':'' @ rest0" by (simp only: parseKind_iff)
  obtain name rest where scan: "scanWireName rest0 = (name, rest)" by fastforce
  have "name \<noteq> []" using assms k scan by (auto simp: ParseSelector_def)
  then have name: "IsValidWireName name" "rest0 = name @ rest" using scanWireName_result [OF scan] by auto
  let ?sel = "\<lparr>sel_Kind = k, sel_Name = name, sel_Param = [], sel_Return = False, sel_Steps = []\<rparr>"
  note body = assms [unfolded ParseSelector_def k option.case prod.case scan Let_def]
  show ?thesis
  proof (cases "k = ProcedureSelector")
    case False
    then have "s = ?sel \<and> rest = [] \<or> (\<exists>steps. parseFieldPath t rest = Inr steps \<and> s = ?sel\<lparr>sel_Steps := steps\<rparr>)"
      using body \<open>name \<noteq> []\<close> by (auto split: if_splits sum.splits)
    with False name t show ?thesis
      by (auto simp: wfSelector_def selectorString_def parseFieldPath_iff)
  next
    case True
    consider (root) "s = ?sel" "rest = []"
      | (param) pn r where "hasPrefix rest ''/param:''" "scanWireName (drop 7 rest) = (pn, r)" "pn \<noteq> []"
          "s = ?sel\<lparr>sel_Param := pn\<rparr> \<and> r = [] \<or> (\<exists>steps. parseFieldPath t r = Inr steps \<and> s = ?sel\<lparr>sel_Param := pn, sel_Steps := steps\<rparr>)"
      | (return) steps where "hasPrefix rest ''/return''" "parseFieldPath t (drop 7 rest) = Inr steps"
          "s = ?sel\<lparr>sel_Return := True, sel_Steps := steps\<rparr>"
      using body \<open>name \<noteq> []\<close> True by (auto split: if_splits sum.splits prod.splits)
    then show ?thesis
    proof cases
      case root
      with True name t show ?thesis by (simp add: wfSelector_def selectorString_def)
    next
      case (param pn r)
      have "rest = ''/param:'' @ pn @ r" "IsValidWireName pn"
        using scanWireName_result [OF param(2,3)] hasPrefix_drop [OF param(1), of 7] by auto
      with param(3,4) True name t show ?thesis
        by (auto simp: wfSelector_def selectorString_def parseFieldPath_iff)
    next
      case (return steps)
      have "rest = ''/return'' @ pathString steps" "wfPath steps"
        using hasPrefix_drop [OF return(1), of 7] return(2) by (auto simp: parseFieldPath_iff)
      with return(3) True name t show ?thesis by (auto simp: wfSelector_def selectorString_def)
    qed
  qed
qed

section \<open>All generated identifiers\<close>

text \<open>
  Every field of every inline record below a type, with its path and its record; named
  references are not entered.
\<close>

fun fieldPaths :: "TypeExpr \<Rightarrow> (Step list \<times> Field \<times> TypeExpr) list"
and recordPaths :: "TypeExpr \<Rightarrow> Field \<Rightarrow> (Step list \<times> Field \<times> TypeExpr) list" where
  "fieldPaths (PrimType d k sp) = []"
| "fieldPaths (NamedType d i) = []"
| "fieldPaths (ListType d ls t) = map (\<lambda>(p, x). (ElementStep # p, x)) (fieldPaths t)"
| "fieldPaths (RecordType d rs lb fs rb) = concat (map (recordPaths (RecordType d rs lb fs rb)) fs)"
| "recordPaths rec (Field d i t semi) =
     ([FieldStep (id_name i)], Field d i t semi, rec) # map (\<lambda>(p, x). (FieldStep (id_name i) # p, x)) (fieldPaths t)"

definition root :: "SelectorKind \<Rightarrow> string \<Rightarrow> Selector" where
  "root k name = \<lparr>sel_Kind = k, sel_Name = name, sel_Param = [], sel_Return = False, sel_Steps = []\<rparr>"

definition fieldTargets :: "Selector \<Rightarrow> Decl \<Rightarrow> Param option \<Rightarrow> TypeExpr \<Rightarrow> Target list" where
  "fieldTargets sel d p t =
     map (\<lambda>(path, f, rec). \<lparr>tg_Selector = sel\<lparr>sel_Steps := path\<rparr>, tg_Decl = d, tg_Param = p,
            tg_Field = Some f, tg_Record = Some rec\<rparr>) (fieldPaths t)"

definition paramTargets :: "Decl \<Rightarrow> string \<Rightarrow> Param \<Rightarrow> Target list" where
  "paramTargets d name p =
     (let sel = (root ProcedureSelector name)\<lparr>sel_Param := id_name (paramName p)\<rparr>
      in rootTarget sel d (Some p) # fieldTargets sel d (Some p) (paramType p))"

text \<open>The identifiers one declaration generates, each with its selector.\<close>

fun declTargets :: "Decl \<Rightarrow> Target list" where
  "declTargets (TypeDecl d kw i t semi) =
     (let dec = TypeDecl d kw i t semi; sel = root TypeSelector (id_name i)
      in rootTarget sel dec None # fieldTargets sel dec None t)"
| "declTargets (ExceptionDecl d kw i ot semi) =
     (let dec = ExceptionDecl d kw i ot semi; sel = root ExceptionSelector (id_name i)
      in if IsFixedRuntimeException (id_name i) then []
         else rootTarget sel dec None # (case ot of None \<Rightarrow> [] | Some t \<Rightarrow> fieldTargets sel dec None t))"
| "declTargets (ProcDecl d kw i lb ps rb res semi) =
     (let dec = ProcDecl d kw i lb ps rb res semi; sel = root ProcedureSelector (id_name i)
      in rootTarget sel dec None # concat (map (paramTargets dec (id_name i)) ps)
           @ (case res of None \<Rightarrow> [] | Some t \<Rightarrow> fieldTargets (sel\<lparr>sel_Return := True\<rparr>) dec None t))"

section \<open>Resolution is lookup\<close>

lemma find_unique:
  "distinct (map f xs) \<Longrightarrow> find (\<lambda>x. f x = n) xs = Some x \<longleftrightarrow> x \<in> set xs \<and> f x = n"
  by (induction xs) auto

lemma recordPaths_path: "(p, x) \<in> set (recordPaths rec fld) \<Longrightarrow> \<exists>q. p = FieldStep (id_name (fieldName fld)) # q"
  by (cases fld) auto

lemma fieldPaths_steps: "(p, x) \<in> set (fieldPaths t) \<Longrightarrow> p \<noteq> []"
  by (cases t) (auto dest: recordPaths_path)

lemma walkFieldPath_iff:
  fixes sel :: Selector and ctx :: string
  shows "scopedType t \<Longrightarrow> walkFieldPath sel ctx t p = Inr (f, r) \<longleftrightarrow> (p, f, r) \<in> set (fieldPaths t)"
    and "scopedField fld \<Longrightarrow>
      (if p = [] then Inr (fld, rec) else walkFieldPath sel ctx (fieldType fld) p) = Inr (f, r) \<longleftrightarrow>
      (FieldStep (id_name (fieldName fld)) # p, f, r) \<in> set (recordPaths rec fld)"
proof (induction t and rec fld arbitrary: p and p rule: fieldPaths_recordPaths.induct)
  case (1 d k sp)
  then show ?case by (cases p) (auto split: Step.splits)
next
  case (2 d i)
  then show ?case by (cases p) auto
next
  case (3 d ls t)
  then show ?case by (cases p) (auto split: Step.splits)
next
  case (4 d rs lb fs rb)
  let ?rec = "RecordType d rs lb fs rb" and ?name = "\<lambda>fld. id_name (fieldName fld)"
  from "4.prems" have dist: "distinct (map ?name fs)" and ok: "\<And>fld. fld \<in> set fs \<Longrightarrow> scopedField fld"
    by (auto simp: list_all_iff)
  have paths: "(p, f, r) \<in> set (fieldPaths ?rec) \<longleftrightarrow> (\<exists>fld \<in> set fs. (p, f, r) \<in> set (recordPaths ?rec fld))" for p
    by simp
  show ?case
  proof (cases p)
    case Nil
    then show ?thesis using recordPaths_path [of "[]" "(f, r)" ?rec] by auto
  next
    case (Cons st q)
    show ?thesis
    proof (cases st)
      case ElementStep
      then show ?thesis using Cons recordPaths_path [of p "(f, r)" ?rec] by auto
    next
      case (FieldStep n)
      have "(p, f, r) \<in> set (fieldPaths ?rec) \<longleftrightarrow>
          (\<exists>fld \<in> set fs. ?name fld = n \<and> (FieldStep (?name fld) # q, f, r) \<in> set (recordPaths ?rec fld))"
        using Cons FieldStep recordPaths_path [of p "(f, r)" ?rec] by (auto simp: paths)
      also have "\<dots> \<longleftrightarrow> (\<exists>fld \<in> set fs. ?name fld = n \<and>
          (if q = [] then Inr (fld, ?rec) else walkFieldPath sel ctx (fieldType fld) q) = Inr (f, r))"
        using "4.IH" ok by blast
      also have "\<dots> \<longleftrightarrow> walkFieldPath sel ctx ?rec p = Inr (f, r)"
      proof (cases "find (\<lambda>fld. ?name fld = n) fs")
        case None
        then have "\<forall>fld \<in> set fs. ?name fld \<noteq> n" by (auto simp: find_None_iff)
        then show ?thesis using Cons FieldStep None by auto
      next
        case (Some fld)
        then have "fld \<in> set fs \<and> ?name fld = n" using find_unique [OF dist] by blast
        moreover have "fld' = fld" if "fld' \<in> set fs" "?name fld' = n" for fld'
          using that Some find_unique [OF dist, of n fld'] by simp
        ultimately show ?thesis using Cons FieldStep Some by auto
      qed
      finally show ?thesis by simp
    qed
  qed
next
  case (5 rec d i t semi)
  then show ?case using fieldPaths_steps [of "[]" "(f, r)" t] by auto
qed

lemma fieldTarget_iff:
  assumes "scopedType t" "s = sel\<lparr>sel_Steps := sel_Steps s\<rparr>"
  shows "fieldTarget s d p ctx t = Inr tg \<longleftrightarrow> tg \<in> set (fieldTargets sel d p t) \<and> tg_Selector tg = s"
proof -
  have "fieldTarget s d p ctx t = Inr tg \<longleftrightarrow> (\<exists>f r. (sel_Steps s, f, r) \<in> set (fieldPaths t) \<and>
      tg = \<lparr>tg_Selector = s, tg_Decl = d, tg_Param = p, tg_Field = Some f, tg_Record = Some r\<rparr>)"
    unfolding walkFieldPath_iff(1) [OF assms(1), of s ctx, symmetric] fieldTarget_def
    by (auto split: sum.splits)
  also have "\<dots> \<longleftrightarrow> tg \<in> set (fieldTargets sel d p t) \<and> tg_Selector tg = s"
  proof
    assume "\<exists>f r. (sel_Steps s, f, r) \<in> set (fieldPaths t) \<and>
      tg = \<lparr>tg_Selector = s, tg_Decl = d, tg_Param = p, tg_Field = Some f, tg_Record = Some r\<rparr>"
    then show "tg \<in> set (fieldTargets sel d p t) \<and> tg_Selector tg = s"
      using assms(2) by (auto simp: fieldTargets_def image_iff split: prod.splits intro!: bexI)
  next
    assume "tg \<in> set (fieldTargets sel d p t) \<and> tg_Selector tg = s"
    then obtain q f r where "(q, f, r) \<in> set (fieldPaths t)" "s = sel\<lparr>sel_Steps := q\<rparr>"
      "tg = \<lparr>tg_Selector = s, tg_Decl = d, tg_Param = p, tg_Field = Some f, tg_Record = Some r\<rparr>"
      by (auto simp: fieldTargets_def)
    then show "\<exists>f r. (sel_Steps s, f, r) \<in> set (fieldPaths t) \<and>
      tg = \<lparr>tg_Selector = s, tg_Decl = d, tg_Param = p, tg_Field = Some f, tg_Record = Some r\<rparr>" by auto
  qed
  finally show ?thesis .
qed

lemma fieldTargets_sel:
  "tg \<in> set (fieldTargets sel d p t) \<Longrightarrow> \<exists>q. q \<noteq> [] \<and> tg_Selector tg = sel\<lparr>sel_Steps := q\<rparr>"
  using fieldPaths_steps by (fastforce simp: fieldTargets_def)

lemma validInterface_decls:
  "validInterface ds \<Longrightarrow> distinct (map declaredName ds) \<and>
     (\<forall>d \<in> set ds. distinct (declParams d) \<and> (\<forall>t \<in> set (declTypes d). scopedType t))"
proof (induction ds rule: rev_induct)
  case (snoc d ds)
  then have v: "validInterface ds" "validDecl ds d" by (simp_all add: validInterface_snoc)
  from v(2) have "declaredName d \<notin> declaredName ` set ds" "distinct (declParams d)" "\<forall>t \<in> set (declTypes d). scopedType t"
    by (auto simp: validDecl_def validType_def)
  with snoc.IH [OF v(1)] show ?case by auto
qed simp

fun selectorKind :: "Decl \<Rightarrow> SelectorKind" where
  "selectorKind (TypeDecl d kw i t semi) = TypeSelector"
| "selectorKind (ExceptionDecl d kw i ot semi) = ExceptionSelector"
| "selectorKind (ProcDecl d kw i lb ps rb res semi) = ProcedureSelector"

lemma root_sel [simp]:
  "sel_Kind (root k n) = k" "sel_Name (root k n) = n" "sel_Steps (root k n) = []" "sel_Return (root k n) = False"
  "sel_Param (root k n) = []"
  by (simp_all add: root_def)

lemma rootTarget_sel [simp]: "tg_Selector (rootTarget sel d p) = sel"
  by (simp add: rootTarget_def)

lemma declTargets_root:
  "tg \<in> set (declTargets d) \<Longrightarrow>
     sel_Kind (tg_Selector tg) = selectorKind d \<and> sel_Name (tg_Selector tg) = declaredName d"
  by (cases d)
     (auto simp: declaredName_def paramTargets_def Let_def dest: fieldTargets_sel split: if_splits option.splits)

text \<open>A root and its fields, against the root itself and a path below it.\<close>

lemma targets_below:
  assumes "s = sel\<lparr>sel_Steps := sel_Steps s\<rparr>" "sel_Steps sel = []" "scopedType t"
  shows "(tg \<in> set (rootTarget sel d p # fieldTargets sel d p t) \<and> tg_Selector tg = s) \<longleftrightarrow>
     (if sel_Steps s \<noteq> [] then fieldTarget s d p ctx t = Inr tg else tg = rootTarget s d p)"
proof (cases "sel_Steps s = []")
  case True
  then have "s = sel" using assms(1,2) by (cases s; cases sel) simp
  moreover have "tg_Selector tg \<noteq> sel" if "tg \<in> set (fieldTargets sel d p t)"
    using fieldTargets_sel [OF that] assms(2) by (cases sel) auto
  ultimately show ?thesis using True by auto
next
  case False
  then have "sel \<noteq> s" using assms(2) by auto
  with False fieldTarget_iff [OF assms(3,1), of d p ctx tg] show ?thesis by auto
qed

lemma wfSelector_shape:
  assumes "wfSelector s"
  shows "sel_Kind s \<noteq> ProcedureSelector \<Longrightarrow> s = (root (sel_Kind s) (sel_Name s))\<lparr>sel_Steps := sel_Steps s\<rparr>"
    and "sel_Kind s = ProcedureSelector \<Longrightarrow> sel_Param s \<noteq> [] \<Longrightarrow>
      s = (root ProcedureSelector (sel_Name s))\<lparr>sel_Param := sel_Param s, sel_Steps := sel_Steps s\<rparr>"
    and "sel_Kind s = ProcedureSelector \<Longrightarrow> sel_Param s = [] \<Longrightarrow> sel_Return s \<Longrightarrow>
      s = (root ProcedureSelector (sel_Name s))\<lparr>sel_Return := True, sel_Steps := sel_Steps s\<rparr> \<and> sel_Steps s \<noteq> []"
    and "sel_Kind s = ProcedureSelector \<Longrightarrow> sel_Param s = [] \<Longrightarrow> \<not> sel_Return s \<Longrightarrow> s = root ProcedureSelector (sel_Name s)"
  using assms by (cases s; auto simp: wfSelector_def root_def dest: parseFieldPath_ne)+

lemma resolve_type:
  assumes "findDecl fl (sel_Name s) = Some (TypeDecl d kw i t semi)" "id_name i = sel_Name s" "scopedType t"
    and "sel_Kind s = TypeSelector" "wfSelector s"
  shows "ResolveSelector fl s = Inr tg \<longleftrightarrow> tg \<in> set (declTargets (TypeDecl d kw i t semi)) \<and> tg_Selector tg = s"
  using targets_below [OF wfSelector_shape(1) [OF assms(5)], of t tg "TypeDecl d kw i t semi" None
      "''the underlying type of type '' @ quoted (sel_Name s)"] assms
  by (auto simp: ResolveSelector_def resolveType_def Let_def)

lemma resolve_exception:
  assumes "findDecl fl (sel_Name s) = Some (ExceptionDecl d kw i ot semi)" "id_name i = sel_Name s" "pred_option scopedType ot"
    and "sel_Kind s = ExceptionSelector" "wfSelector s"
  shows "ResolveSelector fl s = Inr tg \<longleftrightarrow> tg \<in> set (declTargets (ExceptionDecl d kw i ot semi)) \<and> tg_Selector tg = s"
proof -
  note shape = wfSelector_shape(1) [OF assms(5)]
  show ?thesis
  proof (cases ot)
    case None
    have "s = root ExceptionSelector (sel_Name s)" if "sel_Steps s = []"
      using shape assms(4) that by (cases s) (simp add: root_def)
    moreover have "root ExceptionSelector (sel_Name s) \<noteq> s" if "sel_Steps s \<noteq> []"
      using that root_sel(3) by metis
    ultimately show ?thesis
      using assms None by (auto simp: ResolveSelector_def resolveException_def Let_def)
  next
    case (Some t)
    then show ?thesis
      using targets_below [OF shape, of t tg "ExceptionDecl d kw i ot semi" None
        "''the payload of exception '' @ quoted (sel_Name s)"] assms
      by (auto simp: ResolveSelector_def resolveException_def Let_def)
  qed
qed

lemma paramTargets_sel:
  "tg \<in> set (paramTargets d n p) \<Longrightarrow>
     sel_Param (tg_Selector tg) = id_name (paramName p) \<and> \<not> sel_Return (tg_Selector tg)"
  by (auto simp: paramTargets_def Let_def dest: fieldTargets_sel)

lemma resolve_procedure:
  assumes found: "findDecl fl (sel_Name s) = Some (ProcDecl d kw i lb ps rb res semi)" "id_name i = sel_Name s"
    and ok: "distinct (map (\<lambda>p. id_name (paramName p)) ps)" "\<forall>p \<in> set ps. scopedType (paramType p) \<and> id_name (paramName p) \<noteq> []"
      "pred_option scopedType res"
    and s: "sel_Kind s = ProcedureSelector" "wfSelector s"
  shows "ResolveSelector fl s = Inr tg \<longleftrightarrow>
    tg \<in> set (declTargets (ProcDecl d kw i lb ps rb res semi)) \<and> tg_Selector tg = s"
proof -
  let ?d = "ProcDecl d kw i lb ps rb res semi" and ?root = "root ProcedureSelector (sel_Name s)"
  let ?ret = "?root\<lparr>sel_Return := True\<rparr>"
  have ret: "sel_Return (tg_Selector tg) \<and> sel_Param (tg_Selector tg) = [] \<and> sel_Steps (tg_Selector tg) \<noteq> []"
    if "tg \<in> set (fieldTargets ?ret ?d None t)" for t
    using fieldTargets_sel [OF that] by auto
  have targets: "tg \<in> set (declTargets ?d) \<longleftrightarrow> tg = rootTarget ?root ?d None
      \<or> (\<exists>p \<in> set ps. tg \<in> set (paramTargets ?d (sel_Name s) p))
      \<or> (\<exists>t. res = Some t \<and> tg \<in> set (fieldTargets ?ret ?d None t))"
    using found(2) by (auto simp: Let_def split: option.splits)
  note resolve = ResolveSelector_def resolveProcedure_def Let_def found(1) s(1)
  consider (param) "sel_Param s \<noteq> []" | (return) "sel_Param s = []" "sel_Return s" | (root) "sel_Param s = []" "\<not> sel_Return s"
    by blast
  then show ?thesis
  proof cases
    case root
    then have eq: "?root = s" using wfSelector_shape(4) [OF s(2) s(1)] by simp
    then have "sel_Steps s = []" by (metis root_sel(3))
    moreover have "tg \<in> set (declTargets ?d) \<and> tg_Selector tg = s \<longleftrightarrow> tg = rootTarget s ?d None"
      using root ok(2) ret paramTargets_sel [of tg ?d "sel_Name s"] unfolding targets eq by auto
    ultimately show ?thesis using root by (auto simp: resolve)
  next
    case return
    have shape: "s = ?ret\<lparr>sel_Steps := sel_Steps s\<rparr>" "sel_Steps s \<noteq> []"
      using wfSelector_shape(3) [OF s(2) s(1) return] by auto
    have "\<not> sel_Return (tg_Selector tg)"
      if "tg = rootTarget ?root ?d None \<or> (\<exists>p \<in> set ps. tg \<in> set (paramTargets ?d (sel_Name s) p))"
      using that paramTargets_sel [of tg ?d "sel_Name s"] by auto
    then have "\<not> (tg = rootTarget ?root ?d None \<or> (\<exists>p \<in> set ps. tg \<in> set (paramTargets ?d (sel_Name s) p)))"
      if "tg_Selector tg = s" using that return(2) by metis
    then have "tg \<in> set (declTargets ?d) \<and> tg_Selector tg = s \<longleftrightarrow>
        (\<exists>t. res = Some t \<and> tg \<in> set (fieldTargets ?ret ?d None t) \<and> tg_Selector tg = s)"
      unfolding targets by blast
    then show ?thesis
      using return ok(3) fieldTarget_iff [OF _ shape(1), of _ ?d None _ tg]
      by (auto simp: resolve split: option.splits)
  next
    case param
    let ?p = "\<lambda>p. ?root\<lparr>sel_Param := id_name (paramName p)\<rparr>"
    have shape: "s = (?root\<lparr>sel_Param := sel_Param s\<rparr>)\<lparr>sel_Steps := sel_Steps s\<rparr>"
      using wfSelector_shape(2) [OF s(2) s(1) param] by simp
    have "tg \<in> set (declTargets ?d) \<and> tg_Selector tg = s \<longleftrightarrow>
        (\<exists>p \<in> set ps. id_name (paramName p) = sel_Param s \<and> tg \<in> set (paramTargets ?d (sel_Name s) p) \<and> tg_Selector tg = s)"
    proof -
      have "\<not> (tg = rootTarget ?root ?d None \<or> (\<exists>t. res = Some t \<and> tg \<in> set (fieldTargets ?ret ?d None t)))"
        if "tg_Selector tg = s"
        using that param ret by (metis root_sel(5) rootTarget_sel)
      moreover have "id_name (paramName p) = sel_Param s"
        if "tg_Selector tg = s" "tg \<in> set (paramTargets ?d (sel_Name s) p)" for p
        using paramTargets_sel [OF that(2)] that(1) by simp
      ultimately show ?thesis unfolding targets by blast
    qed
    also have "\<dots> \<longleftrightarrow> (\<exists>p. find (\<lambda>p. id_name (paramName p) = sel_Param s) ps = Some p
        \<and> tg \<in> set (paramTargets ?d (sel_Name s) p) \<and> tg_Selector tg = s)"
      using find_unique [OF ok(1)] by blast
    also have "\<dots> \<longleftrightarrow> ResolveSelector fl s = Inr tg"
    proof (cases "find (\<lambda>p. id_name (paramName p) = sel_Param s) ps")
      case None
      then show ?thesis using param by (simp add: resolve)
    next
      case (Some p)
      then have p: "p \<in> set ps" "id_name (paramName p) = sel_Param s" using find_unique [OF ok(1)] by blast+
      then have "scopedType (paramType p)" using ok(2) by blast
      from targets_below [OF shape _ this, of tg ?d "Some p"
          "''parameter '' @ quoted (sel_Param s) @ '' of procedure '' @ quoted (sel_Name s)"] p(2) Some param
      show ?thesis by (auto simp: resolve paramTargets_def)
    qed
    finally show ?thesis by simp
  qed
qed

section \<open>Selectors of a parsed and validated interface\<close>

lemma is_ident_wire: "is_ident n \<Longrightarrow> IsValidWireName n"
  by (cases n)
     (auto simp: is_ident_def IsValidWireName_def isIdentStart_def isIdentPart_def isWireChar_def isASCIILetter_def
        isLower_def isUpper_def isDigit_def list_all_iff)

lemma fieldPaths_wf:
  "printableType t \<Longrightarrow> (p, f, r) \<in> set (fieldPaths t) \<Longrightarrow> wfPath p"
  "printableField fld \<Longrightarrow> (p, f, r) \<in> set (recordPaths rec fld) \<Longrightarrow> wfPath p"
proof (induction t and rec fld arbitrary: p and p rule: fieldPaths_recordPaths.induct)
  case (3 d ls t)
  then obtain q where "p = ElementStep # q" "wfPath q" by auto
  then show ?case by (cases q rule: rev_cases) (auto simp: wfPath_def pathEnds_def)
next
  case (4 d rs lb fs rb)
  then show ?case by (auto simp: list_all_iff)
next
  case (5 rec d i t semi)
  then have i: "IsValidWireName (id_name i)" by (simp add: is_ident_wire)
  from 5 consider "p = [FieldStep (id_name i)]" | q where "p = FieldStep (id_name i) # q" "wfPath q" by auto
  then show ?case
  proof cases
    case 1
    with i show ?thesis by (simp add: wfPath_def pathEnds_def)
  next
    case 2
    with i show ?thesis by (cases q rule: rev_cases) (auto simp: wfPath_def pathEnds_def)
  qed
qed simp_all

lemma fieldTargets_wf:
  "printableType t \<Longrightarrow> (\<And>q. wfPath q \<Longrightarrow> wfSelector (sel\<lparr>sel_Steps := q\<rparr>)) \<Longrightarrow>
   tg \<in> set (fieldTargets sel d p t) \<Longrightarrow> wfSelector (tg_Selector tg)"
  using fieldPaths_wf(1) by (fastforce simp: fieldTargets_def)

lemma wfSelector_roots:
  assumes "IsValidWireName n"
  shows "wfSelector (root k n)" "wfPath q \<Longrightarrow> k \<noteq> ProcedureSelector \<Longrightarrow> wfSelector ((root k n)\<lparr>sel_Steps := q\<rparr>)"
    and "IsValidWireName m \<Longrightarrow> wfSelector ((root ProcedureSelector n)\<lparr>sel_Param := m\<rparr>)"
    and "IsValidWireName m \<Longrightarrow> wfPath q \<Longrightarrow> wfSelector ((root ProcedureSelector n)\<lparr>sel_Param := m, sel_Steps := q\<rparr>)"
    and "wfPath q \<Longrightarrow> wfSelector ((root ProcedureSelector n)\<lparr>sel_Return := True, sel_Steps := q\<rparr>)"
  using assms by (simp_all add: wfSelector_def validWireName_ne)

lemma declTargets_wf:
  assumes "printableDecl d" "tg \<in> set (declTargets d)"
  shows "wfSelector (tg_Selector tg)"
proof (cases d)
  case (TypeDecl dd kw i t semi)
  with assms(1) have "IsValidWireName (id_name i)" "printableType t" by (auto intro: is_ident_wire)
  note wf = wfSelector_roots [OF this(1)] fieldTargets_wf [OF this(2), of "root TypeSelector (id_name i)" tg d None]
  from assms(2) show ?thesis unfolding TypeDecl using wf TypeDecl by (auto simp: Let_def)
next
  case (ExceptionDecl dd kw i ot semi)
  with assms(1) have n: "IsValidWireName (id_name i)" by (auto intro: is_ident_wire)
  consider "tg = rootTarget (root ExceptionSelector (id_name i)) d None"
    | t where "ot = Some t" "tg \<in> set (fieldTargets (root ExceptionSelector (id_name i)) d None t)"
    using ExceptionDecl assms(2) by (auto simp: Let_def split: if_splits option.splits)
  then show ?thesis
  proof cases
    case (2 t)
    with assms(1) ExceptionDecl have "printableType t" by simp
    from fieldTargets_wf [OF this _ 2(2)] wfSelector_roots(2) [OF n] show ?thesis by simp
  qed (simp add: wfSelector_roots [OF n])
next
  case (ProcDecl dd kw i lb ps rb res semi)
  with assms(1) have n: "IsValidWireName (id_name i)" by (auto intro: is_ident_wire)
  have params: "IsValidWireName (id_name (paramName p)) \<and> printableType (paramType p)" if "p \<in> set ps" for p
  proof -
    from that ProcDecl assms(1) have "printableParam p" by (simp add: list_all_iff)
    then show ?thesis by (cases p) (auto intro: is_ident_wire)
  qed
  consider (root) "tg = rootTarget (root ProcedureSelector (id_name i)) d None"
    | (param) p where "p \<in> set ps" "tg \<in> set (paramTargets d (id_name i) p)"
    | (return) t where "res = Some t" "tg \<in> set (fieldTargets ((root ProcedureSelector (id_name i))\<lparr>sel_Return := True\<rparr>) d None t)"
    using ProcDecl assms(2) by (auto simp: Let_def split: option.splits)
  then show ?thesis
  proof cases
    case root
    then show ?thesis by (simp add: wfSelector_roots [OF n])
  next
    case (param p)
    note ok = params [OF param(1)]
    note below = fieldTargets_wf [OF conjunct2 [OF ok], of "(root ProcedureSelector (id_name i))\<lparr>sel_Param := id_name (paramName p)\<rparr>"]
    show ?thesis using param(2) ok wfSelector_roots(3,4) [OF n, of "id_name (paramName p)"]
      by (auto simp: paramTargets_def Let_def intro: below)
  next
    case (return t)
    with ProcDecl assms(1) have "printableType t" by simp
    from fieldTargets_wf [OF this _ return(2)] wfSelector_roots(5) [OF n] show ?thesis by simp
  qed
qed

lemma resolve_decl:
  assumes "findDecl fl (sel_Name s) = Some d" "declaredName d = sel_Name s" "wfSelector s"
    and "distinct (declParams d)" "\<forall>t \<in> set (declTypes d). scopedType t" "printableDecl d"
  shows "ResolveSelector fl s = Inr tg \<longleftrightarrow> tg \<in> set (declTargets d) \<and> tg_Selector tg = s"
proof (cases "sel_Kind s = selectorKind d")
  case False
  then have "\<nexists>tg. ResolveSelector fl s = Inr tg"
    using assms(1)
    by (cases d; cases "sel_Kind s")
       (auto simp: ResolveSelector_def resolveType_def resolveException_def resolveProcedure_def)
  with False declTargets_root show ?thesis by metis
next
  case True
  show ?thesis
  proof (cases d)
    case (TypeDecl dd kw i t semi)
    with True assms show ?thesis
      by (intro trans [OF resolve_type]) (auto simp: declaredName_def)
  next
    case (ExceptionDecl dd kw i ot semi)
    moreover from this have "pred_option scopedType ot" using assms(5) by (cases ot) simp_all
    ultimately show ?thesis
      using resolve_exception [of fl s dd kw i ot semi tg] True assms by (simp add: declaredName_def)
  next
    case (ProcDecl dd kw i lb ps rb res semi)
    have "id_name (paramName p) \<noteq> []" if "p \<in> set ps" for p
    proof -
      from that ProcDecl assms(6) have "printableParam p" by (simp add: list_all_iff)
      then show ?thesis by (cases p) (auto simp: is_ident_def)
    qed
    moreover have "pred_option scopedType res" "\<forall>p \<in> set ps. scopedType (paramType p)"
      using ProcDecl assms(5) by (cases res; simp)+
    ultimately show ?thesis
      using resolve_procedure [of fl s dd kw i lb ps rb res semi tg] ProcDecl True assms by (simp add: declaredName_def)
  qed
qed

lemma resolve_parsed:
  assumes "Parse name src = Inr fl" "Validate fl = None" "wfSelector s"
  shows "ResolveSelector fl s = Inr tg \<longleftrightarrow>
    tg \<in> (\<Union>d \<in> set (fi_decls fl). set (declTargets d)) \<and> tg_Selector tg = s"
proof -
  from assms(2) validInterface_decls have ok: "distinct (map declaredName (fi_decls fl))"
    "\<And>d. d \<in> set (fi_decls fl) \<Longrightarrow> distinct (declParams d) \<and> (\<forall>t \<in> set (declTypes d). scopedType t)"
    by (auto simp: Validate_valid)
  have print: "printableDecl d" if "d \<in> set (fi_decls fl)" for d
    using parsed_printable [OF assms(1)] that by (simp add: list_all_iff)
  have found: "findDecl fl n = Some d \<longleftrightarrow> d \<in> set (fi_decls fl) \<and> declaredName d = n" for n d
    using find_unique [OF ok(1)] by (simp add: findDecl_def)
  show ?thesis
  proof (cases "findDecl fl (sel_Name s)")
    case None
    then have "\<nexists>tg. ResolveSelector fl s = Inr tg"
      by (cases "sel_Kind s")
         (auto simp: ResolveSelector_def resolveType_def resolveException_def resolveProcedure_def)
    moreover have "tg_Selector tg \<noteq> s" if "d \<in> set (fi_decls fl)" "tg \<in> set (declTargets d)" for d
      using declTargets_root [OF that(2)] found [of "sel_Name s" d] None that(1) by auto
    ultimately show ?thesis by blast
  next
    case (Some d)
    then have d: "d \<in> set (fi_decls fl)" "declaredName d = sel_Name s" using found by blast+
    have "d' = d" if "d' \<in> set (fi_decls fl)" "tg \<in> set (declTargets d')" "tg_Selector tg = s" for d'
      using declTargets_root [OF that(2)] found [of "sel_Name s" d'] Some that by simp
    then show ?thesis
      using resolve_decl [OF Some d(2) assms(3)] ok(2) [OF d(1)] print [OF d(1)] d(1) by blast
  qed
qed

text \<open>The file of the source \<open>type a list record{b int8;};\<close>.\<close>

definition sampleField :: Field where
  "sampleField = Field [] \<lparr>id_name = ''b'', id_span = Span 19 20\<rparr> (PrimType [] TokInt8 (Span 21 25)) (Span 25 26)"

definition sampleRecord :: TypeExpr where
  "sampleRecord = RecordType [] (Span 12 18) (Span 18 19) [sampleField] (Span 26 27)"

definition sampleDecl :: Decl where
  "sampleDecl = TypeDecl [] (Span 0 4) \<lparr>id_name = ''a'', id_span = Span 5 6\<rparr>
     (ListType [] (Span 7 11) sampleRecord) (Span 27 28)"

definition sampleInterface :: ifile where
  "sampleInterface = \<lparr>so_name = ''f'', so_size = 28, so_src = ''type a list record{b int8;};'', so_lines = [0],
     fi_decls = [sampleDecl], fi_comments = []\<rparr>"

definition sampleTarget :: Target where
  "sampleTarget = \<lparr>tg_Selector = (root TypeSelector ''a'')\<lparr>sel_Steps := [ElementStep, FieldStep ''b'']\<rparr>,
     tg_Decl = sampleDecl, tg_Param = None, tg_Field = Some sampleField, tg_Record = Some sampleRecord\<rparr>"

section \<open>Properties\<close>

text \<open>
  C26. Selectors are exactly their canonical texts: \<open>ParseSelector\<close> accepts a text with the
  result \<open>s\<close> exactly when \<open>s\<close> is well formed and the text is what \<open>s\<close> prints as, so no
  other spelling is accepted and no selector has two spellings.\<close>

theorem ParseSelector_canonical: "ParseSelector t = Inr s \<longleftrightarrow> wfSelector s \<and> t = selectorString s"
  using ParseSelector_print ParseSelector_parse by blast

text \<open>
  C27. In a parsed and validated interface, resolving the selector of any flag text finds a
  target exactly when it is the identifier of that selector in the list of all generated
  identifiers: declaration roots except fixed exceptions, parameters, and fields of inline
  records. Conversely every generated identifier has a flag text that resolves to it.\<close>

theorem ResolveSelector_exact:
  assumes "Parse name src = Inr fl" "Validate fl = None"
  shows "(ParseSelector t = Inr s \<longrightarrow> (ResolveSelector fl s = Inr tg \<longleftrightarrow>
        tg \<in> (\<Union>d \<in> set (fi_decls fl). set (declTargets d)) \<and> tg_Selector tg = s))
    \<and> (d \<in> set (fi_decls fl) \<and> tg \<in> set (declTargets d) \<longrightarrow>
        ParseSelector (selectorString (tg_Selector tg)) = Inr (tg_Selector tg)
        \<and> ResolveSelector fl (tg_Selector tg) = Inr tg)"
proof (intro conjI impI)
  assume "ParseSelector t = Inr s"
  then have "wfSelector s" using ParseSelector_parse by blast
  then show "ResolveSelector fl s = Inr tg \<longleftrightarrow>
        tg \<in> (\<Union>d \<in> set (fi_decls fl). set (declTargets d)) \<and> tg_Selector tg = s"
    by (rule resolve_parsed [OF assms])
next
  assume d: "d \<in> set (fi_decls fl) \<and> tg \<in> set (declTargets d)"
  then have wf: "wfSelector (tg_Selector tg)"
    using declTargets_wf parsed_printable [OF assms(1)] by (auto simp: list_all_iff)
  then show "ParseSelector (selectorString (tg_Selector tg)) = Inr (tg_Selector tg)"
    by (rule ParseSelector_print)
  show "ResolveSelector fl (tg_Selector tg) = Inr tg"
    using resolve_parsed [OF assms wf] d by blast
qed

lemma sampleInterface_parsed:
  "Parse ''f'' ''type a list record{b int8;};'' = Inr sampleInterface" "Validate sampleInterface = None"
  by code_simp+

theorem ResolveSelector_exact_witness:
  "ResolveSelector sampleInterface (tg_Selector sampleTarget) = Inr sampleTarget
   \<and> ParseSelector (selectorString (tg_Selector sampleTarget)) = Inr (tg_Selector sampleTarget)"
proof -
  have "sampleDecl \<in> set (fi_decls sampleInterface) \<and> sampleTarget \<in> set (declTargets sampleDecl)"
    by (simp add: sampleInterface_def sampleTarget_def sampleDecl_def sampleRecord_def sampleField_def
        rootTarget_def fieldTargets_def Let_def)
  then show ?thesis using ResolveSelector_exact sampleInterface_parsed by metis
qed

end
