(* ===== verification/Name_Projection.thy ===== *)
theory Name_Projection
  imports Go_Names
begin

text \<open>
  The two directions of the name projection fit together: the shape of canonical wire names,
  what their default projections are, and which of them the checked inverse recovers.
\<close>

section \<open>Bytes\<close>

lemma code_less: "code c < 256"
  by simp

lemma code_char_of: "n < 256 \<Longrightarrow> code (char_of n) = n"
  by simp

text \<open>The classes exclude each other.\<close>

lemma lower_upperE: "isLower c \<Longrightarrow> isUpper c \<Longrightarrow> P"
  and lower_digitE: "isLower c \<Longrightarrow> isDigit c \<Longrightarrow> P"
  and upper_digitE: "isUpper c \<Longrightarrow> isDigit c \<Longrightarrow> P"
  by (auto simp: isLower_def isUpper_def isDigit_def between_def)

lemmas class_disjoint = lower_upperE lower_digitE upper_digitE

lemma code_upperByte: "isLower c \<Longrightarrow> code (upperByte c) = code c - 0x20"
proof -
  assume "isLower c"
  then have "code c + 256 - 0x61 + 0x41 = 256 + (code c - 0x20)" "code c - 0x20 < 256"
    by (auto simp: isLower_def between_def)
  then show ?thesis by (simp only: upperByte_def of_char_of mod_add_self1 mod_less mod_mod_trivial)
qed

lemma upperByte_upper: "isLower c \<Longrightarrow> isUpper (upperByte c)"
  using code_upperByte [of c] by (auto simp: isLower_def isUpper_def between_def)

lemma lower_upperByte: "isLower c \<Longrightarrow> lowerByte (upperByte c) = c"
proof -
  assume c: "isLower c"
  then have r: "0x61 \<le> code c" "code c \<le> 0x7A" by (simp_all add: isLower_def between_def)
  note u = code_upperByte [OF c]
  have "code (lowerByte (upperByte c)) = code c"
    using r upperByte_upper [OF c] by (simp add: lowerByte_def u)
  then show ?thesis by simp
qed

lemma lowerByte_same: "\<not> isUpper c \<Longrightarrow> lowerByte c = c"
  by (simp add: lowerByte_def)

lemma wire_code: "isWireChar c \<Longrightarrow> code c < 0x80"
  by (auto simp: isWireChar_def isASCIILetter_def isLower_def isUpper_def isDigit_def between_def)

lemma word_wire: "isWordChar c \<Longrightarrow> isWireChar c"
  by (auto simp: isWordChar_def isWireChar_def isASCIILetter_def)

lemma underscore_class [simp]:
  "\<not> isLower CHR ''_''" "\<not> isUpper CHR ''_''" "\<not> isDigit CHR ''_''" "\<not> isWordChar CHR ''_''"
  by (simp_all add: isWordChar_def isLower_def isUpper_def isDigit_def between_def)

section \<open>Canonical names are their words\<close>

definition canonicalWord :: "string \<Rightarrow> bool" where
  "canonicalWord w \<longleftrightarrow> (case w of [] \<Rightarrow> False | c # rest \<Rightarrow> isLower c \<and> list_all isWordChar rest)"

lemma canonicalWord_chars: "canonicalWord w \<Longrightarrow> list_all isWordChar w"
  by (cases w) (auto simp: canonicalWord_def isWordChar_def)

lemma splitWords_ne [simp]: "splitWords s \<noteq> []"
  by (induction s) (auto split: list.splits)

lemma splitWords_word:
  "list_all isWordChar w \<Longrightarrow> splitWords (w @ s) = (w @ hd (splitWords s)) # tl (splitWords s)"
proof (induction w)
  case (Cons c w)
  then have "c \<noteq> CHR ''_''" by auto
  with Cons show ?case by simp
qed simp

lemma join_splitWords: "joinWords (splitWords s) = s"
proof (induction s)
  case (Cons c s)
  obtain w ws where "splitWords s = w # ws" by (cases "splitWords s") auto
  with Cons show ?case by (cases ws) auto
qed simp


lemma splitWords_underscore: "CHR ''_'' \<notin> set w \<Longrightarrow> splitWords w = [w]"
  by (induction w) auto

lemma takeDrop: "list_all p (takeWhile p s)"
  by (auto simp: list_all_iff dest: set_takeWhileD)

lemma canonicalLoop_words:
  "canonicalLoop s \<longleftrightarrow> s = [] \<or> (\<exists>rest. s = CHR ''_'' # rest \<and> list_all canonicalWord (splitWords rest))"
proof (induction s rule: canonicalLoop.induct)
  case (1 s)
  show ?case
  proof (cases s)
    case Nil
    then show ?thesis by (simp add: canonicalLoop.simps)
  next
    case s: (Cons c rest)
    show ?thesis
    proof (cases rest)
      case Nil
      then show ?thesis using s by (auto simp: canonicalLoop.simps canonicalWord_def)
    next
      case rest: (Cons d rest')
      let ?w = "takeWhile isWordChar rest'" and ?t = "dropWhile isWordChar rest'"
      have split: "splitWords rest = (d # ?w @ hd (splitWords ?t)) # tl (splitWords ?t)" if "isLower d"
        using splitWords_word [of "d # ?w" ?t] takeDrop [of isWordChar rest'] rest that
        by (simp add: isWordChar_def)
      have tail: "canonicalLoop ?t \<longleftrightarrow> list_all canonicalWord ((d # ?w @ hd (splitWords ?t)) # tl (splitWords ?t))"
        if c: "c = CHR ''_''" and d: "isLower d"
      proof (cases ?t)
        case Nil
        have "canonicalLoop []" by (simp add: canonicalLoop.simps)
        then show ?thesis unfolding Nil using d takeDrop [of isWordChar rest'] by (simp add: canonicalWord_def)
      next
        case t: (Cons e r)
        then have e: "\<not> isWordChar e" using hd_dropWhile [of isWordChar rest'] by simp
        obtain x xs where x: "splitWords r = x # xs" by (cases "splitWords r") auto
        have "canonicalLoop ?t \<longleftrightarrow> e = CHR ''_'' \<and> list_all canonicalWord (splitWords r)"
          using "1.IH" [OF s _ rest] c d t by auto
        then show ?thesis
          using t d e x takeDrop [of isWordChar rest'] by (auto simp: canonicalWord_def)
      qed
      have "canonicalLoop s \<longleftrightarrow> c = CHR ''_'' \<and> isLower d \<and> canonicalLoop ?t"
        using s rest by (subst canonicalLoop.simps) auto
      also have "\<dots> \<longleftrightarrow> c = CHR ''_'' \<and> list_all canonicalWord (splitWords rest)"
      proof (cases "c = CHR ''_'' \<and> isLower d")
        case True
        then show ?thesis using tail split by simp
      next
        case False
        have "\<not> canonicalWord (hd (splitWords rest))" if "\<not> isLower d"
          using that rest by (cases "splitWords rest'") (auto simp: canonicalWord_def)
        then have "\<not> list_all canonicalWord (splitWords rest)" if "\<not> isLower d"
          using that by (cases "splitWords rest") auto
        with False show ?thesis by blast
      qed
      finally show ?thesis using s by auto
    qed
  qed
qed

lemma IsCanonicalWireName_words: "IsCanonicalWireName w \<longleftrightarrow> list_all canonicalWord (splitWords w)"
proof (cases w)
  case Nil
  then show ?thesis by (simp add: IsCanonicalWireName_def canonicalWord_def)
next
  case (Cons c rest)
  have loop: "canonicalLoop (CHR ''_'' # w) \<longleftrightarrow> isLower c \<and> canonicalLoop (dropWhile isWordChar rest)"
    using Cons by (subst canonicalLoop.simps) auto
  then show ?thesis
    using canonicalLoop_words [of "CHR ''_'' # w"] Cons by (auto simp: IsCanonicalWireName_def)
qed

section \<open>Splitting a projected name\<close>

text \<open>
  \<open>splitsAt p c s\<close>: the loop starts a word at \<open>c\<close> between \<open>p\<close> and \<open>s\<close>; \<open>unsplit p s\<close>: it
  starts none inside \<open>s\<close>, provided that no lowercase letter follows.
\<close>

definition splitsAt :: "char \<Rightarrow> char \<Rightarrow> string \<Rightarrow> bool" where
  "splitsAt p c s \<longleftrightarrow> isUpper c \<and> (isLower p \<or> isDigit p
     \<or> isUpper p \<and> (case s of d # _ \<Rightarrow> isLower d | [] \<Rightarrow> False))"

fun unsplit :: "char \<Rightarrow> string \<Rightarrow> bool" where
  "unsplit p [] = True"
| "unsplit p (c # s) \<longleftrightarrow> \<not> splitsAt p c s \<and> unsplit c s"

fun segments :: "char \<Rightarrow> string list \<Rightarrow> bool" where
  "segments p [] = True"
| "segments p ([] # gs) = False"
| "segments p ((c # s) # gs) \<longleftrightarrow> splitsAt p c s \<and> unsplit c s \<and> segments (last (c # s)) gs"

definition noLowerStart :: "string \<Rightarrow> bool" where
  "noLowerStart s \<longleftrightarrow> (case s of d # _ \<Rightarrow> \<not> isLower d | [] \<Rightarrow> True)"

lemma segments_start: "segments p gs \<Longrightarrow> noLowerStart (concat gs)"
  by (cases "(p, gs)" rule: segments.cases) (auto simp: noLowerStart_def splitsAt_def elim: class_disjoint)

lemma splitsAt_append: "noLowerStart rest \<Longrightarrow> splitsAt p c (s @ rest) = splitsAt p c s"
  by (cases s) (auto simp: splitsAt_def noLowerStart_def split: list.splits)

lemma splitLoop_Cons:
  "splitLoop w p (c # s) = (if splitsAt p c s then w # splitLoop [c] c s else splitLoop (w @ [c]) c s)"
  by (simp add: splitsAt_def)

lemma splitLoop_unsplit:
  "unsplit p s \<Longrightarrow> noLowerStart rest \<Longrightarrow> splitLoop w p (s @ rest) = splitLoop (w @ s) (last (p # s)) rest"
  by (induction s arbitrary: w p) (simp_all add: splitLoop_Cons splitsAt_append del: splitLoop.simps(2))

lemma splitLoop_segments: "segments p gs \<Longrightarrow> splitLoop w p (concat gs) = w # gs"
proof (induction p gs arbitrary: w rule: segments.induct)
  case (3 p c s gs)
  then have start: "noLowerStart (concat gs)" using segments_start by auto
  have "splitLoop w p (concat ((c # s) # gs)) = w # splitLoop [c] c (s @ concat gs)"
    using 3 start by (simp add: splitLoop_Cons splitsAt_append del: splitLoop.simps(2))
  also have "\<dots> = w # (c # s) # gs"
    using 3 start by (simp add: splitLoop_unsplit del: splitLoop.simps(2))
  finally show ?case .
qed simp_all

lemma splitGoWords_segments:
  "unsplit c s \<Longrightarrow> segments (last (c # s)) gs \<Longrightarrow> splitGoWords (concat ((c # s) # gs)) = (c # s) # gs"
  using splitLoop_segments [of "last (c # s)" gs "c # s"] segments_start [of "last (c # s)" gs]
  by (simp add: splitGoWords_def splitLoop_unsplit del: splitLoop.simps(2))

section \<open>Words and their projections\<close>

text \<open>
  Names whose projection is recovered: every projected word is an initialism or has a
  lowercase second letter, and no two initialisms stand side by side.
\<close>

fun recoverable :: "bool \<Rightarrow> string list \<Rightarrow> bool" where
  "recoverable afterInitialism [] = True"
| "recoverable afterInitialism (w # ws) =
     (if isInitialism (upperASCII w) then \<not> afterInitialism \<and> recoverable True ws
      else (case w of _ # d # _ \<Rightarrow> isLower d | _ \<Rightarrow> False) \<and> recoverable False ws)"

definition recoverableName :: "Case \<Rightarrow> string \<Rightarrow> bool" where
  "recoverableName c wire \<longleftrightarrow>
     recoverable False (if c = CamelCase then tl (splitWords wire) else splitWords wire)"

lemma word_not_upper: "isWordChar c \<Longrightarrow> \<not> isUpper c"
  by (auto simp: isWordChar_def elim: class_disjoint)

lemma lower_upperASCII: "list_all isWordChar w \<Longrightarrow> lowerASCII (upperASCII w) = w"
  by (induction w) (simp_all add: lowerASCII_def upperASCII_def lower_upperByte word_not_upper lowerByte_same)

lemma unsplit_word: "list_all isWordChar s \<Longrightarrow> unsplit p s"
  by (induction s arbitrary: p) (simp_all add: splitsAt_def word_not_upper)

lemma lowerASCII_word: "list_all isWordChar s \<Longrightarrow> lowerASCII s = s"
  by (induction s) (simp_all add: lowerASCII_def word_not_upper lowerByte_same)

text \<open>The longest match of an initialism is itself.\<close>

definition longer :: "string \<Rightarrow> string \<Rightarrow> string \<Rightarrow> string" where
  "longer s best init = (if length best < length init \<and> hasPrefix s init then init else best)"

lemma foldl_longer:
  assumes "hasPrefix s best"
  shows "hasPrefix s (foldl (longer s) best is) \<and> length best \<le> length (foldl (longer s) best is) \<and>
    (\<forall>i \<in> set is. hasPrefix s i \<longrightarrow> length i \<le> length (foldl (longer s) best is))"
  using assms
proof (induction "is" arbitrary: best)
  case (Cons i "is")
  from Cons.prems have "hasPrefix s (longer s best i)" by (simp add: longer_def)
  from Cons.IH [OF this] show ?case by (auto simp: longer_def split: if_splits)
qed simp

lemma longestInitialism_self: "isInitialism i \<Longrightarrow> longestInitialism i = i"
proof -
  assume i: "isInitialism i"
  let ?b = "longestInitialism i"
  have "longestInitialism i = foldl (longer i) [] initialisms"
    by (simp add: longestInitialism_def longer_def [abs_def])
  then have "hasPrefix i ?b" "length i \<le> length ?b"
    using foldl_longer [of i "[]" initialisms] i by (auto simp: hasPrefix_def isInitialism_def)
  then show ?thesis by (simp add: hasPrefix_def)
qed

text \<open>Every fixed initialism is uppercase letters and digits, the first two letters.\<close>

definition goodInitialism :: "string \<Rightarrow> bool" where
  "goodInitialism i = (case i of c # d # s \<Rightarrow> isUpper c \<and> isUpper d \<and> unsplit c (d # s)
     \<and> list_all (\<lambda>b. isUpper b \<or> isDigit b) s | _ \<Rightarrow> False)"

lemma initialisms_good: "list_all goodInitialism initialisms"
  by (simp add: initialisms_def goodInitialism_def splitsAt_def isUpper_def isLower_def isDigit_def between_def)

lemma isInitialism_good: "isInitialism i \<Longrightarrow> goodInitialism i"
  using initialisms_good by (simp add: isInitialism_def list_all_iff)

lemma initialism_wire: "isInitialism i \<Longrightarrow> goWordToWire i = Inr [lowerASCII i]"
  using isInitialism_good [of i] longestInitialism_self [of i]
  by (auto simp: goodInitialism_def goWordToWire_def runLoop.simps elim: class_disjoint split: list.splits)

section \<open>Recovering a wire name\<close>

text \<open>The two shapes of a projected word.\<close>

lemma projectWord_cases:
  assumes "canonicalWord w" "isInitialism (upperASCII w) \<or> (case w of _ # d # _ \<Rightarrow> isLower d | _ \<Rightarrow> False)"
  obtains (initialism) c d s where "projectWord w = c # d # s" "isInitialism (upperASCII w)" "isUpper c" "isUpper d"
      "unsplit c (d # s)" "list_all (\<lambda>b. isUpper b \<or> isDigit b) (c # d # s)"
    | (plain) c d s where "projectWord w = upperByte c # d # s" "w = c # d # s" "isLower c" "isLower d" "list_all isWordChar s"
      "\<not> isInitialism (upperASCII w)"
proof (cases "isInitialism (upperASCII w)")
  case True
  with isInitialism_good [OF this] initialism show ?thesis
    by (auto simp: goodInitialism_def projectWord_def split: list.splits)
next
  case False
  with assms(2) obtain c d s where w: "w = c # d # s" "isLower d" by (auto split: list.splits)
  show ?thesis
  proof (rule plain)
    show "projectWord w = upperByte c # d # s" using False w by (simp add: projectWord_def)
  qed (use assms(1) False w in \<open>simp_all add: canonicalWord_def\<close>)
qed

lemma project_wire:
  assumes "canonicalWord w" "isInitialism (upperASCII w) \<or> (case w of _ # d # _ \<Rightarrow> isLower d | _ \<Rightarrow> False)"
  shows "goWordToWire (projectWord w) = Inr [w]"
  using assms
proof (cases rule: projectWord_cases)
  case initialism
  then have "projectWord w = upperASCII w" by (simp add: projectWord_def)
  with initialism_wire [OF initialism(2)] show ?thesis
    by (simp add: lower_upperASCII canonicalWord_chars [OF assms(1)])
next
  case (plain c d s)
  then have "\<not> isUpper d" "\<not> isDigit d" by (auto elim: class_disjoint)
  moreover have "lowerASCII (upperByte c # d # s) = w"
    using plain lowerASCII_word [of "d # s"] by (simp add: lowerASCII_def lower_upperByte isWordChar_def)
  ultimately show ?thesis using plain(1) by (simp add: goWordToWire_def)
qed

lemma recoverable_wire:
  "list_all canonicalWord ws \<Longrightarrow> recoverable b ws \<Longrightarrow> wireWords (map projectWord ws) = Inr ws"
  by (induction ws arbitrary: b) (auto simp: project_wire split: if_splits)

lemma recoverable_segments:
  "list_all canonicalWord ws \<Longrightarrow> recoverable b ws \<Longrightarrow> isWordChar p \<or> b \<and> isUpper p \<Longrightarrow>
   segments p (map projectWord ws)"
proof (induction ws arbitrary: b p)
  case (Cons w ws)
  then have ok: "isInitialism (upperASCII w) \<or> (case w of _ # d # _ \<Rightarrow> isLower d | _ \<Rightarrow> False)"
    by (auto split: if_splits)
  from Cons.prems(1) have w: "canonicalWord w" by simp
  from w ok show ?case
  proof (cases rule: projectWord_cases)
    case (initialism c d s)
    have "isWordChar (last (c # d # s)) \<or> isUpper (last (c # d # s))"
      using initialism(6) last_in_set [of "c # d # s"] by (auto simp: list_all_iff isWordChar_def)
    with Cons initialism have "segments (last (c # d # s)) (map projectWord ws)"
      by (intro Cons.IH [of True]) auto
    with Cons.prems initialism show ?thesis by (auto simp: splitsAt_def isWordChar_def)
  next
    case (plain c d s)
    have last: "isWordChar (last (d # s))"
      using plain last_in_set [of "d # s"] by (auto simp: list_all_iff isWordChar_def)
    with Cons plain(6) have "segments (last (d # s)) (map projectWord ws)"
      by (intro Cons.IH [of False]) auto
    moreover have "unsplit (upperByte c) (d # s)"
      using plain unsplit_word [of "d # s"] by (simp add: isWordChar_def)
    ultimately show ?thesis
      using Cons.prems(3) plain upperByte_upper [OF plain(3)] by (auto simp: splitsAt_def isWordChar_def)
  qed
qed simp

lemma splitGoWords_projectWords:
  assumes "list_all canonicalWord (w # ws)" "recoverable False (if c = CamelCase then ws else w # ws)"
  shows "splitGoWords (projectWords c (w # ws)) = (if c = CamelCase then w else projectWord w) # map projectWord ws"
proof (cases c)
  case PascalCase
  have "segments (CHR ''a'') (map projectWord (w # ws))"
    using assms PascalCase
    by (intro recoverable_segments) (auto simp: isWordChar_def isLower_def between_def)
  then obtain b s where "projectWord w = b # s" "unsplit b s" "segments (last (b # s)) (map projectWord ws)"
    by (cases "projectWord w") auto
  with PascalCase splitGoWords_segments [of b s] show ?thesis by (simp add: projectWords_def)
next
  case CamelCase
  obtain b s where w: "w = b # s" "isWordChar b" "list_all isWordChar s"
    using assms(1) canonicalWord_chars [of w] by (cases w) (auto simp: canonicalWord_def)
  then have "isWordChar (last (b # s))" using last_in_set [of "b # s"] by (auto simp: list_all_iff)
  then have "segments (last (b # s)) (map projectWord ws)"
    using assms CamelCase by (intro recoverable_segments) auto
  with CamelCase w splitGoWords_segments [of b s] show ?thesis by (simp add: projectWords_def unsplit_word)
qed

lemma wireWords_projectWords:
  assumes "list_all canonicalWord (w # ws)" "recoverable False (if c = CamelCase then ws else w # ws)"
  shows "wireWords ((if c = CamelCase then w else projectWord w) # map projectWord ws) = Inr (w # ws)"
proof (cases c)
  case PascalCase
  with assms recoverable_wire [of "w # ws" False] show ?thesis by simp
next
  case CamelCase
  obtain b s where w: "w = b # s" "isLower b" "list_all isWordChar (b # s)"
    using assms(1) canonicalWord_chars [of w] by (cases w) (auto simp: canonicalWord_def)
  then have "\<not> (isUpper b \<or> isDigit b)" by (auto elim: class_disjoint)
  then have "goWordToWire w = Inr [w]" using w lowerASCII_word [of w] by (simp add: goWordToWire_def)
  with CamelCase assms recoverable_wire [of ws False] show ?thesis by simp
qed

section \<open>Projected names as Go identifiers\<close>

definition isAlnum :: "char \<Rightarrow> bool" where
  "isAlnum c \<longleftrightarrow> isASCIILetter c \<or> isDigit c"

lemma alnum_wire: "isAlnum c \<Longrightarrow> isWireChar c"
  by (auto simp: isAlnum_def isWireChar_def)

lemma runes_ascii: "list_all (\<lambda>c. code c < 0x80) s \<Longrightarrow> runes s = map code s"
proof (induction s)
  case (Cons c s)
  then have "DecodeRune (c # s) = (code c, 1)" by (simp add: DecodeRune.simps)
  with Cons show ?case by (subst runes.simps) simp
qed (simp add: runes.simps)

lemma identLoop_ascii:
  assumes "asciiTables U" "list_all isWireChar s"
  shows "identLoop U False (map code s)"
  using assms(2)
proof (induction s)
  case (Cons c s)
  have "c = CHR ''_'' \<or> IsLetter U (code c) \<or> IsDigit U (code c)"
    using assms(1) Cons.prems wire_code [of c] by (auto simp: asciiTables_def isWireChar_def)
  with Cons show ?case by (auto simp: underscore_def)
qed simp

lemma IsValidGoIdentifier_ascii:
  assumes "asciiTables U" "isASCIILetter c" "list_all isWireChar s"
  shows "IsValidGoIdentifier U (c # s) \<longleftrightarrow> \<not> IsGoKeyword (c # s)"
proof -
  have c: "isWireChar c" "c \<noteq> CHR ''_''" using assms(2) by (auto simp: isWireChar_def isASCIILetter_def)
  have "list_all (\<lambda>c. code c < 0x80) (c # s)"
    using c(1) assms(3) wire_code by (auto simp: list_all_iff)
  then have r: "runes (c # s) = code c # map code s" by (simp add: runes_ascii)
  have "IsLetter U (code c)" using assms(1,2) wire_code [OF c(1)] by (simp add: asciiTables_def)
  then have "identLoop U True (runes (c # s))"
    using identLoop_ascii [OF assms(1,3)] r by simp
  then show ?thesis using c(2) by (simp add: IsValidGoIdentifier_def)
qed

lemma projectWord_start:
  assumes "canonicalWord w"
  obtains c s where "projectWord w = upperByte c # s" "isLower c"
proof -
  from assms obtain c s where w: "w = c # s" "isLower c" by (cases w) (auto simp: canonicalWord_def)
  then have "projectWord w = upperByte c # tl (projectWord w)" by (simp add: projectWord_def upperASCII_def)
  from that [OF this w(2)] show ?thesis .
qed

lemma projectWord_alnum:
  assumes "canonicalWord w"
  shows "list_all isAlnum (projectWord w)"
proof -
  note w = canonicalWord_chars [OF assms]
  have "isAlnum (if isLower c then upperByte c else c)" if "isWordChar c" for c
    using that upperByte_upper [of c] by (auto simp: isWordChar_def isAlnum_def isASCIILetter_def)
  with w have "list_all isAlnum (upperASCII w)" unfolding upperASCII_def list_all_iff set_map by blast
  moreover obtain c s where "w = c # s" "isLower c" using assms by (cases w) (auto simp: canonicalWord_def)
  ultimately show ?thesis
    using w upperByte_upper [of c]
    by (auto simp: projectWord_def isAlnum_def isASCIILetter_def isWordChar_def list_all_iff)
qed

lemma keywords_lower: "list_all (\<lambda>k. isLower (hd k)) goKeywords"
  by (simp add: goKeywords_def isLower_def between_def)

lemma WireToGo_words:
  assumes "WireToGo wire c = Inr g"
  obtains w ws where "splitWords wire = w # ws" "list_all canonicalWord (w # ws)" "g = projectWords c (w # ws)"
proof -
  from assms have "list_all canonicalWord (splitWords wire)" "g = projectWords c (splitWords wire)"
    by (auto simp: WireToGo_def IsCanonicalWireName_words split: if_splits)
  with that show ?thesis by (cases "splitWords wire") auto
qed

text \<open>Every default projection is a letter followed by letters and digits.\<close>

lemma projection_shape:
  assumes "WireToGo wire c = Inr g"
  obtains d s where "g = d # s" "isASCIILetter d" "list_all isAlnum s" "c = PascalCase \<longrightarrow> isUpper d"
proof -
  from assms obtain w ws where ws: "list_all canonicalWord (w # ws)" "g = projectWords c (w # ws)"
    by (rule WireToGo_words)
  have rest: "list_all isAlnum (concat (map projectWord ws))"
    using ws(1) projectWord_alnum by (fastforce simp: list_all_iff)
  show ?thesis
  proof (cases c)
    case PascalCase
    from ws(1) obtain e s where e: "projectWord w = upperByte e # s" "isLower e"
      by (auto elim: projectWord_start)
    show ?thesis
    proof (rule that)
      show "g = upperByte e # s @ concat (map projectWord ws)"
        using ws(2) e PascalCase by (simp add: projectWords_def)
    qed (use e ws rest projectWord_alnum [of w] upperByte_upper [of e] in \<open>auto simp: isASCIILetter_def\<close>)
  next
    case CamelCase
    from ws(1) canonicalWord_chars [of w] obtain e s where e: "w = e # s" "isLower e" "list_all isWordChar s"
      by (cases w) (auto simp: canonicalWord_def)
    show ?thesis
    proof (rule that)
      show "g = e # s @ concat (map projectWord ws)" using ws(2) e CamelCase by (simp add: projectWords_def)
      show "list_all isAlnum (s @ concat (map projectWord ws))"
        using e(3) rest by (auto simp: list_all_iff isAlnum_def isWordChar_def isASCIILetter_def)
    qed (use e CamelCase in \<open>simp_all add: isASCIILetter_def\<close>)
  qed
qed

lemma projection_valid:
  assumes "asciiTables U" "WireToGo wire c = Inr g"
  shows "IsValidGoIdentifier U g \<longleftrightarrow> \<not> IsGoKeyword g"
proof -
  from assms(2) obtain d s where g: "g = d # s" "isASCIILetter d" "list_all isAlnum s"
    by (rule projection_shape)
  then have "list_all isWireChar s" using alnum_wire by (auto simp: list_all_iff)
  with g show ?thesis by (simp add: IsValidGoIdentifier_ascii [OF assms(1)])
qed

section \<open>Mangled names\<close>

lemma hexDigit_wire: "isWireChar (hexDigit n)"
proof -
  have "list_all isWireChar ''0123456789abcdef''"
    by (simp add: isWireChar_def isASCIILetter_def isLower_def isUpper_def isDigit_def between_def)
  moreover have "n mod 16 < length ''0123456789abcdef''" by simp
  ultimately show ?thesis unfolding hexDigit_def list_all_length by blast
qed

lemma hexDigits_wire: "list_all isWireChar (hexDigits k n)"
  by (induction k arbitrary: n) (simp_all add: hexDigit_wire)

lemma length_hexDigits [simp]: "length (hexDigits k n) = k"
  by (induction k arbitrary: n) simp_all

lemma joinWords_wire: "list_all (list_all isWireChar) ws \<Longrightarrow> list_all isWireChar (joinWords ws)"
  by (induction ws rule: joinWords.induct) (auto simp: isWireChar_def)

text \<open>
  A mangled name is a usable identifier that is never exported and never the name of the
  semantic constant, whatever the parts are.
\<close>

lemma ManglePrivate_identifier:
  assumes "asciiTables U"
  shows "IsValidGoIdentifier U (ManglePrivate parts)"
    and "\<not> IsExportedGoIdentifier U (ManglePrivate parts)"
    and "ManglePrivate parts \<noteq> ''_intercallSemantic''"
proof -
  let ?rest = "''intercall'' @ joinWords (map (map mangleByte) parts) @ ''_'' @ hexDigits 16 (unat (fnv0 (joinNUL parts)))"
  have name: "ManglePrivate parts = CHR ''_'' # ?rest" by (simp add: ManglePrivate_def manglePrefix_def)
  have "list_all isWireChar (map mangleByte p)" for p
    by (auto simp: list_all_iff mangleByte_def isWireChar_def)
  then have "list_all isWireChar (joinWords (map (map mangleByte) parts))"
    by (intro joinWords_wire) (simp add: list_all_iff)
  then have w: "list_all isWireChar ?rest"
    using hexDigits_wire by (simp add: isWireChar_def isASCIILetter_def isLower_def between_def)
  then have "list_all (\<lambda>c. code c < 0x80) (CHR ''_'' # ?rest)"
    using wire_code by (auto simp: list_all_iff)
  then have "runes (CHR ''_'' # ?rest) = code CHR ''_'' # map code ?rest" by (simp only: runes_ascii list.map)
  moreover have "\<not> IsGoKeyword (CHR ''_'' # ?rest)"
    using keywords_lower underscore_class(1) unfolding IsGoKeyword_def list_all_iff by (metis list.sel(1))
  ultimately show valid: "IsValidGoIdentifier U (ManglePrivate parts)"
    using identLoop_ascii [OF assms w] by (simp add: name IsValidGoIdentifier_def underscore_def)
  have "IsUpper U (code CHR ''_'') = isUpper CHR ''_''"
    using assms [unfolded asciiTables_def, THEN spec, of "CHR ''_''"] by simp
  then show "\<not> IsExportedGoIdentifier U (ManglePrivate parts)"
    by (simp add: IsExportedGoIdentifier_def name DecodeRune.simps)
  have "18 < length (ManglePrivate parts)" by (simp add: name)
  then show "ManglePrivate parts \<noteq> ''_intercallSemantic''" by auto
qed

section \<open>Properties\<close>

text \<open>Tables that classify the ASCII letters and digits only.\<close>

definition asciiOnly :: unicode_tables where
  "asciiOnly = \<lparr>
     IsLetter = (\<lambda>n. 0x41 \<le> n \<and> n \<le> 0x5A \<or> 0x61 \<le> n \<and> n \<le> 0x7A),
     IsDigit = (\<lambda>n. 0x30 \<le> n \<and> n \<le> 0x39),
     IsUpper = (\<lambda>n. 0x41 \<le> n \<and> n \<le> 0x5A)\<rparr>"

lemma asciiOnly_tables: "asciiTables asciiOnly"
  by (auto simp: asciiTables_def asciiOnly_def isASCIILetter_def isUpper_def isLower_def isDigit_def between_def)


text \<open>
  C28. The checked inverse: a wire name \<open>GoToWire\<close> finds is canonical and projects back to
  the identifier, so no two identifiers of one case have the same wire name. It finds a
  canonical name under two conditions (\<open>recoverableName\<close>): the projection is not a Go keyword,
  and of its words (in camel case of those after the first) each is an initialism or has a
  lowercase letter as its second character, and no two initialisms stand side by side. So in
  Pascal case \<open>s3_bucket\<close>, \<open>v2\<close> and one-letter words are outside, and in camel case \<open>func\<close>.\<close>

theorem GoToWire_inverse:
  assumes "asciiTables U"
  shows "(GoToWire U g c = Inr wire \<longrightarrow> WireToGo wire c = Inr g)
    \<and> (WireToGo wire c = Inr g \<and> recoverableName c wire \<and> \<not> IsGoKeyword g \<longrightarrow> GoToWire U g c = Inr wire)"
proof (intro conjI impI)
  assume "GoToWire U g c = Inr wire"
  then show "WireToGo wire c = Inr g"
    by (auto simp: GoToWire_def Let_def split: if_splits sum.splits)
next
  assume a: "WireToGo wire c = Inr g \<and> recoverableName c wire \<and> \<not> IsGoKeyword g"
  then obtain w ws where ws: "splitWords wire = w # ws" "list_all canonicalWord (w # ws)" "g = projectWords c (w # ws)"
    using WireToGo_words by metis
  from a obtain d s where g: "g = d # s" "isASCIILetter d" "list_all isAlnum s"
    using projection_shape by metis
  have "isASCIIIdentifier g" "CHR ''_'' \<notin> set g"
    using g alnum_wire by (auto simp: isASCIIIdentifier_def list_all_iff isAlnum_def isASCIILetter_def)
  moreover have r: "recoverable False (if c = CamelCase then ws else w # ws)"
    using a ws(1) by (auto simp: recoverableName_def split: if_splits)
  moreover have "IsValidGoIdentifier U g" using projection_valid [OF assms] a by blast
  moreover have "joinWords (w # ws) = wire" using ws(1) join_splitWords by metis
  ultimately show "GoToWire U g c = Inr wire"
    using a ws(3) splitGoWords_projectWords [OF ws(2) r] wireWords_projectWords [OF ws(2) r]
    by (simp add: GoToWire_def)
qed


theorem GoToWire_inverse_witness:
  "GoToWire asciiOnly ''GetUserID'' PascalCase = Inr ''get_user_id''
   \<and> WireToGo ''get_user_id'' PascalCase = Inr ''GetUserID''"
proof -
  have w: "WireToGo ''get_user_id'' PascalCase = Inr ''GetUserID''"
    by (simp add: WireToGo_def IsCanonicalWireName_words canonicalWord_def isWordChar_def isLower_def between_def
        projectWords_def projectWord_def isInitialism_def initialisms_def upperASCII_def upperByte_def char_of_def bit_iff_odd)
  moreover have "recoverableName PascalCase ''get_user_id''" "\<not> IsGoKeyword ''GetUserID''"
    by (simp_all add: recoverableName_def isInitialism_def initialisms_def upperASCII_def upperByte_def char_of_def bit_iff_odd isLower_def
        between_def IsGoKeyword_def goKeywords_def)
  ultimately show ?thesis using GoToWire_inverse [OF asciiOnly_tables] by blast
qed

end
