(* ===== verification/Override_Names.thy ===== *)
theory Override_Names
  imports Overrides Selector_Resolution Name_Projection "HOL-Library.Sublist"
begin

text \<open>
  The table \<open>ProjectNames\<close> returns: every generated identifier gets its override or its default
  projection, every name is usable where it is emitted, and no scope has a collision. The nodes
  of a parsed file are told apart by the spans of their names.
\<close>

section \<open>Nodes of a parsed file\<close>

fun fieldsOf :: "TypeExpr \<Rightarrow> Field list" and belowField :: "Field \<Rightarrow> Field list" where
  "fieldsOf (PrimType d k sp) = []"
| "fieldsOf (NamedType d i) = []"
| "fieldsOf (ListType d ls t) = fieldsOf t"
| "fieldsOf (RecordType d rs lb fs rb) = concat (map belowField fs)"
| "belowField (Field d i t semi) = Field d i t semi # fieldsOf t"

lemma belowField_type: "belowField f = f # fieldsOf (fieldType f)"
  by (cases f) simp

lemma fieldPaths_fields:
  "map (\<lambda>(p, f, r). f) (fieldPaths t) = fieldsOf t"
  "map (\<lambda>(p, f, r). f) (recordPaths rec f) = belowField f"
  by (induction t and rec f rule: fieldPaths_recordPaths.induct)
    (simp_all add: comp_def case_prod_unfold map_concat cong: map_cong)

definition resultFields :: "TypeExpr option \<Rightarrow> Field list" where
  "resultFields ot = (case ot of None \<Rightarrow> [] | Some t \<Rightarrow> fieldsOf t)"

definition paramNodes :: "Param \<Rightarrow> span list" where
  "paramNodes p = paramNode p # map fieldNode (fieldsOf (paramType p))"

text \<open>The nodes of a declaration in source order.\<close>

fun declNodes :: "Decl \<Rightarrow> span list" where
  "declNodes (TypeDecl dd kw i t semi) = id_span i # map fieldNode (fieldsOf t)"
| "declNodes (ExceptionDecl dd kw i ot semi) = id_span i # map fieldNode (resultFields ot)"
| "declNodes (ProcDecl dd kw i lb ps rb res semi) =
     id_span i # concat (map paramNodes ps) @ map fieldNode (resultFields res)"

lemma subseq_concat: "(\<And>x. x \<in> set xs \<Longrightarrow> subseq (f x) (g x)) \<Longrightarrow> subseq (concat (map f xs)) (concat (map g xs))"
  by (induction xs) (auto intro: list_emb_append_mono)

lemma field_nodes_toks:
  "subseq (map fieldNode (fieldsOf t)) (map tk_span (type_toks t))"
  "subseq (map fieldNode (belowField f)) (map tk_span (field_toks f))"
proof (induction t and f rule: type_toks_field_toks.induct)
  case (4 d rs lb fs rb)
  then have "subseq (concat (map (\<lambda>f. map fieldNode (belowField f)) fs)) (concat (map (\<lambda>f. map tk_span (field_toks f)) fs))"
    by (intro subseq_concat) auto
  then show ?case by (auto simp: map_concat comp_def intro!: subseq_rev_drop_many)
next
  case (5 d i t semi)
  then show ?case by (auto simp: fieldNode_def intro: subseq_rev_drop_many)
qed auto

lemma result_nodes_toks: "subseq (map fieldNode (resultFields ot)) (map tk_span (opt_toks ot))"
  using field_nodes_toks(1) by (cases ot) (auto simp: resultFields_def opt_toks_def)

lemma param_nodes_toks: "subseq (paramNodes p) (map tk_span (param_toks p))"
proof (cases p)
  case (Param d i t semi)
  with field_nodes_toks(1) [of t] show ?thesis
    by (auto simp: paramNodes_def paramNode_def intro: subseq_rev_drop_many)
qed

lemma decl_nodes_toks: "subseq (declNodes d) (map tk_span (decl_toks d))"
proof (cases d)
  case (TypeDecl dd kw i t semi)
  with field_nodes_toks(1) [of t] show ?thesis by (auto intro!: list_emb_Cons subseq_rev_drop_many)
next
  case (ExceptionDecl dd kw i ot semi)
  with result_nodes_toks [of ot] show ?thesis by (auto intro!: list_emb_Cons subseq_rev_drop_many)
next
  case (ProcDecl dd kw i lb ps rb res semi)
  have "subseq (concat (map paramNodes ps)) (concat (map (\<lambda>p. map tk_span (param_toks p)) ps))"
    by (rule subseq_concat) (rule param_nodes_toks)
  moreover have "subseq (map fieldNode (resultFields res)) (tk_span (tok_of TokRBrace rb) # map tk_span (opt_toks res) @ [semi])"
    using result_nodes_toks [of res] by (auto intro!: list_emb_Cons subseq_rev_drop_many)
  ultimately show ?thesis using ProcDecl
    by (auto simp: map_concat comp_def intro!: list_emb_Cons list_emb_append_mono)
qed

lemma laid_out_after: "laid_out off s ts rest \<Longrightarrow> t \<in> set ts \<Longrightarrow> off \<le> sp_start (tk_span t)"
proof (induction off s ts rest rule: laid_out.induct)
  case (2 off s u ts rest)
  from "2.prems"(1) obtain sp s' where l: "list_all isSpace sp \<and> s = sp @ lexeme u @ s'
      \<and> tk_span u = Span (off + length sp) (off + length sp + length (lexeme u))
      \<and> laid_out (off + length sp + length (lexeme u)) s' ts rest" by auto
  show ?case
  proof (cases "t = u")
    case False
    with "2.prems"(2) have "t \<in> set ts" by simp
    with "2.IH" l have "off + length sp + length (lexeme u) \<le> sp_start (tk_span t)" by blast
    then show ?thesis by simp
  qed (use l in simp)
qed simp

lemma laid_out_distinct:
  "laid_out off s ts rest \<Longrightarrow> list_all (\<lambda>t. lexeme t \<noteq> []) ts \<Longrightarrow> distinct (map tk_span ts)"
proof (induction off s ts rest rule: laid_out.induct)
  case (2 off s u ts rest)
  from "2.prems"(1) obtain sp s' where l: "list_all isSpace sp \<and> s = sp @ lexeme u @ s'
      \<and> tk_span u = Span (off + length sp) (off + length sp + length (lexeme u))
      \<and> laid_out (off + length sp + length (lexeme u)) s' ts rest" by auto
  with "2.IH" "2.prems"(2) have "distinct (map tk_span ts)" by auto
  moreover have "tk_span u \<noteq> tk_span t" if "t \<in> set ts" for t
  proof
    assume eq: "tk_span u = tk_span t"
    from l laid_out_after [OF _ that] have "off + length sp + length (lexeme u) \<le> sp_start (tk_span t)" by blast
    moreover from l have "sp_start (tk_span u) = off + length sp" by simp
    moreover from "2.prems"(2) have "0 < length (lexeme u)" by simp
    ultimately show False unfolding eq by linarith
  qed
  ultimately show ?case by auto
qed simp

lemma subseq_distinct: "subseq xs ys \<Longrightarrow> distinct ys \<Longrightarrow> distinct xs"
  by (auto simp: subseq_conv_nths intro: distinct_nthsI)

lemma wf_lexeme: "wf_token t \<Longrightarrow> tk_kind t \<noteq> TokEOF \<Longrightarrow> lexeme t \<noteq> []"
  by (cases "tk_kind t") (auto simp: wf_token_def lexeme_def is_ident_def kindString_def tokenLiterals_def)

lemma parsed_nodes:
  assumes "Parse name src = Inr fl"
  shows "distinct (concat (map declNodes (fi_decls fl)))"
proof -
  have toks: "codeTokens name src = concat (map decl_toks (fi_decls fl))"
    using assms by (simp add: Parse_grammar)
  obtain ts e where run: "scanAll (NewFile name src) NewScanner = (ts, e)" by fastforce
  have start: "in_range (NewFile name src) NewScanner" by (simp add: in_range_def NewScanner_def)
  from scanAll_laid_out [OF start run] obtain rest where
    l: "laid_out 0 src ts rest" "list_all wf_token ts" "list_all (\<lambda>t. tk_kind t \<noteq> TokEOF) ts"
    by (auto simp: NewScanner_def rest_of_def NewFile_def)
  have "distinct (map tk_span ts)"
    by (rule laid_out_distinct [OF l(1)]) (use l(2,3) wf_lexeme in \<open>auto simp: list_all_iff\<close>)
  then have "distinct (map tk_span (concat (map decl_toks (fi_decls fl))))"
    unfolding toks [symmetric] codeTokens_def run by (simp add: distinct_map_filter)
  moreover have "subseq (concat (map declNodes (fi_decls fl))) (map tk_span (concat (map decl_toks (fi_decls fl))))"
    unfolding map_concat map_map comp_def by (rule subseq_concat) (rule decl_nodes_toks)
  ultimately show ?thesis by (rule subseq_distinct [rotated])
qed

section \<open>What the walk assigns\<close>

text \<open>The name a node gets, without the diagnostics.\<close>

definition goName :: "unicode_tables \<Rightarrow> string option \<Rightarrow> bool \<Rightarrow> string \<Rightarrow> Case \<Rightarrow> string option" where
  "goName U override isParam wire c =
     (case (case override of Some (ch # rest) \<Rightarrow> Some (ch # rest)
              | _ \<Rightarrow> (case WireToGo wire c of Inl e \<Rightarrow> None | Inr g \<Rightarrow> Some g)) of
        None \<Rightarrow> None
      | Some g \<Rightarrow> if IsValidGoIdentifier U g \<and> (isParam \<or> IsExportedGoIdentifier U g) then Some g else None)"

lemma nodeName_goName: "nodeName U override isParam what wire c = Inr name \<longleftrightarrow> goName U override isParam wire c = Some name"
  by (auto simp: nodeName_def goName_def split: option.splits sum.splits list.splits if_splits)

definition goField :: "unicode_tables \<Rightarrow> Names \<Rightarrow> Field \<Rightarrow> string option" where
  "goField U by f = goName U (nm_Field by (fieldNode f)) False (id_name (fieldName f)) PascalCase"

definition goParam :: "unicode_tables \<Rightarrow> Names \<Rightarrow> Param \<Rightarrow> string option" where
  "goParam U by p = goName U (nm_Param by (paramNode p)) True (id_name (paramName p)) CamelCase"

definition goDecl :: "unicode_tables \<Rightarrow> Names \<Rightarrow> Decl \<Rightarrow> string option" where
  "goDecl U by d = goName U (nm_Decl by (declNode d)) False (declaredName d) PascalCase"

text \<open>The three tables as one table of targets.\<close>

definition nameAt :: "Names \<Rightarrow> Target \<Rightarrow> string option" where
  "nameAt n tg = (case tg_Field tg of Some f \<Rightarrow> nm_Field n (fieldNode f)
      | None \<Rightarrow> (case tg_Param tg of Some p \<Rightarrow> nm_Param n (paramNode p) | None \<Rightarrow> nm_Decl n (declNode (tg_Decl tg))))"

definition targetNode :: "Target \<Rightarrow> span" where
  "targetNode tg = (case tg_Field tg of Some f \<Rightarrow> fieldNode f
      | None \<Rightarrow> (case tg_Param tg of Some p \<Rightarrow> paramNode p | None \<Rightarrow> declNode (tg_Decl tg)))"

definition goTarget :: "unicode_tables \<Rightarrow> Names \<Rightarrow> Target \<Rightarrow> string option" where
  "goTarget U by tg = (case tg_Field tg of Some f \<Rightarrow> goField U by f
      | None \<Rightarrow> (case tg_Param tg of Some p \<Rightarrow> goParam U by p | None \<Rightarrow> goDecl U by (tg_Decl tg)))"

definition assignTarget :: "unicode_tables \<Rightarrow> Names \<Rightarrow> Names \<Rightarrow> Target \<Rightarrow> Names" where
  "assignTarget U by n tg = assignOverride tg (the (goTarget U by tg)) n"

definition setField :: "unicode_tables \<Rightarrow> Names \<Rightarrow> Names \<Rightarrow> Field \<Rightarrow> Names" where
  "setField U by n f = n\<lparr>nm_Field := (nm_Field n)(fieldNode f \<mapsto> the (goField U by f))\<rparr>"

text \<open>No record of a type has two fields of one Go name.\<close>

fun fieldsApart :: "(Field \<Rightarrow> string option) \<Rightarrow> TypeExpr \<Rightarrow> bool"
and belowApart :: "(Field \<Rightarrow> string option) \<Rightarrow> Field \<Rightarrow> bool" where
  "fieldsApart g (PrimType d k sp) = True"
| "fieldsApart g (NamedType d i) = True"
| "fieldsApart g (ListType d ls t) = fieldsApart g t"
| "fieldsApart g (RecordType d rs lb fs rb) = (distinct (map g fs) \<and> list_all (belowApart g) fs)"
| "belowApart g (Field d i t semi) = fieldsApart g t"

lemma belowApart_type: "belowApart g f = fieldsApart g (fieldType f)"
  by (cases f) simp

lemma walk_names:
  "walkType U by w t n = Inr n' \<Longrightarrow> n' = foldl (setField U by) n (fieldsOf t)
     \<and> (\<forall>f \<in> set (fieldsOf t). goField U by f \<noteq> None) \<and> fieldsApart (goField U by) t"
  "walkFields U by w seen fs n = Inr n' \<Longrightarrow> n' = foldl (setField U by) n (concat (map belowField fs))
     \<and> (\<forall>f \<in> set (concat (map belowField fs)). goField U by f \<noteq> None)
     \<and> distinct (map (goField U by) fs) \<and> list_all (belowApart (goField U by)) fs
     \<and> (\<forall>f \<in> set fs. \<forall>name. goField U by f = Some name \<longrightarrow> seen name = None)"
proof (induction U "by" w t n and U "by" w seen fs n arbitrary: n' and n' rule: walkType_walkFields.induct)
  case (6 U tab w seen f fs n)
  from "6.prems" obtain name n1 where
    name: "nodeName U (nm_Field tab (fieldNode f)) False (fieldWhere f w) (id_name (fieldName f)) PascalCase = Inr name"
    and seen: "seen name = None"
    and type: "walkType U tab (fieldWhere f w) (fieldType f) (n\<lparr>nm_Field := (nm_Field n)(fieldNode f \<mapsto> name)\<rparr>) = Inr n1"
    and rest: "walkFields U tab w (seen(name \<mapsto> f)) fs n1 = Inr n'"
    by (auto split: sum.splits option.splits)
  from name have go: "goField U tab f = Some name" by (simp add: nodeName_goName goField_def)
  from "6.IH"(1) [OF name seen type] "6.IH"(2) [OF name seen type rest] go seen
  show ?case by (auto simp: setField_def belowField_type belowApart_type split: if_splits)
qed auto

lemma foldl_comm: "foldl f (foldl f a xs) ys = foldl f a (xs @ ys)"
  by simp

lemma fieldTargets_assign: "foldl (assignTarget U by) n (fieldTargets sel d p t) = foldl (setField U by) n (fieldsOf t)"
proof -
  have "assignTarget U by n \<lparr>tg_Selector = s, tg_Decl = d, tg_Param = p, tg_Field = Some f, tg_Record = r\<rparr> = setField U by n f"
    for n s f r
    by (simp add: assignTarget_def setField_def assignOverride_def goTarget_def)
  then show ?thesis
    by (simp add: fieldTargets_def fieldPaths_fields(1) [symmetric] foldl_map case_prod_unfold)
qed

lemma fieldTargets_fields: "tg \<in> set (fieldTargets sel d p t) \<Longrightarrow> \<exists>f \<in> set (fieldsOf t). tg_Field tg = Some f"
  by (force simp: fieldTargets_def fieldPaths_fields(1) [symmetric])

lemma fieldTargets_named:
  assumes "\<forall>f \<in> set (fieldsOf t). goField U by f \<noteq> None" "tg \<in> set (fieldTargets sel d p t)"
  shows "goTarget U by tg \<noteq> None"
  using assms(1) fieldTargets_fields [OF assms(2)] by (auto simp: goTarget_def)

lemma walkType_targets:
  assumes "walkType U by w t n = Inr n'"
  shows "n' = foldl (assignTarget U by) n (fieldTargets sel d p t)
    \<and> (\<forall>tg \<in> set (fieldTargets sel d p t). goTarget U by tg \<noteq> None) \<and> fieldsApart (goField U by) t"
  using walk_names(1) [OF assms] fieldTargets_named [of t U "by"] by (auto simp: fieldTargets_assign)

lemma walkParams_targets:
  "walkParams U by proc seen ps n = Inr n' \<Longrightarrow>
   n' = foldl (assignTarget U by) n (concat (map (paramTargets d name) ps))
   \<and> (\<forall>tg \<in> set (concat (map (paramTargets d name) ps)). goTarget U by tg \<noteq> None)
   \<and> distinct (map (goParam U by) ps) \<and> (\<forall>p \<in> set ps. fieldsApart (goField U by) (paramType p))
   \<and> (\<forall>p \<in> set ps. \<forall>g. goParam U by p = Some g \<longrightarrow> seen g = None)"
proof (induction U "by" proc seen ps n rule: walkParams.induct)
  case (2 U tab proc seen p ps n)
  from "2.prems" obtain g n1 where
    go: "nodeName U (nm_Param tab (paramNode p)) True (paramWhere proc p) (id_name (paramName p)) CamelCase = Inr g"
    and seen: "seen g = None"
    and type: "walkType U tab (paramWhere proc p) (paramType p) (n\<lparr>nm_Param := (nm_Param n)(paramNode p \<mapsto> g)\<rparr>) = Inr n1"
    and rest: "walkParams U tab proc (seen(g \<mapsto> p)) ps n1 = Inr n'"
    by (auto split: sum.splits option.splits)
  let ?sel = "(root ProcedureSelector name)\<lparr>sel_Param := id_name (paramName p)\<rparr>"
  from go have named: "goParam U tab p = Some g" by (simp add: nodeName_goName goParam_def)
  then have first: "assignTarget U tab n (rootTarget ?sel d (Some p)) = n\<lparr>nm_Param := (nm_Param n)(paramNode p \<mapsto> g)\<rparr>"
    "goTarget U tab (rootTarget ?sel d (Some p)) = Some g"
    by (simp_all add: assignTarget_def assignOverride_def goTarget_def rootTarget_def)
  note below = walkType_targets [OF type, of ?sel d "Some p"]
  note after = "2.IH" [OF go seen type rest]
  have p: "paramTargets d name p = rootTarget ?sel d (Some p) # fieldTargets ?sel d (Some p) (paramType p)"
    by (simp add: paramTargets_def Let_def)
  have "n' = foldl (assignTarget U tab) n (concat (map (paramTargets d name) (p # ps)))"
    using first below after by (simp add: p)
  moreover have "\<forall>tg \<in> set (concat (map (paramTargets d name) (p # ps))). goTarget U tab tg \<noteq> None"
    using first below after by (auto simp: p)
  moreover have "distinct (map (goParam U tab) (p # ps))"
    using after named by (force split: if_splits)
  ultimately show ?case using below after named seen by (auto split: if_splits)
qed auto

definition paramsOf :: "Decl \<Rightarrow> Param list" where
  "paramsOf d = (case d of ProcDecl dd kw i lb ps rb res semi \<Rightarrow> ps | _ \<Rightarrow> [])"

text \<open>Every identifier of a declaration has a name, and its records and parameters are apart.\<close>

definition declNamed :: "unicode_tables \<Rightarrow> Names \<Rightarrow> Decl \<Rightarrow> bool" where
  "declNamed U by d \<longleftrightarrow> (\<forall>tg \<in> set (declTargets d). goTarget U by tg \<noteq> None) \<and> distinct (map (goParam U by) (paramsOf d))
     \<and> (declTargets d \<noteq> [] \<longrightarrow> (\<forall>t \<in> set (declTypes d). fieldsApart (goField U by) t))"

lemma nameDecl_target:
  "nameDecl U by d n = Inr n' \<Longrightarrow>
   n' = assignTarget U by n (rootTarget sel d None) \<and> goTarget U by (rootTarget sel d None) \<noteq> None"
  by (auto simp: nameDecl_def assignTarget_def assignOverride_def goTarget_def rootTarget_def nodeName_goName goDecl_def
      split: sum.splits)

lemma projectDecl_targets:
  assumes "projectDecl U by d n = Inr n'"
  shows "n' = foldl (assignTarget U by) n (declTargets d) \<and> declNamed U by d"
proof (cases d)
  case (TypeDecl dd kw i t semi)
  with assms obtain n1 where "nameDecl U by d n = Inr n1"
    "walkType U by (''the underlying type of type '' @ quoted (id_name i)) t n1 = Inr n'"
    by (auto split: sum.splits)
  with nameDecl_target [of U "by" d n n1 "root TypeSelector (id_name i)"]
    walkType_targets [of U "by" _ t n1 n' "root TypeSelector (id_name i)" d None] TypeDecl
  show ?thesis by (auto simp: Let_def declNamed_def paramsOf_def)
next
  case (ExceptionDecl dd kw i ot semi)
  show ?thesis
  proof (cases "IsFixedRuntimeException (id_name i)")
    case True
    with ExceptionDecl assms show ?thesis by (simp add: declNamed_def paramsOf_def)
  next
    case False
    let ?sel = "root ExceptionSelector (id_name i)"
    from False ExceptionDecl assms obtain n1 where first: "nameDecl U by d n = Inr n1"
      and rest: "(case ot of None \<Rightarrow> Inr n1
          | Some t \<Rightarrow> walkType U by (''the payload of exception '' @ quoted (id_name i)) t n1) = Inr n'"
      by (auto split: sum.splits)
    show ?thesis
    proof (cases ot)
      case None
      with nameDecl_target [OF first, of ?sel] rest False ExceptionDecl show ?thesis
        by (auto simp: Let_def declNamed_def paramsOf_def)
    next
      case (Some t)
      with rest have "walkType U by (''the payload of exception '' @ quoted (id_name i)) t n1 = Inr n'" by simp
      from walkType_targets [OF this, of ?sel d None] nameDecl_target [OF first, of ?sel] Some False ExceptionDecl
      show ?thesis by (auto simp: Let_def declNamed_def paramsOf_def)
    qed
  qed
next
  case (ProcDecl dd kw i lb ps rb res semi)
  let ?sel = "root ProcedureSelector (id_name i)"
  from ProcDecl assms obtain n1 n2 where first: "nameDecl U by d n = Inr n1"
    and params: "walkParams U by (id_name i) (\<lambda>_. None) ps n1 = Inr n2"
    and rest: "(case res of None \<Rightarrow> Inr n2
        | Some t \<Rightarrow> walkType U by (''the return value of procedure '' @ quoted (id_name i)) t n2) = Inr n'"
    by (auto split: sum.splits)
  note start = nameDecl_target [OF first, of ?sel] walkParams_targets [OF params, of d "id_name i"]
  show ?thesis
  proof (cases res)
    case None
    with start rest ProcDecl show ?thesis by (auto simp: Let_def declNamed_def paramsOf_def)
  next
    case (Some t)
    with rest have "walkType U by (''the return value of procedure '' @ quoted (id_name i)) t n2 = Inr n'" by simp
    from walkType_targets [OF this, of "?sel\<lparr>sel_Return := True\<rparr>" d None] start Some ProcDecl
    show ?thesis by (auto simp: Let_def declNamed_def paramsOf_def)
  qed
qed

lemma projectDecls_targets:
  "projectDecls U by ds n = Inr n' \<Longrightarrow>
   n' = foldl (assignTarget U by) n (concat (map declTargets ds)) \<and> list_all (declNamed U by) ds"
proof (induction ds arbitrary: n)
  case (Cons d ds)
  from Cons.prems obtain n1 where "projectDecl U by d n = Inr n1" "projectDecls U by ds n1 = Inr n'"
    by (auto split: sum.splits)
  with projectDecl_targets [of U "by" d n n1] Cons.IH [of n1] show ?case by simp
qed simp

section \<open>Targets and their nodes\<close>

definition generated :: "'a ifile_scheme \<Rightarrow> Target list" where
  "generated fl = concat (map declTargets (fi_decls fl))"

lemma fieldTargets_nodes: "map targetNode (fieldTargets sel d p t) = map fieldNode (fieldsOf t)"
  by (simp add: fieldTargets_def fieldPaths_fields(1) [symmetric] targetNode_def case_prod_unfold)

lemma rootTarget_node: "targetNode (rootTarget sel d p) = (case p of None \<Rightarrow> declNode d | Some p \<Rightarrow> paramNode p)"
  by (simp add: rootTarget_def targetNode_def split: option.split)

lemma paramTargets_nodes: "map targetNode (paramTargets d name p) = paramNodes p"
  by (simp add: paramTargets_def Let_def rootTarget_node fieldTargets_nodes paramNodes_def)

lemma declTargets_nodes: "subseq (map targetNode (declTargets d)) (declNodes d)"
  by (cases d rule: declTargets.cases)
     (auto simp: Let_def rootTarget_node fieldTargets_nodes paramTargets_nodes declNode_def resultFields_def
        map_concat comp_def split: option.splits)

lemma generated_nodes:
  assumes "Parse name src = Inr fl"
  shows "distinct (map targetNode (generated fl))"
  unfolding generated_def map_concat map_map comp_def
  by (rule subseq_distinct [OF subseq_concat parsed_nodes [OF assms]]) (rule declTargets_nodes)

lemma nameAt_assign:
  "nameAt (assignOverride tg name n) tg = Some name"
  "targetNode t \<noteq> targetNode tg \<Longrightarrow> nameAt (assignOverride t name n) tg = nameAt n tg"
  by (auto simp: nameAt_def assignOverride_def targetNode_def split: option.splits)

lemma nameAt_assignAll:
  "targetNode tg \<notin> targetNode ` set tgs \<Longrightarrow> nameAt (foldl (assignTarget U by) n tgs) tg = nameAt n tg"
  "distinct (map targetNode tgs) \<Longrightarrow> tg \<in> set tgs \<Longrightarrow>
     nameAt (foldl (assignTarget U by) n tgs) tg = Some (the (goTarget U by tg))"
proof (induction tgs arbitrary: n)
  case (Cons t tgs)
  { case 1
    then have "targetNode t \<noteq> targetNode tg" by auto
    with 1 Cons.IH(1) show ?case by (simp add: assignTarget_def nameAt_assign) }
  { case 2 with Cons show ?case by (auto simp: assignTarget_def nameAt_assign) }
qed auto

lemma node_target:
  "distinct (map targetNode tgs) \<Longrightarrow> t \<in> set tgs \<Longrightarrow> t' \<in> set tgs \<Longrightarrow> targetNode t = targetNode t' \<Longrightarrow> t = t'"
  by (auto simp: distinct_map inj_on_def)

text \<open>What the overrides ask for.\<close>

definition overrideOf :: "Override list \<Rightarrow> Target \<Rightarrow> string option" where
  "overrideOf ovs tg = map_option ov_Name (find (\<lambda>o'. ov_Selector o' = tg_Selector tg) ovs)"

lemma overrideOf_Cons:
  "overrideOf (o' # ovs) tg = (if ov_Selector o' = tg_Selector tg then Some (ov_Name o') else overrideOf ovs tg)"
  by (simp add: overrideOf_def)

lemma duplicateLoop_distinct:
  "duplicateLoop seen ovs = None \<Longrightarrow> distinct (map (\<lambda>o'. selectorString (ov_Selector o')) ovs)
     \<and> (\<forall>o' \<in> set ovs. seen (selectorString (ov_Selector o')) = None)"
  by (induction seen ovs rule: duplicateLoop.induct) (force split: option.splits if_splits)+

lemma resolveLoop_names:
  assumes "Parse name src = Inr fl" "Validate fl = None"
  shows "resolveLoop U fl by ovs = Inr by' \<Longrightarrow> distinct (map ov_Selector ovs) \<Longrightarrow> list_all (wfSelector \<circ> ov_Selector) ovs \<Longrightarrow>
    (\<forall>tg \<in> set (generated fl). nameAt by' tg = (case overrideOf ovs tg of None \<Rightarrow> nameAt by tg | Some g \<Rightarrow> Some g))
    \<and> (\<forall>o' \<in> set ovs. \<exists>tg \<in> set (generated fl). tg_Selector tg = ov_Selector o')"
proof (induction ovs arbitrary: "by")
  case (Cons o' ovs)
  from Cons.prems(1) obtain t where t: "ResolveSelector fl (ov_Selector o') = Inr t"
    and rest: "resolveLoop U fl (assignOverride t (ov_Name o') by) ovs = Inr by'"
    by (auto split: sum.splits option.splits)
  have found: "ResolveSelector fl (ov_Selector o') = Inr tg \<longleftrightarrow> tg \<in> set (generated fl) \<and> tg_Selector tg = ov_Selector o'" for tg
    using resolve_parsed [OF assms] Cons.prems(3) by (auto simp: generated_def)
  from t have mem: "t \<in> set (generated fl)" "tg_Selector t = ov_Selector o'" by (simp_all only: found)
  have "nameAt by' tg = (case overrideOf (o' # ovs) tg of None \<Rightarrow> nameAt by tg | Some g \<Rightarrow> Some g)"
    if tg: "tg \<in> set (generated fl)" for tg
  proof (cases "ov_Selector o' = tg_Selector tg")
    case True
    with tg t found [of tg] have "tg = t" by simp
    moreover from True Cons.prems(2) have "overrideOf ovs tg = None"
      by (force simp: overrideOf_def find_None_iff)
    ultimately show ?thesis using Cons.IH [OF rest] Cons.prems(2,3) tg True
      by (auto simp: overrideOf_Cons nameAt_assign)
  next
    case False
    with mem node_target [OF generated_nodes [OF assms(1)] mem(1) tg] have "targetNode t \<noteq> targetNode tg" by auto
    with False Cons.IH [OF rest] Cons.prems(2,3) tg show ?thesis
      by (auto simp: overrideOf_Cons nameAt_assign split: option.splits)
  qed
  moreover have "\<forall>u \<in> set (o' # ovs). \<exists>tg \<in> set (generated fl). tg_Selector tg = ov_Selector u"
    using mem Cons.IH [OF rest] Cons.prems(2,3) by auto
  ultimately show ?case by blast
qed (simp add: overrideOf_def)

lemma ParseOverrides_wf: "ParseOverrides U texts = Inr ovs \<Longrightarrow>
    list_all (\<lambda>o'. wfSelector (ov_Selector o') \<and> IsValidGoIdentifier U (ov_Name o')) ovs"
proof (induction texts arbitrary: ovs)
  case (Cons t texts)
  then obtain o' os where o': "ParseOverride U t = Inr o'" "ParseOverrides U texts = Inr os" "ovs = o' # os"
    by (auto split: sum.splits)
  from o'(1) have "wfSelector (ov_Selector o') \<and> IsValidGoIdentifier U (ov_Name o')"
    using ParseSelector_parse by (fastforce simp: ParseOverride_def split: list.splits sum.splits if_splits)
  with o' Cons.IH show ?case by simp
qed simp

section \<open>Scopes\<close>

lemma fieldPaths_apart:
  "fieldsApart g t \<Longrightarrow> (p, f, rec) \<in> set (fieldPaths t) \<Longrightarrow>
     \<exists>dd rs lb fs rb. rec = RecordType dd rs lb fs rb \<and> f \<in> set fs \<and> distinct (map g fs)"
  "belowApart g fld \<Longrightarrow> r0 = RecordType dd0 rs0 lb0 fs0 rb0 \<Longrightarrow> fld \<in> set fs0 \<Longrightarrow> distinct (map g fs0) \<Longrightarrow>
     (p, f, rec) \<in> set (recordPaths r0 fld) \<Longrightarrow>
     \<exists>dd rs lb fs rb. rec = RecordType dd rs lb fs rb \<and> f \<in> set fs \<and> distinct (map g fs)"
proof (induction t and r0 fld arbitrary: p and p dd0 rs0 lb0 fs0 rb0 rule: fieldPaths_recordPaths.induct)
  case (4 d rs lb fs rb)
  then obtain fld where "fld \<in> set fs" "(p, f, rec) \<in> set (recordPaths (RecordType d rs lb fs rb) fld)" by auto
  with "4.IH" [of fld d rs lb fs rb p] "4.prems"(1) show ?case by (auto simp: list_all_iff)
qed force+

lemma declTargets_param: "tg \<in> set (declTargets d) \<Longrightarrow> tg_Field tg = None \<Longrightarrow> tg_Param tg = Some p \<Longrightarrow> p \<in> set (paramsOf d)"
  by (cases d rule: declTargets.cases)
     (auto simp: Let_def rootTarget_def paramTargets_def paramsOf_def dest!: fieldTargets_fields split: option.splits if_splits)

lemma declTargets_decl: "tg \<in> set (declTargets d) \<Longrightarrow> tg_Decl tg = d"
  by (cases d rule: declTargets.cases)
     (auto simp: Let_def rootTarget_def paramTargets_def fieldTargets_def split: option.splits if_splits)

lemma declTargets_field:
  assumes "tg \<in> set (declTargets d)" "tg_Field tg = Some f"
  shows "\<exists>t p rec. t \<in> set (declTypes d) \<and> (p, f, rec) \<in> set (fieldPaths t) \<and> tg_Record tg = Some rec"
  using assms
  by (cases d rule: declTargets.cases)
     (force simp: Let_def rootTarget_def paramTargets_def fieldTargets_def split: option.splits if_splits)+

lemma scopeLoop_apart:
  "scopeLoop n byName ds = None \<Longrightarrow>
     (\<forall>d \<in> set ds. \<forall>g. nm_Decl n (declNode d) = Some g \<longrightarrow> byName g = None)
   \<and> (\<forall>d \<in> set ds. \<forall>d' \<in> set ds. d \<noteq> d' \<longrightarrow> nm_Decl n (declNode d) \<noteq> None \<longrightarrow>
        nm_Decl n (declNode d) \<noteq> nm_Decl n (declNode d'))"
proof (induction n byName ds rule: scopeLoop.induct)
  case (2 n byName d ds)
  show ?case
  proof (cases "nm_Decl n (declNode d)")
    case None
    with 2 show ?thesis by auto
  next
    case (Some g)
    with "2.prems" have free: "byName g = None" and rest: "scopeLoop n (byName(g \<mapsto> d)) ds = None"
      by (auto split: option.splits)
    note ih = "2.IH"(2) [OF Some free rest]
    then have "nm_Decl n (declNode d') \<noteq> Some g" if "d' \<in> set ds" for d' using that by fastforce
    then have "\<forall>x \<in> set (d # ds). \<forall>y \<in> set (d # ds). x \<noteq> y \<longrightarrow> nm_Decl n (declNode x) \<noteq> None \<longrightarrow>
        nm_Decl n (declNode x) \<noteq> nm_Decl n (declNode y)"
      using ih Some by (metis set_ConsD)
    moreover have "\<forall>x \<in> set (d # ds). \<forall>g. nm_Decl n (declNode x) = Some g \<longrightarrow> byName g = None"
      using ih Some free by (auto split: if_splits)
    ultimately show ?thesis by blast
  qed
qed simp

text \<open>
  Identifiers that share a scope: two fields of one record, two parameters of one procedure, or
  two declarations of the package.
\<close>

definition paramRoot :: "Target \<Rightarrow> bool" where
  "paramRoot tg \<longleftrightarrow> tg_Field tg = None \<and> tg_Param tg \<noteq> None"

definition sameScope :: "Target \<Rightarrow> Target \<Rightarrow> bool" where
  "sameScope tg tg' \<longleftrightarrow>
     (if tg_Field tg \<noteq> None then tg_Field tg' \<noteq> None \<and> tg_Record tg = tg_Record tg'
      else if tg_Param tg \<noteq> None then paramRoot tg' \<and> tg_Decl tg = tg_Decl tg'
      else tg_Field tg' = None \<and> tg_Param tg' = None)"

definition targetWire :: "Target \<Rightarrow> string" where
  "targetWire tg = (case tg_Field tg of Some f \<Rightarrow> id_name (fieldName f)
      | None \<Rightarrow> (case tg_Param tg of Some p \<Rightarrow> id_name (paramName p) | None \<Rightarrow> declaredName (tg_Decl tg)))"

text \<open>The name the flags and the default projection give an identifier.\<close>

definition expectedName :: "Override list \<Rightarrow> Target \<Rightarrow> string option" where
  "expectedName ovs tg =
     (case overrideOf ovs tg of
        Some g \<Rightarrow> Some g
      | None \<Rightarrow> (case WireToGo (targetWire tg) (if paramRoot tg then CamelCase else PascalCase) of
                  Inl e \<Rightarrow> None | Inr g \<Rightarrow> Some g))"

lemma goTarget_expected:
  assumes "nameAt by tg = overrideOf ovs tg" "goTarget U by tg = Some g" "overrideOf ovs tg \<noteq> Some []"
  shows "expectedName ovs tg = Some g \<and> IsValidGoIdentifier U g \<and> (paramRoot tg \<or> IsExportedGoIdentifier U g)"
proof -
  have "goTarget U by tg = goName U (nameAt by tg) (paramRoot tg) (targetWire tg) (if paramRoot tg then CamelCase else PascalCase)"
    by (auto simp: goTarget_def goField_def goParam_def goDecl_def nameAt_def paramRoot_def targetWire_def split: option.splits)
  with assms show ?thesis
    by (auto simp: goName_def expectedName_def split: option.splits list.splits sum.splits if_splits)
qed

lemma distinct_map_neq: "distinct (map g xs) \<Longrightarrow> x \<in> set xs \<Longrightarrow> y \<in> set xs \<Longrightarrow> x \<noteq> y \<Longrightarrow> g x \<noteq> g y"
  by (auto simp: distinct_map inj_on_def)

lemma declNamed_apart:
  assumes "declNamed U by d" "declNamed U by d'" "tg \<in> set (declTargets d)" "tg' \<in> set (declTargets d')"
    and "targetNode tg \<noteq> targetNode tg'" "sameScope tg tg'" "tg_Field tg \<noteq> None \<or> paramRoot tg"
  shows "goTarget U by tg \<noteq> goTarget U by tg'"
proof (cases "tg_Field tg")
  case (Some f)
  with assms(6) obtain f' where f': "tg_Field tg' = Some f'" "tg_Record tg' = tg_Record tg" by (auto simp: sameScope_def)
  from declTargets_field [OF assms(3) Some] obtain t p rec where t: "t \<in> set (declTypes d)"
    "(p, f, rec) \<in> set (fieldPaths t)" "tg_Record tg = Some rec" by blast
  from declTargets_field [OF assms(4) f'(1)] t(3) f'(2) obtain t' p' where t': "t' \<in> set (declTypes d')"
    "(p', f', rec) \<in> set (fieldPaths t')" by auto
  have apart: "fieldsApart (goField U by) t" "fieldsApart (goField U by) t'"
    using assms(1-4) t(1) t'(1) by (force simp: declNamed_def)+
  from fieldPaths_apart(1) [OF apart(1) t(2)] fieldPaths_apart(1) [OF apart(2) t'(2)]
  obtain fs where "f \<in> set fs" "f' \<in> set fs" "distinct (map (goField U by) fs)" by auto
  moreover from assms(5) Some f' have "f \<noteq> f'" by (auto simp: targetNode_def)
  ultimately have "goField U by f \<noteq> goField U by f'" by (simp add: distinct_map_neq)
  with Some f' show ?thesis by (simp add: goTarget_def)
next
  case None
  with assms(6,7) obtain p p' where p: "tg_Param tg = Some p" "tg_Field tg' = None" "tg_Param tg' = Some p'" "tg_Decl tg = tg_Decl tg'"
    by (auto simp: sameScope_def paramRoot_def)
  with declTargets_decl [OF assms(3)] declTargets_decl [OF assms(4)] have "d' = d" by simp
  with declTargets_param [OF assms(3) None p(1)] declTargets_param [OF assms(4) p(2,3)]
  have "p \<in> set (paramsOf d)" "p' \<in> set (paramsOf d)" by simp_all
  moreover from assms(5) None p have "p \<noteq> p'" by (auto simp: targetNode_def)
  moreover from assms(1) have "distinct (map (goParam U by) (paramsOf d))" by (simp add: declNamed_def)
  ultimately have "goParam U by p \<noteq> goParam U by p'" by (simp add: distinct_map_neq)
  with None p show ?thesis by (simp add: goTarget_def)
qed

lemma ProjectNames_names:
  assumes "Parse name src = Inr fl" "Validate fl = None" "ParseOverrides U texts = Inr ovs" "ProjectNames U fl ovs = Inr n"
  shows "\<exists>tab. n = foldl (assignTarget U tab) emptyNames (generated fl) \<and> list_all (declNamed U tab) (fi_decls fl)
    \<and> scopeLoop n (\<lambda>_. None) (fi_decls fl) = None
    \<and> (\<forall>tg \<in> set (generated fl). nameAt tab tg = overrideOf ovs tg \<and> overrideOf ovs tg \<noteq> Some [])
    \<and> (\<forall>o' \<in> set ovs. \<exists>tg \<in> set (generated fl). tg_Selector tg = ov_Selector o')"
proof -
  from assms(4) obtain tab where dup: "duplicateLoop (\<lambda>_. None) ovs = None" and tab: "resolveLoop U fl emptyNames ovs = Inr tab"
    and walk: "projectDecls U tab (fi_decls fl) emptyNames = Inr n" and scope: "scopeLoop n (\<lambda>_. None) (fi_decls fl) = None"
    by (auto simp: ProjectNames_def split: option.splits sum.splits)
  from duplicateLoop_distinct [OF dup] have sels: "distinct (map ov_Selector ovs)"
    by (fastforce simp: distinct_map inj_on_def)
  note wf = ParseOverrides_wf [OF assms(3)]
  then have "list_all (wfSelector \<circ> ov_Selector) ovs" by (simp add: list_all_iff)
  note resolved = resolveLoop_names [OF assms(1,2) tab sels this]
  from wf have "\<forall>o' \<in> set ovs. ov_Name o' \<noteq> []" by (auto simp: list_all_iff IsValidGoIdentifier_def)
  then have "overrideOf ovs tg \<noteq> Some []" for tg
    by (auto simp: overrideOf_def find_Some_iff)
  moreover have "nameAt emptyNames tg = None" for tg by (simp add: nameAt_def emptyNames_def split: option.split)
  ultimately have over: "nameAt tab tg = overrideOf ovs tg \<and> overrideOf ovs tg \<noteq> Some []" if "tg \<in> set (generated fl)" for tg
    using resolved that by (auto split: option.splits)
  show ?thesis
    using projectDecls_targets [OF walk] scope over resolved unfolding generated_def by blast
qed

section \<open>Properties\<close>

text \<open>
  C19. The name table of a parsed and validated interface. When \<open>ProjectNames\<close> accepts the parsed
  flags, every generated identifier has exactly the name of its flag or else its default
  projection (camel case for parameters, Pascal case otherwise), a usable Go identifier that is
  exported unless it names a parameter; every flag names an existing identifier; and no two
  fields of a record, parameters of a procedure or declarations of the package share a name.\<close>

theorem ProjectNames_table:
  assumes "Parse name src = Inr fl" "Validate fl = None" "ParseOverrides U texts = Inr ovs" "ProjectNames U fl ovs = Inr n"
  shows "(tg \<in> set (generated fl) \<longrightarrow>
           (\<exists>g. nameAt n tg = Some g \<and> expectedName ovs tg = Some g \<and> IsValidGoIdentifier U g
                \<and> (paramRoot tg \<or> IsExportedGoIdentifier U g)))
       \<and> (o' \<in> set ovs \<longrightarrow> (\<exists>t \<in> set (generated fl). tg_Selector t = ov_Selector o'))
       \<and> (tg \<in> set (generated fl) \<and> tg' \<in> set (generated fl) \<and> tg \<noteq> tg' \<and> sameScope tg tg' \<longrightarrow> nameAt n tg \<noteq> nameAt n tg')"
proof -
  from ProjectNames_names [OF assms] obtain tab where n: "n = foldl (assignTarget U tab) emptyNames (generated fl)"
    and named: "list_all (declNamed U tab) (fi_decls fl)" and scope: "scopeLoop n (\<lambda>_. None) (fi_decls fl) = None"
    and over: "\<And>tg. tg \<in> set (generated fl) \<Longrightarrow> nameAt tab tg = overrideOf ovs tg \<and> overrideOf ovs tg \<noteq> Some []"
    and used: "\<And>o'. o' \<in> set ovs \<Longrightarrow> \<exists>tg \<in> set (generated fl). tg_Selector tg = ov_Selector o'"
    by blast
  note nodes = generated_nodes [OF assms(1)]
  have go: "nameAt n t = goTarget U tab t \<and> goTarget U tab t \<noteq> None" if "t \<in> set (generated fl)" for t
    using that named nameAt_assignAll(2) [OF nodes that] by (force simp: n generated_def declNamed_def list_all_iff)
  have "nameAt n t \<noteq> nameAt n t'" if t: "t \<in> set (generated fl)" "t' \<in> set (generated fl)" "t \<noteq> t'" "sameScope t t'" for t t'
  proof -
    from t(3) node_target [OF nodes t(1,2)] have apart: "targetNode t \<noteq> targetNode t'" by blast
    from t(1,2) obtain d d' where d: "d \<in> set (fi_decls fl)" "t \<in> set (declTargets d)"
      "d' \<in> set (fi_decls fl)" "t' \<in> set (declTargets d')" by (auto simp: generated_def)
    show ?thesis
    proof (cases "tg_Field t \<noteq> None \<or> paramRoot t")
      case True
      with declNamed_apart [OF _ _ d(2,4) apart t(4)] named d(1,3) go t(1,2) show ?thesis by (auto simp: list_all_iff)
    next
      case False
      then have roots: "tg_Field t = None" "tg_Param t = None" "tg_Field t' = None" "tg_Param t' = None"
        using t(4) by (auto simp: sameScope_def paramRoot_def)
      then have "declNode d \<noteq> declNode d'" using apart declTargets_decl d(2,4) by (auto simp: targetNode_def)
      then have "d \<noteq> d'" by blast
      moreover have "nameAt n t = nm_Decl n (declNode d)" "nameAt n t' = nm_Decl n (declNode d')"
        using roots declTargets_decl d(2,4) by (auto simp: nameAt_def)
      ultimately show ?thesis using scopeLoop_apart [OF scope] d(1,3) go [OF t(1)] by auto
    qed
  qed
  moreover have "\<exists>g. nameAt n t = Some g \<and> expectedName ovs t = Some g \<and> IsValidGoIdentifier U g
      \<and> (paramRoot t \<or> IsExportedGoIdentifier U g)" if "t \<in> set (generated fl)" for t
    using go [OF that] over [OF that] goTarget_expected [of tab t ovs U] by force
  ultimately show ?thesis using used by blast
qed

theorem ProjectNames_table_witness:
  "\<exists>ovs n g. ParseOverrides asciiOnly [''type:a/element/field:b=Beta''] = Inr ovs
     \<and> ProjectNames asciiOnly sampleInterface ovs = Inr n \<and> nameAt n sampleTarget = Some g \<and> expectedName ovs sampleTarget = Some g"
proof -
  obtain ovs n where "ParseOverrides asciiOnly [''type:a/element/field:b=Beta''] = Inr ovs"
      "ProjectNames asciiOnly sampleInterface ovs = Inr n"
  proof -
    have "case ParseOverrides asciiOnly [''type:a/element/field:b=Beta''] of Inl e \<Rightarrow> False
        | Inr ovs \<Rightarrow> (case ProjectNames asciiOnly sampleInterface ovs of Inl e \<Rightarrow> False | Inr n \<Rightarrow> True)" by code_simp
    then show thesis using that by (auto split: sum.splits)
  qed
  moreover have "sampleTarget \<in> set (generated sampleInterface)"
    by (simp add: generated_def sampleInterface_def sampleTarget_def sampleDecl_def sampleRecord_def sampleField_def
        rootTarget_def fieldTargets_def Let_def)
  ultimately show ?thesis using ProjectNames_table sampleInterface_parsed by metis
qed

end
