(* ===== verification/Type_Keys.thy ===== *)
theory Type_Keys
  imports Codec_Correctness Override_Names
begin

text \<open>
  \<open>typeKeyOf\<close>, by which anonymous types share a codec pair: two types have one key exactly when
  they are the same wire type, field names included, and then they have the same shape wherever
  the Go names of fields are a function of their wire names.
\<close>

section \<open>Keys of types\<close>

text \<open>The same wire type at another place: spans and documentation aside.\<close>

fun sameWire :: "TypeExpr \<Rightarrow> TypeExpr \<Rightarrow> bool" and sameFields :: "Field list \<Rightarrow> Field list \<Rightarrow> bool" where
  "sameWire (PrimType d k sp) u = (case u of PrimType d' k' sp' \<Rightarrow> k' = k | _ \<Rightarrow> False)"
| "sameWire (NamedType d i) u = (case u of NamedType d' i' \<Rightarrow> id_name i' = id_name i | _ \<Rightarrow> False)"
| "sameWire (ListType d ls t) u = (case u of ListType d' ls' t' \<Rightarrow> sameWire t t' | _ \<Rightarrow> False)"
| "sameWire (RecordType d rs lb fs rb) u = (case u of RecordType d' rs' lb' fs' rb' \<Rightarrow> sameFields fs fs' | _ \<Rightarrow> False)"
| "sameFields [] fs' = (fs' = [])"
| "sameFields (Field d i t semi # fs) fs' =
     (case fs' of Field d' i' t' semi' # fs'' \<Rightarrow> id_name i' = id_name i \<and> sameWire t t' \<and> sameFields fs fs'' | [] \<Rightarrow> False)"

lemma sameWire_shape:
  assumes g: "\<And>f. f \<in> F \<Longrightarrow> goFieldName names f = g (id_name (fieldName f))"
  shows "sameWire t u \<Longrightarrow> set (fieldsOf t) \<subseteq> F \<Longrightarrow> set (fieldsOf u) \<subseteq> F \<Longrightarrow> shapeOf names env u = shapeOf names env t"
    and "sameFields fs us \<Longrightarrow> set (concat (map belowField fs)) \<subseteq> F \<Longrightarrow> set (concat (map belowField us)) \<subseteq> F \<Longrightarrow>
      fieldShapes names env us = fieldShapes names env fs"
proof (induction t u and fs us rule: sameWire_sameFields.induct)
  case (6 d i t semi fs fs')
  then obtain d' i' t' semi' fs'' where fs': "fs' = Field d' i' t' semi' # fs''" "id_name i' = id_name i"
    "sameWire t t'" "sameFields fs fs''" by (auto split: list.splits Field.splits)
  with 6 g [of "Field d i t semi"] g [of "Field d' i' t' semi'"] show ?case by auto
qed (auto split: TypeExpr.splits)

text \<open>
  The text of a key can be read back. A key begins with a word, which is a keyword or a declared
  name, and what follows the word does not continue it.
\<close>

fun wireType :: "TypeExpr \<Rightarrow> bool" and wireField :: "Field \<Rightarrow> bool" where
  "wireType (PrimType d k sp) = (k \<in> set primitiveKinds)"
| "wireType (NamedType d i) = is_ident (id_name i)"
| "wireType (ListType d ls t) = wireType t"
| "wireType (RecordType d rs lb fs rb) = list_all wireField fs"
| "wireField (Field d i t semi) = (is_ident (id_name i) \<and> wireType t)"

definition wordEnds :: "string \<Rightarrow> bool" where
  "wordEnds r \<longleftrightarrow> (case r of [] \<Rightarrow> True | c # _ \<Rightarrow> \<not> isIdentPart c)"

lemma wordEnds_simps [simp]: "wordEnds []" "wordEnds (c # r) \<longleftrightarrow> \<not> isIdentPart c"
  by (simp_all add: wordEnds_def)

lemma word_unique:
  "list_all isIdentPart a \<Longrightarrow> list_all isIdentPart b \<Longrightarrow> wordEnds x \<Longrightarrow> wordEnds y \<Longrightarrow> a @ x = b @ y \<Longrightarrow> a = b \<and> x = y"
proof (induction a arbitrary: b)
  case Nil
  then show ?case by (cases b) auto
next
  case (Cons c a)
  then show ?case by (cases b) auto
qed

fun keyWord :: "TypeExpr \<Rightarrow> string" where
  "keyWord (PrimType d k sp) = kindString k"
| "keyWord (NamedType d i) = id_name i"
| "keyWord (ListType d ls t) = ''list''"
| "keyWord (RecordType d rs lb fs rb) = ''record''"

definition tailKeys :: "Field list \<Rightarrow> string" where
  "tailKeys fs = concat (map (\<lambda>f. CHR '';'' # fieldKey f) fs)"

fun keyRest :: "TypeExpr \<Rightarrow> string" where
  "keyRest (ListType d ls t) = CHR '' '' # typeKeyOf t"
| "keyRest (RecordType d rs lb fs rb) =
     CHR ''{'' # (case fs of [] \<Rightarrow> [] | f # fs \<Rightarrow> fieldKey f @ tailKeys fs) @ ''}''"
| "keyRest t = []"

lemma typeKeyOf_word: "typeKeyOf t = keyWord t @ keyRest t"
  by (cases t) (auto simp: joinWith_def tailKeys_def comp_def split: list.split)

lemma key_chars:
  "\<not> isIdentPart CHR '' ''" "\<not> isIdentPart CHR ''{''" "\<not> isIdentPart CHR ''}''" "\<not> isIdentPart CHR '';''"
  by (simp_all add: isIdentPart_def isIdentStart_def between_def)

lemma ident_part: "is_ident s \<Longrightarrow> list_all isIdentPart s \<and> s \<noteq> [] \<and> keywordKind s = None"
  by (simp add: is_ident_def)

lemma prim_word:
  assumes "k \<in> set primitiveKinds"
  shows "list_all isIdentPart (kindString k) \<and> keywordKind (kindString k) = Some k \<and> k \<noteq> TokList \<and> k \<noteq> TokRecord"
proof -
  have "list_all (\<lambda>k. list_all isIdentPart (kindString k) \<and> keywordKind (kindString k) = Some k
      \<and> k \<noteq> TokList \<and> k \<noteq> TokRecord) primitiveKinds" by code_simp
  with assms show ?thesis by (simp add: list_all_iff)
qed

definition wordKind :: "TypeExpr \<Rightarrow> TokenKind option" where
  "wordKind t = (case t of PrimType d k sp \<Rightarrow> Some k | NamedType d i \<Rightarrow> None | ListType d ls u \<Rightarrow> Some TokList
     | RecordType d rs lb fs rb \<Rightarrow> Some TokRecord)"

lemma keyWord_kind: "wireType t \<Longrightarrow> list_all isIdentPart (keyWord t) \<and> keywordKind (keyWord t) = wordKind t"
proof (cases t)
  case (ListType d ls u)
  moreover have "list_all isIdentPart ''list'' \<and> keywordKind ''list'' = Some TokList" by code_simp
  ultimately show ?thesis by (simp add: wordKind_def)
next
  case (RecordType d rs lb fs rb)
  moreover have "list_all isIdentPart ''record'' \<and> keywordKind ''record'' = Some TokRecord" by code_simp
  ultimately show ?thesis by (simp add: wordKind_def)
qed (auto simp: prim_word ident_part wordKind_def)

lemma keyRest_ends: "wordEnds r \<Longrightarrow> wordEnds (keyRest t @ r)"
  by (cases t) (simp_all add: key_chars)

lemma key_step:
  assumes "wireType t" "wireType u" "wordEnds r" "wordEnds r'" "typeKeyOf t @ r = typeKeyOf u @ r'"
  shows "wordKind t = wordKind u \<and> keyWord t = keyWord u \<and> keyRest t @ r = keyRest u @ r'"
proof -
  from assms(5) have "keyWord t @ (keyRest t @ r) = keyWord u @ (keyRest u @ r')" by (simp add: typeKeyOf_word)
  with word_unique [of "keyWord t" "keyWord u"] keyWord_kind [OF assms(1)] keyWord_kind [OF assms(2)]
    keyRest_ends [OF assms(3), of t] keyRest_ends [OF assms(4), of u]
  have "keyWord t = keyWord u \<and> keyRest t @ r = keyRest u @ r'" by blast
  with keyWord_kind [OF assms(1)] keyWord_kind [OF assms(2)] show ?thesis by auto
qed

lemma tailKeys_Cons: "tailKeys (f # fs) = CHR '';'' # fieldKey f @ tailKeys fs"
  by (simp add: tailKeys_def)

lemma tailKeys_ends: "wordEnds (tailKeys fs @ CHR ''}'' # r)"
  by (cases fs) (simp_all add: tailKeys_def key_chars)

lemma fieldKey_start: "wireField f \<Longrightarrow> fieldKey f @ x \<noteq> CHR ''}'' # y"
  using key_chars(3) by (cases f) (auto dest!: ident_part simp: neq_Nil_conv)

lemma typeKey_unique:
  "wireType t \<Longrightarrow> wireType u \<Longrightarrow> wordEnds r \<Longrightarrow> wordEnds r' \<Longrightarrow> typeKeyOf t @ r = typeKeyOf u @ r' \<Longrightarrow> sameWire t u \<and> r = r'"
  "list_all wireField fs \<Longrightarrow> list_all wireField us \<Longrightarrow> tailKeys fs @ CHR ''}'' # r = tailKeys us @ CHR ''}'' # r' \<Longrightarrow>
     sameFields fs us \<and> r = r'"
proof (induction t u and fs us arbitrary: r r' and r r' rule: sameWire_sameFields.induct)
  case (1 d k sp u)
  with key_step [OF "1.prems"] prim_word [of k] show ?case by (cases u) (auto simp: wordKind_def)
next
  case (2 d i u)
  from key_step [OF "2.prems"] show ?case by (cases u) (simp_all add: wordKind_def)
next
  case (3 d ls t u)
  from key_step [OF "3.prems"] prim_word "3.prems"(2) obtain d' ls' t' where u: "u = ListType d' ls' t'"
    by (cases u) (auto simp: wordKind_def)
  with key_step [OF "3.prems"] "3.IH" [OF u, of r r'] "3.prems" show ?case by simp
next
  case (4 d rs lb fs rb u)
  from key_step [OF "4.prems"] prim_word "4.prems"(2) obtain d' rs' lb' us rb' where u: "u = RecordType d' rs' lb' us rb'"
    by (cases u) (auto simp: wordKind_def)
  let ?body = "\<lambda>fs. case fs of [] \<Rightarrow> [] | f # fs \<Rightarrow> fieldKey f @ tailKeys fs"
  from u key_step [OF "4.prems"] have eq: "?body fs @ CHR ''}'' # r = ?body us @ CHR ''}'' # r'" by simp
  have tail: "tailKeys fs @ CHR ''}'' # r = tailKeys us @ CHR ''}'' # r'"
  proof (cases fs)
    case Nil
    show ?thesis
    proof (cases us)
      case (Cons g gs)
      with eq Nil have "fieldKey g @ (tailKeys gs @ CHR ''}'' # r') = CHR ''}'' # r" by simp
      with fieldKey_start [of g] Cons "4.prems"(2) u show ?thesis by simp
    qed (use Nil eq in simp)
  next
    case (Cons f fs')
    with eq fieldKey_start [of f] "4.prems"(1) show ?thesis by (cases us) (auto simp: tailKeys_Cons)
  qed
  from "4.IH" [OF u _ _ tail] "4.prems"(1,2) u show ?case by simp
next
  case (5 us)
  then show ?case by (cases us) (simp_all add: tailKeys_def)
next
  case (6 d i t semi fs us)
  from "6.prems"(3) obtain d' i' t' semi' us' where us: "us = Field d' i' t' semi' # us'"
    by (cases us; cases "hd us") (auto simp: tailKeys_def)
  from "6.prems"(3) us have split: "id_name i @ (CHR '' '' # typeKeyOf t @ tailKeys fs @ CHR ''}'' # r)
      = id_name i' @ (CHR '' '' # typeKeyOf t' @ tailKeys us' @ CHR ''}'' # r')" by (simp add: tailKeys_Cons)
  from "6.prems"(1,2) us have "list_all isIdentPart (id_name i)" "list_all isIdentPart (id_name i')"
    by (auto dest: ident_part)
  from word_unique [OF this _ _ split] have names: "id_name i = id_name i'"
    and types: "typeKeyOf t @ tailKeys fs @ CHR ''}'' # r = typeKeyOf t' @ tailKeys us' @ CHR ''}'' # r'"
    by (simp_all add: key_chars)
  from "6.IH"(1) [OF us refl _ _ tailKeys_ends tailKeys_ends types] "6.prems"(1,2) us
  have "sameWire t t'" "tailKeys fs @ CHR ''}'' # r = tailKeys us' @ CHR ''}'' # r'" by simp_all
  with "6.IH"(2) [OF us refl] "6.prems"(1,2) us names show ?case by (simp del: typeKeyOf.simps)
qed

lemma typeKeyOf_sameWire: "wireType t \<Longrightarrow> wireType u \<Longrightarrow> typeKeyOf t = typeKeyOf u \<Longrightarrow> sameWire t u"
  using typeKey_unique(1) [of t u "[]" "[]"] by simp

lemma sameWire_typeKeyOf:
  "sameWire t u \<Longrightarrow> typeKeyOf u = typeKeyOf t"
  "sameFields fs us \<Longrightarrow> map fieldKey us = map fieldKey fs"
  by (induction t u and fs us rule: sameWire_sameFields.induct) (auto split: TypeExpr.splits list.splits Field.splits)

text \<open>An anonymous type has no one-word key, so its pair is not that of a primitive.\<close>

lemma anonymous_key: "isAnonymousType t \<Longrightarrow> k \<in> set primitiveKinds \<Longrightarrow> typeKeyOf t \<noteq> kindString k"
proof
  assume t: "isAnonymousType t" "k \<in> set primitiveKinds" "typeKeyOf t = kindString k"
  from t(1) obtain c where "\<not> isIdentPart c" "c \<in> set (typeKeyOf t)"
    using key_chars by (cases t) (auto simp: typeKeyOf_word)
  with t(2,3) prim_word show False by (auto simp: list_all_iff)
qed

lemma printable_wireType:
  "printableType t \<Longrightarrow> wireType t"
  "printableField f \<Longrightarrow> wireField f"
proof (induction t and f rule: printableType_printableField.induct)
  case (1 d k sp)
  have "set primKinds = set primitiveKinds" by (simp add: primKinds_def primitiveKinds_def)
  with 1 show ?case by simp
qed (auto simp: list_all_iff)

lemma printableParam_type: "printableParam p \<Longrightarrow> printableType (paramType p)"
  by (cases p) simp

lemma parsed_wireType:
  assumes "Parse name src = Inr fl" "d \<in> set (fi_decls fl)" "t \<in> set (declTypes d)"
  shows "wireType t"
proof -
  from parsed_printable [OF assms(1)] assms(2) have "printableDecl d" by (simp add: list_all_iff)
  with assms(3) have "printableType t"
    by (cases d) (auto simp: list_all_iff printableParam_type split: option.splits)
  then show ?thesis by (rule printable_wireType)
qed

section \<open>Properties\<close>

text \<open>
  C16. Sharing of codec pairs is decided by wire structure: in parsed interfaces two type
  occurrences have the same key exactly when they are the same wire type, with the same
  primitives, references and field names in the same order.\<close>

theorem typeKeyOf_exact:
  assumes "Parse name src = Inr fl" "Parse name' src' = Inr fl'" "d \<in> set (fi_decls fl)" "d' \<in> set (fi_decls fl')"
    and "t \<in> set (declTypes d)" "u \<in> set (declTypes d')"
  shows "typeKeyOf t = typeKeyOf u \<longleftrightarrow> sameWire t u"
proof -
  from parsed_wireType [OF assms(1,3,5)] parsed_wireType [OF assms(2,4,6)] show ?thesis
    using typeKeyOf_sameWire [of t u] sameWire_typeKeyOf(1) [of t u] by auto
qed

text \<open>The file of the source \<open>type c list record{b int8;};\<close>.\<close>

definition sampleOther :: ifile where
  "sampleOther = sampleInterface\<lparr>so_src := ''type c list record{b int8;};'',
     fi_decls := [TypeDecl [] (Span 0 4) \<lparr>id_name = ''c'', id_span = Span 5 6\<rparr>
       (ListType [] (Span 7 11) sampleRecord) (Span 27 28)]\<rparr>"

theorem typeKeyOf_exact_witness:
  "typeKeyOf (ListType [] (Span 7 11) sampleRecord) = typeKeyOf (ListType [] (Span 7 11) sampleRecord)
   \<and> sameWire (ListType [] (Span 7 11) sampleRecord) (ListType [] (Span 7 11) sampleRecord)"
proof -
  have "Parse ''f'' ''type c list record{b int8;};'' = Inr sampleOther" by code_simp
  moreover have "sampleDecl \<in> set (fi_decls sampleInterface)" "hd (fi_decls sampleOther) \<in> set (fi_decls sampleOther)"
    "ListType [] (Span 7 11) sampleRecord \<in> set (declTypes sampleDecl)"
    "ListType [] (Span 7 11) sampleRecord \<in> set (declTypes (hd (fi_decls sampleOther)))"
    by (simp_all add: sampleInterface_def sampleOther_def sampleDecl_def)
  ultimately show ?thesis using typeKeyOf_exact sampleInterface_parsed(1) by metis
qed

end
