(* ===== verification/Import_Mapping.thy ===== *)
theory Import_Mapping
  imports Codec_Emitter
begin

text \<open>
  From a validated interface to the generation records of an import binding: \<open>MapImport\<close> and the
  fixed-exception check of \<open>go/internal/tool/import.go\<close>, and the reservation of every generated
  name, \<open>go/internal/tool/namespace.go\<close>. A scope is the list of its assignments in order; the last
  one of a name counts.
\<close>

section \<open>Fixed runtime exceptions\<close>

definition fixedNameError :: "'a source_scheme \<Rightarrow> ident \<Rightarrow> string \<Rightarrow> string \<Rightarrow> depth_error" where
  "fixedNameError f i kind why =
     \<lparr>de_Filename = so_name f, de_Pos = Position f (sp_start (id_span i)),
      de_Msg = kind @ '' '' @ quoted (id_name i) @ '' uses the fixed runtime exception name '' @ quoted (id_name i)
        @ '', which is reserved: '' @ why\<rparr>"

fun fixedDecl :: "'a source_scheme \<Rightarrow> Decl \<Rightarrow> depth_error option" where
  "fixedDecl f (TypeDecl d kw i t semi) =
     (if IsFixedRuntimeException (id_name i)
      then Some (fixedNameError f i ''type'' ''type declarations have no generated runtime sentinel'') else None)"
| "fixedDecl f (ExceptionDecl d kw i ot semi) =
     (if IsFixedRuntimeException (id_name i) \<and> ot \<noteq> None
      then Some (fixedNameError f i ''exception'' ''the fixed runtime exceptions are no-payload exceptions and cannot carry a payload'')
      else None)"
| "fixedDecl f (ProcDecl d kw i lb ps rb res semi) =
     (if IsFixedRuntimeException (id_name i)
      then Some (fixedNameError f i ''procedure'' ''procedure declarations have no generated runtime sentinel'') else None)"

fun fixedLoop :: "'a source_scheme \<Rightarrow> Decl list \<Rightarrow> depth_error option" where
  "fixedLoop f [] = None"
| "fixedLoop f (d # ds) = (case fixedDecl f d of Some e \<Rightarrow> Some e | None \<Rightarrow> fixedLoop f ds)"

definition checkImportFixed :: "'a ifile_scheme \<Rightarrow> depth_error option" where
  "checkImportFixed fl = fixedLoop fl (fi_decls fl)"

section \<open>Generated names\<close>

definition errTrailingName :: string where "errTrailingName = ManglePrivate [''error'', ''trailing'']"
definition errUnknownName :: string where "errUnknownName = ManglePrivate [''error'', ''unknown'', ''key'']"
definition ctxName :: string where "ctxName = ManglePrivate [''ctx'']"
definition connName :: string where "connName = ManglePrivate [''conn'']"
definition encErrName :: string where "encErrName = ManglePrivate [''enc'', ''err'']"
definition callErrName :: string where "callErrName = ManglePrivate [''call'', ''err'']"
definition outName :: string where "outName = ManglePrivate [''out'']"
definition excName :: string where "excName = ManglePrivate [''exc'']"
definition zeroName :: string where "zeroName = ManglePrivate [''zero'']"
definition bufName :: string where "bufName = ManglePrivate [''buf'']"

definition importAccessorName :: string where "importAccessorName = ''ImportBinding''"
definition importBindingName :: string where "importBindingName = ''importBinding''"
definition semanticConstantName :: string where "semanticConstantName = ''_intercallSemantic''"
definition errorMethodName :: string where "errorMethodName = ''Error''"

text \<open>The codec identity of a type occurrence, named by \<open>encCall\<close> and \<open>decCall\<close>.\<close>

fun callParts :: "TypeExpr \<Rightarrow> string list" where
  "callParts (PrimType d k sp) = primitiveParts k"
| "callParts (NamedType d i) = namedParts (id_name i)"
| "callParts t = [typeKeyOf t]"

definition encCall :: "TypeExpr \<Rightarrow> string" where
  "encCall t = codecName ''enc'' (callParts t)"

definition decCall :: "TypeExpr \<Rightarrow> string" where
  "decCall t = codecName ''dec'' (callParts t)"

section \<open>Reserved scopes\<close>

type_synonym scope = "(string \<times> string) list"

definition reserved :: "scope \<Rightarrow> string \<Rightarrow> string option" where
  "reserved sc name = map_of (rev sc) name"

definition codecPairNames :: "string list \<Rightarrow> scope" where
  "codecPairNames parts =
     [(codecName ''enc'' parts, ''a generated codec pair''), (codecName ''dec'' parts, ''a generated codec pair'')]"

fun declPayload :: "Decl \<Rightarrow> TypeExpr option" where
  "declPayload (ExceptionDecl d kw i ot semi) = ot"
| "declPayload d = None"

fun recordFields :: "TypeExpr option \<Rightarrow> Field list option" where
  "recordFields (Some (RecordType d rs lb fs rb)) = Some fs"
| "recordFields t = None"

definition importPackageScope :: "Model \<Rightarrow> scope" where
  "importPackageScope m =
     [(importAccessorName, ''the generated ImportBinding accessor''),
      (importBindingName, ''the generated importBinding singleton variable''),
      (semanticConstantName, ''the generated _intercallSemantic constant''),
      (errTrailingName, ''a generated response-decoder failure value''),
      (errUnknownName, ''a generated response-decoder failure value''),
      (maxIntName, ''a generated codec support value''),
      (errShortName, ''a generated codec failure value''),
      (errLongName, ''a generated codec failure value''),
      (errNaNName, ''a generated codec failure value''),
      (errUTF8Name, ''a generated codec failure value'')]
     @ concat (map (\<lambda>k. codecPairNames [kindString k]) primitiveKinds)
     @ concat (map (\<lambda>t. codecPairNames (namedParts (declaredName (tr_Decl t)))) (md_Types m))
     @ concat (map (\<lambda>akey. codecPairNames [akey]) (em_order (register m newCodecEmitter)))
     @ concat (map (\<lambda>x.
         if IsFixedRuntimeException (declaredName (xr_Decl x)) then []
         else case recordFields (declPayload (xr_Decl x)) of
           None \<Rightarrow> []
         | Some fs \<Rightarrow> [(codecName ''decexc'' [declaredName (xr_Decl x)], ''a generated exception payload decoder'')])
         (md_Exceptions m))
     @ concat (map (\<lambda>p.
         [(codecName ''encreq'' [declaredName (pc_Decl p)], ''a generated request encoder''),
          (codecName ''decresp'' [declaredName (pc_Decl p)], ''a generated response decoder'')]) (md_Procs m))"

fun typeIdentifiers :: "Names \<Rightarrow> type_decls \<Rightarrow> TypeExpr \<Rightarrow> scope"
and fieldIdentifiers :: "Names \<Rightarrow> type_decls \<Rightarrow> Field \<Rightarrow> scope" where
  "typeIdentifiers names types (PrimType d k sp) =
     [(if k = TokBytes then ''byte'' else kindString k,
       ''the predeclared '' @ (if k = TokBytes then ''byte'' else kindString k) @ '' type referenced by the caller's result local'')]"
| "typeIdentifiers names types (NamedType d i) =
     [(namedGoType names types (id_name i),
       ''the generated type '' @ namedGoType names types (id_name i) @ '' referenced by the caller's result local'')]"
| "typeIdentifiers names types (ListType d ls t) = typeIdentifiers names types t"
| "typeIdentifiers names types (RecordType d rs lb fs rb) = concat (map (fieldIdentifiers names types) fs)"
| "fieldIdentifiers names types (Field d i t semi) = typeIdentifiers names types t"

definition importParamScope :: "Model \<Rightarrow> ProcRec \<Rightarrow> scope" where
  "importParamScope m p =
     [(bufName, ''the request encoder's buffer parameter''),
      (encErrName, ''the request encoder's error local''),
      (ctxName, ''the caller's context parameter''),
      (connName, ''the caller's connection local''),
      (callErrName, ''the caller's error local''),
      (outName, ''the caller's result local''),
      (excName, ''the caller's exception local''),
      (zeroName, ''the caller's zero-value local''),
      (importBindingName, ''the importBinding singleton variable referenced by the caller''),
      (''intercall'', ''the intercall runtime package referenced by the caller''),
      (''error'', ''the predeclared error type referenced by the request encoder, the caller, and the response-decoder closures''),
      (''byte'', ''the predeclared byte type referenced by the response-decoder closures''),
      (''uint64'', ''the predeclared uint64 type referenced by the response-decoder closures''),
      (''nil'', ''the predeclared nil identifier referenced by the request encoder and the caller''),
      (codecName ''encreq'' [declaredName (pc_Decl p)], ''the request encoder referenced by the caller''),
      (codecName ''decresp'' [declaredName (pc_Decl p)], ''the response decoder referenced by the caller'')]
     @ map (\<lambda>pr. (encCall (tf_Type (pm_Type pr)),
         ''the encoder of a parameter's own wire type, referenced by the request encoder'')) (pc_Params p)
     @ (case pc_Result p of None \<Rightarrow> [] | Some res \<Rightarrow> typeIdentifiers (md_names m) (md_types m) (tf_Type res))"

section \<open>The check\<close>

datatype reserve_error =
    ReservedDecl string string string string
  | ReservedField string string string
  | ReservedParam string string string string

definition checkDecl :: "Model \<Rightarrow> Decl \<Rightarrow> string \<Rightarrow> reserve_error option" where
  "checkDecl m d kind =
     (case nm_Decl (md_names m) (declNode d) of
        None \<Rightarrow> None
      | Some name \<Rightarrow>
          (case reserved (importPackageScope m) name of
             None \<Rightarrow> None
           | Some why \<Rightarrow> Some (ReservedDecl kind (declaredName d) name why)))"

fun firstFailure :: "('a \<Rightarrow> 'e option) \<Rightarrow> 'a list \<Rightarrow> 'e option" where
  "firstFailure f [] = None"
| "firstFailure f (x # xs) = (case f x of Some e \<Rightarrow> Some e | None \<Rightarrow> firstFailure f xs)"

definition checkException :: "Model \<Rightarrow> ExceptionRec \<Rightarrow> reserve_error option" where
  "checkException m x =
     (if IsFixedRuntimeException (declaredName (xr_Decl x)) then None
      else case checkDecl m (xr_Decl x) ''exception'' of
        Some e \<Rightarrow> Some e
      | None \<Rightarrow>
          (case recordFields (declPayload (xr_Decl x)) of
             None \<Rightarrow> None
           | Some fs \<Rightarrow> firstFailure (\<lambda>f.
               if goFieldName (md_names m) f = errorMethodName
               then Some (ReservedField (id_name (fieldName f)) (declaredName (xr_Decl x)) (goFieldName (md_names m) f))
               else None) fs))"

definition checkProc :: "Model \<Rightarrow> ProcRec \<Rightarrow> reserve_error option" where
  "checkProc m p =
     (case checkDecl m (pc_Decl p) ''procedure'' of
        Some e \<Rightarrow> Some e
      | None \<Rightarrow> firstFailure (\<lambda>pr.
          case reserved (importParamScope m p) (pm_GoName pr) of
            None \<Rightarrow> None
          | Some why \<Rightarrow> Some (ReservedParam (id_name (paramName (pm_Decl pr))) (declaredName (pc_Decl p)) (pm_GoName pr) why))
          (pc_Params p))"

definition reserveImportScopes :: "Model \<Rightarrow> reserve_error option" where
  "reserveImportScopes m =
     (case firstFailure (\<lambda>t. checkDecl m (tr_Decl t) ''type'') (md_Types m) of
        Some e \<Rightarrow> Some e
      | None \<Rightarrow>
          (case firstFailure (checkException m) (md_Exceptions m) of
             Some e \<Rightarrow> Some e
           | None \<Rightarrow> firstFailure (checkProc m) (md_Procs m)))"

section \<open>The records of an import\<close>

datatype map_error = MapDepth depth_error | MapFixed depth_error | MapNames override_error | MapReserved reserve_error

definition MapImport :: "unicode_tables \<Rightarrow> 'a ifile_scheme \<Rightarrow> Override list \<Rightarrow> map_error + Model" where
  "MapImport U fl overrides =
     (case checkSyntaxProjectionDepth fl of
        Some e \<Rightarrow> Inl (MapDepth e)
      | None \<Rightarrow>
          (case checkImportFixed fl of
             Some e \<Rightarrow> Inl (MapFixed e)
           | None \<Rightarrow>
               (case buildModel U fl overrides of
                  Inl e \<Rightarrow> Inl (MapNames e)
                | Inr m \<Rightarrow> (case reserveImportScopes m of Some e \<Rightarrow> Inl (MapReserved e) | None \<Rightarrow> Inr m))))"

end
