(* ===== verification/Generated_Codecs.thy ===== *)
theory Generated_Codecs
  imports Type_Keys Import_Mapping
begin

text \<open>
  The codec pairs generated for a parsed and validated interface implement the wire format: from
  the source text through names and emission to the runs of the emitted functions.
\<close>

section \<open>The environment of a file\<close>

lemma wireType_prim:
  "wireType t \<Longrightarrow> primTyped t"
  "wireField f \<Longrightarrow> primField f"
  by (induction t and f rule: wireType_wireField.induct) (auto simp: list_all_iff)

lemma addType_named:
  "namedType (fold addType ds types) n = (case map_of (typeTable ds) n of Some t \<Rightarrow> Some t | None \<Rightarrow> namedType types n)"
proof (induction ds arbitrary: types)
  case (Cons d ds)
  then show ?case
    by (cases d) (auto simp: namedType_def update_conv' map_add_def split: option.splits)
qed simp

lemma addType_keys: "fst ` set (fold addType ds types) = fst ` set types \<union> typeDeclNames ds"
proof (induction ds arbitrary: types)
  case (Cons d ds)
  then show ?case
    by (cases d) (auto simp: typeDeclNames_def declaredName_def dom_update)
qed (simp add: typeDeclNames_def)

lemma scopedEnv_distinct: "scopedEnv env \<Longrightarrow> distinct (map fst env)"
  by (induction env rule: scopedEnv.induct) auto

text \<open>The type declarations of a file, in the order of \<open>typeTable\<close>: each one after its users.\<close>

abbreviation fileEnv :: "'a ifile_scheme \<Rightarrow> type_env" where
  "fileEnv fl \<equiv> typeTable (fi_decls fl)"

lemma typeTable_types: "(n, t) \<in> set (typeTable ds) \<Longrightarrow> \<exists>d \<in> set ds. t \<in> set (declTypes d)"
proof (induction ds)
  case (Cons d ds)
  then show ?case by (cases d) auto
qed simp

lemma file_env:
  assumes "Parse name src = Inr fl" "Validate fl = None"
  shows "envOf (fold addType (fi_decls fl) []) (fileEnv fl)"
    and "d \<in> set (fi_decls fl) \<Longrightarrow> t \<in> set (declTypes d) \<Longrightarrow> typedIn (fileEnv fl) t"
proof -
  let ?ds = "fi_decls fl"
  from assms(2) have "validInterface ?ds" by (simp add: Validate_valid)
  note valid = valid_scoped [OF this]
  from valid have sc: "scopedEnv (typeTable ?ds)" by blast
  have "length (typeTable ?ds) = card (fst ` set (typeTable ?ds))"
    using distinct_card [OF scopedEnv_distinct [OF sc]] by simp
  also have "\<dots> = card (fst ` set (fold addType ?ds []))" by (simp add: addType_keys typeTable_names)
  also have "\<dots> \<le> length (fold addType ?ds [])" using card_length [of "map fst (fold addType ?ds [])"] by simp
  finally have len: "length (typeTable ?ds) \<le> length (fold addType ?ds [])" .
  have "namedType (fold addType ?ds []) n = Some t \<and> primTyped t" if "lookupBefore (typeTable ?ds) n = Some (t, env')" for n t env'
  proof -
    from that have "map_of (typeTable ?ds) n = Some t" by (rule lookupBefore_table)
    moreover from this have "primTyped t"
      using typeTable_types [OF map_of_SomeD] parsed_wireType [OF assms(1)] wireType_prim(1) by blast
    ultimately show ?thesis by (simp add: addType_named)
  qed
  with sc len show "envOf (fold addType ?ds []) (typeTable ?ds)" by (simp add: envOf_def)
  show "typedIn (typeTable ?ds) t" if d: "d \<in> set ?ds" "t \<in> set (declTypes d)"
  proof -
    have "fst ` set (concat (map depthRoots ?ds)) = \<Union> (set ` declTypes ` set ?ds)"
      by (auto simp: image_UN simp flip: depthRoots_types)
    with d have "t \<in> fst ` set (concat (map depthRoots ?ds))" by blast
    with valid have "typeNames t \<subseteq> fst ` set (typeTable ?ds)" unfolding typeTable_names by blast
    with parsed_wireType [OF assms(1) d] wireType_prim(1) show ?thesis by (simp add: typedIn_def)
  qed
qed

section \<open>Names of fields\<close>

definition fieldNames_of :: "'a ifile_scheme \<Rightarrow> Field set" where
  "fieldNames_of fl = (\<Union>d \<in> set (fi_decls fl). \<Union>t \<in> set (declTypes d). set (fieldsOf t))"

lemma fieldsApart_cong:
  "\<forall>f \<in> set (fieldsOf t). g f = h f \<Longrightarrow> fieldsApart g t = fieldsApart h t"
  "\<forall>f \<in> set (belowField fld). g f = h f \<Longrightarrow> belowApart g fld = belowApart h fld"
proof (induction g t and g fld rule: fieldsApart_belowApart.induct)
  case (4 g d rs lb fs rb)
  then have "map g fs = map h fs" by (auto simp: belowField_type)
  moreover from 4 have "list_all (belowApart g) fs = list_all (belowApart h) fs" by (auto simp: list_all_iff)
  ultimately show ?case by (simp only: fieldsApart.simps)
qed auto

lemma fieldTargets_all: "f \<in> set (fieldsOf t) \<Longrightarrow> \<exists>tg \<in> set (fieldTargets sel d p t). tg_Field tg = Some f"
  by (force simp: fieldTargets_def fieldPaths_fields(1) [symmetric])

lemma declTargets_all_fields:
  assumes "declTargets d \<noteq> []" "t \<in> set (declTypes d)" "f \<in> set (fieldsOf t)"
  shows "\<exists>tg \<in> set (declTargets d). tg_Field tg = Some f"
proof (cases d)
  case (TypeDecl dd kw i u semi)
  with assms fieldTargets_all [of f t] show ?thesis by (auto simp: Let_def)
next
  case (ExceptionDecl dd kw i ot semi)
  with assms fieldTargets_all [of f t] show ?thesis by (auto simp: Let_def split: option.splits if_splits)
next
  case (ProcDecl dd kw i lb ps rb res semi)
  with assms(2) consider p where "p \<in> set ps" "t = paramType p" | "res = Some t" by (auto split: option.splits)
  then show ?thesis
  proof cases
    case (1 p)
    with fieldTargets_all [OF assms(3), of _ d "Some p"] ProcDecl show ?thesis
      by (fastforce simp: Let_def paramTargets_def)
  next
    case 2
    with fieldTargets_all [OF assms(3)] ProcDecl show ?thesis by (auto simp: Let_def)
  qed
qed

lemma fixedLoop_None: "fixedLoop f ds = None \<longleftrightarrow> (\<forall>d \<in> set ds. fixedDecl f d = None)"
  by (induction ds) (auto split: option.splits)

lemma default_names:
  assumes "Parse name src = Inr fl" "Validate fl = None" "checkImportFixed fl = None" "ProjectNames U fl [] = Inr n"
    and d: "d \<in> set (fi_decls fl)" and t: "t \<in> set (declTypes d)"
  shows "\<forall>f \<in> set (fieldsOf t). Some (goFieldName n f) = goName U None False (id_name (fieldName f)) PascalCase"
    and "fieldsApart (\<lambda>f. Some (goFieldName n f)) t"
proof -
  have "ParseOverrides U [] = Inr []" by simp
  from ProjectNames_names [OF assms(1,2) this assms(4)] obtain tab where
    n: "n = foldl (assignTarget U tab) emptyNames (generated fl)" and named: "list_all (declNamed U tab) (fi_decls fl)"
    and over: "\<And>tg. tg \<in> set (generated fl) \<Longrightarrow> nameAt tab tg = None"
    by (auto simp: overrideOf_def)
  have nonempty: "declTargets d \<noteq> []"
  proof
    assume "declTargets d = []"
    then obtain dd kw i ot semi where "d = ExceptionDecl dd kw i ot semi" "IsFixedRuntimeException (id_name i)"
      by (cases d) (auto simp: Let_def split: if_splits)
    moreover from assms(3) d have "fixedDecl fl d = None" by (simp add: checkImportFixed_def fixedLoop_None)
    ultimately show False using t by (auto split: if_splits)
  qed
  have field: "goField U tab f = Some (goFieldName n f) \<and> goField U tab f = goName U None False (id_name (fieldName f)) PascalCase"
    if "f \<in> set (fieldsOf t)" for f
  proof -
    from declTargets_all_fields [OF nonempty t that] d obtain tg where
      tg: "tg \<in> set (declTargets d)" "tg_Field tg = Some f" "tg \<in> set (generated fl)" by (auto simp: generated_def)
    from nameAt_assignAll(2) [OF generated_nodes [OF assms(1)] tg(3), of U tab emptyNames] named d tg(1,2)
    have "nm_Field n (fieldNode f) = goField U tab f" by (force simp: n nameAt_def goTarget_def list_all_iff declNamed_def)
    moreover from named d tg(1,2) have "goField U tab f \<noteq> None" by (force simp: list_all_iff declNamed_def goTarget_def)
    moreover from over [OF tg(3)] tg(2) have "nm_Field tab (fieldNode f) = None" by (simp add: nameAt_def)
    ultimately show ?thesis by (auto simp: goFieldName_def goField_def)
  qed
  then show "\<forall>f \<in> set (fieldsOf t). Some (goFieldName n f) = goName U None False (id_name (fieldName f)) PascalCase" by metis
  from named d t nonempty have "fieldsApart (goField U tab) t" by (auto simp: list_all_iff declNamed_def)
  with fieldsApart_cong(1) [of t "goField U tab" "\<lambda>f. Some (goFieldName n f)"] field
  show "fieldsApart (\<lambda>f. Some (goFieldName n f)) t" by auto
qed

lemma shape_apart:
  "envOf types env \<Longrightarrow> typedIn env t \<Longrightarrow> \<forall>(m, u) \<in> set env. fieldsApart (\<lambda>f. Some (goFieldName names f)) u \<Longrightarrow>
     fieldsApart (\<lambda>f. Some (goFieldName names f)) t \<Longrightarrow> apart (shapeOf names env t)"
  "envOf types env \<Longrightarrow> list_all (fieldTyped env) fs \<Longrightarrow> \<forall>(m, u) \<in> set env. fieldsApart (\<lambda>f. Some (goFieldName names f)) u \<Longrightarrow>
     list_all (belowApart (\<lambda>f. Some (goFieldName names f))) fs \<Longrightarrow> list_all (\<lambda>(f, s). apart s) (fieldShapes names env fs)"
proof (induction names env t and names env fs rule: shapeOf_fieldShapes.induct)
  case (2 names env d i)
  from "2.prems"(2) lookup_some obtain t env' where l: "lookupBefore env (id_name i) = Some (t, env')" by fastforce
  from lookupBefore_split [OF l] have "(id_name i, t) \<in> set env" "set env' \<subseteq> set env" by auto
  with envOf_lookup [OF "2.prems"(1) l] "2.IH" [OF l refl] "2.prems"(3) show ?case by (auto simp: l)
next
  case (4 names env d rs lb fs rb)
  have "distinct (map (\<lambda>f. Some (goFieldName names f)) fs) = distinct (map (goFieldName names) fs)"
    by (simp add: distinct_map inj_on_def)
  with 4 show ?case by (simp add: shape_names)
qed (auto simp: fieldTyped_def belowApart_type)

section \<open>Registration\<close>

definition anonKeys :: "codecEmitter \<Rightarrow> string set" where
  "anonKeys e = fst ` set (em_anon e)"

definition registered :: "(TypeExpr \<Rightarrow> bool) \<Rightarrow> codecEmitter \<Rightarrow> bool" where
  "registered Q e \<longleftrightarrow> set (em_order e) = anonKeys e
     \<and> (\<forall>(k, t) \<in> set (em_anon e). k = typeKeyOf t \<and> isAnonymousType t \<and> Q t)"

definition hereditary :: "(TypeExpr \<Rightarrow> bool) \<Rightarrow> bool" where
  "hereditary Q \<longleftrightarrow> (\<forall>d ls t. Q (ListType d ls t) \<longrightarrow> Q t)
     \<and> (\<forall>d rs lb fs rb. Q (RecordType d rs lb fs rb) \<longrightarrow> (\<forall>f \<in> set fs. Q (fieldType f)))"

lemma hereditary_list: "hereditary Q \<Longrightarrow> Q (ListType d ls t) \<Longrightarrow> Q t"
  unfolding hereditary_def by blast

lemma hereditary_record: "hereditary Q \<Longrightarrow> Q (RecordType d rs lb fs rb) \<Longrightarrow> \<forall>f \<in> set fs. Q (fieldType f)"
  unfolding hereditary_def by metis

definition grows :: "(TypeExpr \<Rightarrow> bool) \<Rightarrow> (codecEmitter \<Rightarrow> codecEmitter) \<Rightarrow> bool" where
  "grows Q f \<longleftrightarrow> (\<forall>e. registered Q e \<longrightarrow> registered Q (f e) \<and> anonKeys e \<subseteq> anonKeys (f e))"

definition adds :: "(TypeExpr \<Rightarrow> bool) \<Rightarrow> string \<Rightarrow> (codecEmitter \<Rightarrow> codecEmitter) \<Rightarrow> bool" where
  "adds Q k f \<longleftrightarrow> grows Q f \<and> (\<forall>e. registered Q e \<longrightarrow> k \<in> anonKeys (f e))"

lemma grows_id: "grows Q (\<lambda>e. e)"
  by (simp add: grows_def)

lemma grows_comp: "grows Q f \<Longrightarrow> grows Q g \<Longrightarrow> grows Q (\<lambda>e. g (f e))"
  unfolding grows_def by blast

lemma adds_first: "adds Q k f \<Longrightarrow> grows Q g \<Longrightarrow> adds Q k (\<lambda>e. g (f e))"
  unfolding adds_def grows_def by blast

lemma adds_later: "grows Q f \<Longrightarrow> adds Q k g \<Longrightarrow> adds Q k (\<lambda>e. g (f e))"
  unfolding adds_def grows_def by blast

lemma grows_fold: "\<forall>x \<in> set xs. grows Q (f x) \<Longrightarrow> grows Q (fold f xs)"
  by (induction xs) (auto simp: comp_def id_def grows_id intro: grows_comp)

lemma adds_fold: "\<forall>x \<in> set xs. grows Q (f x) \<Longrightarrow> x \<in> set xs \<Longrightarrow> adds Q k (f x) \<Longrightarrow> adds Q k (fold f xs)"
proof (induction xs)
  case (Cons y ys)
  show ?case
  proof (cases "x = y")
    case True
    with Cons.prems show ?thesis by (auto simp: comp_def intro: adds_first grows_fold)
  next
    case False
    with Cons show ?thesis by (auto simp: comp_def intro: adds_later)
  qed
qed simp

text \<open>Adding one anonymous type, before what is nested in it.\<close>

lemma registered_add:
  assumes "registered Q e" "isAnonymousType t" "Q t"
  shows "registered Q (e\<lparr>em_anon := (typeKeyOf t, t) # em_anon e, em_order := em_order e @ [typeKeyOf t]\<rparr>)
    \<and> anonKeys (e\<lparr>em_anon := (typeKeyOf t, t) # em_anon e, em_order := em_order e @ [typeKeyOf t]\<rparr>)
        = insert (typeKeyOf t) (anonKeys e)"
  using assms by (auto simp: registered_def anonKeys_def)

lemma map_of_keys: "map_of (em_anon e) k \<noteq> None \<longleftrightarrow> k \<in> anonKeys e"
  by (simp add: anonKeys_def map_of_eq_None_iff)

lemma registerType_adds:
  assumes h: "hereditary Q"
  shows "Q t \<Longrightarrow> registered Q e \<Longrightarrow> registered Q (registerType t e) \<and> anonKeys e \<subseteq> anonKeys (registerType t e)
      \<and> (isAnonymousType t \<longrightarrow> typeKeyOf t \<in> anonKeys (registerType t e))"
    and "Q (fieldType f) \<Longrightarrow> registered Q e \<Longrightarrow> registered Q (registerField f e) \<and> anonKeys e \<subseteq> anonKeys (registerField f e)"
proof (induction t e and f e rule: registerType_registerField.induct)
  case (3 d ls t e)
  let ?t = "ListType d ls t"
  show ?case
  proof (cases "map_of (em_anon e) (typeKeyOf ?t) \<noteq> None")
    case True
    then have "typeKeyOf ?t \<in> anonKeys e" by (simp only: map_of_keys)
    with True "3.prems" show ?thesis by (simp add: Let_def del: typeKeyOf.simps)
  next
    case False
    from registered_add [OF "3.prems"(2) _ "3.prems"(1)] have add:
      "registered Q (e\<lparr>em_anon := (typeKeyOf ?t, ?t) # em_anon e, em_order := em_order e @ [typeKeyOf ?t]\<rparr>)"
      "anonKeys (e\<lparr>em_anon := (typeKeyOf ?t, ?t) # em_anon e, em_order := em_order e @ [typeKeyOf ?t]\<rparr>)
        = insert (typeKeyOf ?t) (anonKeys e)" by (simp_all del: typeKeyOf.simps)
    from h "3.prems"(1) have "Q t" by (rule hereditary_list)
    from "3.IH" [OF refl False this add(1)] add(2) False show ?thesis by (auto simp: Let_def simp del: typeKeyOf.simps)
  qed
next
  case (4 d rs lb fs rb e)
  let ?t = "RecordType d rs lb fs rb"
  show ?case
  proof (cases "map_of (em_anon e) (typeKeyOf ?t) \<noteq> None")
    case True
    then have "typeKeyOf ?t \<in> anonKeys e" by (simp only: map_of_keys)
    with True "4.prems" show ?thesis by (simp add: Let_def del: typeKeyOf.simps)
  next
    case False
    let ?e = "e\<lparr>em_anon := (typeKeyOf ?t, ?t) # em_anon e, em_order := em_order e @ [typeKeyOf ?t]\<rparr>"
    from registered_add [OF "4.prems"(2) _ "4.prems"(1)] have add: "registered Q ?e"
      "anonKeys ?e = insert (typeKeyOf ?t) (anonKeys e)" by (simp_all del: typeKeyOf.simps)
    from h "4.prems"(1) have fs: "\<forall>f \<in> set fs. Q (fieldType f)" by (rule hereditary_record)
    with "4.IH" [OF refl False] have "\<forall>f \<in> set fs. grows Q (registerField f)" by (auto simp: grows_def)
    from grows_fold [OF this] add False show ?thesis by (auto simp: Let_def grows_def simp del: typeKeyOf.simps)
  qed
qed simp_all

lemma registerType_grows: "hereditary Q \<Longrightarrow> Q t \<Longrightarrow> grows Q (registerType t)"
  using registerType_adds(1) by (simp add: grows_def)

lemma registerAnonymous_adds:
  assumes "hereditary Q" "Q (tf_Type tf)"
  shows "grows Q (registerAnonymous tf)"
    and "isAnonymousType (tf_Type tf) \<Longrightarrow> adds Q (typeKeyOf (tf_Type tf)) (registerAnonymous tf)"
proof -
  note reg = registerType_adds(1) [OF assms]
  show "grows Q (registerAnonymous tf)" using reg by (simp add: grows_def registerAnonymous_def)
  then show "isAnonymousType (tf_Type tf) \<Longrightarrow> adds Q (typeKeyOf (tf_Type tf)) (registerAnonymous tf)"
    using reg by (simp add: adds_def registerAnonymous_def)
qed

lemma registerUnderlying_grows:
  assumes h: "hereditary Q" and t: "Q t"
  shows "grows Q (registerUnderlying t)"
proof (cases t)
  case (ListType d ls u)
  with h t hereditary_list have "Q u" by blast
  from registerType_grows [OF h this] ListType show ?thesis by (simp add: grows_def)
next
  case (RecordType d rs lb fs rb)
  with h t hereditary_record have fs: "\<forall>f \<in> set fs. Q (fieldType f)" by blast
  then have "\<forall>f \<in> set fs. grows Q (registerField f)" using registerType_adds(2) [OF h] by (simp add: grows_def)
  from grows_fold [OF this] RecordType show ?thesis by (simp add: grows_def)
qed (simp_all add: grows_def)

lemma registerOpt_adds:
  assumes "hereditary Q" "\<And>tf. opt = Some tf \<Longrightarrow> Q (tf_Type tf)"
  shows "grows Q (registerOpt opt)"
    and "opt = Some tf \<Longrightarrow> isAnonymousType (tf_Type tf) \<Longrightarrow> adds Q (typeKeyOf (tf_Type tf)) (registerOpt opt)"
  using registerAnonymous_adds [OF assms(1)] assms(2)
  by (cases opt; simp add: registerOpt_def [abs_def] grows_id)+

section \<open>The records of a model\<close>

definition typeRecOf :: "Names \<Rightarrow> type_decls \<Rightarrow> Decl \<Rightarrow> TypeRec" where
  "typeRecOf names types d =
     \<lparr>tr_Decl = d, tr_GoName = goDeclName names d,
      tr_ZeroWidth = (case declUnderlying d of None \<Rightarrow> False | Some t \<Rightarrow> zeroWidth types t)\<rparr>"

text \<open>The types of payloads, parameters and results, which have codec calls of their own.\<close>

fun calledTypes :: "Decl \<Rightarrow> TypeExpr list" where
  "calledTypes (TypeDecl d kw i t semi) = []"
| "calledTypes (ExceptionDecl d kw i ot semi) = (case ot of None \<Rightarrow> [] | Some t \<Rightarrow> [t])"
| "calledTypes (ProcDecl d kw i lb ps rb res semi) = map paramType ps @ (case res of None \<Rightarrow> [] | Some t \<Rightarrow> [t])"

definition procTypes :: "ProcRec \<Rightarrow> TypeExpr set" where
  "procTypes p = (tf_Type \<circ> pm_Type) ` set (pc_Params p) \<union> tf_Type ` set_option (pc_Result p)"

definition factTypes :: "Model \<Rightarrow> TypeExpr set" where
  "factTypes m = (\<Union>x \<in> set (md_Exceptions m). tf_Type ` set_option (xr_Payload x)) \<union> (\<Union>p \<in> set (md_Procs m). procTypes p)"

lemma calledTypes_decl: "t \<in> set (calledTypes d) \<Longrightarrow> t \<in> set (declTypes d)"
  by (cases d) (auto split: option.splits)

lemma addRec_model:
  "md_names (addRec d m) = md_names m \<and> md_types (addRec d m) = md_types m
   \<and> set (md_Types (addRec d m)) = set (md_Types m) \<union> (if declUnderlying d = None then {} else {typeRecOf (md_names m) (md_types m) d})
   \<and> factTypes (addRec d m) = factTypes m \<union> set (calledTypes d)"
  by (cases d) (auto simp: Let_def typeRecOf_def factTypes_def procTypes_def paramRec_def typeFact_def image_image
      split: option.splits)

lemma fold_addRec:
  "md_names (fold addRec ds m) = md_names m \<and> md_types (fold addRec ds m) = md_types m
   \<and> set (md_Types (fold addRec ds m))
       = set (md_Types m) \<union> typeRecOf (md_names m) (md_types m) ` {d \<in> set ds. declUnderlying d \<noteq> None}
   \<and> factTypes (fold addRec ds m) = factTypes m \<union> (\<Union>d \<in> set ds. set (calledTypes d))"
proof (induction ds arbitrary: m)
  case (Cons d ds)
  note step = addRec_model [of d m] and rest = Cons.IH [of "addRec d m"]
  have "typeRecOf (md_names m) (md_types m) ` {d' \<in> set (d # ds). declUnderlying d' \<noteq> None}
      = (if declUnderlying d = None then {} else {typeRecOf (md_names m) (md_types m) d})
        \<union> typeRecOf (md_names m) (md_types m) ` {d \<in> set ds. declUnderlying d \<noteq> None}" by auto
  with step rest show ?case by (simp only: fold_Cons comp_def list.set UN_insert) (simp add: Un_assoc)
qed simp

lemma buildModel_records:
  assumes "buildModel U fl overrides = Inr m"
  shows "ProjectNames U fl overrides = Inr (md_names m)" "md_types m = fold addType (fi_decls fl) []"
    and "set (md_Types m) = typeRecOf (md_names m) (md_types m) ` {d \<in> set (fi_decls fl). declUnderlying d \<noteq> None}"
    and "factTypes m = (\<Union>d \<in> set (fi_decls fl). set (calledTypes d))"
proof -
  from assms obtain names where names: "ProjectNames U fl overrides = Inr names"
    and m: "m = fold addRec (fi_decls fl) \<lparr>md_Types = [], md_Exceptions = [], md_Procs = [], md_names = names,
      md_types = fold addType (fi_decls fl) []\<rparr>" by (auto simp: buildModel_def split: sum.splits)
  let ?m0 = "\<lparr>md_Types = [], md_Exceptions = [], md_Procs = [], md_names = names, md_types = fold addType (fi_decls fl) []\<rparr>"
  have "factTypes ?m0 = {}" by (simp add: factTypes_def)
  with fold_addRec [of "fi_decls fl" ?m0] names
  show "ProjectNames U fl overrides = Inr (md_names m)" "md_types m = fold addType (fi_decls fl) []"
    "set (md_Types m) = typeRecOf (md_names m) (md_types m) ` {d \<in> set (fi_decls fl). declUnderlying d \<noteq> None}"
    "factTypes m = (\<Union>d \<in> set (fi_decls fl). set (calledTypes d))"
    unfolding m by simp_all
qed

lemma register_covers:
  assumes h: "hereditary Q" and types: "\<And>r u. r \<in> set (md_Types m) \<Longrightarrow> declUnderlying (tr_Decl r) = Some u \<Longrightarrow> Q u"
    and facts: "\<And>t. t \<in> factTypes m \<Longrightarrow> Q t"
  shows "registered Q (register m newCodecEmitter)"
    and "t \<in> factTypes m \<Longrightarrow> isAnonymousType t \<Longrightarrow> typeKeyOf t \<in> anonKeys (register m newCodecEmitter)"
proof -
  let ?types = "fold (\<lambda>t e. case declUnderlying (tr_Decl t) of None \<Rightarrow> e | Some u \<Rightarrow> registerUnderlying u e) (md_Types m)"
  let ?excs = "fold (\<lambda>x. registerOpt (xr_Payload x)) (md_Exceptions m)"
  let ?params = "\<lambda>p. fold (\<lambda>pr. registerAnonymous (pm_Type pr)) (pc_Params p)"
  let ?proc = "\<lambda>p e. registerOpt (pc_Result p) (?params p e)"
  have param: "Q (tf_Type (pm_Type pr))" if "p \<in> set (md_Procs m)" "pr \<in> set (pc_Params p)" for p pr
    using facts that by (force simp: factTypes_def procTypes_def)
  have res: "Q (tf_Type tf)" if "p \<in> set (md_Procs m)" "pc_Result p = Some tf" for p tf
    using facts that by (force simp: factTypes_def procTypes_def)
  have payload: "Q (tf_Type tf)" if "x \<in> set (md_Exceptions m)" "xr_Payload x = Some tf" for x tf
    using facts that by (force simp: factTypes_def)
  have "grows Q (\<lambda>e. case declUnderlying (tr_Decl r) of None \<Rightarrow> e | Some u \<Rightarrow> registerUnderlying u e)"
    if "r \<in> set (md_Types m)" for r
    using registerUnderlying_grows [OF h] types [OF that] grows_id by (cases "declUnderlying (tr_Decl r)") auto
  then have g1: "grows Q ?types" by (intro grows_fold) blast
  have x: "grows Q (registerOpt (xr_Payload x))" if "x \<in> set (md_Exceptions m)" for x
    using registerOpt_adds(1) [OF h payload [OF that]] by blast
  then have g2: "grows Q ?excs" by (intro grows_fold) blast
  have ps: "grows Q (?params p)" if "p \<in> set (md_Procs m)" for p
    using registerAnonymous_adds(1) [OF h param [OF that]] by (intro grows_fold) blast
  have r: "grows Q (registerOpt (pc_Result p))" if "p \<in> set (md_Procs m)" for p
    using registerOpt_adds(1) [OF h res [OF that]] by blast
  have p: "grows Q (?proc p)" if "p \<in> set (md_Procs m)" for p using grows_comp [OF ps r] that by blast
  then have g3: "grows Q (fold ?proc (md_Procs m))" by (intro grows_fold) blast
  have reg: "register m = (\<lambda>e. fold ?proc (md_Procs m) (?excs (?types e)))" by (rule ext) (simp add: register_def)
  have start: "registered Q newCodecEmitter" by (simp add: registered_def newCodecEmitter_def anonKeys_def)
  with grows_comp [OF grows_comp [OF g1 g2] g3] show "registered Q (register m newCodecEmitter)"
    by (simp add: grows_def reg)
  assume t: "t \<in> factTypes m" "isAnonymousType t"
  have "adds Q (typeKeyOf t) (register m)"
  proof (cases "\<exists>x \<in> set (md_Exceptions m). t \<in> tf_Type ` set_option (xr_Payload x)")
    case True
    then obtain x tf where x': "x \<in> set (md_Exceptions m)" "xr_Payload x = Some tf" "t = tf_Type tf" by force
    with t registerOpt_adds(2) [OF h payload [OF x'(1)]] have "adds Q (typeKeyOf t) (registerOpt (xr_Payload x))" by blast
    note one = this
    from x have "\<forall>x \<in> set (md_Exceptions m). grows Q (registerOpt (xr_Payload x))" by blast
    from adds_fold [OF this x'(1) one] have "adds Q (typeKeyOf t) ?excs" .
    from adds_first [OF adds_later [OF g1 this] g3] show ?thesis by (simp add: reg)
  next
    case False
    with t(1) obtain p' where p': "p' \<in> set (md_Procs m)" "t \<in> procTypes p'" by (auto simp: factTypes_def)
    have added: "adds Q (typeKeyOf t) (?proc p')"
    proof (cases "t \<in> tf_Type ` set_option (pc_Result p')")
      case True
      with t(2) registerOpt_adds(2) [OF h res [OF p'(1)]] have "adds Q (typeKeyOf t) (registerOpt (pc_Result p'))" by force
      from adds_later [OF ps [OF p'(1)] this] show ?thesis .
    next
      case False
      with p'(2) obtain pr where pr: "pr \<in> set (pc_Params p')" "t = tf_Type (pm_Type pr)" by (auto simp: procTypes_def)
      from registerAnonymous_adds(2) [OF h param [OF p'(1) pr(1)]] t(2) pr(2)
      have "adds Q (typeKeyOf t) (registerAnonymous (pm_Type pr))" by simp
      note one = this
      have "\<forall>pr \<in> set (pc_Params p'). grows Q (registerAnonymous (pm_Type pr))"
        using registerAnonymous_adds(1) [OF h param [OF p'(1)]] by blast
      from adds_fold [OF this pr(1) one] have "adds Q (typeKeyOf t) (?params p')" .
      from adds_first [OF this r [OF p'(1)]] show ?thesis .
    qed
    from p have "\<forall>p \<in> set (md_Procs m). grows Q (?proc p)" by blast
    from adds_fold [OF this p'(1) added] have "adds Q (typeKeyOf t) (fold ?proc (md_Procs m))" .
    from adds_later [OF grows_comp [OF g1 g2] this] show ?thesis by (simp add: reg)
  qed
  with start show "typeKeyOf t \<in> anonKeys (register m newCodecEmitter)" by (simp add: adds_def)
qed

section \<open>The emitted pairs\<close>

lemma mem_map_filter: "y \<in> set (List.map_filter f xs) \<longleftrightarrow> (\<exists>x \<in> set xs. f x = Some y)"
  by (force simp: List.map_filter_def)

lemma find_all:
  assumes "x \<in> set xs" "P x" "\<And>y. y \<in> set xs \<Longrightarrow> P y \<Longrightarrow> R y"
  shows "\<exists>y. find P xs = Some y \<and> R y"
proof (cases "find P xs")
  case None
  with assms(1,2) show ?thesis by (auto simp: find_None_iff)
next
  case (Some y)
  then have "y \<in> set xs \<and> P y" by (auto simp: find_Some_iff)
  with Some assms(3) show ?thesis by blast
qed

lemma typeTable_mem: "(n, t) \<in> set (typeTable ds) \<longleftrightarrow> (\<exists>d \<in> set ds. declUnderlying d = Some t \<and> declaredName d = n)"
proof (induction ds)
  case (Cons d ds)
  then show ?case by (cases d) (auto simp: declaredName_def)
qed simp

lemma declUnderlying_decl: "declUnderlying d = Some t \<Longrightarrow> t \<in> set (declTypes d)"
  by (cases d) auto

lemma emitPair_parts [simp]: "cp_parts (emitPair names types parts gt t zero) = parts"
  by (simp add: emitPair_def)

lemma emitPairs_mem:
  "p \<in> set (emitPairs m) \<longleftrightarrow> p \<in> primPair ` set primitiveKinds
     \<or> (\<exists>r \<in> set (md_Types m). emitNamedPair m r = Some p)
     \<or> (\<exists>akey \<in> set (em_order (register m newCodecEmitter)). emitAnonPair m (register m newCodecEmitter) akey = Some p)"
  by (auto simp: emitPairs_def Let_def mem_map_filter)

text \<open>What an import's model says of the types of the file.\<close>

definition importModel :: "unicode_tables \<Rightarrow> ifile \<Rightarrow> Model \<Rightarrow> bool" where
  "importModel U fl m \<longleftrightarrow> (\<exists>name src. Parse name src = Inr fl) \<and> Validate fl = None \<and> checkImportFixed fl = None
     \<and> buildModel U fl [] = Inr m"

definition importType :: "ifile \<Rightarrow> Model \<Rightarrow> TypeExpr \<Rightarrow> bool" where
  "importType fl m t \<longleftrightarrow> typedIn (fileEnv fl) t \<and> apart (shapeOf (md_names m) (fileEnv fl) t)
     \<and> wireType t \<and> set (fieldsOf t) \<subseteq> fieldNames_of fl"

lemma importType_hereditary: "hereditary (importType fl m)"
proof -
  have "importType fl m t" if "importType fl m (ListType d ls t)" for d ls t
    using that by (auto simp: importType_def)
  moreover have "importType fl m (fieldType f)" if t: "importType fl m (RecordType d rs lb fs rb)" and f: "f \<in> set fs" for d rs lb fs rb f
  proof -
    from t f have "fieldTyped (fileEnv fl) f" "wireField f" by (auto simp: importType_def list_all_iff)
    moreover have "apart s" if "(g, s) \<in> set (fieldShapes (md_names m) (fileEnv fl) fs)" for g s
      using t that by (auto simp: importType_def list_all_iff)
    moreover have "(goFieldName (md_names m) f, shapeOf (md_names m) (fileEnv fl) (fieldType f))
        \<in> set (fieldShapes (md_names m) (fileEnv fl) fs)"
      using f by (induction fs) auto
    moreover from t f have "set (fieldsOf (fieldType f)) \<subseteq> fieldNames_of fl"
      by (auto simp: importType_def belowField_type)
    ultimately show ?thesis by (cases f) (auto simp: importType_def fieldTyped_def)
  qed
  ultimately show ?thesis unfolding hereditary_def by blast
qed

lemma importModel_parts:
  assumes "importModel U fl m"
  obtains name src where "Parse name src = Inr fl" "Validate fl = None" "checkImportFixed fl = None"
    "ProjectNames U fl [] = Inr (md_names m)" "buildModel U fl [] = Inr m"
  using assms buildModel_records(1) [of U fl "[]" m] by (auto simp: importModel_def)

lemma import_env: "importModel U fl m \<Longrightarrow> envOf (md_types m) (fileEnv fl)"
  by (elim importModel_parts) (simp add: file_env(1) buildModel_records(2))

lemma import_apart:
  assumes "importModel U fl m" "d \<in> set (fi_decls fl)" "t \<in> set (declTypes d)"
  shows "fieldsApart (\<lambda>f. Some (goFieldName (md_names m) f)) t"
  using assms(1) by (elim importModel_parts) (rule default_names(2) [OF _ _ _ _ assms(2,3)])

lemma import_type:
  assumes im: "importModel U fl m" and d: "d \<in> set (fi_decls fl)" "t \<in> set (declTypes d)"
  shows "importType fl m t"
proof -
  from im obtain name src where src: "Parse name src = Inr fl" "Validate fl = None" by (auto simp: importModel_def)
  have "\<forall>(n, u) \<in> set (fileEnv fl). fieldsApart (\<lambda>f. Some (goFieldName (md_names m) f)) u"
    using import_apart [OF im] typeTable_types by blast
  from shape_apart(1) [OF import_env [OF im] file_env(2) [OF src d] this import_apart [OF im d]]
    file_env(2) [OF src d] parsed_wireType [OF src(1) d] d
  show ?thesis by (auto simp: importType_def fieldNames_of_def)
qed

text \<open>Types that share a pair have one shape: without renamings a field's name depends on its wire name alone.\<close>

lemma import_shared:
  assumes im: "importModel U fl m" and t: "importType fl m t" "importType fl m u" and same: "typeKeyOf t = typeKeyOf u"
  shows "shapeOf (md_names m) (fileEnv fl) u = shapeOf (md_names m) (fileEnv fl) t"
proof -
  from im obtain name src where src: "Parse name src = Inr fl" "Validate fl = None" "checkImportFixed fl = None"
    "ProjectNames U fl [] = Inr (md_names m)" by (elim importModel_parts)
  have "goFieldName (md_names m) f = the (goName U None False (id_name (fieldName f)) PascalCase)" if "f \<in> fieldNames_of fl" for f
  proof -
    from that obtain d t where "d \<in> set (fi_decls fl)" "t \<in> set (declTypes d)" "f \<in> set (fieldsOf t)"
      by (auto simp: fieldNames_of_def)
    from default_names(1) [OF src this(1,2)] this(3) show ?thesis by (metis option.sel)
  qed
  from sameWire_shape(1) [OF this] typeKeyOf_sameWire [OF _ _ same] t show ?thesis by (auto simp: importType_def)
qed

lemma import_registered:
  assumes im: "importModel U fl m"
  shows "registered (importType fl m) (register m newCodecEmitter)"
    and "d \<in> set (fi_decls fl) \<Longrightarrow> t \<in> set (calledTypes d) \<Longrightarrow> isAnonymousType t \<Longrightarrow>
      typeKeyOf t \<in> anonKeys (register m newCodecEmitter)"
proof -
  from im have b: "buildModel U fl [] = Inr m" by (elim importModel_parts)
  note rec = buildModel_records [OF b]
  have types: "importType fl m u" if "r \<in> set (md_Types m)" "declUnderlying (tr_Decl r) = Some u" for r u
    using that rec(3) import_type [OF im _ declUnderlying_decl] by (auto simp: typeRecOf_def)
  have facts: "importType fl m t" if "t \<in> factTypes m" for t
    using that rec(4) import_type [OF im _ calledTypes_decl] by blast
  show "registered (importType fl m) (register m newCodecEmitter)"
    by (rule register_covers(1) [OF importType_hereditary types facts])
  have covered: "typeKeyOf t \<in> anonKeys (register m newCodecEmitter)" if "t \<in> factTypes m" "isAnonymousType t" for t
    by (rule register_covers(2) [OF importType_hereditary types facts that])
  show "d \<in> set (fi_decls fl) \<Longrightarrow> t \<in> set (calledTypes d) \<Longrightarrow> isAnonymousType t \<Longrightarrow>
      typeKeyOf t \<in> anonKeys (register m newCodecEmitter)"
    using covered rec(4) by blast
qed

lemma import_anon:
  assumes im: "importModel U fl m" and k: "akey \<in> anonKeys (register m newCodecEmitter)"
  obtains t gt where "importType fl m t" "isAnonymousType t" "typeKeyOf t = akey"
    "emitAnonPair m (register m newCodecEmitter) akey = Some (emitPair (md_names m) (md_types m) [akey] gt t (zeroWidth (md_types m) t))"
proof -
  from k obtain t where t: "map_of (em_anon (register m newCodecEmitter)) akey = Some t"
    by (metis map_of_keys not_None_eq)
  from import_registered(1) [OF im] map_of_SomeD [OF t] have "akey = typeKeyOf t" "isAnonymousType t" "importType fl m t"
    unfolding registered_def by auto
  with t that show ?thesis by (simp add: emitAnonPair_def)
qed

lemma import_findPair_prim:
  assumes im: "importModel U fl m" and k: "k \<in> set primitiveKinds"
  shows "findPair (emitPairs m) (primitiveParts k) = Some (primPair k)"
proof -
  have "p = primPair k" if p: "p \<in> set (emitPairs m)" "cp_parts p = primitiveParts k" for p
    using p(1) unfolding emitPairs_mem
  proof (elim disjE bexE)
    assume "p \<in> primPair ` set primitiveKinds"
    then obtain k' where k': "k' \<in> set primitiveKinds" "p = primPair k'" by blast
    with p(2) have "kindString k' = kindString k" by (simp add: primPair_def primitiveParts_def)
    with prim_word [OF k] prim_word [OF k'(1)] have "k' = k" by simp
    with k' show ?thesis by simp
  next
    fix r assume "emitNamedPair m r = Some p"
    with p(2) show ?thesis by (auto simp: emitNamedPair_def primitiveParts_def namedParts_def split: option.splits)
  next
    fix akey assume a: "akey \<in> set (em_order (register m newCodecEmitter))"
      "emitAnonPair m (register m newCodecEmitter) akey = Some p"
    from a(1) import_registered(1) [OF im] have "akey \<in> anonKeys (register m newCodecEmitter)" by (simp add: registered_def)
    then obtain t where "isAnonymousType t" "typeKeyOf t = akey" by (rule import_anon [OF im])
    moreover from a(2) p(2) have "akey = kindString k" by (auto simp: emitAnonPair_def primitiveParts_def split: option.splits)
    ultimately show ?thesis using anonymous_key [OF _ k] by blast
  qed
  note all = this
  have "primPair k \<in> set (emitPairs m)" using k by (simp add: emitPairs_mem)
  moreover have "cp_parts (primPair k) = primitiveParts k" by (simp add: primPair_def)
  ultimately have "\<exists>p. find (\<lambda>p. cp_parts p = primitiveParts k) (emitPairs m) = Some p \<and> p = primPair k"
    by (rule find_all) (rule all)
  then show ?thesis unfolding findPair_def by metis
qed

lemma import_findPair_named:
  assumes im: "importModel U fl m" and n: "(n, t) \<in> set (fileEnv fl)"
  shows "\<exists>gt. findPair (emitPairs m) (namedParts n) = Some (emitPair (md_names m) (md_types m) (namedParts n) gt t (zeroWidth (md_types m) t))"
proof -
  from im have b: "buildModel U fl [] = Inr m" by (elim importModel_parts)
  note rec = buildModel_records(3) [OF b]
  from import_env [OF im] have dist: "distinct (map fst (fileEnv fl))" by (simp add: envOf_def scopedEnv_distinct)
  let ?R = "\<lambda>p. \<exists>gt. p = emitPair (md_names m) (md_types m) (namedParts n) gt t (zeroWidth (md_types m) t)"
  have all: "?R p" if p: "p \<in> set (emitPairs m)" "cp_parts p = namedParts n" for p
    using p(1) unfolding emitPairs_mem
  proof (elim disjE bexE)
    fix r assume r: "r \<in> set (md_Types m)" "emitNamedPair m r = Some p"
    with rec obtain d u where d: "d \<in> set (fi_decls fl)" "declUnderlying d = Some u" "r = typeRecOf (md_names m) (md_types m) d"
      by auto
    with r(2) p(2) have "declaredName d = n"
      and p': "p = emitPair (md_names m) (md_types m) (namedParts n) (tr_GoName r) u (zeroWidth (md_types m) u)"
      by (auto simp: emitNamedPair_def typeRecOf_def namedParts_def)
    with d have "(n, u) \<in> set (fileEnv fl)" by (auto simp: typeTable_mem)
    with n dist have "u = t" by (metis map_of_is_SomeI option.inject)
    with p' show ?thesis by blast
  next
    fix akey assume "emitAnonPair m (register m newCodecEmitter) akey = Some p"
    with p(2) show ?thesis by (auto simp: emitAnonPair_def namedParts_def split: option.splits)
  qed (use p(2) in \<open>auto simp: primPair_def primitiveParts_def namedParts_def\<close>)
  from n obtain d where d: "d \<in> set (fi_decls fl)" "declUnderlying d = Some t" "declaredName d = n" by (auto simp: typeTable_mem)
  then have "typeRecOf (md_names m) (md_types m) d \<in> set (md_Types m)" unfolding rec by auto
  moreover from d obtain p where p: "emitNamedPair m (typeRecOf (md_names m) (md_types m) d) = Some p" "cp_parts p = namedParts n"
    by (simp add: emitNamedPair_def typeRecOf_def)
  ultimately have "p \<in> set (emitPairs m)" by (auto simp: emitPairs_mem)
  from find_all [where R = ?R and P = "\<lambda>p. cp_parts p = namedParts n", OF this p(2) all] show ?thesis
    by (auto simp: findPair_def)
qed

lemma import_findPair_anon:
  assumes im: "importModel U fl m" and k: "akey \<in> anonKeys (register m newCodecEmitter)"
  shows "\<exists>t gt. importType fl m t \<and> typeKeyOf t = akey
    \<and> findPair (emitPairs m) [akey] = Some (emitPair (md_names m) (md_types m) [akey] gt t (zeroWidth (md_types m) t))"
proof -
  from k obtain t gt where t: "importType fl m t" "isAnonymousType t" "typeKeyOf t = akey"
    and pair: "emitAnonPair m (register m newCodecEmitter) akey = Some (emitPair (md_names m) (md_types m) [akey] gt t (zeroWidth (md_types m) t))"
    by (rule import_anon [OF im])
  let ?p = "emitPair (md_names m) (md_types m) [akey] gt t (zeroWidth (md_types m) t)"
  have all: "p = ?p" if p: "p \<in> set (emitPairs m)" "cp_parts p = [akey]" for p
    using p(1) unfolding emitPairs_mem
  proof (elim disjE bexE)
    assume "p \<in> primPair ` set primitiveKinds"
    then obtain k where k': "k \<in> set primitiveKinds" "p = primPair k" by blast
    with p(2) t(3) have "typeKeyOf t = kindString k" by (simp add: primPair_def primitiveParts_def)
    with anonymous_key [OF t(2) k'(1)] show ?thesis by blast
  next
    fix r assume "emitNamedPair m r = Some p"
    with p(2) show ?thesis by (auto simp: emitNamedPair_def namedParts_def split: option.splits)
  next
    fix akey' assume a: "emitAnonPair m (register m newCodecEmitter) akey' = Some p"
    with p(2) have "akey' = akey" by (auto simp: emitAnonPair_def split: option.splits)
    with a pair show ?thesis by simp
  qed
  from k import_registered(1) [OF im] have "akey \<in> set (em_order (register m newCodecEmitter))" by (simp add: registered_def)
  with pair have "?p \<in> set (emitPairs m)" by (auto simp: emitPairs_mem)
  then have "\<exists>p. find (\<lambda>p. cp_parts p = [akey]) (emitPairs m) = Some p \<and> p = ?p"
    by (rule find_all) (rule emitPair_parts, rule all)
  then have "findPair (emitPairs m) [akey] = Some ?p" unfolding findPair_def by metis
  with t show ?thesis by blast
qed

section \<open>Running the generated file\<close>

lemma import_declares:
  assumes im: "importModel U fl m"
  shows "declares (emitPairs m) (md_names m) (md_types m) (fileEnv fl)"
  unfolding declares_def
proof (intro conjI ballI allI impI)
  show "findPair (emitPairs m) (primitiveParts k) = Some (primPair k)" if "k \<in> set primitiveKinds" for k
    using import_findPair_prim [OF im that] .
  fix n t env' assume l: "lookupBefore (fileEnv fl) n = Some (t, env')"
  from lookupBefore_split [OF l] have nt: "(n, t) \<in> set (fileEnv fl)" and sub: "set env' \<subseteq> set (fileEnv fl)" by auto
  from import_findPair_named [OF im nt]
  show "\<exists>gt. findPair (emitPairs m) (namedParts n) = Some (emitPair (md_names m) (md_types m) (namedParts n) gt t (zeroWidth (md_types m) t))" .
  have named: "fieldsApart (\<lambda>f. Some (goFieldName (md_names m) f)) u" if "(x, u) \<in> set (fileEnv fl)" for x u
    using import_apart [OF im] typeTable_types [OF that] by blast
  from envOf_lookup [OF import_env [OF im] l] have "envOf (md_types m) env'" "typedIn env' t" by auto
  moreover from named sub have "\<forall>(x, u) \<in> set env'. fieldsApart (\<lambda>f. Some (goFieldName (md_names m) f)) u" by blast
  ultimately show "apart (shapeOf (md_names m) env' t)" using named [OF nt] by (rule shape_apart(1))
qed

text \<open>A generated file gives a local the zero value of its Go type.\<close>

definition importZero :: "ifile \<Rightarrow> Model \<Rightarrow> TypeExpr \<Rightarrow> goval" where
  "importZero fl m t = zeroOf (shapeOf (md_names m) (fileEnv fl) t)"

abbreviation importShape :: "ifile \<Rightarrow> Model \<Rightarrow> TypeExpr \<Rightarrow> shape" where
  "importShape fl m t \<equiv> shapeOf (md_names m) (fileEnv fl) t"

lemma typeTable_length: "length (typeTable ds) \<le> length ds"
  by (induction ds rule: typeTable.induct) auto

lemma import_runs:
  assumes im: "importModel U fl m" and d: "d \<in> set (fi_decls fl)" "t \<in> set (calledTypes d)"
    and k: "Suc (length (fi_decls fl)) < k"
  shows "hasShape (importShape fl m t) v \<Longrightarrow> runEnc k (emitPairs m) (callParts t) buf v = Some (wireEnc (importShape fl m t) buf v)"
    and "runDec k (emitPairs m) (importZero fl m) (callParts t) src = Some (wireDec (importShape fl m t) src)"
proof -
  obtain k' where k': "k = Suc k'" "length (fileEnv fl) < k'"
    using k typeTable_length [of "fi_decls fl"] by (cases k) auto
  have zero: "zeroAgrees (importZero fl m) (md_names m) (fileEnv fl)" by (simp add: zeroAgrees_def importZero_def)
  note calls = run_calls [OF import_declares [OF im] import_env [OF im] zero]
  from calls [OF k'(2)] have inner: "encCalls (runEnc k' (emitPairs m)) (md_names m) (fileEnv fl)"
    "decCalls (runDec k' (emitPairs m) (importZero fl m)) (importZero fl m) (md_names m) (fileEnv fl)" by blast+
  from calls [of k] k' have outer: "encCalls (runEnc k (emitPairs m)) (md_names m) (fileEnv fl)"
    "decCalls (runDec k (emitPairs m) (importZero fl m)) (importZero fl m) (md_names m) (fileEnv fl)" by simp_all
  note t = import_type [OF im d(1) calledTypes_decl [OF d(2)]]
  let ?s = "importShape fl m t"
  have "(hasShape ?s v \<longrightarrow> runEnc k (emitPairs m) (callParts t) buf v = Some (wireEnc ?s buf v))
    \<and> runDec k (emitPairs m) (importZero fl m) (callParts t) src = Some (wireDec ?s src)" for v buf src
  proof (cases "isAnonymousType t")
    case True
    from import_findPair_anon [OF im import_registered(2) [OF im d True]] obtain u gt where
      u: "importType fl m u" "typeKeyOf u = typeKeyOf t" and
      found: "findPair (emitPairs m) [typeKeyOf t] = Some (emitPair (md_names m) (md_types m) [typeKeyOf t] gt u (zeroWidth (md_types m) u))"
      by blast
    have same: "importShape fl m u = ?s" using import_shared [OF im t u(1)] u(2) by simp
    from u(1) have ut: "typedIn (fileEnv fl) u" "apart (importShape fl m u)" by (simp_all add: importType_def)
    have "callParts t = [typeKeyOf t]" using True by (cases t) auto
    with run_pair [OF found inner import_env [OF im] ut] show ?thesis by (simp add: k'(1) same)
  next
    case False
    show ?thesis
    proof (cases t)
      case (PrimType p kd sp)
      with t outer show ?thesis by (auto simp: importType_def encCalls_def decCalls_def)
    next
      case (NamedType p i)
      with t lookup_some obtain u env' where "lookupBefore (fileEnv fl) (id_name i) = Some (u, env')"
        by (fastforce simp: importType_def)
      with NamedType outer show ?thesis by (simp add: encCalls_def decCalls_def)
    qed (use False in simp_all)
  qed
  then show "hasShape ?s v \<Longrightarrow> runEnc k (emitPairs m) (callParts t) buf v = Some (wireEnc ?s buf v)"
    and "runDec k (emitPairs m) (importZero fl m) (callParts t) src = Some (wireDec ?s src)" by blast+
qed

lemma import_lawful:
  assumes "importModel U fl m" "d \<in> set (fi_decls fl)" "t \<in> set (calledTypes d)"
  shows "wire_codec (wireEnc (importShape fl m t)) (wireDec (importShape fl m t)) (fits (importShape fl m t)) canonVal"
  using shape_lawful [OF shapeOf_prim(1) [OF import_env [OF assms(1)]]]
    import_type [OF assms(1,2) calledTypes_decl [OF assms(3)]]
  by (simp add: lawful_def importType_def)

end
