(* ===== verification/Generated_Files.thy ===== *)
theory Generated_Files
  imports Generated_Codecs
begin

text \<open>
  What holds of every generated import file: its codec pairs are the wire codecs of the
  interface's types, they accept exactly each other's output, and they fail to encode for one
  reason only.
\<close>

section \<open>When encoding fails\<close>

fun validTexts :: "goval \<Rightarrow> bool" where
  "validTexts (GString a) = ValidString a"
| "validTexts (GSlice vs) = list_all validTexts vs"
| "validTexts (GStruct vs) = list_all (\<lambda>(f, v). validTexts v) vs"
| "validTexts v = True"

definition encodes :: "bytes result \<Rightarrow> bool \<Rightarrow> bool" where
  "encodes r ok \<longleftrightarrow> (case r of Inr bs \<Rightarrow> ok | Inl e \<Rightarrow> e = errUTF8 \<and> \<not> ok)"

lemma encodes_simps [simp]: "encodes (Inr bs) ok \<longleftrightarrow> ok" "encodes (Inl e) ok \<longleftrightarrow> e = errUTF8 \<and> \<not> ok"
  by (simp_all add: encodes_def)

lemma encodes_andThen:
  "encodes r ok \<Longrightarrow> (\<And>bs. encodes (g bs) ok') \<Longrightarrow> encodes (andThen r g) (ok \<and> ok')"
  by (cases r) auto

lemma encodes_prim: "k \<in> set primitiveKinds \<Longrightarrow> primKind v = Some k \<Longrightarrow> encodes (encPrim k buf v) (validTexts v)"
  by (cases v) (auto simp: encVia_def enc_int8_def enc_int16_def enc_int32_def enc_int64_def enc_uint8_def enc_uint16_def
      enc_uint32_def enc_uint64_def enc_float32_def enc_float64_def enc_string_def enc_bytes_def Let_def)

lemma encodes_loop:
  "\<forall>v \<in> set vs. \<forall>buf. encodes (enc buf v) (validTexts v) \<Longrightarrow> encodes (enc_loop enc buf vs) (list_all validTexts vs)"
proof (induction vs arbitrary: buf)
  case (Cons v vs)
  then show ?case by (auto intro: encodes_andThen)
qed simp

lemma zero_texts:
  "primShape s \<Longrightarrow> noWidth s \<Longrightarrow> hasShape s v \<Longrightarrow> validTexts v"
  "list_all (\<lambda>(f, s). primShape s) fs \<Longrightarrow> list_all (\<lambda>(f, s). noWidth s) fs \<Longrightarrow> fieldsHave fs vs \<Longrightarrow>
     list_all (\<lambda>(f, v). validTexts v) vs"
  by (induction s v and fs vs rule: hasShape_fieldsHave.induct) (auto split: goval.splits list.splits)

lemma wireEnc_encodes:
  "primShape s \<Longrightarrow> hasShape s v \<Longrightarrow> encodes (wireEnc s buf v) (validTexts v)"
  "list_all (\<lambda>(f, s). primShape s) fs \<Longrightarrow> fieldsHave fs vs \<Longrightarrow>
     encodes (wireEncFields fs buf vs) (list_all (\<lambda>(f, v). validTexts v) vs)"
proof (induction s v and fs vs arbitrary: buf and buf rule: hasShape_fieldsHave.induct)
  case (1 k v)
  then show ?case using encodes_prim by simp
next
  case (2 s v)
  then obtain vs where vs: "v = GSlice vs" "list_all (hasShape s) vs" by (cases v) auto
  show ?case
  proof (cases "noWidth s")
    case True
    with vs 2 zero_texts(1) [of s] show ?thesis by (auto simp: enc_count_def enc_uint64_Inr list_all_iff)
  next
    case False
    from vs 2 have "\<forall>v \<in> set vs. \<forall>buf. encodes (wireEnc s buf v) (validTexts v)" by (auto simp: list_all_iff)
    from encodes_loop [OF this] vs(1) False show ?thesis by (simp add: enc_list_def enc_uint64_def)
  qed
next
  case (3 fs v)
  then show ?case by (cases v) auto
next
  case (5 f s fs vs)
  then obtain w ws where "vs = (f, w) # ws" "hasShape s w" "fieldsHave fs ws" by (cases vs) auto
  with 5 show ?case by (auto intro!: encodes_andThen)
qed auto

section \<open>Every pair of the file\<close>

text \<open>
  The pair \<open>parts\<close>, run in the program of all emitted pairs with \<open>k\<close> nested calls, is the wire
  codec of \<open>t\<close>.
\<close>

definition codesAs :: "ifile \<Rightarrow> Model \<Rightarrow> nat \<Rightarrow> string list \<Rightarrow> TypeExpr \<Rightarrow> bool" where
  "codesAs fl m k parts t \<longleftrightarrow>
     (\<forall>v buf. hasShape (importShape fl m t) v \<longrightarrow>
        runEnc k (emitPairs m) parts buf v = Some (wireEnc (importShape fl m t) buf v))
   \<and> (\<forall>input. runDec k (emitPairs m) (importZero fl m) parts input = Some (wireDec (importShape fl m t) input))"

text \<open>Without a collision of mangled names, the name of a pair finds what its identity finds.\<close>

lemma name_finds_pair:
  assumes found: "findPair prog parts = Some p" and inj: "inj_on (\<lambda>p. codecName f (cp_parts p)) (set prog)"
  shows "find (\<lambda>p. codecName f (cp_parts p) = codecName f parts) prog = Some p"
proof -
  from found have p: "p \<in> set prog" "cp_parts p = parts" by (auto simp: findPair_def find_Some_iff)
  have "q = p" if "q \<in> set prog" "codecName f (cp_parts q) = codecName f parts" for q
    using inj_onD [OF inj, of q p] that p by simp
  with find_all [where R = "\<lambda>q. q = p" and P = "\<lambda>q. codecName f (cp_parts q) = codecName f parts", OF p(1)] p(2)
  show ?thesis by fastforce
qed

lemma import_calls:
  assumes im: "importModel U fl m" and k: "length (fi_decls fl) < k"
  shows "encCalls (runEnc k (emitPairs m)) (md_names m) (fileEnv fl)"
    and "decCalls (runDec k (emitPairs m) (importZero fl m)) (importZero fl m) (md_names m) (fileEnv fl)"
proof -
  have zero: "zeroAgrees (importZero fl m) (md_names m) (fileEnv fl)" by (simp add: zeroAgrees_def importZero_def)
  have "length (fileEnv fl) < k" using k typeTable_length [of "fi_decls fl"] by simp
  from run_calls [OF import_declares [OF im] import_env [OF im] zero this]
  show "encCalls (runEnc k (emitPairs m)) (md_names m) (fileEnv fl)"
    "decCalls (runDec k (emitPairs m) (importZero fl m)) (importZero fl m) (md_names m) (fileEnv fl)" by blast+
qed

lemma found_codes:
  assumes im: "importModel U fl m" and t: "importType fl m t" and k: "Suc (length (fi_decls fl)) < k"
    and found: "findPair (emitPairs m) parts = Some (emitPair (md_names m) (md_types m) parts gt t (zeroWidth (md_types m) t))"
  shows "codesAs fl m k parts t"
proof -
  obtain k' where k': "k = Suc k'" "length (fi_decls fl) < k'" using k by (cases k) auto
  from t have "typedIn (fileEnv fl) t" "apart (importShape fl m t)" by (simp_all add: importType_def)
  from run_pair [OF found import_calls [OF im k'(2)] import_env [OF im] this] show ?thesis
    by (simp add: codesAs_def k'(1))
qed

lemma declared_codes:
  assumes im: "importModel U fl m" and n: "(n, t) \<in> set (fileEnv fl)" and k: "Suc (length (fi_decls fl)) < k"
  shows "codesAs fl m k (namedParts n) t"
proof -
  from n obtain d where "d \<in> set (fi_decls fl)" "declUnderlying d = Some t" by (auto simp: typeTable_mem)
  then have "importType fl m t" using import_type [OF im _ declUnderlying_decl] by blast
  with import_findPair_named [OF im n] found_codes [OF im _ k] show ?thesis by blast
qed

lemma prim_codes:
  assumes "importModel U fl m" "kd \<in> set primitiveKinds" "Suc (length (fi_decls fl)) < k"
  shows "codesAs fl m k (primitiveParts kd) (PrimType d kd sp)"
  using import_calls [OF assms(1), of k] assms(2,3) by (simp add: codesAs_def encCalls_def decCalls_def)

lemma pair_codes:
  assumes im: "importModel U fl m" and k: "Suc (length (fi_decls fl)) < k" and p: "p \<in> set (emitPairs m)"
  shows "codesAs fl m k (cp_parts p) (cp_type p)"
  using p unfolding emitPairs_mem
proof (elim disjE bexE)
  assume "p \<in> primPair ` set primitiveKinds"
  with prim_codes [OF im _ k] show ?thesis by (auto simp: primPair_def)
next
  from im have "buildModel U fl [] = Inr m" by (elim importModel_parts)
  note rec = buildModel_records(3) [OF this]
  fix r assume r: "r \<in> set (md_Types m)" "emitNamedPair m r = Some p"
  with rec obtain d u where d: "d \<in> set (fi_decls fl)" "declUnderlying d = Some u" "r = typeRecOf (md_names m) (md_types m) d"
    by auto
  with r(2) have "cp_parts p = namedParts (declaredName d)" "cp_type p = u"
    by (auto simp: emitNamedPair_def typeRecOf_def emitPair_def)
  moreover from d have "(declaredName d, u) \<in> set (fileEnv fl)" by (auto simp: typeTable_mem)
  ultimately show ?thesis using declared_codes [OF im _ k] by simp
next
  fix akey assume a: "akey \<in> set (em_order (register m newCodecEmitter))" "emitAnonPair m (register m newCodecEmitter) akey = Some p"
  from a(1) import_registered(1) [OF im] have key: "akey \<in> anonKeys (register m newCodecEmitter)" by (simp add: registered_def)
  then obtain t gt where t: "importType fl m t" "typeKeyOf t = akey"
    "emitAnonPair m (register m newCodecEmitter) akey = Some (emitPair (md_names m) (md_types m) [akey] gt t (zeroWidth (md_types m) t))"
    by (rule import_anon [OF im])
  from import_findPair_anon [OF im key] obtain u gt' where u: "importType fl m u" "typeKeyOf u = akey"
    "findPair (emitPairs m) [akey] = Some (emitPair (md_names m) (md_types m) [akey] gt' u (zeroWidth (md_types m) u))" by blast
  from a(2) t(3) have "cp_parts p = [akey]" "cp_type p = t" by (auto simp: emitPair_def)
  moreover have "importShape fl m u = importShape fl m t" using import_shared [OF im t(1) u(1)] t(2) u(2) by simp
  ultimately show ?thesis using found_codes [OF im u(1) k u(3)] by (simp add: codesAs_def)
qed

section \<open>Properties\<close>

text \<open>
  C5. For a parsed and validated interface and generation without \<open>--go-name\<close> flags, every
  codec pair of the generated file does the wire codec of the type it is emitted for: the pairs
  of the primitive types, of every declared type, called or not, and of every anonymous type
  that was registered. Running its encoder or decoder in the program of all emitted pairs gives
  exactly what the wire rules say, on every value of the type and on every input; no call is
  missing or gets stuck, and two more nested calls than there are declarations are enough. Every
  declared type has its pair, and every payload, parameter and result calls a pair that does the
  codec of its own type.\<close>

theorem generated_codecs_wire:
  assumes "Parse name src = Inr fl" "Validate fl = None" "checkImportFixed fl = None" "buildModel U fl [] = Inr m"
    and "Suc (length (fi_decls fl)) < k"
  shows "(\<forall>p \<in> set (emitPairs m). codesAs fl m k (cp_parts p) (cp_type p))
   \<and> (\<forall>d \<in> set (fi_decls fl). \<forall>t. declUnderlying d = Some t \<longrightarrow>
        (\<exists>p \<in> set (emitPairs m). cp_parts p = namedParts (declaredName d) \<and> cp_type p = t)
        \<and> codesAs fl m k (namedParts (declaredName d)) t)
   \<and> (\<forall>d \<in> set (fi_decls fl). \<forall>t \<in> set (calledTypes d). codesAs fl m k (callParts t) t)"
proof -
  from assms(1-4) have im: "importModel U fl m" by (auto simp: importModel_def)
  have "(\<exists>p \<in> set (emitPairs m). cp_parts p = namedParts (declaredName d) \<and> cp_type p = t)
      \<and> codesAs fl m k (namedParts (declaredName d)) t"
    if d: "d \<in> set (fi_decls fl)" "declUnderlying d = Some t" for d t
  proof -
    have n: "(declaredName d, t) \<in> set (fileEnv fl)" using d by (auto simp: typeTable_mem)
    from import_findPair_named [OF im this] obtain gt where
      "find (\<lambda>p. cp_parts p = namedParts (declaredName d)) (emitPairs m)
        = Some (emitPair (md_names m) (md_types m) (namedParts (declaredName d)) gt t (zeroWidth (md_types m) t))"
      by (auto simp: findPair_def)
    then have "emitPair (md_names m) (md_types m) (namedParts (declaredName d)) gt t (zeroWidth (md_types m) t) \<in> set (emitPairs m)"
      by (auto simp: find_Some_iff)
    then show ?thesis using declared_codes [OF im n assms(5)] by (force simp: emitPair_def)
  qed
  then show ?thesis
    using pair_codes [OF im assms(5)] import_runs [OF im _ _ assms(5)] unfolding codesAs_def by blast
qed

text \<open>
  C7. Generated codecs round trip, for payloads, parameters and results of a file generated
  without \<open>--go-name\<close> flags: what a generated encoder writes for a value whose lengths fit
  the wire is read back by the decoder of the pair as the same value with canonical NaNs,
  leaving the rest of the input, and whatever a generated decoder accepts is the encoding of the
  value it returns.\<close>

theorem generated_round_trip:
  assumes "Parse name src = Inr fl" "Validate fl = None" "checkImportFixed fl = None" "buildModel U fl [] = Inr m"
    and "d \<in> set (fi_decls fl)" "t \<in> set (calledTypes d)" "Suc (length (fi_decls fl)) < k"
  shows "(fits (importShape fl m t) v \<longrightarrow> runEnc k (emitPairs m) (callParts t) [] v = Some (Inr bs) \<longrightarrow>
       runDec k (emitPairs m) (importZero fl m) (callParts t) (bs @ rest) = Some (Inr (canonVal v, rest)))
   \<and> (runDec k (emitPairs m) (importZero fl m) (callParts t) input = Some (Inr (w, after)) \<longrightarrow>
       fits (importShape fl m t) w \<and> canonVal w = w
       \<and> (\<exists>as. runEnc k (emitPairs m) (callParts t) [] w = Some (Inr as) \<and> input = as @ after))"
proof -
  from assms(1-4) have im: "importModel U fl m" by (auto simp: importModel_def)
  note law = import_lawful [OF im assms(5,6)] and enc = import_runs(1) [OF im assms(5-7)] and dec = import_runs(2) [OF im assms(5-7)]
  show ?thesis
    using wire_codec.round_trip [OF law, of v bs rest] wire_codec.exact [OF law, of input w after] enc dec fits_hasShape(1)
    by auto
qed

text \<open>
  C15. The only failure of the encoder generated, without \<open>--go-name\<close> flags, for a payload, a
  parameter or a result is text that is not UTF-8: on a value of the type it
  returns the shared UTF-8 error when some string in the value is not valid, and an extended
  buffer otherwise.\<close>

theorem generated_encode_errors:
  assumes "Parse name src = Inr fl" "Validate fl = None" "checkImportFixed fl = None" "buildModel U fl [] = Inr m"
    and "d \<in> set (fi_decls fl)" "t \<in> set (calledTypes d)" "Suc (length (fi_decls fl)) < k"
    and "hasShape (importShape fl m t) v"
  shows "if validTexts v then \<exists>bs. runEnc k (emitPairs m) (callParts t) buf v = Some (Inr (buf @ bs))
    else runEnc k (emitPairs m) (callParts t) buf v = Some (Inl errUTF8)"
proof -
  from assms(1-4) have im: "importModel U fl m" by (auto simp: importModel_def)
  have run: "runEnc k (emitPairs m) (callParts t) buf v = Some (wireEnc (importShape fl m t) buf v)"
    by (rule import_runs(1) [OF im assms(5-8)])
  have buf: "wireEnc (importShape fl m t) buf v = map_sum id ((@) buf) (wireEnc (importShape fl m t) [] v)"
    by (rule wire_codec.appends [OF import_lawful [OF im assms(5,6)]])
  have "primShape (importShape fl m t)"
    using shapeOf_prim(1) [OF import_env [OF im]] import_type [OF im assms(5) calledTypes_decl [OF assms(6)]]
    by (simp add: importType_def)
  from wireEnc_encodes(1) [OF this assms(8), of "[]"] buf show ?thesis
    by (cases "wireEnc (importShape fl m t) [] v") (auto simp: run)
qed

section \<open>Witnesses\<close>

text \<open>The file of the source \<open>procedure p{x list string;};\<close>.\<close>

definition sampleCalled :: TypeExpr where
  "sampleCalled = ListType [] (Span 14 18) (PrimType [] TokString (Span 19 25))"

definition sampleProc :: Decl where
  "sampleProc = ProcDecl [] (Span 0 9) \<lparr>id_name = ''p'', id_span = Span 10 11\<rparr> (Span 11 12)
     [Param [] \<lparr>id_name = ''x'', id_span = Span 12 13\<rparr> sampleCalled (Span 25 26)] (Span 26 27) None (Span 27 28)"

definition sampleImport :: ifile where
  "sampleImport = \<lparr>so_name = ''f'', so_size = 28, so_src = ''procedure p{x list string;};'', so_lines = [0],
     fi_decls = [sampleProc], fi_comments = []\<rparr>"

lemma sampleImport_facts:
  "Parse ''f'' ''procedure p{x list string;};'' = Inr sampleImport" "Validate sampleImport = None"
  "checkImportFixed sampleImport = None" "sampleProc \<in> set (fi_decls sampleImport)"
  "sampleCalled \<in> set (calledTypes sampleProc)" "Suc (length (fi_decls sampleImport)) < 3"
proof -
  show "Parse ''f'' ''procedure p{x list string;};'' = Inr sampleImport" "Validate sampleImport = None"
    "checkImportFixed sampleImport = None" by code_simp+
qed (simp_all add: sampleImport_def sampleProc_def)

lemma sampleImport_proc:
  obtains m p where "buildModel asciiOnly sampleImport [] = Inr m" "md_Procs m = [p]" "pc_Result p = None"
    "map (\<lambda>pr. (pm_GoName pr, tf_Type (pm_Type pr))) (pc_Params p) = [(''x'', sampleCalled)]"
proof -
  have "case buildModel asciiOnly sampleImport [] of Inl e \<Rightarrow> False | Inr m \<Rightarrow>
      (case md_Procs m of [p] \<Rightarrow> map (\<lambda>pr. (pm_GoName pr, tf_Type (pm_Type pr))) (pc_Params p) = [(''x'', sampleCalled)] \<and> pc_Result p = None
       | _ \<Rightarrow> False)" by code_simp
  with that show thesis by (auto split: sum.splits list.splits)
qed

lemma sampleImport_model: obtains m where "buildModel asciiOnly sampleImport [] = Inr m"
  by (rule sampleImport_proc)

lemma sampleCalled_shape: "importShape sampleImport m sampleCalled = SList (SPrim TokString)"
  by (simp add: sampleCalled_def)

text \<open>The file of the source \<open>type q list string;\<close>: a type that no procedure mentions.\<close>

definition sampleUncalled :: TypeExpr where
  "sampleUncalled = ListType [] (Span 7 11) (PrimType [] TokString (Span 12 18))"

definition sampleTypes :: ifile where
  "sampleTypes = \<lparr>so_name = ''f'', so_size = 19, so_src = ''type q list string;'', so_lines = [0],
     fi_decls = [TypeDecl [] (Span 0 4) \<lparr>id_name = ''q'', id_span = Span 5 6\<rparr> sampleUncalled (Span 18 19)], fi_comments = []\<rparr>"

lemma sampleTypes_facts:
  "Parse ''f'' ''type q list string;'' = Inr sampleTypes" "Validate sampleTypes = None" "checkImportFixed sampleTypes = None"
  "Suc (length (fi_decls sampleTypes)) < 3"
proof -
  show "Parse ''f'' ''type q list string;'' = Inr sampleTypes" "Validate sampleTypes = None"
    "checkImportFixed sampleTypes = None" by code_simp+
qed (simp add: sampleTypes_def)

lemma sampleTypes_model: obtains m where "buildModel asciiOnly sampleTypes [] = Inr m"
proof -
  have "\<not> isl (buildModel asciiOnly sampleTypes [])" by code_simp
  with that show thesis by (cases "buildModel asciiOnly sampleTypes []") auto
qed

theorem generated_codecs_wire_witness:
  "\<exists>m. buildModel asciiOnly sampleTypes [] = Inr m
     \<and> (\<exists>p \<in> set (emitPairs m). cp_parts p = namedParts ''q'')
     \<and> runEnc 3 (emitPairs m) (namedParts ''q'') [] (GSlice [GString ''a''])
       = Some (Inr [1, 0, 0, 0, 0, 0, 0, 0, 1, 0, 0, 0, 0, 0, 0, 0, 97])"
proof -
  obtain m where m: "buildModel asciiOnly sampleTypes [] = Inr m" by (rule sampleTypes_model)
  have shape: "importShape sampleTypes m sampleUncalled = SList (SPrim TokString)" by (simp add: sampleUncalled_def)
  from generated_codecs_wire [OF sampleTypes_facts(1-3) m sampleTypes_facts(4), THEN conjunct2, THEN conjunct1]
  have pair: "(\<exists>p \<in> set (emitPairs m). cp_parts p = namedParts ''q'' \<and> cp_type p = sampleUncalled)
      \<and> codesAs sampleTypes m 3 (namedParts ''q'') sampleUncalled" by (simp add: sampleTypes_def declaredName_def)
  have "hasShape (SList (SPrim TokString)) (GSlice [GString ''a''])" by simp
  with pair have "runEnc 3 (emitPairs m) (namedParts ''q'') [] (GSlice [GString ''a''])
      = Some (wireEnc (SList (SPrim TokString)) [] (GSlice [GString ''a'']))" unfolding codesAs_def shape by blast
  moreover have "wireEnc (SList (SPrim TokString)) [] (GSlice [GString ''a''])
      = Inr [1, 0, 0, 0, 0, 0, 0, 0, 1, 0, 0, 0, 0, 0, 0, 0, 97]"
  proof -
    have "ValidString ''a''" by (simp add: ValidString_def firstInvalidUTF8_def firstInvalidFrom.simps DecodeRune.simps RuneError_def)
    moreover have "byteOf CHR ''a'' = 97" by code_simp
    ultimately show ?thesis by (simp add: enc_list_def enc_uint64_def enc_string_def encVia_def)
  qed
  ultimately show ?thesis using m pair by auto
qed

theorem generated_round_trip_witness:
  "\<exists>m. buildModel asciiOnly sampleImport [] = Inr m
     \<and> runDec 3 (emitPairs m) (importZero sampleImport m) (callParts sampleCalled) ([0, 0, 0, 0, 0, 0, 0, 0] @ [7])
       = Some (Inr (GSlice [], [7]))"
proof -
  obtain m where m: "buildModel asciiOnly sampleImport [] = Inr m" by (rule sampleImport_model)
  note im = sampleImport_facts(1-3) m sampleImport_facts(4-6)
  have "runEnc 3 (emitPairs m) (callParts sampleCalled) [] (GSlice []) = Some (wireEnc (SList (SPrim TokString)) [] (GSlice []))"
    using import_runs(1) [of asciiOnly sampleImport m sampleProc sampleCalled 3 "GSlice []" "[]"] im
    by (auto simp: importModel_def sampleCalled_shape)
  moreover have "wireEnc (SList (SPrim TokString)) [] (GSlice []) = Inr [0, 0, 0, 0, 0, 0, 0, 0]" by code_simp
  moreover have "fits (SList (SPrim TokString)) (GSlice [])" by (simp add: counted_def)
  ultimately show ?thesis
    using generated_round_trip [OF im, of "GSlice []" "[0, 0, 0, 0, 0, 0, 0, 0]" "[7]"] m
    by (auto simp: sampleCalled_shape)
qed

theorem generated_encode_errors_witness:
  "\<exists>m. buildModel asciiOnly sampleImport [] = Inr m
     \<and> runEnc 3 (emitPairs m) (callParts sampleCalled) [7] (GSlice [GString [CHR 0xFF]]) = Some (Inl errUTF8)"
proof -
  obtain m where m: "buildModel asciiOnly sampleImport [] = Inr m" by (rule sampleImport_model)
  have bad: "\<not> validTexts (GSlice [GString [CHR 0xFF]])"
    by (simp add: ValidString_def firstInvalidUTF8_def firstInvalidFrom.simps DecodeRune.simps RuneError_def)
  have "hasShape (importShape sampleImport m sampleCalled) (GSlice [GString [CHR 0xFF]])" by (simp add: sampleCalled_shape)
  from generated_encode_errors [OF sampleImport_facts(1-3) m sampleImport_facts(4-6) this, of "[7]"]
  have "runEnc 3 (emitPairs m) (callParts sampleCalled) [7] (GSlice [GString [CHR 0xFF]]) = Some (Inl errUTF8)"
    by (simp only: bad if_False)
  with m show ?thesis by (intro exI conjI)
qed

section \<open>A pair shared by two Go types\<close>

definition renamedSource :: string where
  "renamedSource = ''procedure p{a record{x int8;};b record{x int8;};};''"

text \<open>
  C34. A pair can be shared by two Go types: a \<open>--go-name\<close> flag that renames a field of one of two
  structurally equal anonymous records is accepted, both parameters are encoded by one pair, and
  their Go types differ. The pair has the Go type of the first, so the emitted request encoder
  passes it a value of another struct type.\<close>

theorem renamed_field_shares_pair:
  "\<exists>fl ovs m p a b. Parse ''f'' renamedSource = Inr fl
     \<and> ParseOverrides asciiOnly [''procedure:p/param:b/field:x=Y''] = Inr ovs \<and> buildModel asciiOnly fl ovs = Inr m
     \<and> md_Procs m = [p] \<and> pc_Params p = [a, b]
     \<and> callParts (tf_Type (pm_Type a)) = callParts (tf_Type (pm_Type b)) \<and> tf_GoType (pm_Type a) \<noteq> tf_GoType (pm_Type b)"
proof -
  have "case Parse ''f'' renamedSource of Inl e \<Rightarrow> False | Inr fl \<Rightarrow>
      (case ParseOverrides asciiOnly [''procedure:p/param:b/field:x=Y''] of Inl e \<Rightarrow> False | Inr ovs \<Rightarrow>
      (case buildModel asciiOnly fl ovs of Inl e \<Rightarrow> False | Inr m \<Rightarrow>
      (case md_Procs m of [p] \<Rightarrow> (case pc_Params p of [a, b] \<Rightarrow>
          callParts (tf_Type (pm_Type a)) = callParts (tf_Type (pm_Type b)) \<and> tf_GoType (pm_Type a) \<noteq> tf_GoType (pm_Type b)
        | _ \<Rightarrow> False) | _ \<Rightarrow> False)))" by code_simp
  then show ?thesis by (auto split: sum.splits list.splits)
qed

end
