(* ===== verification/Import_Emitter.thy ===== *)
theory Import_Emitter
  imports Import_Mapping Format
begin

text \<open>
  The emission of an import binding: the rest of \<open>go/internal/tool/import.go\<close> with
  \<open>go/internal/tool/interface_id.go\<close>. A request encoder is first the list of the parameters it
  writes, a response decoder the list of its switch arms; \<open>requestText\<close> and \<open>responseText\<close> print
  them. SHA-256 and \<open>go/format\<close> are arguments.
\<close>

section \<open>The semantic constant\<close>

definition semanticChunkSize :: nat where
  "semanticChunkSize = 4096"

text \<open>Unpadded base64url of \<open>encoding/base64\<close>.\<close>

definition base64Digit :: "nat \<Rightarrow> char" where
  "base64Digit d = ''ABCDEFGHIJKLMNOPQRSTUVWXYZabcdefghijklmnopqrstuvwxyz0123456789-_'' ! (d mod 64)"

fun rawURLEncode :: "string \<Rightarrow> string" where
  "rawURLEncode [] = []"
| "rawURLEncode [a] = (let n = of_char a * 16 in [base64Digit (n div 64), base64Digit n])"
| "rawURLEncode [a, b] =
     (let n = (of_char a * 256 + of_char b) * 4 in [base64Digit (n div 4096), base64Digit (n div 64), base64Digit n])"
| "rawURLEncode (a # b # c # s) =
     (let n = (of_char a * 256 + of_char b) * 256 + of_char c
      in base64Digit (n div 262144) # base64Digit (n div 4096) # base64Digit (n div 64) # base64Digit n # rawURLEncode s)"

text \<open>The continuation lines of the chunks; the size of a chunk is positive.\<close>

function chunkLines :: "nat \<Rightarrow> string \<Rightarrow> string list" where
  "chunkLines n enc =
     (if enc = [] \<or> n = 0 then []
      else if length enc \<le> n then [[CHR 0x09] @ quoted enc]
      else ([CHR 0x09] @ quoted (take n enc) @ '' +'') # chunkLines n (drop n enc))"
  by pat_completeness auto
termination by (relation "measure (length \<circ> snd)") auto

declare chunkLines.simps [simp del]

definition emitSemanticConstant :: "string \<Rightarrow> string list" where
  "emitSemanticConstant body =
     (let enc = rawURLEncode body in
      if enc = [] then [''const '' @ semanticConstantName @ '' = '' @ [CHR 0x22, CHR 0x22]]
      else if length enc \<le> semanticChunkSize then [''const '' @ semanticConstantName @ '' = '' @ quoted enc]
      else (''const '' @ semanticConstantName @ '' = '' @ quoted (take semanticChunkSize enc) @ '' +'')
        # chunkLines semanticChunkSize (drop semanticChunkSize enc))"

section \<open>Exceptions\<close>

definition emitImportSupport :: "string list" where
  "emitImportSupport = emitCodecSupport @
     [''var ('', newError errTrailingName ''intercall: response payload has trailing bytes'',
      newError errUnknownName ''intercall: undeclared exception key'', '')'', []]"

definition isRecordType :: "TypeExpr \<Rightarrow> bool" where
  "isRecordType t = (case t of RecordType d rs lb fs rb \<Rightarrow> True | _ \<Rightarrow> False)"

fun structLines :: "Model \<Rightarrow> string \<Rightarrow> TypeExpr \<Rightarrow> string list" where
  "structLines m name (RecordType d rs lb fs rb) =
     (if fs = [] then [''type '' @ name @ '' struct{}'']
      else (''type '' @ name @ '' struct {'')
        # map (\<lambda>f. line 1 (goFieldName (md_names m) f @ '' '' @ goTypeOf (md_names m) (md_types m) (fieldType f)
            @ '' '' @ [CHR 0x60] @ ''intercall:'' @ quoted (id_name (fieldName f)) @ [CHR 0x60])) fs @ [''}''])"
| "structLines m name t =
     [''type '' @ name @ '' struct {'', line 1 (''Payload '' @ goTypeOf (md_names m) (md_types m) t), ''}'']"

definition emitImportException :: "Model \<Rightarrow> ExceptionRec \<Rightarrow> string list" where
  "emitImportException m x =
     (let wire = declaredName (xr_Decl x) in
      if IsFixedRuntimeException wire then []
      else case declPayload (xr_Decl x) of
        None \<Rightarrow> [''var '' @ xr_GoName x @ '' error = errors.New('' @ quoted wire @ '')'', []]
      | Some t \<Rightarrow> structLines m (xr_GoName x) t @
          [''func (e *'' @ xr_GoName x @ '') Error() string { return '' @ quoted wire @ '' }'', []])"

text \<open>The decode delegate of a record payload: its wire name, Go type and target pair.\<close>

record excDecoder =
  xd_Wire :: string
  xd_GoName :: string
  xd_Target :: "string list"

definition excDecoder :: "ExceptionRec \<Rightarrow> excDecoder option" where
  "excDecoder x =
     (case declPayload (xr_Decl x) of
        None \<Rightarrow> None
      | Some t \<Rightarrow>
          if IsFixedRuntimeException (declaredName (xr_Decl x)) \<or> \<not> isRecordType t then None
          else Some \<lparr>xd_Wire = declaredName (xr_Decl x), xd_GoName = xr_GoName x, xd_Target = [typeKeyOf t]\<rparr>)"

definition excDecoderText :: "excDecoder \<Rightarrow> string list" where
  "excDecoderText xd =
     [''func '' @ codecName ''decexc'' [xd_Wire xd] @ ''(src []byte) ('' @ xd_GoName xd @ '', []byte, error) {'',
      line 1 (''v, src, err := '' @ codecName ''dec'' (xd_Target xd) @ ''(src)''),
      line 1 ''if err != nil {'', line 2 (''return '' @ xd_GoName xd @ ''{}, nil, err''), line 1 ''}'',
      line 1 (''return '' @ xd_GoName xd @ ''(v), src, nil''), ''}'', []]"

definition emitImportExceptionDecoders :: "Model \<Rightarrow> excDecoder list" where
  "emitImportExceptionDecoders m = List.map_filter excDecoder (md_Exceptions m)"

section \<open>Request encoders\<close>

definition paramText :: "Model \<Rightarrow> ParamRec \<Rightarrow> string" where
  "paramText m pr = pm_GoName pr @ '' '' @ goTypeOf (md_names m) (md_types m) (tf_Type (pm_Type pr))"

text \<open>The parameters that take bytes, with the pairs that encode them.\<close>

definition requestSteps :: "Model \<Rightarrow> ProcRec \<Rightarrow> (string list \<times> string) list" where
  "requestSteps m p =
     map (\<lambda>pr. (callParts (tf_Type (pm_Type pr)), pm_GoName pr))
       (filter (\<lambda>pr. \<not> zeroWidth (md_types m) (tf_Type (pm_Type pr))) (pc_Params p))"

definition requestText :: "Model \<Rightarrow> ProcRec \<Rightarrow> string list" where
  "requestText m p =
     [''func '' @ codecName ''encreq'' [declaredName (pc_Decl p)] @ ''(''
        @ joinWith '', '' ((bufName @ '' []byte'') # map (paramText m) (pc_Params p)) @ '') ([]byte, error) {'']
     @ (if requestSteps m p = [] then [] else [line 1 (''var '' @ encErrName @ '' error'')])
     @ concat (map (\<lambda>(parts, name).
         [line 1 (bufName @ '', '' @ encErrName @ '' = '' @ codecName ''enc'' parts @ ''('' @ bufName @ '', '' @ name @ '')''),
          line 1 (''if '' @ encErrName @ '' != nil {''), line 2 (''return nil, '' @ encErrName), line 1 ''}'']) (requestSteps m p))
     @ [line 1 (''return '' @ bufName @ '', nil''), ''}'', []]"

section \<open>Response decoders\<close>

definition fixedRuntimeGoName :: "string \<Rightarrow> string option" where
  "fixedRuntimeGoName wire =
     (if wire = ''procedure_not_found'' then Some ''ErrProcedureNotFound''
      else if wire = ''invalid_arguments'' then Some ''ErrInvalidArguments''
      else if wire = ''internal_exception'' then Some ''ErrInternalException''
      else None)"

datatype respDecoder = PairDec "string list" | ExcDec string

datatype respStore = StoreNone | StoreOut | StoreFixed string | StoreSentinel string | StoreRecord | StorePayload string

record respArm =
  ra_Key :: u64
  ra_Decoder :: "respDecoder option"
  ra_Store :: respStore

definition resultArm :: "TypeFact option \<Rightarrow> respArm" where
  "resultArm res =
     (case res of
        None \<Rightarrow> \<lparr>ra_Key = 0, ra_Decoder = None, ra_Store = StoreNone\<rparr>
      | Some tf \<Rightarrow> \<lparr>ra_Key = 0, ra_Decoder = Some (PairDec (callParts (tf_Type tf))), ra_Store = StoreOut\<rparr>)"

definition excArm :: "ExceptionRec \<Rightarrow> respArm" where
  "excArm x =
     (let wire = declaredName (xr_Decl x) in
      case declPayload (xr_Decl x) of
        None \<Rightarrow> \<lparr>ra_Key = xr_Key x, ra_Decoder = None, ra_Store =
          (if IsFixedRuntimeException wire then StoreFixed (the (fixedRuntimeGoName wire)) else StoreSentinel (xr_GoName x))\<rparr>
      | Some t \<Rightarrow>
          if isRecordType t then \<lparr>ra_Key = xr_Key x, ra_Decoder = Some (ExcDec wire), ra_Store = StoreRecord\<rparr>
          else \<lparr>ra_Key = xr_Key x, ra_Decoder = Some (PairDec (callParts t)), ra_Store = StorePayload (xr_GoName x)\<rparr>)"

definition responseArms :: "Model \<Rightarrow> ProcRec \<Rightarrow> respArm list" where
  "responseArms m p = resultArm (pc_Result p) # map excArm (md_Exceptions m)"

text \<open>\<open>%x\<close>: hexadecimal digits without leading zeros.\<close>

definition hexText :: "u64 \<Rightarrow> string" where
  "hexText w = (let ds = dropWhile (\<lambda>c. c = CHR ''0'') (hexDigits 16 (unat w)) in if ds = [] then ''0'' else ds)"

fun decoderName :: "respDecoder \<Rightarrow> string" where
  "decoderName (PairDec parts) = codecName ''dec'' parts"
| "decoderName (ExcDec wire) = codecName ''decexc'' [wire]"

fun storeText :: "respStore \<Rightarrow> string list" where
  "storeText StoreNone = []"
| "storeText StoreOut = [line 3 ''*out = v'']"
| "storeText (StoreFixed name) = [line 3 (''*exc = intercall.'' @ name)]"
| "storeText (StoreSentinel name) = [line 3 (''*exc = '' @ name)]"
| "storeText StoreRecord = [line 3 ''*exc = &v'']"
| "storeText (StorePayload name) = [line 3 (''*exc = &'' @ name @ ''{Payload: v}'')]"

definition armText :: "string \<Rightarrow> respArm \<Rightarrow> string list" where
  "armText label a =
     [line 2 (''case '' @ label @ '':'')]
     @ (case ra_Decoder a of
          None \<Rightarrow> [line 3 ''if len(payload) != 0 {'', line 4 (''return '' @ errTrailingName), line 3 ''}'']
        | Some dec \<Rightarrow>
            [line 3 (''v, rest, err := '' @ decoderName dec @ ''(payload)''),
             line 3 ''if err != nil {'', line 4 ''return err'', line 3 ''}'',
             line 3 ''if len(rest) != 0 {'', line 4 (''return '' @ errTrailingName), line 3 ''}''])
     @ storeText (ra_Store a) @ [line 3 ''return nil'']"

definition resultType :: "Model \<Rightarrow> TypeFact \<Rightarrow> string" where
  "resultType m tf = goTypeOf (md_names m) (md_types m) (tf_Type tf)"

definition responseText :: "Model \<Rightarrow> ProcRec \<Rightarrow> string list" where
  "responseText m p =
     [''func '' @ codecName ''decresp'' [declaredName (pc_Decl p)] @ ''(key uint64, payload []byte''
        @ (case pc_Result p of None \<Rightarrow> [] | Some tf \<Rightarrow> '', out *'' @ resultType m tf) @ '', exc *error) error {'',
      line 1 ''switch key {'']
     @ armText ''0'' (resultArm (pc_Result p))
     @ concat (map (\<lambda>x. armText (''0x'' @ hexText (xr_Key x)) (excArm x)) (md_Exceptions m))
     @ [line 2 ''default:'', line 3 (''return '' @ errUnknownName), line 1 ''}'', ''}'', []]"

section \<open>Callers\<close>

definition emitCaller :: "Model \<Rightarrow> ProcRec \<Rightarrow> string list" where
  "emitCaller m p =
     (let sig = joinWith '', '' ((ctxName @ '' context.Context'') # map (paramText m) (pc_Params p));
          fail = line 1 (''if '' @ callErrName @ '' != nil {'')
            # (case pc_Result p of
                 None \<Rightarrow> [line 2 (''return '' @ callErrName)]
               | Some tf \<Rightarrow> [line 2 (''var '' @ zeroName @ '' '' @ resultType m tf),
                   line 2 (''return '' @ zeroName @ '', '' @ callErrName)]) @ [line 1 ''}'']
      in [(case pc_Result p of
             None \<Rightarrow> ''func '' @ pc_GoName p @ ''('' @ sig @ '') error {''
           | Some tf \<Rightarrow> ''func '' @ pc_GoName p @ ''('' @ sig @ '') ('' @ resultType m tf @ '', error) {''),
          line 1 (connName @ '', '' @ callErrName @ '' := intercall.ConnectionFromContext('' @ ctxName @ '')'')]
         @ fail
         @ (case pc_Result p of None \<Rightarrow> [] | Some tf \<Rightarrow> [line 1 (''var '' @ outName @ '' '' @ resultType m tf)])
         @ [line 1 (''var '' @ excName @ '' error''),
            line 1 (callErrName @ '' = '' @ connName @ ''.Call('' @ ctxName @ '', importBinding, 0x'' @ hexText (pc_Key p)
              @ '', func() ([]byte, error) {''),
            line 2 (''return '' @ codecName ''encreq'' [declaredName (pc_Decl p)] @ ''(nil''
              @ (if pc_Params p = [] then [] else '', '' @ joinWith '', '' (map pm_GoName (pc_Params p))) @ '')''),
            line 1 ''}, func(key uint64, payload []byte) error {'',
            line 2 (''return '' @ codecName ''decresp'' [declaredName (pc_Decl p)] @ ''(key, payload''
              @ (if pc_Result p = None then [] else '', &'' @ outName) @ '', &'' @ excName @ '')''),
            line 1 ''})'']
         @ fail
         @ [line 1 (case pc_Result p of
              None \<Rightarrow> ''return '' @ excName
            | Some tf \<Rightarrow> ''return '' @ outName @ '', '' @ excName), ''}'', []])"

definition emitImportProc :: "Model \<Rightarrow> ProcRec \<Rightarrow> string list" where
  "emitImportProc m p = requestText m p @ responseText m p @ emitCaller m p"

section \<open>The file\<close>

definition emitInterfaceIDLiteral :: "nat \<Rightarrow> byte list \<Rightarrow> string list" where
  "emitInterfaceIDLiteral ind digest =
     [line ind ''intercall.InterfaceID{'']
     @ map (\<lambda>b. line (ind + 1) (''0x'' @ hexDigits 2 (unat b) @ '','')) digest @ [line ind ''},'']"

definition emitImportSingleton :: "byte list \<Rightarrow> string list" where
  "emitImportSingleton digest =
     [''var '' @ importBindingName @ '' = intercall.NewImportBindingWithInterfaceID('']
     @ emitInterfaceIDLiteral 1 digest
     @ ['')'', [], ''// ImportBinding returns the package's immutable import binding.'',
        ''func '' @ importAccessorName @ ''() intercall.ImportBinding {'',
        line 1 (''return '' @ importBindingName), ''}'', []]"

definition importFileText :: "(string \<Rightarrow> byte list) \<Rightarrow> string \<Rightarrow> string \<Rightarrow> Model \<Rightarrow> string list" where
  "importFileText sha256 pkg body m =
     [''package '' @ pkg, [], ''import ('', line 1 (quoted ''errors'')]
     @ (if md_Procs m = [] then [] else [line 1 (quoted ''context'')])
     @ [line 1 (quoted ''github.com/cerasos/intercall/go''), line 1 (quoted ''math''), line 1 (quoted ''unicode/utf8''), '')'', []]
     @ emitSemanticConstant body @ emitImportSupport
     @ concat (map (emitTypeDecl m) (md_Types m))
     @ concat (map (emitImportException m) (md_Exceptions m))
     @ concat (map excDecoderText (emitImportExceptionDecoders m))
     @ concat (map (pairText m) (emitPairs m))
     @ concat (map (emitImportProc m) (md_Procs m))
     @ emitImportSingleton (sha256 body)"

datatype 'e import_failure = ImportSyntax syntax_error | ImportMap map_error | ImportFormat 'e

definition generateImportFile ::
  "(string \<Rightarrow> byte list) \<Rightarrow> (string \<Rightarrow> 'e + string) \<Rightarrow> string \<Rightarrow> string \<Rightarrow> Model \<Rightarrow> 'e + string" where
  "generateImportFile sha256 formatSource pkg body m = formatSource (sourceText (importFileText sha256 pkg body m))"

text \<open>The file and the canonical interface body.\<close>

definition GenerateImport ::
  "unicode_tables \<Rightarrow> (string \<Rightarrow> byte list) \<Rightarrow> (string \<Rightarrow> 'e + string) \<Rightarrow> string \<Rightarrow> string \<Rightarrow> Override list \<Rightarrow> string
     \<Rightarrow> 'e import_failure + string \<times> string" where
  "GenerateImport U sha256 formatSource filename src overrides pkg =
     (case Parse filename src of
        Inl e \<Rightarrow> Inl (ImportSyntax e)
      | Inr parsed \<Rightarrow>
          (let f = AttachDocs parsed in
           case Validate f of
             Some e \<Rightarrow> Inl (ImportSyntax e)
           | None \<Rightarrow>
               (case MapImport U f overrides of
                  Inl e \<Rightarrow> Inl (ImportMap e)
                | Inr m \<Rightarrow>
                    (case generateImportFile sha256 formatSource pkg (Format f) m of
                       Inl e \<Rightarrow> Inl (ImportFormat e)
                     | Inr goFile \<Rightarrow> Inr (goFile, Format f)))))"

end
