(* ===== verification/Import_Programs.thy ===== *)
theory Import_Programs
  imports Generated_Files Import_Emitter Import_Binding
begin

text \<open>
  What the emitted request encoders and response decoders do when they run: a request is the
  record of the procedure's parameters, and a response decoder is the switch the interface
  declares, with one arm per key. The stored exception of a response is the value that
  \<open>*exc\<close> gets.
\<close>

section \<open>Running requests and responses\<close>










section \<open>What they are to do\<close>






section \<open>The records of exceptions and procedures\<close>







section \<open>Keys\<close>


section \<open>Requests\<close>






section \<open>Responses\<close>










section \<open>Properties\<close>






end
