(* ===== verification/Connection_Safety.thy ===== *)
theory Connection_Safety
  imports Connection
begin

text \<open>
  Invariants of every reachable state of a connection, by rule induction over its steps:
  terminal selection, the write gate, request IDs, and the shutdown protocol. What the cleanup
  owner and \<open>Wait\<close> do with them is in \<open>Connection_Shutdown\<close>.
\<close>

section \<open>The effect of the shared actions\<close>

lemma terminate_sel [simp]:
  "w_done (terminate e w) = w_done w" "w_ctxErr (terminate e w) = w_ctxErr w"
  "w_connErr (terminate e w) = w_connErr w" "w_out (terminate e w) = w_out w"
  "w_panic (terminate e w) = w_panic w" "w_frames (terminate e w) = w_frames w"
  "w_ids (terminate e w) = w_ids w" "w_failed (terminate e w) = w_failed w"
  "w_accepted (terminate e w) = w_accepted w" "w_rejected (terminate e w) = w_rejected w"
  "cn_cause (w_conn (terminate e w)) = (case cn_cause (w_conn w) of None \<Rightarrow> Some e | Some x \<Rightarrow> Some x)"
  "cn_terminal (w_conn (terminate e w)) = (cn_terminal (w_conn w) \<or> cn_cause (w_conn w) = None)"
  "cn_nextID (w_conn (terminate e w)) = cn_nextID (w_conn w)"
  "cn_pending (w_conn (terminate e w)) = (if cn_cause (w_conn w) = None then [] else cn_pending (w_conn w))"
  "cn_incoming (w_conn (terminate e w)) = (if cn_cause (w_conn w) = None then Map.empty else cn_incoming (w_conn w))"
  "cn_gate (w_conn (terminate e w)) = cn_gate (w_conn w)"
  "cn_imp (w_conn (terminate e w)) = cn_imp (w_conn w)"
  "cn_closes (w_conn (terminate e w)) = cn_closes (w_conn w)"
  "cn_handlersCanceled (w_conn (terminate e w)) = cn_handlersCanceled (w_conn w)"
  "cn_observerExit (w_conn (terminate e w)) = cn_observerExit (w_conn w)"
  "cn_receiveExit (w_conn (terminate e w)) = cn_receiveExit (w_conn w)"
  "cn_teardown (w_conn (terminate e w)) = cn_teardown (w_conn w)"
  "w_next (terminate e w) = (if cn_cause (w_conn w) = None then Suc (w_next w) else w_next w)"
  by (auto simp: terminate_def selectTerminal_def spawn_def split: option.splits)

lemma terminate_threads [simp]:
  "w_threads (terminate e w) = (if cn_cause (w_conn w) = None
     then (w_threads w)(w_next w := TdComplete e (map snd (cn_pending (w_conn w)))) else w_threads w)"
  by (auto simp: terminate_def selectTerminal_def spawn_def)

lemma complete_sel [simp]:
  "w_conn (complete pc r w) = w_conn w" "w_threads (complete pc r w) = w_threads w"
  "w_next (complete pc r w) = w_next w" "w_ctxErr (complete pc r w) = w_ctxErr w"
  "w_connErr (complete pc r w) = w_connErr w" "w_out (complete pc r w) = w_out w"
  "w_frames (complete pc r w) = w_frames w" "w_ids (complete pc r w) = w_ids w"
  "w_failed (complete pc r w) = w_failed w"
  "w_accepted (complete pc r w) = w_accepted w" "w_rejected (complete pc r w) = w_rejected w"
  "w_done (complete pc r w) = (if w_done w pc = None then (w_done w)(pc \<mapsto> r) else w_done w)"
  "w_panic (complete pc r w) = (w_panic w \<or> w_done w pc \<noteq> None)"
  by (simp_all add: complete_def)

lemmas world_defs = goto_def spawn_def releaseWriteGate_def acquireGate_def

lemma admitIncoming_sel:
  assumes "admitIncoming i k p c = (r, c')"
  shows "cn_cause c' = cn_cause c" "cn_terminal c' = cn_terminal c" "cn_nextID c' = cn_nextID c"
    "cn_pending c' = cn_pending c" "cn_gate c' = cn_gate c" "cn_closes c' = cn_closes c"
    "cn_handlersCanceled c' = cn_handlersCanceled c" "cn_observerExit c' = cn_observerExit c"
    "cn_receiveExit c' = cn_receiveExit c" "cn_teardown c' = cn_teardown c"
    "cn_cause c \<noteq> None \<Longrightarrow> cn_incoming c' = cn_incoming c"
  using assms by (auto simp: admitIncoming_def split: if_splits option.splits)

lemma admitIncoming_discard: "admitIncoming i k p c = (admissionDiscard, c') \<Longrightarrow> cn_cause c' \<noteq> None"
  by (auto simp: admitIncoming_def split: if_splits option.splits)

lemma completeIncomingWrite_sel:
  assumes "completeIncomingWrite i c = (r, c')"
  shows "cn_cause c' = cn_cause c" "cn_terminal c' = cn_terminal c" "cn_nextID c' = cn_nextID c"
    "cn_pending c' = cn_pending c" "cn_gate c' = cn_gate c" "cn_closes c' = cn_closes c"
    "cn_handlersCanceled c' = cn_handlersCanceled c" "cn_observerExit c' = cn_observerExit c"
    "cn_receiveExit c' = cn_receiveExit c" "cn_teardown c' = cn_teardown c"
    "cn_incoming c = Map.empty \<Longrightarrow> cn_incoming c' = Map.empty"
  using assms by (auto simp: completeIncomingWrite_def split: if_splits option.splits)

lemma markIncomingWriting_sel [simp]:
  "cn_cause (markIncomingWriting i c) = cn_cause c" "cn_terminal (markIncomingWriting i c) = cn_terminal c"
  "cn_nextID (markIncomingWriting i c) = cn_nextID c" "cn_pending (markIncomingWriting i c) = cn_pending c"
  "cn_gate (markIncomingWriting i c) = cn_gate c" "cn_closes (markIncomingWriting i c) = cn_closes c"
  "cn_handlersCanceled (markIncomingWriting i c) = cn_handlersCanceled c"
  "cn_observerExit (markIncomingWriting i c) = cn_observerExit c"
  "cn_receiveExit (markIncomingWriting i c) = cn_receiveExit c" "cn_teardown (markIncomingWriting i c) = cn_teardown c"
  by (simp_all add: markIncomingWriting_def split: option.splits)

lemma claim_Some [simp]:
  "claim i c = Some (pc, c') \<longleftrightarrow>
     map_of (cn_pending c) i = Some pc \<and> c' = c\<lparr>cn_pending := filter (\<lambda>(j, _). j \<noteq> i) (cn_pending c)\<rparr>"
  by (auto simp: claim_def split: option.splits)

lemma claim_None [simp]: "claim i c = None \<longleftrightarrow> map_of (cn_pending c) i = None"
  by (simp add: claim_def split: option.splits)

lemma admitCall_Inr [simp]:
  "admitCall t x c = Inr (i, c') \<longleftrightarrow> cn_cause c = None \<and> x = None \<and> i = cn_nextID c \<and> i \<le> idMask
     \<and> c' = c\<lparr>cn_nextID := cn_nextID c + 1, cn_pending := cn_pending c @ [(cn_nextID c, t)]\<rparr>"
  by (auto simp: admitCall_def callReady_def split: option.splits)

lemmas section_sels = admitIncoming_sel completeIncomingWrite_sel

section \<open>Fresh goroutines and terminal state\<close>

definition inv_fresh :: "world \<Rightarrow> bool" where
  "inv_fresh w \<longleftrightarrow> 2 \<le> w_next w \<and> (\<forall>u \<ge> w_next w. w_threads w u = Absent)"

definition inv_term :: "world \<Rightarrow> bool" where
  "inv_term w \<longleftrightarrow> (cn_terminal (w_conn w) \<longleftrightarrow> cn_cause (w_conn w) \<noteq> None)
     \<and> (cn_cause (w_conn w) \<noteq> None \<longrightarrow> cn_pending (w_conn w) = [] \<and> cn_incoming (w_conn w) = Map.empty)"

lemma act_next: "act t s w s' w' \<Longrightarrow> w_next w \<le> w_next w' \<and> (\<forall>u \<ge> w_next w'. w_threads w' u = w_threads w u)"
  by (induction rule: act_induct) (auto simp: world_defs)

lemma act_present: "act t s w s' w' \<Longrightarrow> s \<noteq> Absent"
  by (induction rule: act_induct) auto

text \<open>A step changes no other goroutine; it may start one, a handler or the cleanup owner.\<close>

fun started :: "thread \<Rightarrow> bool" where
  "started (TdComplete e claims) = True"
| "started (HandlerStart i k p) = True"
| "started (CallStart a) = True"
| "started WaitTeardown = True"
| "started _ = False"

lemma act_threads:
  "act t s w s' w' \<Longrightarrow> w_threads w' = w_threads w \<and> w_next w' = w_next w
     \<or> w_next w' = Suc (w_next w) \<and> (\<forall>u. u \<noteq> w_next w \<longrightarrow> w_threads w' u = w_threads w u)
        \<and> started (w_threads w' (w_next w))"
  by (induction rule: act_induct) (auto simp: world_defs)

lemma env_threads:
  "env w w' \<Longrightarrow> w_threads w' = w_threads w \<and> w_next w' = w_next w
     \<or> w_next w' = Suc (w_next w) \<and> (\<forall>u. u \<noteq> w_next w \<longrightarrow> w_threads w' u = w_threads w u)
        \<and> started (w_threads w' (w_next w))"
  by (induction rule: env.induct) (auto simp: world_defs)

lemma env_other:
  assumes "env w w'" "inv_fresh w"
  shows "w_threads w' u = w_threads w u \<or> u = w_next w \<and> w_threads w u = Absent \<and> started (w_threads w' u)"
  using env_threads [OF assms(1)] assms(2) by (cases "u = w_next w") (auto simp: inv_fresh_def)

lemma other_thread:
  assumes "act t s w s' w'" "inv_fresh w"
  shows "w_threads w' u = w_threads w u \<or> u = w_next w \<and> w_threads w u = Absent \<and> started (w_threads w' u)"
  using act_threads [OF assms(1)] assms(2) by (cases "u = w_next w") (auto simp: inv_fresh_def)

lemma started_cases: "started s \<Longrightarrow> (\<exists>e cl. s = TdComplete e cl) \<or> (\<exists>i k p. s = HandlerStart i k p)
   \<or> (\<exists>a. s = CallStart a) \<or> s = WaitTeardown"
  by (cases s) auto

lemma runs_below: "act t (w_threads w t) w s' w' \<Longrightarrow> inv_fresh w \<Longrightarrow> t < w_next w"
  using act_present by (metis inv_fresh_def not_less)

lemma step_fresh: "step w w' \<Longrightarrow> inv_fresh w \<Longrightarrow> inv_fresh w'"
proof (induction rule: step.induct)
  case (run t w s' w')
  have "t < w_next w" using runs_below [OF run(1) run.prems] .
  with act_next [OF run(1)] run.prems show ?case by (fastforce simp: inv_fresh_def goto_def)
next
  case (outside w w')
  then show ?case by (induction rule: env.induct) (auto simp: inv_fresh_def world_defs)
qed

lemma act_term: "act t s w s' w' \<Longrightarrow> inv_term w \<Longrightarrow> inv_term w'"
  by (induction rule: act_induct)
     (auto simp: inv_term_def world_defs section_sels split: option.splits)

lemma step_term: "step w w' \<Longrightarrow> inv_term w \<Longrightarrow> inv_term w'"
proof (induction rule: step.induct)
  case (run t w s' w')
  from act_term [OF run(1) run.prems] show ?case by (simp add: inv_term_def goto_def)
next
  case (outside w w')
  then show ?case by (induction rule: env.induct) (auto simp: inv_term_def world_defs split: option.splits)
qed

section \<open>The write gate\<close>

fun holdsGate :: "thread \<Rightarrow> bool" where
  "holdsGate (CallAdmit fr) = True"
| "holdsGate (CallAbort e) = True"
| "holdsGate (WriteLoop r fr tot b) = True"
| "holdsGate (Wrote r e) = True"
| "holdsGate (HandlerAdmit i fr) = True"
| "holdsGate HandlerAbort = True"
| "holdsGate _ = False"

definition inv_gate :: "world \<Rightarrow> bool" where
  "inv_gate w \<longleftrightarrow> (\<forall>u. holdsGate (w_threads w u) \<longleftrightarrow> cn_gate (w_conn w) = Some u)"

lemma act_gate:
  "act t s w s' w' \<Longrightarrow>
     (holdsGate s' = holdsGate s \<and> cn_gate (w_conn w') = cn_gate (w_conn w))
   \<or> (\<not> holdsGate s \<and> holdsGate s' \<and> cn_gate (w_conn w) = None \<and> cn_gate (w_conn w') = Some t)
   \<or> (holdsGate s \<and> \<not> holdsGate s' \<and> cn_gate (w_conn w') = None)"
  by (induction rule: act_induct) (auto simp: world_defs section_sels)

lemma env_gate: "env w w' \<Longrightarrow> cn_gate (w_conn w') = cn_gate (w_conn w)"
  by (induction rule: env.induct) (auto simp: world_defs)

lemma started_gate: "started s \<Longrightarrow> \<not> holdsGate s"
  by (auto dest: started_cases)

lemma step_gate: "step w w' \<Longrightarrow> inv_fresh w \<Longrightarrow> inv_gate w \<Longrightarrow> inv_gate w'"
proof (induction rule: step.induct)
  case (run t w s' w')
  have others: "holdsGate (w_threads w' u) = holdsGate (w_threads w u)" for u
    using other_thread [OF run(1) run.prems(1), of u] started_gate by auto
  have "holdsGate (w_threads (goto t s' w') u) \<longleftrightarrow> cn_gate (w_conn (goto t s' w')) = Some u" for u
    using act_gate [OF run(1)] run.prems(2) [unfolded inv_gate_def, rule_format, of u]
      run.prems(2) [unfolded inv_gate_def, rule_format, of t] others [of u]
    by (cases "u = t") (simp add: goto_def, fastforce)+
  then show ?case by (simp add: inv_gate_def)
next
  case (outside w w')
  have "holdsGate (w_threads w' u) = holdsGate (w_threads w u)" for u
    using env_other [OF outside(1) outside.prems(1), of u] started_gate by auto
  with env_gate [OF outside(1)] outside.prems(2) show ?case by (simp add: inv_gate_def)
qed

section \<open>Request IDs\<close>

definition inv_ids :: "world \<Rightarrow> bool" where
  "inv_ids w \<longleftrightarrow> w_ids w = map of_nat [0..<unat (cn_nextID (w_conn w))]
     \<and> unat (cn_nextID (w_conn w)) \<le> 2 ^ 63
     \<and> set (map fst (cn_pending (w_conn w))) \<subseteq> set (w_ids w) \<and> distinct (map fst (cn_pending (w_conn w)))"

lemma idMask_unat: "i \<le> idMask \<longleftrightarrow> unat i < 2 ^ 63"
  by (auto simp: word_le_nat_alt idMask_def)

lemma distinct_filter_fst: "distinct (map fst xs) \<Longrightarrow> distinct (map fst (filter P xs))"
  by (induction xs) auto

lemma inv_ids_admit:
  assumes "inv_ids w" "cn_nextID (w_conn w) \<le> idMask"
  shows "inv_ids (w\<lparr>w_conn := (w_conn w)\<lparr>cn_nextID := cn_nextID (w_conn w) + 1,
      cn_pending := cn_pending (w_conn w) @ [(cn_nextID (w_conn w), t)]\<rparr>, w_ids := w_ids w @ [cn_nextID (w_conn w)]\<rparr>)"
proof -
  let ?n = "cn_nextID (w_conn w)"
  have lt: "unat ?n < 2 ^ 63" using assms(2) by (simp add: idMask_unat)
  then have suc: "unat (?n + 1) = Suc (unat ?n)"
    by (simp add: unat_word_ariths)
  have fresh: "?n \<notin> set (w_ids w)"
  proof
    assume "?n \<in> set (w_ids w)"
    then obtain k where "k < unat ?n" "?n = of_nat k" using assms(1) by (auto simp: inv_ids_def)
    then show False using lt by (simp add: unat_of_nat take_bit_eq_mod)
  qed
  show ?thesis
    using assms(1) lt fresh by (auto simp: inv_ids_def suc)
qed

lemma inv_ids_shrink:
  "inv_ids w \<Longrightarrow> w_ids w' = w_ids w \<Longrightarrow> cn_nextID (w_conn w') = cn_nextID (w_conn w) \<Longrightarrow>
     cn_pending (w_conn w') = filter P (cn_pending (w_conn w)) \<Longrightarrow> inv_ids w'"
  using distinct_filter_fst [of "cn_pending (w_conn w)" P] by (auto simp: inv_ids_def)

lemma inv_ids_same:
  "inv_ids w \<Longrightarrow> w_ids w' = w_ids w \<Longrightarrow> cn_nextID (w_conn w') = cn_nextID (w_conn w) \<Longrightarrow>
     cn_pending (w_conn w') \<in> {cn_pending (w_conn w), []} \<Longrightarrow> inv_ids w'"
  unfolding inv_ids_def by (elim conjE insertE) simp_all

lemma act_ids: "act t s w s' w' \<Longrightarrow> inv_ids w \<Longrightarrow> inv_ids w'"
proof (induction rule: act_induct)
  case (call_admit t w i c fr)
  then show ?case using inv_ids_admit [of w t] by auto
next
  case (call_cancel w t e i pc c)
  from call_cancel.prems show ?case by (rule inv_ids_shrink) (use call_cancel in simp_all)
next
  case (recv_response i w pc c t)
  from recv_response.prems show ?case by (rule inv_ids_shrink) (use recv_response in simp_all)
qed (auto simp: world_defs section_sels elim!: inv_ids_same)

lemma step_ids: "step w w' \<Longrightarrow> inv_ids w \<Longrightarrow> inv_ids w'"
proof (induction rule: step.induct)
  case (run t w s' w')
  from act_ids [OF run(1) run.prems] show ?case by (rule inv_ids_same) (simp_all add: goto_def)
next
  case (outside w w')
  then show ?case by (induction rule: env.induct) (auto simp: world_defs elim!: inv_ids_same)
qed

section \<open>Permanence\<close>

text \<open>What never changes back: the cause once selected, and every closed channel.\<close>

definition grows :: "connection \<Rightarrow> connection \<Rightarrow> bool" where
  "grows c c' \<longleftrightarrow> (cn_cause c \<noteq> None \<longrightarrow> cn_cause c' = cn_cause c)
     \<and> (cn_terminal c \<longrightarrow> cn_terminal c') \<and> (cn_teardown c \<longrightarrow> cn_teardown c')
     \<and> (cn_receiveExit c \<longrightarrow> cn_receiveExit c') \<and> (cn_observerExit c \<longrightarrow> cn_observerExit c')
     \<and> (cn_handlersCanceled c \<longrightarrow> cn_handlersCanceled c') \<and> cn_closes c \<le> cn_closes c'"

lemma act_grows: "act t s w s' w' \<Longrightarrow> grows (w_conn w) (w_conn w')"
  by (induction rule: act_induct) (auto simp: grows_def world_defs section_sels)

lemma env_grows: "env w w' \<Longrightarrow> grows (w_conn w) (w_conn w')"
  by (induction rule: env.induct) (auto simp: grows_def world_defs)

lemma step_grows: "step w w' \<Longrightarrow> grows (w_conn w) (w_conn w')"
  by (induction rule: step.induct) (auto simp: goto_def dest: act_grows env_grows)

text \<open>What a goroutine knows at a program point; such knowledge only grows.\<close>

fun knows :: "connection \<Rightarrow> thread \<Rightarrow> bool" where
  "knows c RecvReturn = (cn_cause c \<noteq> None)"
| "knows c (RecvFailed pc) = (cn_cause c \<noteq> None)"
| "knows c ObsReturn = (cn_cause c \<noteq> None)"
| "knows c (TdComplete e claims) = (cn_cause c = Some e)"
| "knows c TdClose = (cn_cause c \<noteq> None)"
| "knows c TdCancel = (cn_cause c \<noteq> None)"
| "knows c TdFinish = (cn_cause c \<noteq> None \<and> cn_handlersCanceled c)"
| "knows c WaitReceive = cn_teardown c"
| "knows c WaitObserver = (cn_teardown c \<and> cn_receiveExit c)"
| "knows c WaitCause = (cn_teardown c \<and> cn_receiveExit c \<and> cn_observerExit c)"
| "knows c (WaitReturned r) = (cn_teardown c \<and> cn_receiveExit c \<and> cn_observerExit c
     \<and> (cn_cause c \<noteq> None \<longrightarrow> r = cn_cause c))"
| "knows c HandlerAbort = (cn_cause c \<noteq> None)"
| "knows c _ = True"

lemma knows_grows: "knows c s \<Longrightarrow> grows c c' \<Longrightarrow> cn_cause c \<noteq> None \<or> (\<forall>r. s \<noteq> WaitReturned r) \<Longrightarrow> knows c' s"
  by (cases s) (auto simp: grows_def)

section \<open>Shutdown\<close>

fun isTd :: "thread \<Rightarrow> bool" where
  "isTd (TdComplete e claims) = True"
| "isTd TdClose = True"
| "isTd TdCancel = True"
| "isTd TdFinish = True"
| "isTd _ = False"

definition tdCloses :: "thread \<Rightarrow> nat" where
  "tdCloses s = (if s = TdCancel \<or> s = TdFinish then 1 else 0)"

definition isRecv :: "thread \<Rightarrow> bool" where
  "isRecv s \<longleftrightarrow> (case s of RecvRead \<Rightarrow> True | RecvDecode _ _ \<Rightarrow> True | RecvFailed _ \<Rightarrow> True | RecvReject _ \<Rightarrow> True
     | RecvReturn \<Rightarrow> True | _ \<Rightarrow> False)"

definition isObs :: "thread \<Rightarrow> bool" where
  "isObs s \<longleftrightarrow> s = ObsWait \<or> s = ObsReturn"

definition inv_down :: "world \<Rightarrow> bool" where
  "inv_down w \<longleftrightarrow>
     (\<forall>u. knows (w_conn w) (w_threads w u))
   \<and> (\<forall>u v. isTd (w_threads w u) \<and> isTd (w_threads w v) \<longrightarrow> u = v)
   \<and> (\<forall>u. isTd (w_threads w u) \<longrightarrow> \<not> cn_teardown (w_conn w) \<and> cn_closes (w_conn w) = tdCloses (w_threads w u))
   \<and> (cn_teardown (w_conn w) \<longrightarrow> cn_cause (w_conn w) \<noteq> None \<and> cn_closes (w_conn w) = 1 \<and> cn_handlersCanceled (w_conn w))
   \<and> (cn_cause (w_conn w) \<noteq> None \<longrightarrow> cn_teardown (w_conn w) \<or> (\<exists>u. isTd (w_threads w u)))
   \<and> (cn_cause (w_conn w) = None \<longrightarrow> cn_closes (w_conn w) = 0)
   \<and> (\<forall>u. isRecv (w_threads w u) \<longleftrightarrow> u = 1 \<and> \<not> cn_receiveExit (w_conn w))
   \<and> (\<forall>u. isObs (w_threads w u) \<longleftrightarrow> u = 0 \<and> \<not> cn_observerExit (w_conn w))"

text \<open>The part a step plays in the shutdown, whatever else it does.\<close>

lemma act_recv: "act t s w s' w' \<Longrightarrow>
     (isRecv s' = isRecv s \<and> cn_receiveExit (w_conn w') = cn_receiveExit (w_conn w))
   \<or> (isRecv s \<and> \<not> isRecv s' \<and> cn_receiveExit (w_conn w'))"
  by (induction rule: act_induct) (auto simp: isRecv_def world_defs section_sels)

lemma act_obs: "act t s w s' w' \<Longrightarrow>
     (isObs s' = isObs s \<and> cn_observerExit (w_conn w') = cn_observerExit (w_conn w))
   \<or> (isObs s \<and> \<not> isObs s' \<and> cn_observerExit (w_conn w'))"
  by (induction rule: act_induct) (auto simp: isObs_def world_defs section_sels)

lemma act_knows: "act t s w s' w' \<Longrightarrow> inv_term w \<Longrightarrow> knows (w_conn w) s \<Longrightarrow> knows (w_conn w') s'"
proof (induction rule: act_induct)
  case (recv_discard i k p w c t)
  then show ?case using admitIncoming_discard [of i k p "w_conn w" c] by simp
qed (auto simp: world_defs section_sels inv_term_def split: option.splits)

lemma act_closes: "act t s w s' w' \<Longrightarrow>
     cn_closes (w_conn w') = cn_closes (w_conn w) + (if s = TdClose then 1 else 0)
   \<and> cn_teardown (w_conn w') = (cn_teardown (w_conn w) \<or> s = TdFinish)"
  by (induction rule: act_induct) (auto simp: world_defs section_sels)

lemma act_isTd: "act t s w s' w' \<Longrightarrow>
     isTd s' = (isTd s \<and> s \<noteq> TdFinish) \<and> (isTd s' \<longrightarrow> tdCloses s' = tdCloses s + (if s = TdClose then 1 else 0))"
  by (induction rule: act_induct) (auto simp: tdCloses_def)

lemma act_cause: "act t s w s' w' \<Longrightarrow>
     (cn_cause (w_conn w') = cn_cause (w_conn w) \<and> (\<forall>u. isTd (w_threads w' u) \<longrightarrow> w_threads w' u = w_threads w u))
   \<or> (cn_cause (w_conn w) = None 
        \<and> (\<exists>e claims. cn_cause (w_conn w') = Some e \<and> w_threads w' (w_next w) = TdComplete e claims) \<and> (\<forall>u. u \<noteq> w_next w \<longrightarrow> w_threads w' u = w_threads w u))"
  by (induction rule: act_induct) (auto simp: world_defs section_sels)

lemma env_cause: "env w w' \<Longrightarrow>
     (cn_cause (w_conn w') = cn_cause (w_conn w) \<and> (\<forall>u. isTd (w_threads w' u) \<longrightarrow> w_threads w' u = w_threads w u))
   \<or> (cn_cause (w_conn w) = None 
        \<and> (\<exists>e claims. cn_cause (w_conn w') = Some e \<and> w_threads w' (w_next w) = TdComplete e claims) \<and> (\<forall>u. u \<noteq> w_next w \<longrightarrow> w_threads w' u = w_threads w u))"
  by (induction rule: env.induct) (auto simp: world_defs)

lemma absent_other: "\<not> isRecv Absent" "\<not> isObs Absent"
  by (simp_all add: isRecv_def isObs_def)

lemma started_other: "started s \<Longrightarrow> \<not> isRecv s \<and> \<not> isObs s \<and> (isTd s \<or> knows c s)"
  by (auto simp: isRecv_def isObs_def dest!: started_cases)

text \<open>
  One goroutine moved from \<open>s\<close> to \<open>s'\<close>, possibly starting another: enough to keep the
  shutdown invariant, shared by the steps of goroutines and of the environment.
\<close>

lemma down_others:
  assumes "inv_down w" "inv_fresh w" "grows (w_conn w) (w_conn w')"
    and other: "w_threads w' u = w_threads w u \<or> u = w_next w \<and> w_threads w u = Absent \<and> started (w_threads w' u)"
    and cause: "(cn_cause (w_conn w') = cn_cause (w_conn w) \<and> (\<forall>u. isTd (w_threads w' u) \<longrightarrow> w_threads w' u = w_threads w u))
      \<or> (cn_cause (w_conn w) = None
        \<and> (\<exists>e claims. cn_cause (w_conn w') = Some e \<and> w_threads w' (w_next w) = TdComplete e claims)
        \<and> (\<forall>u. u \<noteq> w_next w \<longrightarrow> w_threads w' u = w_threads w u))"
  shows "knows (w_conn w') (w_threads w' u)"
    and "isRecv (w_threads w' u) = isRecv (w_threads w u)" and "isObs (w_threads w' u) = isObs (w_threads w u)"
proof -
  have k: "knows (w_conn w) (w_threads w u)" and td: "cn_teardown (w_conn w) \<longrightarrow> cn_cause (w_conn w) \<noteq> None"
    using assms(1) by (auto simp: inv_down_def)
  have side: "cn_cause (w_conn w) \<noteq> None \<or> (\<forall>r. w_threads w u \<noteq> WaitReturned r)"
    using k td by auto
  from other consider (same) "w_threads w' u = w_threads w u"
    | (new) "u = w_next w" "w_threads w u = Absent" "started (w_threads w' u)" by blast
  then show "knows (w_conn w') (w_threads w' u)"
  proof cases
    case same
    with knows_grows [OF k assms(3) side] show ?thesis by simp
  next
    case new
    show ?thesis
    proof (cases "isTd (w_threads w' u)")
      case True
      with cause new show ?thesis by auto
    next
      case False
      with started_other [OF new(3)] show ?thesis by blast
    qed
  qed
  show "isRecv (w_threads w' u) = isRecv (w_threads w u)" "isObs (w_threads w' u) = isObs (w_threads w u)"
    using other started_other [of "w_threads w' u"] absent_other by metis+
qed

lemma inv_downD:
  assumes "inv_down w"
  shows "knows (w_conn w) (w_threads w u)"
    and "isTd (w_threads w u) \<Longrightarrow> isTd (w_threads w v) \<Longrightarrow> u = v"
    and "isTd (w_threads w u) \<Longrightarrow> \<not> cn_teardown (w_conn w)"
    and "isTd (w_threads w u) \<Longrightarrow> cn_closes (w_conn w) = tdCloses (w_threads w u)"
    and "cn_teardown (w_conn w) \<Longrightarrow> cn_cause (w_conn w) \<noteq> None \<and> cn_closes (w_conn w) = 1 \<and> cn_handlersCanceled (w_conn w)"
    and "cn_cause (w_conn w) \<noteq> None \<Longrightarrow> cn_teardown (w_conn w) \<or> (\<exists>u. isTd (w_threads w u))"
    and "cn_cause (w_conn w) = None \<Longrightarrow> cn_closes (w_conn w) = 0"
    and "isRecv (w_threads w u) \<longleftrightarrow> u = 1 \<and> \<not> cn_receiveExit (w_conn w)"
    and "isObs (w_threads w u) \<longleftrightarrow> u = 0 \<and> \<not> cn_observerExit (w_conn w)"
proof -
  note d = assms [unfolded inv_down_def]
  show "knows (w_conn w) (w_threads w u)" by (rule d [THEN conjunct1, rule_format])
  show "isTd (w_threads w u) \<Longrightarrow> isTd (w_threads w v) \<Longrightarrow> u = v"
    by (rule d [THEN conjunct2, THEN conjunct1, rule_format]) (rule conjI)
  show "isTd (w_threads w u) \<Longrightarrow> \<not> cn_teardown (w_conn w)"
    "isTd (w_threads w u) \<Longrightarrow> cn_closes (w_conn w) = tdCloses (w_threads w u)"
    using d [THEN conjunct2, THEN conjunct2, THEN conjunct1, rule_format, of u] by simp_all
  note d4 = d [THEN conjunct2, THEN conjunct2, THEN conjunct2]
  show "cn_teardown (w_conn w) \<Longrightarrow> cn_cause (w_conn w) \<noteq> None \<and> cn_closes (w_conn w) = 1 \<and> cn_handlersCanceled (w_conn w)"
    by (rule d4 [THEN conjunct1, rule_format])
  note d5 = d4 [THEN conjunct2]
  show "cn_cause (w_conn w) \<noteq> None \<Longrightarrow> cn_teardown (w_conn w) \<or> (\<exists>u. isTd (w_threads w u))"
    by (rule d5 [THEN conjunct1, rule_format])
  note d6 = d5 [THEN conjunct2]
  show "cn_cause (w_conn w) = None \<Longrightarrow> cn_closes (w_conn w) = 0" by (rule d6 [THEN conjunct1, rule_format])
  show "isRecv (w_threads w u) \<longleftrightarrow> u = 1 \<and> \<not> cn_receiveExit (w_conn w)"
    "isObs (w_threads w u) \<longleftrightarrow> u = 0 \<and> \<not> cn_observerExit (w_conn w)"
    using d6 [THEN conjunct2] by simp_all
qed

lemma td_has_cause: "inv_down w \<Longrightarrow> isTd (w_threads w u) \<Longrightarrow> cn_cause (w_conn w) \<noteq> None"
  using inv_downD(1) [of w u] by (cases "w_threads w u") auto

lemma env_frame: "env w w' \<Longrightarrow> cn_closes (w_conn w') = cn_closes (w_conn w) \<and> cn_teardown (w_conn w') = cn_teardown (w_conn w)
   \<and> cn_receiveExit (w_conn w') = cn_receiveExit (w_conn w) \<and> cn_observerExit (w_conn w') = cn_observerExit (w_conn w)"
  by (induction rule: env.induct) (auto simp: world_defs)

lemma env_down: "env w w' \<Longrightarrow> inv_fresh w \<Longrightarrow> inv_down w \<Longrightarrow> inv_down w'"
proof -
  assume e: "env w w'" and f: "inv_fresh w" and d: "inv_down w"
  note o = down_others [OF d f env_grows [OF e] env_other [OF e f] env_cause [OF e]]
  note fr = env_frame [OF e]
  note g = env_grows [OF e, unfolded grows_def]
  have next_absent: "w_threads w (w_next w) = Absent" using f by (simp add: inv_fresh_def)
  have td: "isTd (w_threads w' u) \<longrightarrow> w_threads w' u = w_threads w u
      \<or> u = w_next w \<and> cn_cause (w_conn w) = None \<and> tdCloses (w_threads w' u) = 0" for u
    using env_cause [OF e] by (cases "u = w_next w") (auto simp: tdCloses_def)
  have kept: "isTd (w_threads w u) \<Longrightarrow> w_threads w' u = w_threads w u" for u
    using env_other [OF e f, of u] next_absent by auto
  show ?thesis
    unfolding inv_down_def
  proof (intro conjI allI impI)
    show "knows (w_conn w') (w_threads w' u)" for u by (rule o(1))
    show "u = v" if "isTd (w_threads w' u) \<and> isTd (w_threads w' v)" for u v
      using that td [of u] td [of v] inv_downD(2) [OF d, of u v] td_has_cause [OF d] by metis
    show "\<not> cn_teardown (w_conn w')" if "isTd (w_threads w' u)" for u
      using that td [of u] inv_downD(3,5) [OF d] fr by metis
    show "cn_closes (w_conn w') = tdCloses (w_threads w' u)" if "isTd (w_threads w' u)" for u
      using that td [of u] inv_downD(4) [OF d, of u] inv_downD(7) [OF d] fr by metis
    show "cn_cause (w_conn w') \<noteq> None" "cn_closes (w_conn w') = 1" "cn_handlersCanceled (w_conn w')"
      if "cn_teardown (w_conn w')" using that inv_downD(5) [OF d] fr g by auto
    show "cn_teardown (w_conn w') \<or> (\<exists>u. isTd (w_threads w' u))" if "cn_cause (w_conn w') \<noteq> None"
    proof (cases "cn_cause (w_conn w)")
      case None
      with that env_cause [OF e] show ?thesis by (auto intro: exI [of _ "w_next w"])
    next
      case (Some x)
      with inv_downD(6) [OF d] kept fr show ?thesis by (metis option.distinct(1))
    qed
    show "cn_closes (w_conn w') = 0" if "cn_cause (w_conn w') = None"
      using that inv_downD(7) [OF d] fr g by (cases "cn_cause (w_conn w)") auto
    show "isRecv (w_threads w' u) \<longleftrightarrow> u = 1 \<and> \<not> cn_receiveExit (w_conn w')" for u
      using o(2) inv_downD(8) [OF d, of u] fr by simp
    show "isObs (w_threads w' u) \<longleftrightarrow> u = 0 \<and> \<not> cn_observerExit (w_conn w')" for u
      using o(3) inv_downD(9) [OF d, of u] fr by simp
  qed
qed

lemma run_down:
  assumes a: "act t (w_threads w t) w s' w'" and f: "inv_fresh w" and i: "inv_term w" and d: "inv_down w"
  shows "inv_down (goto t s' w')"
proof -
  let ?s = "w_threads w t" and ?T = "w_threads (goto t s' w')"
  note o = down_others [OF d f act_grows [OF a] other_thread [OF a f] act_cause [OF a]]
  note g = act_grows [OF a, unfolded grows_def]
  note cl = act_closes [OF a] and td = act_isTd [OF a]
  have conn: "w_conn (goto t s' w') = w_conn w'" and T: "?T u = (if u = t then s' else w_threads w' u)" for u
    by (simp_all add: goto_def)
  have tn: "t \<noteq> w_next w" using runs_below [OF a f] by simp
  have absent: "w_threads w (w_next w) = Absent" using f by (simp add: inv_fresh_def)
  have old: "isTd (?T u) \<longrightarrow> (isTd (w_threads w u) \<and> (u \<noteq> t \<longrightarrow> ?T u = w_threads w u))
      \<or> u = w_next w \<and> cn_cause (w_conn w) = None \<and> tdCloses (?T u) = 0" for u
    using act_cause [OF a] td tn by (cases "u = t"; cases "u = w_next w") (auto simp: T tdCloses_def)
  have kept: "isTd (w_threads w u) \<Longrightarrow> u \<noteq> t \<Longrightarrow> ?T u = w_threads w u" for u
    using other_thread [OF a f, of u] absent by (auto simp: T)
  have quiet: "cn_closes (w_conn w') = cn_closes (w_conn w) \<and> cn_teardown (w_conn w') = cn_teardown (w_conn w)"
    if "\<not> isTd ?s" using cl that by (cases "?s = TdClose"; cases "?s = TdFinish") auto
  show ?thesis
    unfolding inv_down_def conn
  proof (intro conjI allI impI)
    show "knows (w_conn w') (?T u)" for u
      using o(1) act_knows [OF a i inv_downD(1) [OF d]] by (simp add: T)
    show "u = v" if "isTd (?T u) \<and> isTd (?T v)" for u v
      using that old [of u] old [of v] inv_downD(2) [OF d, of u v] td_has_cause [OF d] by metis
    show "\<not> cn_teardown (w_conn w')" if "isTd (?T u)" for u
    proof (cases "u = t")
      case True
      with that td cl inv_downD(3) [OF d, of t] show ?thesis by (simp add: T)
    next
      case False
      have "\<not> isTd ?s" using that old [of u] inv_downD(2) [OF d, of u t] td_has_cause [OF d, of t] False by auto
      with quiet that old [of u] inv_downD(3,5) [OF d] show ?thesis by metis
    qed
    show "cn_closes (w_conn w') = tdCloses (?T u)" if "isTd (?T u)" for u
    proof (cases "u = t")
      case True
      with that td cl inv_downD(4) [OF d, of t] show ?thesis by (simp add: T)
    next
      case False
      have "\<not> isTd ?s" using that old [of u] inv_downD(2) [OF d, of u t] td_has_cause [OF d, of t] False by auto
      with quiet that old [of u] False inv_downD(4) [OF d, of u] inv_downD(7) [OF d] show ?thesis by metis
    qed
    have fin: "cn_cause (w_conn w) \<noteq> None \<and> cn_handlersCanceled (w_conn w) \<and> cn_closes (w_conn w) = 1"
      if "?s = TdFinish" using inv_downD(1,4) [OF d, of t] that by (simp add: tdCloses_def)
    show "cn_cause (w_conn w') \<noteq> None" "cn_handlersCanceled (w_conn w')" if "cn_teardown (w_conn w')"
      using that cl fin inv_downD(5) [OF d] g by auto
    show "cn_closes (w_conn w') = 1" if "cn_teardown (w_conn w')"
    proof (cases "?s = TdFinish")
      case True
      with cl fin show ?thesis by simp
    next
      case False
      with that cl have td0: "cn_teardown (w_conn w)" by simp
      then have "?s \<noteq> TdClose" using inv_downD(3) [OF d, of t] by auto
      with cl td0 inv_downD(5) [OF d] show ?thesis by simp
    qed
    show "cn_teardown (w_conn w') \<or> (\<exists>u. isTd (?T u))" if "cn_cause (w_conn w') \<noteq> None"
    proof (cases "cn_cause (w_conn w)")
      case None
      with that act_cause [OF a] tn have "isTd (?T (w_next w))" by (auto simp: T)
      then show ?thesis by blast
    next
      case (Some x)
      then consider "cn_teardown (w_conn w)" | u where "isTd (w_threads w u)" using inv_downD(6) [OF d] by blast
      then show ?thesis
      proof cases
        case 1
        with cl show ?thesis by simp
      next
        case 2
        then show ?thesis
        proof (cases "u = t")
          case True
          with 2 td cl have "cn_teardown (w_conn w') \<or> isTd (?T t)" by (auto simp: T)
          then show ?thesis by blast
        qed (use kept 2 in metis)
      qed
    qed
    show "cn_closes (w_conn w') = 0" if "cn_cause (w_conn w') = None"
    proof -
      have n: "cn_cause (w_conn w) = None" using that g by (cases "cn_cause (w_conn w)") auto
      then have "\<not> isTd ?s" using td_has_cause [OF d, of t] by blast
      with quiet inv_downD(7) [OF d n] show ?thesis by simp
    qed
    show "isRecv (?T u) \<longleftrightarrow> u = 1 \<and> \<not> cn_receiveExit (w_conn w')" for u
      using o(2) [of u] inv_downD(8) [OF d, of u] inv_downD(8) [OF d, of t] act_recv [OF a] by (auto simp: T)
    show "isObs (?T u) \<longleftrightarrow> u = 0 \<and> \<not> cn_observerExit (w_conn w')" for u
      using o(3) [of u] inv_downD(9) [OF d, of u] inv_downD(9) [OF d, of t] act_obs [OF a] by (auto simp: T)
  qed
qed

lemma step_down: "step w w' \<Longrightarrow> inv_fresh w \<Longrightarrow> inv_term w \<Longrightarrow> inv_down w \<Longrightarrow> inv_down w'"
  by (induction rule: step.induct) (simp_all add: run_down env_down)

lemma start_invs:
  "inv_fresh (start imp)" "inv_term (start imp)" "inv_gate (start imp)" "inv_ids (start imp)" "inv_down (start imp)"
  by (simp_all add: start_def freshConnection_def inv_fresh_def inv_term_def inv_gate_def inv_ids_def inv_down_def
      isRecv_def isObs_def)

lemma reachable_invs:
  "reachable imp w \<Longrightarrow> inv_fresh w \<and> inv_term w \<and> inv_gate w \<and> inv_ids w \<and> inv_down w"
  by (induction rule: reachable.induct)
     (auto simp: start_invs intro: step_fresh step_term step_gate step_ids step_down)

section \<open>After terminal selection\<close>

fun isWriteLoop :: "thread \<Rightarrow> bool" where
  "isWriteLoop (WriteLoop r fr tot b) = True"
| "isWriteLoop _ = False"

lemma act_terminal:
  "act t s w s' w' \<Longrightarrow> cn_cause (w_conn w) \<noteq> None \<Longrightarrow> w_ids w' = w_ids w \<and> (isWriteLoop s' \<longrightarrow> isWriteLoop s)"
  by (induction rule: act_induct) (auto simp: world_defs)

lemma started_not_writing: "started s \<Longrightarrow> \<not> isWriteLoop s"
  by (auto dest: started_cases)

lemma step_terminal:
  assumes "step w w'" "inv_fresh w" "cn_cause (w_conn w) \<noteq> None"
  shows "w_ids w' = w_ids w \<and> (isWriteLoop (w_threads w' u) \<longrightarrow> isWriteLoop (w_threads w u))"
  using assms(1)
proof cases
  case (run t s' w1)
  with act_terminal [OF run(2) assms(3)] other_thread [OF run(2) assms(2), of u] started_not_writing
  show ?thesis by (auto simp: goto_def)
next
  case outside
  moreover have "w_ids w' = w_ids w" using outside by (induction rule: env.induct) (auto simp: world_defs)
  ultimately show ?thesis using env_other [OF outside assms(2), of u] started_not_writing by auto
qed

section \<open>Properties\<close>

text \<open>
  C4. Terminal selection is permanent. Once a cause is selected every later state has the
  same cause, an empty pending map and no incoming entries; no request ID is allocated any
  more and no goroutine enters the write loop: neither a call nor a handler begins a write.
\<close>

theorem terminal_is_permanent:
  assumes "reachable imp w" "cn_cause (w_conn w) = Some e" "step w w'"
  shows "cn_cause (w_conn w') = Some e \<and> cn_terminal (w_conn w') \<and> cn_pending (w_conn w') = []
    \<and> cn_incoming (w_conn w') = Map.empty \<and> w_ids w' = w_ids w
    \<and> (\<forall>u. isWriteLoop (w_threads w' u) \<longrightarrow> isWriteLoop (w_threads w u))"
proof -
  have "inv_term w'" "inv_fresh w" using reachable_invs [OF assms(1)] step_term [OF assms(3)] by auto
  with step_grows [OF assms(3)] step_terminal [OF assms(3)] assms(2) show ?thesis
    by (auto simp: grows_def inv_term_def)
qed

theorem terminal_is_permanent_witness:
  "\<exists>w. reachable (ImportBinding (Some 0)) w \<and> cn_cause (w_conn w) = Some ErrClosed
     \<and> cn_cause (w_conn (spawn WaitTeardown w)) = Some ErrClosed \<and> cn_pending (w_conn (spawn WaitTeardown w)) = []"
proof (intro exI conjI)
  let ?w = "terminate ErrClosed (start (ImportBinding (Some 0)))"
  show r: "reachable (ImportBinding (Some 0)) ?w" by (blast intro: reachable.intros step.outside env.close)
  show c: "cn_cause (w_conn ?w) = Some ErrClosed" by (simp add: start_def freshConnection_def)
  have "step ?w (spawn WaitTeardown ?w)" by (blast intro: step.outside env.new_wait)
  from terminal_is_permanent [OF r c this]
  show "cn_cause (w_conn (spawn WaitTeardown ?w)) = Some ErrClosed" "cn_pending (w_conn (spawn WaitTeardown ?w)) = []"
    by simp_all
qed

text \<open>
  C9. Outgoing request IDs are allocated consecutively from 0, one per admitted call and
  never twice, up to \<open>0x7fffffffffffffff\<close>; the counter does not wrap, every pending
  entry is under an ID that was allocated, and after the last ID a call that is otherwise
  admissible is refused with \<open>ErrRequestIDsExhausted\<close>.
\<close>

theorem request_ids_consecutive:
  assumes "reachable imp w"
  shows "w_ids w = map of_nat [0..<unat (cn_nextID (w_conn w))] \<and> distinct (w_ids w)
    \<and> (\<forall>i \<in> set (w_ids w). i \<le> idMask)
    \<and> distinct (map fst (cn_pending (w_conn w))) \<and> set (map fst (cn_pending (w_conn w))) \<subseteq> set (w_ids w)
    \<and> (callReady x (w_conn w) = None \<and> length (w_ids w) = 2 ^ 63 \<longrightarrow>
         admitCall t x (w_conn w) = Inl ErrRequestIDsExhausted)"
proof -
  let ?n = "cn_nextID (w_conn w)"
  have i: "inv_ids w" using reachable_invs [OF assms] by blast
  then have b: "unat ?n \<le> 2 ^ 63" and ids: "w_ids w = map of_nat [0..<unat ?n]" by (auto simp: inv_ids_def)
  have small: "unat (of_nat k :: u64) = k" if "k < unat ?n" for k
    using that b by (simp add: unat_of_nat take_bit_eq_mod)
  have "inj_on (of_nat :: nat \<Rightarrow> u64) {0..<unat ?n}"
    by (rule inj_onI) (metis atLeastLessThan_iff small)
  then have "distinct (w_ids w)" using ids by (simp add: distinct_map)
  moreover have "k \<le> idMask" if "k \<in> set (w_ids w)" for k
    using that ids b small by (auto simp: idMask_unat)
  moreover have "admitCall t x (w_conn w) = Inl ErrRequestIDsExhausted"
    if "callReady x (w_conn w) = None" "length (w_ids w) = 2 ^ 63"
  proof -
    have "\<not> ?n \<le> idMask" using that(2) ids by (simp add: idMask_unat)
    with that(1) show ?thesis by (simp add: admitCall_def)
  qed
  ultimately show ?thesis using i ids by (auto simp: inv_ids_def)
qed

theorem request_ids_consecutive_witness:
  "w_ids (start (ImportBinding (Some 0))) = [] \<and> distinct (w_ids (start (ImportBinding (Some 0))))"
  using request_ids_consecutive [OF init, of "ImportBinding (Some 0)"] by (simp add: start_def freshConnection_def)

end
