(* ===== verification/Connection_Runs.thy ===== *)
theory Connection_Runs
  imports Connection_Safety
begin

text \<open>
  Runs of a connection with two calls, step by step, from the start to a frame write that
  succeeds or fails. They show that the states the properties speak of are reached.
\<close>

lemma buildFrame_nonempty: "buildFrame kind i k p \<noteq> []"
  by (rule length_greater_0_conv [THEN iffD1]) (simp add: frameHeaderSize_def)

section \<open>A run with two calls\<close>

text \<open>
  What the run below looks at: the connection is active, goroutines 2 and 3 are at the
  given points, and their contexts are not cancelled.
\<close>

definition scene ::
  "ImportBinding \<Rightarrow> world \<Rightarrow> nat option \<Rightarrow> u64 \<Rightarrow> (nat \<Rightarrow> thread) \<Rightarrow> bytes \<Rightarrow> bytes list \<Rightarrow> bool \<Rightarrow> bool" where
  "scene imp w gate nid T out frames failed \<longleftrightarrow>
     reachable imp w \<and> cn_imp (w_conn w) = imp \<and> cn_cause (w_conn w) = None
     \<and> cn_gate (w_conn w) = gate \<and> cn_nextID (w_conn w) = nid \<and> (\<forall>t \<in> {2, 3}. w_threads w t = T t \<and> w_ctxErr w t = None)
     \<and> w_out w = out \<and> w_frames w = frames \<and> w_failed w = failed"

lemma reachable_run: "reachable imp w \<Longrightarrow> w_threads w t = s \<Longrightarrow> act t s w s' w' \<Longrightarrow> reachable imp (goto t s' w')"
  by (blast intro: reachable.more step.run)

lemma scene_run:
  assumes "scene imp w g n T out fs fl" "t \<in> {2, 3}" "act t (T t) w s' w'"
    and "cn_imp (w_conn w') = imp" "cn_cause (w_conn w') = None" "w_threads w' = w_threads w" "w_ctxErr w' = w_ctxErr w"
    and "\<forall>u \<in> {2, 3}. T' u = (if u = t then s' else T u)"
    and "cn_gate (w_conn w') = g'" "cn_nextID (w_conn w') = n'" "w_out w' = out'" "w_frames w' = fs'" "w_failed w' = fl'"
  shows "scene imp (goto t s' w') g' n' T' out' fs' fl'"
  using assms reachable_run [of imp w t "T t" s' w'] by (auto simp: scene_def goto_def)

lemma scene_cong: "scene imp w g n T out fs fl \<Longrightarrow> \<forall>u \<in> {2, 3}. T' u = T u \<Longrightarrow> scene imp w g n T' out fs fl"
  by (simp add: scene_def)

definition two :: "thread \<Rightarrow> thread \<Rightarrow> nat \<Rightarrow> thread" where
  "two a b u = (if u = 2 then a else b)"

lemma two_simps [simp]: "two a b 2 = a" "two a b 3 = b"
  by (simp_all add: two_def)

definition sampleCall :: "ImportBinding \<Rightarrow> callArgs" where
  "sampleCall imp = \<lparr>ca_hasContext = True, ca_imp = imp, ca_key = 1, ca_hasEncoder = True, ca_hasDecoder = True\<rparr>"

lemma scene_start:
  "\<exists>w. scene imp w None 0 (two (CallStart (sampleCall imp)) (CallStart (sampleCall imp))) [] [] False"
proof -
  let ?w = "spawn (CallStart (sampleCall imp)) (spawn (CallStart (sampleCall imp)) (start imp))"
  have "reachable imp ?w" by (blast intro: reachable.intros step.outside env.new_call)
  then show ?thesis
    by (intro exI [of _ ?w]) (simp add: scene_def start_def freshConnection_def spawn_def)
qed

lemma sceneD:
  assumes "scene imp w g n T out fs fl" "t \<in> {2, 3}"
  shows "cn_imp (w_conn w) = imp" "cn_cause (w_conn w) = None" "cn_gate (w_conn w) = g" "cn_nextID (w_conn w) = n"
    "w_ctxErr w t = None" "w_out w = out" "w_frames w = fs" "w_failed w = fl" "w_threads w t = T t"
  using assms by (auto simp: scene_def)

text \<open>A call that starts on an active connection comes to wait for the gate.\<close>

lemma scene_gate:
  assumes "scene imp w g n T out fs fl" "T t = CallStart (sampleCall imp)" and t: "t \<in> {2, 3}"
  shows "\<exists>w'. scene imp w' g n (T(t := CallGate (buildFrame requestFrame 0 1 []))) out fs fl"
proof -
  note d = sceneD [OF assms(1) t]
  have key: "ca_key (sampleCall imp) = 1" by (simp add: sampleCall_def)
  have a: "act t (T t) w (CallEncode 1) w"
    unfolding assms(2) key [symmetric]
    by (rule act.by_call [OF callStep.call_start]) (simp_all add: d sampleCall_def checkCall_def checkImport_def callReady_def)
  have s1: "scene imp (goto t (CallEncode 1) w) g n (T(t := CallEncode 1)) out fs fl" (is "scene imp ?w1 _ _ ?T1 _ _ _")
    by (rule scene_run [OF assms(1) t a]) (use d in \<open>auto simp: fun_upd_def\<close>)
  have a: "act t (?T1 t) ?w1 (CallRecheck 1 []) ?w1" by (simp add: act.by_call [OF callStep.call_encode])
  have s2: "scene imp (goto t (CallRecheck 1 []) ?w1) g n (T(t := CallRecheck 1 [])) out fs fl" (is "scene imp ?w2 _ _ ?T2 _ _ _")
    by (rule scene_run [OF s1 t a]) (use sceneD [OF s1 t] in \<open>auto simp: fun_upd_def\<close>)
  have a: "act t (?T2 t) ?w2 (CallGate (buildFrame requestFrame 0 1 [])) ?w2"
    using sceneD [OF s2 t] by (simp add: act.by_call [OF callStep.call_recheck] callReady_def)
  show ?thesis
    by (rule exI, rule scene_run [OF s2 t a]) (use sceneD [OF s2 t] in \<open>auto simp: fun_upd_def\<close>)
qed

text \<open>With the gate free it is admitted under the next ID.\<close>

lemma scene_admit:
  assumes "scene imp w None n T out fs fl" "T t = CallGate (buildFrame requestFrame 0 1 [])" and t: "t \<in> {2, 3}"
    and "n \<le> idMask"
  shows "\<exists>w'. scene imp w' (Some t) (n + 1)
    (T(t := WriteLoop (CallRole n) (buildFrame requestFrame n 1 []) 0 (buildFrame requestFrame n 1 []))) out fs fl"
proof -
  let ?fr = "buildFrame requestFrame 0 1 []"
  note d = sceneD [OF assms(1) t]
  have a: "act t (T t) w (CallAdmit ?fr) (acquireGate t w)"
    unfolding assms(2) by (rule act.by_call [OF callStep.call_gate]) (simp add: d)
  have s1: "scene imp (goto t (CallAdmit ?fr) (acquireGate t w)) (Some t) n (T(t := CallAdmit ?fr)) out fs fl"
    (is "scene imp ?w1 _ _ ?T1 _ _ _")
    by (rule scene_run [OF assms(1) t a]) (use d in \<open>auto simp: acquireGate_def\<close>)
  note d1 = sceneD [OF s1 t]
  let ?c = "(w_conn ?w1)\<lparr>cn_nextID := cn_nextID (w_conn ?w1) + 1, cn_pending := cn_pending (w_conn ?w1) @ [(n, t)]\<rparr>"
  have "admitCall t (w_ctxErr ?w1 t) (w_conn ?w1) = Inr (n, ?c)" using d1 assms(4) by simp
  from act.by_call [OF callStep.call_admit [OF this, of ?fr]]
  have a: "act t (?T1 t) ?w1 (WriteLoop (CallRole n) (buildFrame requestFrame n 1 []) 0 (buildFrame requestFrame n 1 []))
      (?w1\<lparr>w_conn := ?c, w_ids := w_ids ?w1 @ [n]\<rparr>)"
    using assms(4) by (simp add: patchRequestID_build)
  show ?thesis
    by (rule exI, rule scene_run [OF s1 t a]) (use d1 in \<open>auto simp: fun_upd_def\<close>)
qed

lemma scene_write:
  assumes "scene imp w (Some t) n T out fs fl" "T t = WriteLoop (CallRole i) fr 0 fr" and t: "t \<in> {2, 3}" "fr \<noteq> []"
  shows "\<exists>w'. scene imp w' None n (T(t := Released (CallRole i) None)) (out @ fr) (fs @ [fr]) fl"
proof -
  note d = sceneD [OF assms(1) t(1)]
  let ?wa = "w\<lparr>w_out := w_out w @ fr\<rparr>" and ?la = "WriteLoop (CallRole i) fr (length fr) []"
  have a: "act t (T t) w ?la ?wa"
    using act.by_write [OF writeLoopStep.write_more [of fr "length fr" "int (length fr)" 0 None "length fr" "[]" t "CallRole i" fr w]] assms(2) t(2)
    by (simp add: writeCall_def writeStep_More)
  have s1: "scene imp (goto t ?la ?wa) (Some t) n (T(t := ?la)) (out @ fr) fs fl" (is "scene imp ?w1 _ _ ?T1 _ _ _")
    by (rule scene_run [OF assms(1) t(1) a]) (use d in \<open>auto simp: fun_upd_def\<close>)
  note d1 = sceneD [OF s1 t(1)]
  have a: "act t (?T1 t) ?w1 (Wrote (CallRole i) None) (?w1\<lparr>w_frames := w_frames ?w1 @ [fr]\<rparr>)" by (simp add: act.by_write [OF writeLoopStep.write_all])
  have s2: "scene imp (goto t (Wrote (CallRole i) None) (?w1\<lparr>w_frames := w_frames ?w1 @ [fr]\<rparr>)) (Some t) n
      (T(t := Wrote (CallRole i) None)) (out @ fr) (fs @ [fr]) fl" (is "scene imp ?w2 _ _ ?T2 _ _ _")
    by (rule scene_run [OF s1 t(1) a]) (use d1 in \<open>auto simp: fun_upd_def\<close>)
  note d2 = sceneD [OF s2 t(1)]
  have a: "act t (?T2 t) ?w2 (Released (CallRole i) None) (releaseWriteGate ?w2)" by (simp add: act.by_write [OF writeLoopStep.write_release])
  show ?thesis
    by (rule exI, rule scene_run [OF s2 t(1) a]) (use d2 in \<open>auto simp: releaseWriteGate_def\<close>)
qed

text \<open>The stream takes \<open>m\<close> bytes of a frame and fails; the writer releases the gate.\<close>

lemma scene_fail:
  assumes "scene imp w (Some t) n T out fs fl" "T t = WriteLoop (CallRole i) fr 0 fr" and t: "t \<in> {2, 3}" "0 < m" "m < length fr"
  shows "\<exists>w' e. scene imp w' None n (T(t := Released (CallRole i) (Some e))) (out @ take m fr) fs True"
proof -
  note d = sceneD [OF assms(1) t(1)]
  obtain e where "writeStep 0 fr (int m) (Some (ForeignError 0)) = WriteFail e" using t by (simp add: writeStep_def)
  from act.by_write [OF writeLoopStep.write_fail [of fr m "int m" 0, OF _ _ this, of t "CallRole i" fr w]]
  have a: "act t (T t) w (Wrote (CallRole i) (Some e)) (w\<lparr>w_out := w_out w @ take m fr, w_failed := True\<rparr>)"
    using assms(2) t by (cases fr) (auto simp: writeCall_def)
  have s1: "scene imp (goto t (Wrote (CallRole i) (Some e)) (w\<lparr>w_out := w_out w @ take m fr, w_failed := True\<rparr>)) (Some t) n
      (T(t := Wrote (CallRole i) (Some e))) (out @ take m fr) fs True" (is "scene imp ?w1 _ _ ?T1 _ _ _")
    by (rule scene_run [OF assms(1) t(1) a]) (use d in \<open>auto simp: fun_upd_def\<close>)
  note d1 = sceneD [OF s1 t(1)]
  have a: "act t (?T1 t) ?w1 (Released (CallRole i) (Some e)) (releaseWriteGate ?w1)" by (simp add: act.by_write [OF writeLoopStep.write_release])
  show ?thesis
    by (rule exI, rule exI [of _ e], rule scene_run [OF s1 t(1) a]) (use d1 in \<open>auto simp: releaseWriteGate_def\<close>)
qed

end
