(* ===== verification/Connection_Calls.thy ===== *)
theory Connection_Calls
  imports Connection_Runs
begin

text \<open>
  The single outcome of a call. A pending call is owned by the pending map, by a goroutine
  that removed it (the receive loop, the cancelling caller, the cleanup owner), or it is
  settled; ownership is exclusive and is handed on until the call is settled exactly once.
\<close>

datatype callStatus = Pre | Wait u64 | Lost | Over

fun status :: "thread \<Rightarrow> callStatus" where
  "status (WriteLoop (CallRole i) fr tot b) = Wait i"
| "status (Wrote (CallRole i) e) = Wait i"
| "status (Released (CallRole i) e) = Wait i"
| "status (CallWaiting i) = Wait i"
| "status (CallCanceling e) = Lost"
| "status CallLost = Lost"
| "status (CallReturned r) = Over"
| "status _ = Pre"

fun claims :: "nat \<Rightarrow> thread \<Rightarrow> nat list" where
  "claims t (TdComplete e pcs) = pcs"
| "claims t (RecvDecode i pc) = [pc]"
| "claims t (RecvFailed pc) = [pc]"
| "claims t (CallCanceling e) = [t]"
| "claims t _ = []"

lemma status_role:
  "status (WriteLoop r fr tot b) = (case r of CallRole i \<Rightarrow> Wait i | HandlerRole i \<Rightarrow> Pre)"
  "status (Wrote r e) = (case r of CallRole i \<Rightarrow> Wait i | HandlerRole i \<Rightarrow> Pre)"
  "status (Released r e) = (case r of CallRole i \<Rightarrow> Wait i | HandlerRole i \<Rightarrow> Pre)"
  by (cases r; simp)+

definition isOpen :: "callStatus \<Rightarrow> bool" where
  "isOpen st \<longleftrightarrow> st = Lost \<or> (\<exists>i. st = Wait i)"

lemma isOpen_simps [simp]: "isOpen (Wait i)" "isOpen Lost" "\<not> isOpen Pre" "\<not> isOpen Over"
  by (simp_all add: isOpen_def)

text \<open>Goroutines \<open>T\<close>, the pending map \<open>P\<close> and the settled calls \<open>D\<close>.\<close>

definition own :: "(nat \<Rightarrow> thread) \<Rightarrow> (u64 \<times> nat) list \<Rightarrow> (nat \<rightharpoonup> go_error option) \<Rightarrow> bool" where
  "own T P D \<longleftrightarrow>
     (\<forall>i u. (i, u) \<in> set P \<longrightarrow> status (T u) = Wait i \<and> D u = None)
   \<and> (\<forall>v pc. pc \<in> set (claims v (T v)) \<longrightarrow> D pc = None \<and> pc \<notin> snd ` set P \<and> isOpen (status (T pc)))
   \<and> (\<forall>v. distinct (claims v (T v)))
   \<and> (\<forall>v v' pc. pc \<in> set (claims v (T v)) \<and> pc \<in> set (claims v' (T v')) \<longrightarrow> v = v')
   \<and> (\<forall>u. isOpen (status (T u)) \<longrightarrow> u \<in> snd ` set P \<or> (\<exists>v. u \<in> set (claims v (T v))) \<or> D u \<noteq> None)
   \<and> (\<forall>u. D u \<noteq> None \<longrightarrow> status (T u) \<noteq> Pre)
   \<and> (\<forall>u v i. status (T u) = Wait i \<and> status (T v) = Wait i \<longrightarrow> u = v)"

lemma ownD:
  assumes "own T P D"
  shows own_map: "(i, u) \<in> set P \<Longrightarrow> status (T u) = Wait i \<and> D u = None"
    and own_claim: "pc \<in> set (claims v (T v)) \<Longrightarrow> D pc = None \<and> pc \<notin> snd ` set P \<and> isOpen (status (T pc))"
    and own_distinct: "distinct (claims v (T v))"
    and own_unique: "pc \<in> set (claims v (T v)) \<Longrightarrow> pc \<in> set (claims v' (T v')) \<Longrightarrow> v = v'"
    and own_exists: "isOpen (status (T u)) \<Longrightarrow> u \<in> snd ` set P \<or> (\<exists>v. u \<in> set (claims v (T v))) \<or> D u \<noteq> None"
    and own_settled: "D u \<noteq> None \<Longrightarrow> status (T u) \<noteq> Pre"
    and own_id: "status (T u) = Wait i \<Longrightarrow> status (T v) = Wait i \<Longrightarrow> u = v"
  using assms unfolding own_def by (elim conjE; metis)+

lemma ownI:
  assumes "\<And>i u. (i, u) \<in> set P \<Longrightarrow> status (T u) = Wait i \<and> D u = None"
    and "\<And>v pc. pc \<in> set (claims v (T v)) \<Longrightarrow> D pc = None \<and> pc \<notin> snd ` set P \<and> isOpen (status (T pc))"
    and "\<And>v. distinct (claims v (T v))"
    and "\<And>v v' pc. pc \<in> set (claims v (T v)) \<Longrightarrow> pc \<in> set (claims v' (T v')) \<Longrightarrow> v = v'"
    and "\<And>u. isOpen (status (T u)) \<Longrightarrow> u \<in> snd ` set P \<or> (\<exists>v. u \<in> set (claims v (T v))) \<or> D u \<noteq> None"
    and "\<And>u. D u \<noteq> None \<Longrightarrow> status (T u) \<noteq> Pre"
    and "\<And>u v i. status (T u) = Wait i \<Longrightarrow> status (T v) = Wait i \<Longrightarrow> u = v"
  shows "own T P D"
  unfolding own_def
  by (intro conjI) (use assms(1) in blast, use assms(2) in blast, use assms(3) in blast, use assms(4) in blast,
      use assms(5) in blast, use assms(6) in blast, use assms(7) in blast)

section \<open>What a step does to ownership\<close>

lemma own_neutral:
  assumes "own T P D" "status s' = status (T t)" "claims t s' = claims t (T t)"
  shows "own (T(t := s')) P D"
proof -
  have st: "status ((T(t := s')) u) = status (T u)" and cl: "claims v ((T(t := s')) v) = claims v (T v)" for u v
    using assms(2,3) by simp_all
  from assms(1) show ?thesis unfolding own_def st cl .
qed

lemma own_return:
  assumes o: "own T P D" and c: "claims t (T t) = []" "claims t s' = []" "status s' = Over"
    and opn: "\<not> isOpen (status (T t)) \<or> D t \<noteq> None"
  shows "own (T(t := s')) P D"
proof -
  have cl: "claims v ((T(t := s')) v) = claims v (T v)" for v using c by simp
  have nt: "(i, t) \<notin> set P" "t \<notin> set (claims v (T v))" for i v
    using own_map [OF o, of i t] own_claim [OF o, of t v] opn by auto
  show ?thesis
  proof (rule ownI, unfold cl)
    show "status ((T(t := s')) u) = Wait i \<and> D u = None" if "(i, u) \<in> set P" for i u
      using that own_map [OF o that] nt(1) by auto
    show "D pc = None \<and> pc \<notin> snd ` set P \<and> isOpen (status ((T(t := s')) pc))" if "pc \<in> set (claims v (T v))" for v pc
      using that own_claim [OF o that] nt(2) by (cases "pc = t") auto
    show "u \<in> snd ` set P \<or> (\<exists>v. u \<in> set (claims v (T v))) \<or> D u \<noteq> None" if "isOpen (status ((T(t := s')) u))" for u
      using that own_exists [OF o, of u] c(3) by (cases "u = t") auto
    show "status ((T(t := s')) u) \<noteq> Pre" if "D u \<noteq> None" for u
      using own_settled [OF o that] c(3) by simp
    show "u = v" if "status ((T(t := s')) u) = Wait i" "status ((T(t := s')) v) = Wait i" for u v i
      using that own_id [OF o, of u i v] c(3) by (auto split: if_splits)
  qed (use own_distinct [OF o] own_unique [OF o] in blast)+
qed

lemma own_lost:
  assumes o: "own T P D" and c: "claims t (T t) = []" "claims t s' = []" "status s' = Lost"
    and w: "status (T t) = Wait i" "map_of P i = None"
  shows "own (T(t := s')) P D"
proof -
  have cl: "claims v ((T(t := s')) v) = claims v (T v)" for v using c by simp
  have nt: "(j, t) \<notin> set P" for j
    using own_map [OF o, of j t] w weak_map_of_SomeI by fastforce
  have opn: "isOpen (status ((T(t := s')) u)) = isOpen (status (T u))" for u using w c by simp
  show ?thesis
  proof (rule ownI, unfold cl opn)
    show "status ((T(t := s')) u) = Wait i \<and> D u = None" if "(i, u) \<in> set P" for i u
      using that own_map [OF o that] nt by auto
    show "status ((T(t := s')) u) \<noteq> Pre" if "D u \<noteq> None" for u
      using own_settled [OF o that] c(3) by simp
    show "u = v" if "status ((T(t := s')) u) = Wait i" "status ((T(t := s')) v) = Wait i" for u v i
      using that own_id [OF o, of u i v] c(3) by (auto split: if_splits)
  qed (use own_distinct [OF o] own_unique [OF o] own_claim [OF o] own_exists [OF o] in blast)+
qed

lemma own_admit:
  assumes o: "own T P D" and c: "claims t (T t) = []" "claims t s' = []"
    and st: "status (T t) = Pre" "status s' = Wait i" and fresh: "\<And>u. status (T u) \<noteq> Wait i"
  shows "own (T(t := s')) (P @ [(i, t)]) D"
proof -
  have cl: "claims v ((T(t := s')) v) = claims v (T v)" for v using c by simp
  have nt: "(j, t) \<notin> set P" "t \<notin> set (claims v (T v))" for j v
    using own_map [OF o, of j t] own_claim [OF o, of t v] st by auto
  have dt: "D t = None" using own_settled [OF o, of t] st by blast
  show ?thesis
  proof (rule ownI, unfold cl)
    show "status ((T(t := s')) u) = Wait j \<and> D u = None" if "(j, u) \<in> set (P @ [(i, t)])" for j u
      using that own_map [OF o, of j u] nt st dt by auto
    show "D pc = None \<and> pc \<notin> snd ` set (P @ [(i, t)]) \<and> isOpen (status ((T(t := s')) pc))"
      if "pc \<in> set (claims v (T v))" for v pc
      using that own_claim [OF o that] nt(2) by auto
    show "u \<in> snd ` set (P @ [(i, t)]) \<or> (\<exists>v. u \<in> set (claims v (T v))) \<or> D u \<noteq> None"
      if "isOpen (status ((T(t := s')) u))" for u
      using that own_exists [OF o, of u] by (cases "u = t") auto
    show "status ((T(t := s')) u) \<noteq> Pre" if "D u \<noteq> None" for u
      using own_settled [OF o that] st by simp
    show "u = v" if "status ((T(t := s')) u) = Wait j" "status ((T(t := s')) v) = Wait j" for u v j
      using that own_id [OF o, of u j v] st fresh by (auto split: if_splits)
  qed (use own_distinct [OF o] own_unique [OF o] in blast)+
qed

lemma own_take:
  assumes o: "own T P D" and m: "map_of P i = Some pc" and c: "claims t (T t) = []" "claims t s' = [pc]"
    and st: "status s' = status (T t) \<or> pc = t \<and> status s' = Lost"
  shows "own (T(t := s')) (filter (\<lambda>(j, _). j \<noteq> i) P) D"
proof -
  have pc: "status (T pc) = Wait i" "D pc = None" using own_map [OF o map_of_SomeD [OF m]] by auto
  have np: "pc \<notin> set (claims v (T v))" for v using own_claim [OF o, of pc v] map_of_SomeD [OF m] by force
  have opn: "isOpen (status ((T(t := s')) u)) = isOpen (status (T u))" for u using st pc by auto
  have only: "j = i" if "(j, pc) \<in> set P" for j using own_map [OF o that] pc by auto
  have same: "u = pc" if "(i, u) \<in> set P" for u using own_map [OF o that] own_id [OF o, of u i pc] pc by auto
  have cl: "x \<in> set (claims v ((T(t := s')) v)) \<longleftrightarrow> x \<in> set (claims v (T v)) \<or> v = t \<and> x = pc" for v x
    using c by auto
  show ?thesis
  proof (rule ownI, unfold opn cl)
    show "status ((T(t := s')) u) = Wait j \<and> D u = None" if "(j, u) \<in> set (filter (\<lambda>(j, _). j \<noteq> i) P)" for j u
      using that own_map [OF o, of j u] st pc by auto
    show "D x = None \<and> x \<notin> snd ` set (filter (\<lambda>(j, _). j \<noteq> i) P) \<and> isOpen (status (T x))"
      if "x \<in> set (claims v (T v)) \<or> v = t \<and> x = pc" for v x
      using that own_claim [OF o, of x v] pc only by force
    show "distinct (claims v ((T(t := s')) v))" for v using own_distinct [OF o, of v] c by auto
    show "v = v'" if "x \<in> set (claims v (T v)) \<or> v = t \<and> x = pc" "x \<in> set (claims v' (T v')) \<or> v' = t \<and> x = pc" for v v' x
      using that own_unique [OF o, of x v v'] np by auto
    show "u \<in> snd ` set (filter (\<lambda>(j, _). j \<noteq> i) P) \<or> (\<exists>v. u \<in> set (claims v (T v)) \<or> v = t \<and> u = pc) \<or> D u \<noteq> None"
      if "isOpen (status (T u))" for u
    proof (cases "u = pc")
      case False
      with own_exists [OF o that] same show ?thesis by force
    qed blast
    show "status ((T(t := s')) u) \<noteq> Pre" if "D u \<noteq> None" for u
      using own_settled [OF o that] st by auto
    show "u = v" if "status ((T(t := s')) u) = Wait j" "status ((T(t := s')) v) = Wait j" for u v j
      using that own_id [OF o, of u j v] st by (auto split: if_splits)
  qed
qed

lemma own_settle:
  assumes o: "own T P D" and pc: "pc \<in> set (claims t (T t))" and c: "claims t s' = remove1 pc (claims t (T t))"
    and st: "status s' = status (T t) \<or> pc = t \<and> status s' = Over"
  shows "own (T(t := s')) P (D(pc \<mapsto> r))"
proof -
  note pcD = own_claim [OF o pc]
  have d: "distinct (claims t (T t))" using own_distinct [OF o] .
  have cl: "x \<in> set (claims v ((T(t := s')) v)) \<longleftrightarrow> x \<in> set (claims v (T v)) \<and> x \<noteq> pc" for v x
  proof (cases "v = t")
    case True
    with c d show ?thesis by (auto simp: set_remove1_eq)
  next
    case False
    with own_unique [OF o pc, of v] show ?thesis by auto
  qed
  have keep: "status ((T(t := s')) u) = status (T u)" if "u \<noteq> pc" for u using st that by auto
  show ?thesis
  proof (rule ownI, unfold cl)
    show "status ((T(t := s')) u) = Wait i \<and> (D(pc \<mapsto> r)) u = None" if "(i, u) \<in> set P" for i u
    proof -
      have "u \<noteq> pc" using that pcD by force
      with own_map [OF o that] keep show ?thesis by simp
    qed
    show "(D(pc \<mapsto> r)) x = None \<and> x \<notin> snd ` set P \<and> isOpen (status ((T(t := s')) x))"
      if "x \<in> set (claims v (T v)) \<and> x \<noteq> pc" for v x
      using that own_claim [OF o, of x v] keep [of x] by simp
    show "distinct (claims v ((T(t := s')) v))" for v
      using own_distinct [OF o, of v] c by (auto simp: distinct_remove1)
    show "v = v'" if "x \<in> set (claims v (T v)) \<and> x \<noteq> pc" "x \<in> set (claims v' (T v')) \<and> x \<noteq> pc" for v v' x
      using that own_unique [OF o, of x v v'] by blast
    show "u \<in> snd ` set P \<or> (\<exists>v. u \<in> set (claims v (T v)) \<and> u \<noteq> pc) \<or> (D(pc \<mapsto> r)) u \<noteq> None"
      if "isOpen (status ((T(t := s')) u))" for u
      using that own_exists [OF o, of u] keep [of u] by (cases "u = pc") auto
    show "status ((T(t := s')) u) \<noteq> Pre" if "(D(pc \<mapsto> r)) u \<noteq> None" for u
    proof (cases "u = pc")
      case True
      with pcD st show ?thesis by (cases "pc = t") auto
    next
      case False
      with that own_settled [OF o, of u] keep show ?thesis by simp
    qed
    show "u = v" if "status ((T(t := s')) u) = Wait j" "status ((T(t := s')) v) = Wait j" for u v j
      using that own_id [OF o, of u j v] st by (auto split: if_splits)
  qed
qed

lemma own_drain:
  assumes o: "own T P D" and n: "T n = Absent" and d: "distinct (map fst P)"
  shows "own (T(n := TdComplete e (map snd P))) [] D"
proof -
  let ?T = "T(n := TdComplete e (map snd P))"
  have st: "status (?T u) = status (T u)" for u using n by simp
  have cl: "x \<in> set (claims v (?T v)) \<longleftrightarrow> x \<in> set (claims v (T v)) \<or> v = n \<and> x \<in> snd ` set P" for v x using n by auto
  have dist: "distinct (map snd P)"
  proof -
    have "fst x = fst y" if "x \<in> set P" "y \<in> set P" "snd x = snd y" for x y
      using that own_map [OF o] by (metis callStatus.inject prod.collapse)
    then have "inj_on snd (set P)" by (metis (no_types) inj_onI prod.expand)
    with d show ?thesis by (simp add: distinct_map)
  qed
  show ?thesis
  proof (rule ownI, unfold st cl)
    show "D x = None \<and> x \<notin> snd ` set [] \<and> isOpen (status (T x))"
      if "x \<in> set (claims v (T v)) \<or> v = n \<and> x \<in> snd ` set P" for v x
      using that own_claim [OF o, of x v] own_map [OF o] by fastforce
    show "distinct (claims v (?T v))" for v using own_distinct [OF o, of v] dist by simp
    show "v = v'" if "x \<in> set (claims v (T v)) \<or> v = n \<and> x \<in> snd ` set P"
      "x \<in> set (claims v' (T v')) \<or> v' = n \<and> x \<in> snd ` set P" for v v' x
      using that own_unique [OF o, of x v v'] own_claim [OF o, of x v] own_claim [OF o, of x v'] by blast
    show "u \<in> snd ` set [] \<or> (\<exists>v. u \<in> set (claims v (T v)) \<or> v = n \<and> u \<in> snd ` set P) \<or> D u \<noteq> None"
      if "isOpen (status (T u))" for u using own_exists [OF o that] by auto
  qed (use own_settled [OF o] own_id [OF o] in auto)
qed

section \<open>Every reachable state\<close>

definition inv_own :: "world \<Rightarrow> bool" where
  "inv_own w \<longleftrightarrow> own (w_threads w) (cn_pending (w_conn w)) (w_done w)
     \<and> (\<forall>u i. status (w_threads w u) = Wait i \<longrightarrow> i \<in> set (w_ids w))"

lemma inv_own_terminate:
  assumes "own (w_threads w) (cn_pending (w_conn w)) (w_done w)" "inv_fresh w" "inv_ids w"
  shows "own (w_threads (terminate e w)) (cn_pending (w_conn (terminate e w))) (w_done (terminate e w))"
  using own_drain [OF assms(1), of "w_next w" e] assms
  by (simp add: inv_fresh_def inv_ids_def)

lemma own_spawn:
  assumes "own T P D" "T n = Absent" "status s = Pre" "claims n s = []"
  shows "own (T(n := s)) P D"
  using own_neutral [OF assms(1), of s n] assms by simp

lemma inv_own_goto:
  assumes "own (w_threads w) (cn_pending (w_conn w)) (w_done w)" "w_threads w t = s"
    "status s' = status s" "claims t s' = claims t s"
  shows "own ((w_threads w)(t := s')) (cn_pending (w_conn w)) (w_done w)"
  using own_neutral [OF assms(1)] assms(2-4) by simp

lemma fresh_id:
  assumes "inv_ids w" "cn_nextID (w_conn w) \<le> idMask"
  shows "cn_nextID (w_conn w) \<notin> set (w_ids w)"
proof
  let ?n = "cn_nextID (w_conn w)"
  assume "?n \<in> set (w_ids w)"
  then obtain k where "k < unat ?n" "?n = of_nat k" using assms(1) by (auto simp: inv_ids_def)
  then show False using assms(2) by (simp add: idMask_unat unat_of_nat take_bit_eq_mod)
qed

lemma run_own:
  assumes "act t s w s' w'" "w_threads w t = s" "t < w_next w" "inv_fresh w" "inv_ids w"
    and ids: "\<forall>u i. status (w_threads w u) = Wait i \<longrightarrow> i \<in> set (w_ids w)"
    and "own (w_threads w) (cn_pending (w_conn w)) (w_done w)"
  shows "own ((w_threads w')(t := s')) (cn_pending (w_conn w')) (w_done w')"
  using assms
proof (induction rule: act_induct)
  case (call_admit t w i c fr)
  then have "status (w_threads w u) \<noteq> Wait i" for u using fresh_id [of w] by auto
  with own_admit [OF call_admit.prems(6), of t "WriteLoop (CallRole i) (patchRequestID fr i) 0 (patchRequestID fr i)" i]
    call_admit show ?case by (auto simp: fun_upd_def)
next
  case (call_done w t r i)
  then show ?case by (intro own_return) auto
next
  case (call_lost w t r)
  then show ?case by (intro own_return) auto
next
  case (call_cancel w t e i pc c)
  have "pc = t"
    using own_map [OF call_cancel.prems(6), of i pc] own_id [OF call_cancel.prems(6), of pc i t] call_cancel
    by (auto dest: map_of_SomeD)
  with own_take [OF call_cancel.prems(6), of i pc t "CallCanceling e"] call_cancel show ?case
    by (auto simp: fun_upd_def)
next
  case (call_cancel_lost w t e i)
  then show ?case by (intro own_lost [of _ _ _ _ _ i]) auto
next
  case (call_canceled t e w)
  have d: "w_done w t = None" using own_claim [OF call_canceled.prems(6), of t t] call_canceled.prems(1) by simp
  have "own ((w_threads w)(t := CallReturned (Some e))) (cn_pending (w_conn w)) ((w_done w)(t \<mapsto> Some e))"
    by (rule own_settle [OF call_canceled.prems(6)]) (use call_canceled.prems(1) in simp_all)
  with d show ?case by (simp add: fun_upd_def)
next
  case (recv_response i w pc c t)
  with own_take [OF recv_response.prems(6), of i pc t "RecvDecode i pc"] show ?case
    by (auto simp: fun_upd_def)
next
  case (recv_accept t i pc w)
  have d: "w_done w pc = None" using own_claim [OF recv_accept.prems(6), of pc t] recv_accept.prems(1) by simp
  have "own ((w_threads w)(t := RecvRead)) (cn_pending (w_conn w)) ((w_done w)(pc \<mapsto> None))"
    by (rule own_settle [OF recv_accept.prems(6)]) (use recv_accept.prems(1) in simp_all)
  with d show ?case by (simp add: fun_upd_def)
next
  case (recv_failed t pc w)
  have d: "w_done w pc = None" using own_claim [OF recv_failed.prems(6), of pc t] recv_failed.prems(1) by simp
  have "own ((w_threads w)(t := RecvRead)) (cn_pending (w_conn w)) ((w_done w)(pc \<mapsto> cn_cause (w_conn w)))"
    by (rule own_settle [OF recv_failed.prems(6)]) (use recv_failed.prems(1) in simp_all)
  with d show ?case by (simp add: fun_upd_def)
next
  case (td_complete pc pcs t e w)
  have d: "w_done w pc = None" using own_claim [OF td_complete.prems(6), of pc t] td_complete by simp
  have "own ((w_threads w)(t := TdComplete e (remove1 pc pcs))) (cn_pending (w_conn w)) ((w_done w)(pc \<mapsto> Some e))"
    by (rule own_settle [OF td_complete.prems(6)]) (use td_complete in simp_all)
  with d show ?case by (simp add: fun_upd_def)
next
  case (handler_next i w k p c t)
  have "own ((w_threads w)(w_next w := HandlerStart i k p)) (cn_pending (w_conn w)) (w_done w)"
    by (rule own_spawn [OF handler_next.prems(6)]) (use handler_next.prems(3) in \<open>simp_all add: inv_fresh_def\<close>)
  from own_neutral [OF this, of Finished t] handler_next show ?case by (simp add: spawn_def section_sels fun_upd_def)
next
  case (recv_dispatch i k p w c t)
  have "own ((w_threads w)(w_next w := HandlerStart i k p)) (cn_pending (w_conn w)) (w_done w)"
    by (rule own_spawn [OF recv_dispatch.prems(6)]) (use recv_dispatch.prems(3) in \<open>simp_all add: inv_fresh_def\<close>)
  from own_neutral [OF this, of RecvRead t] recv_dispatch show ?case by (simp add: spawn_def section_sels fun_upd_def)
next
  case (call_write_failed t i e w)
  from own_neutral [OF inv_own_terminate [OF call_write_failed.prems(6,3,4), of e], of "CallWaiting i" t]
    call_write_failed.prems(1,2) show ?case by (simp add: fun_upd_def)
next
  case (handler_write_failed t i e w)
  from own_neutral [OF inv_own_terminate [OF handler_write_failed.prems(6,3,4), of e], of Finished t]
    handler_write_failed.prems(1,2) show ?case by (simp add: fun_upd_def)
next
  case (recv_error t w e)
  from own_neutral [OF inv_own_terminate [OF recv_error.prems(6,3,4), of e], of RecvReturn t]
    recv_error.prems(1,2) show ?case by (simp add: fun_upd_def)
next
  case (recv_invalid t i pc w)
  let ?w = "w\<lparr>w_rejected := insert pc (w_rejected w)\<rparr>"
  have o: "own (w_threads (terminate (errMatchedResponse i) ?w)) (cn_pending (w_conn (terminate (errMatchedResponse i) ?w)))
      (w_done (terminate (errMatchedResponse i) ?w))"
    by (rule inv_own_terminate [OF _ _ inv_ids_same [OF recv_invalid.prems(4)]])
       (use recv_invalid.prems(3,6) in \<open>simp_all add: inv_fresh_def\<close>)
  have "w_threads (terminate (errMatchedResponse i) ?w) t = RecvDecode i pc" using recv_invalid.prems(1,2) by simp
  then show ?case by (intro own_neutral [OF o]) simp_all
next
  case (recv_reject t i w)
  from own_neutral [OF inv_own_terminate [OF recv_reject.prems(6,3,4), of "errAlreadyActive i"], of RecvReturn t]
    recv_reject.prems(1,2) show ?case by (simp add: fun_upd_def)
next
  case (obs_context w e t)
  from own_neutral [OF inv_own_terminate [OF obs_context.prems(6,3,4), of e], of ObsReturn t]
    obs_context.prems(1,2) show ?case by (simp add: fun_upd_def)
qed (simp_all add: own_neutral own_return status_role world_defs section_sels)

lemma act_status: "act t s w s' w' \<Longrightarrow>
     set (w_ids w) \<subseteq> set (w_ids w') \<and> (\<forall>i. status s' = Wait i \<longrightarrow> status s = Wait i \<or> i \<in> set (w_ids w'))"
  by (induction rule: act_induct) (auto simp: world_defs status_role)

lemma started_pre: "started s \<Longrightarrow> status s = Pre \<and> (isTd s \<or> claims n s = [])"
  by (auto dest!: started_cases)

lemma step_own: "step w w' \<Longrightarrow> inv_fresh w \<Longrightarrow> inv_ids w \<Longrightarrow> inv_own w \<Longrightarrow> inv_own w'"
proof (induction rule: step.induct)
  case (run t w s' w')
  have T: "w_threads (goto t s' w') = (w_threads w')(t := s')" by (simp add: goto_def)
  have "i \<in> set (w_ids w')" if "status (((w_threads w')(t := s')) u) = Wait i" for u i
  proof (cases "u = t")
    case True
    with that act_status [OF run(1)] run.prems(3) show ?thesis by (auto simp: inv_own_def)
  next
    case False
    with that other_thread [OF run(1) run.prems(1), of u] started_pre [of "w_threads w' u"]
    have "status (w_threads w u) = Wait i" by auto
    with act_status [OF run(1)] run.prems(3) show ?thesis by (auto simp: inv_own_def)
  qed
  moreover have "own ((w_threads w')(t := s')) (cn_pending (w_conn w')) (w_done w')"
    by (rule run_own [OF run(1) refl runs_below [OF run(1) run.prems(1)] run.prems(1,2)])
       (use run.prems(3) in \<open>auto simp: inv_own_def\<close>)
  moreover have "w_conn (goto t s' w') = w_conn w'" "w_done (goto t s' w') = w_done w'" "w_ids (goto t s' w') = w_ids w'"
    by (simp_all add: goto_def)
  ultimately show ?case unfolding inv_own_def T by metis
next
  case (outside w w')
  then have o: "own (w_threads w) (cn_pending (w_conn w)) (w_done w)"
    and ids: "\<forall>u i. status (w_threads w u) = Wait i \<longrightarrow> i \<in> set (w_ids w)" and n: "w_threads w (w_next w) = Absent"
    by (auto simp: inv_own_def inv_fresh_def)
  from outside(1,2,3) o ids n show ?case
  proof (induction rule: env.induct)
    case (close w)
    with inv_own_terminate [of w ErrClosed] show ?case by (auto simp: inv_own_def)
  qed (auto simp: inv_own_def world_defs own_spawn)
qed

lemma start_own: "inv_own (start imp)"
proof -
  have st: "status (w_threads (start imp) u) = Pre" and cl: "claims u (w_threads (start imp) u) = []" for u
    by (simp_all add: start_def)
  show ?thesis unfolding inv_own_def own_def st cl by (simp add: start_def freshConnection_def)
qed

lemma reachable_own: "reachable imp w \<Longrightarrow> inv_own w"
proof (induction rule: reachable.induct)
  case (more w w')
  with reachable_invs [OF more(1)] show ?case by (blast intro: step_own)
qed (rule start_own)

section \<open>No panic\<close>

lemma act_panic:
  "act t s w s' w' \<Longrightarrow> w_panic w' \<Longrightarrow> w_panic w \<or> (\<exists>pc \<in> set (claims t s). w_done w pc \<noteq> None)
     \<or> s = RecvReturn \<and> cn_receiveExit (w_conn w) \<or> s = ObsReturn \<and> cn_observerExit (w_conn w)
     \<or> s = TdFinish \<and> cn_teardown (w_conn w)"
  by (induction rule: act_induct) (auto simp: world_defs)

lemma env_panic: "env w w' \<Longrightarrow> w_panic w' = w_panic w \<and> w_done w' = w_done w"
  by (induction rule: env.induct) (auto simp: world_defs)

lemma reachable_no_panic: "reachable imp w \<Longrightarrow> \<not> w_panic w"
proof (induction rule: reachable.induct)
  case init
  show ?case by (simp add: start_def)
next
  case (more w w')
  note inv = reachable_invs [OF more(1)] and own = reachable_own [OF more(1)]
  from more(2) show ?case
  proof cases
    case (run t s' w1)
    have "\<not> w_panic w1"
    proof
      assume "w_panic w1"
      from act_panic [OF run(2) this] more(3) consider pc where "pc \<in> set (claims t (w_threads w t))" "w_done w pc \<noteq> None"
        | "w_threads w t = RecvReturn" "cn_receiveExit (w_conn w)" | "w_threads w t = ObsReturn" "cn_observerExit (w_conn w)"
        | "w_threads w t = TdFinish" "cn_teardown (w_conn w)" by blast
      then show False
      proof cases
        case 1
        with own_claim [OF own [unfolded inv_own_def, THEN conjunct1] 1(1)] show False by simp
      next
        case 2
        with inv inv_downD(8) [of w t] show False by (simp add: isRecv_def)
      next
        case 3
        with inv inv_downD(9) [of w t] show False by (simp add: isObs_def)
      next
        case 4
        with inv inv_downD(3) [of w t] show False by simp
      qed
    qed
    with run(1) show ?thesis by (simp add: goto_def)
  next
    case outside
    with more(3) env_panic show ?thesis by blast
  qed
qed

lemma act_done: "act t s w s' w' \<Longrightarrow> w_done w u = Some r \<Longrightarrow> w_done w' u = Some r"
  by (induction rule: act_induct) (auto simp: world_defs)

lemma step_done: "step w w' \<Longrightarrow> w_done w u = Some r \<Longrightarrow> w_done w' u = Some r"
  by (induction rule: step.induct) (auto simp: goto_def env_panic dest: act_done)

lemma act_returns: "act t s w s' w' \<Longrightarrow> inv_term w \<Longrightarrow> s' = CallReturned None \<Longrightarrow> w_done w' t = Some None"
  by (induction rule: act_induct) (auto simp: inv_term_def terminalCause_def)

lemma returned_nil_settled: "reachable imp w \<Longrightarrow> w_threads w u = CallReturned None \<Longrightarrow> w_done w u = Some None"
proof (induction arbitrary: u rule: reachable.induct)
  case init
  then show ?case by (simp add: start_def split: if_splits)
next
  case (more w w')
  note inv = reachable_invs [OF more(1)]
  from more(2) show ?case
  proof cases
    case (run t s' w1)
    show ?thesis
    proof (cases "u = t")
      case True
      with run more.prems act_returns [OF run(2)] inv show ?thesis by (simp add: goto_def)
    next
      case False
      with run more.prems have "w_threads w1 u = CallReturned None" by (simp add: goto_def)
      with other_thread [OF run(2), of u] inv have "w_threads w u = CallReturned None" by auto
      from act_done [OF run(2) more.IH [OF this]] run(1) show ?thesis by (simp add: goto_def)
    qed
  next
    case outside
    with env_other [OF outside, of u] inv more.prems have "w_threads w u = CallReturned None" by auto
    from more.IH [OF this] env_panic [OF outside] show ?thesis by simp
  qed
qed

section \<open>The verdict of the response decoder\<close>

text \<open>
  A call is settled with nil exactly when its decoder accepted a response. A call whose
  response the decoder rejected is settled, by the receive loop, with the permanent cause.
\<close>

definition inv_verdict :: "world \<Rightarrow> bool" where
  "inv_verdict w \<longleftrightarrow>
     (\<forall>u. w_done w u = Some None \<longleftrightarrow> u \<in> w_accepted w)
   \<and> (\<forall>u \<in> w_rejected w. (\<exists>v. w_threads w v = RecvFailed u)
        \<or> (\<exists>e. cn_cause (w_conn w) = Some e \<and> w_done w u = Some (Some e)))"

lemma act_accepted:
  "act t s w s' w' \<Longrightarrow> knows (w_conn w) s \<Longrightarrow> \<forall>pc \<in> set (claims t s). w_done w pc = None \<Longrightarrow>
     w_done w u = Some None \<longleftrightarrow> u \<in> w_accepted w \<Longrightarrow> w_done w' u = Some None \<longleftrightarrow> u \<in> w_accepted w'"
  by (induction rule: act_induct) (auto simp: world_defs)

lemma act_rejected:
  "act t s w s' w' \<Longrightarrow> u \<in> w_rejected w' \<Longrightarrow> u \<in> w_rejected w \<or> s' = RecvFailed u"
  by (induction rule: act_induct) (auto simp: world_defs)

lemma act_failed:
  "act t s w s' w' \<Longrightarrow> s = RecvFailed u \<Longrightarrow> w_done w u = None \<Longrightarrow> w_done w' u = Some (cn_cause (w_conn w))"
  by (induction rule: act_induct) auto

lemma env_verdict: "env w w' \<Longrightarrow> w_accepted w' = w_accepted w \<and> w_rejected w' = w_rejected w"
  by (induction rule: env.induct) (auto simp: world_defs)

lemma settled_kept:
  "grows (w_conn w) (w_conn w') \<Longrightarrow> cn_cause (w_conn w) = Some e \<Longrightarrow> cn_cause (w_conn w') = Some e"
  by (simp add: grows_def)

lemma run_verdict:
  assumes a: "act t (w_threads w t) w s' w1" and f: "inv_fresh w" and d: "inv_down w"
    and o: "own (w_threads w) (cn_pending (w_conn w)) (w_done w)" and v: "inv_verdict w"
  shows "inv_verdict (goto t s' w1)"
proof -
  let ?w = "goto t s' w1"
  have sel: "w_done ?w = w_done w1" "w_accepted ?w = w_accepted w1" "w_rejected ?w = w_rejected w1" "w_conn ?w = w_conn w1"
    "w_threads ?w x = (if x = t then s' else w_threads w1 x)" for x
    by (simp_all add: goto_def)
  have "(\<exists>x. w_threads ?w x = RecvFailed u) \<or> (\<exists>e. cn_cause (w_conn w1) = Some e \<and> w_done w1 u = Some (Some e))"
    if "u \<in> w_rejected w1" for u
  proof -
    from act_rejected [OF a that] v consider (new) "s' = RecvFailed u" | (held) x where "w_threads w x = RecvFailed u"
      | (over) e where "cn_cause (w_conn w) = Some e" "w_done w u = Some (Some e)" unfolding inv_verdict_def by blast
    then show ?thesis
    proof cases
      case new
      with sel(5) [of t] have "w_threads ?w t = RecvFailed u" by simp
      then show ?thesis by blast
    next
      case held
      show ?thesis
      proof (cases "x = t")
        case True
        with act_failed [OF a, of u] own_claim [OF o, of u x] held have "w_done w1 u = Some (cn_cause (w_conn w))" by simp
        moreover from held inv_downD(1) [OF d, of x] obtain e where "cn_cause (w_conn w) = Some e" by auto
        ultimately show ?thesis using settled_kept [OF act_grows [OF a]] by auto
      next
        case False
        with other_thread [OF a f, of x] held have "w_threads ?w x = RecvFailed u" by (auto simp: sel)
        then show ?thesis by blast
      qed
    next
      case over
      with act_done [OF a] settled_kept [OF act_grows [OF a]] show ?thesis by blast
    qed
  qed
  moreover have "w_done w1 u = Some None \<longleftrightarrow> u \<in> w_accepted w1" for u
    by (rule act_accepted [OF a inv_downD(1) [OF d]]) (use own_claim [OF o] v in \<open>auto simp: inv_verdict_def\<close>)
  ultimately show ?thesis unfolding inv_verdict_def sel(1-4) by blast
qed

lemma env_keeps_verdict:
  assumes e: "env w w'" and f: "inv_fresh w" and v: "inv_verdict w"
  shows "inv_verdict w'"
proof -
  have "(\<exists>x. w_threads w' x = RecvFailed u) \<or> (\<exists>c. cn_cause (w_conn w') = Some c \<and> w_done w' u = Some (Some c))"
    if "u \<in> w_rejected w'" for u
  proof -
    have "u \<in> w_rejected w" using that env_verdict [OF e] by simp
    with v consider x where "w_threads w x = RecvFailed u"
      | c where "cn_cause (w_conn w) = Some c" "w_done w u = Some (Some c)" unfolding inv_verdict_def by blast
    then show ?thesis
    proof cases
      case 1
      with env_other [OF e f, of x] have "w_threads w' x = RecvFailed u" by auto
      then show ?thesis by blast
    next
      case 2
      with env_panic [OF e] settled_kept [OF env_grows [OF e]] show ?thesis by auto
    qed
  qed
  with v env_panic [OF e] env_verdict [OF e] show ?thesis unfolding inv_verdict_def by simp
qed

lemma reachable_verdict: "reachable imp w \<Longrightarrow> inv_verdict w"
proof (induction rule: reachable.induct)
  case init
  show ?case by (simp add: inv_verdict_def start_def)
next
  case (more w w')
  note inv = reachable_invs [OF more(1)]
  have o: "own (w_threads w) (cn_pending (w_conn w)) (w_done w)" using reachable_own [OF more(1)] by (simp add: inv_own_def)
  from more(2) show ?case
  proof cases
    case (run t s' w1)
    with run_verdict [OF run(2) _ _ o more(3)] inv show ?thesis by simp
  next
    case outside
    with env_keeps_verdict more(3) inv show ?thesis by blast
  qed
qed

lemma rejected_outcome:
  assumes r: "reachable imp w" and u: "u \<in> w_rejected w"
  shows "u \<notin> w_accepted w" and "w_done w u = Some x \<Longrightarrow> x \<noteq> None \<and> x = cn_cause (w_conn w)"
proof -
  have o: "own (w_threads w) (cn_pending (w_conn w)) (w_done w)" using reachable_own [OF r] by (simp add: inv_own_def)
  from reachable_verdict [OF r] u consider v where "w_threads w v = RecvFailed u"
    | e where "cn_cause (w_conn w) = Some e" "w_done w u = Some (Some e)" unfolding inv_verdict_def by blast
  then have *: "w_done w u = None \<or> (\<exists>e. cn_cause (w_conn w) = Some e \<and> w_done w u = Some (Some e))"
  proof cases
    case 1
    with own_claim [OF o, of u v] show ?thesis by simp
  qed blast
  with reachable_verdict [OF r] show "u \<notin> w_accepted w" unfolding inv_verdict_def by (metis option.distinct(1) option.sel)
  from * show "w_done w u = Some x \<Longrightarrow> x \<noteq> None \<and> x = cn_cause (w_conn w)" by auto
qed

section \<open>Properties\<close>

text \<open>
  C1. Every admitted call has exactly one outcome. In every reachable state nothing has
  panicked (no channel is closed twice, no entry completed twice); a call that is admitted
  and has not returned is in exactly one place: settled, in the pending map, or claimed by
  exactly one goroutine (the receive loop, its own cancelling caller or the cleanup
  owner). A call is settled with nil exactly when its decoder accepted a response, and only
  then can it return nil; a call whose response the decoder rejected is settled with nothing
  but the permanent cause. Settled outcomes never change.
\<close>

theorem call_single_outcome:
  assumes "reachable imp w"
  shows "\<not> w_panic w
    \<and> (\<forall>u. isOpen (status (w_threads w u)) \<longrightarrow>
         (w_done w u \<noteq> None \<and> u \<notin> snd ` set (cn_pending (w_conn w)) \<and> (\<forall>v. u \<notin> set (claims v (w_threads w v))))
       \<or> (w_done w u = None \<and> u \<in> snd ` set (cn_pending (w_conn w)) \<and> (\<forall>v. u \<notin> set (claims v (w_threads w v))))
       \<or> (w_done w u = None \<and> u \<notin> snd ` set (cn_pending (w_conn w)) \<and> (\<exists>!v. u \<in> set (claims v (w_threads w v)))))
    \<and> (\<forall>u. w_threads w u = CallReturned None \<longrightarrow> w_done w u = Some None \<and> u \<in> w_accepted w)
    \<and> (\<forall>u. w_done w u = Some None \<longleftrightarrow> u \<in> w_accepted w)
    \<and> (\<forall>u \<in> w_rejected w. u \<notin> w_accepted w \<and> (\<forall>r. w_done w u = Some r \<longrightarrow> r \<noteq> None \<and> r = cn_cause (w_conn w)))
    \<and> (\<forall>w' u r. step w w' \<longrightarrow> w_done w u = Some r \<longrightarrow> w_done w' u = Some r)"
proof (intro conjI allI impI ballI)
  have o: "own (w_threads w) (cn_pending (w_conn w)) (w_done w)" using reachable_own [OF assms] by (simp add: inv_own_def)
  fix u assume "isOpen (status (w_threads w u))"
  from own_exists [OF o this] consider "u \<in> snd ` set (cn_pending (w_conn w))"
    | v where "u \<in> set (claims v (w_threads w v))" | "w_done w u \<noteq> None" by blast
  then show "(w_done w u \<noteq> None \<and> u \<notin> snd ` set (cn_pending (w_conn w)) \<and> (\<forall>v. u \<notin> set (claims v (w_threads w v))))
       \<or> (w_done w u = None \<and> u \<in> snd ` set (cn_pending (w_conn w)) \<and> (\<forall>v. u \<notin> set (claims v (w_threads w v))))
       \<or> (w_done w u = None \<and> u \<notin> snd ` set (cn_pending (w_conn w)) \<and> (\<exists>!v. u \<in> set (claims v (w_threads w v))))"
  proof cases
    case 1
    with own_map [OF o] own_claim [OF o, of u] show ?thesis by force
  next
    case 2
    with own_claim [OF o 2] own_unique [OF o, of u] show ?thesis by blast
  next
    case 3
    with own_map [OF o] own_claim [OF o, of u] show ?thesis by force
  qed
next
  have v: "w_done w u = Some None \<longleftrightarrow> u \<in> w_accepted w" for u
    using reachable_verdict [OF assms] by (simp add: inv_verdict_def)
  show "w_done w u = Some None \<longleftrightarrow> u \<in> w_accepted w" for u by (rule v)
  show "w_done w u = Some None" "u \<in> w_accepted w" if "w_threads w u = CallReturned None" for u
    using returned_nil_settled [OF assms that] v by auto
qed (use assms reachable_no_panic rejected_outcome step_done in blast)+

section \<open>A call that is answered\<close>

text \<open>
  What a run of one call looks at: the receive loop and the call, the gate, the next ID, the
  pending map and the settled result of the call.
\<close>

definition answering ::
  "ImportBinding \<Rightarrow> world \<Rightarrow> thread \<Rightarrow> thread \<Rightarrow> nat option \<Rightarrow> u64 \<Rightarrow> (u64 \<times> nat) list \<Rightarrow> go_error option option \<Rightarrow> bool" where
  "answering imp w s1 s2 g n P d \<longleftrightarrow>
     reachable imp w \<and> w_threads w 1 = s1 \<and> w_threads w 2 = s2 \<and> cn_imp (w_conn w) = imp \<and> cn_cause (w_conn w) = None
     \<and> cn_gate (w_conn w) = g \<and> cn_nextID (w_conn w) = n \<and> cn_pending (w_conn w) = P
     \<and> w_ctxErr w 2 = None \<and> w_done w 2 = d"

lemma answeringD:
  assumes "answering imp w s1 s2 g n P d"
  shows "reachable imp w" "w_threads w 1 = s1" "w_threads w 2 = s2" "cn_imp (w_conn w) = imp" "cn_cause (w_conn w) = None"
    "cn_gate (w_conn w) = g" "cn_nextID (w_conn w) = n" "cn_pending (w_conn w) = P" "w_ctxErr w 2 = None" "w_done w 2 = d"
  using assms by (auto simp: answering_def)

lemma answering_call:
  assumes e: "answering imp w s1 s2 g n P d" and a: "act 2 s2 w s' w'"
    and "w_threads w' = w_threads w" "cn_imp (w_conn w') = imp" "cn_cause (w_conn w') = None" "w_ctxErr w' = w_ctxErr w"
    and "cn_gate (w_conn w') = g'" "cn_nextID (w_conn w') = n'" "cn_pending (w_conn w') = P'" "w_done w' = w_done w"
  shows "\<exists>w'. answering imp w' s1 s' g' n' P' d"
  using reachable_run [OF answeringD(1) [OF e] answeringD(3) [OF e] a] answeringD [OF e] assms(3-)
  by (intro exI [of _ "goto 2 s' w'"]) (simp add: answering_def goto_def)

lemma answering_start: "\<exists>w. answering imp w RecvRead (CallStart (sampleCall imp)) None 0 [] None"
proof -
  have "reachable imp (spawn (CallStart (sampleCall imp)) (start imp))" by (blast intro: reachable.intros step.outside env.new_call)
  then show ?thesis
    by (intro exI [of _ "spawn (CallStart (sampleCall imp)) (start imp)"])
       (simp add: answering_def start_def freshConnection_def spawn_def)
qed

lemma answering_admitted:
  "\<exists>w. answering imp w RecvRead (WriteLoop (CallRole 0) (buildFrame requestFrame 0 1 []) 0 (buildFrame requestFrame 0 1 []))
     (Some 2) 1 [(0, 2)] None"
proof -
  let ?fr = "buildFrame requestFrame 0 1 []"
  obtain w where e: "answering imp w RecvRead (CallStart (sampleCall imp)) None 0 [] None" using answering_start by blast
  have key: "ca_key (sampleCall imp) = 1" by (simp add: sampleCall_def)
  have "act 2 (CallStart (sampleCall imp)) w (CallEncode 1) w"
    unfolding key [symmetric] by (rule act.by_call [OF callStep.call_start])
       (simp_all add: answeringD [OF e] sampleCall_def checkCall_def checkImport_def callReady_def)
  then have "\<exists>w. answering imp w RecvRead (CallEncode 1) None 0 [] None"
    by (rule answering_call [OF e]) (simp_all add: answeringD [OF e])
  then obtain w where e: "answering imp w RecvRead (CallEncode 1) None 0 [] None" ..
  have "\<exists>w. answering imp w RecvRead (CallRecheck 1 []) None 0 [] None"
    by (rule answering_call [OF e act.by_call [OF callStep.call_encode [of 2 1 w "[]"]]]) (simp_all add: answeringD [OF e])
  then obtain w where e: "answering imp w RecvRead (CallRecheck 1 []) None 0 [] None" ..
  have "act 2 (CallRecheck 1 []) w (CallGate ?fr) w"
    by (rule act.by_call [OF callStep.call_recheck]) (simp add: answeringD [OF e] callReady_def)
  then have "\<exists>w. answering imp w RecvRead (CallGate ?fr) None 0 [] None"
    by (rule answering_call [OF e]) (simp_all add: answeringD [OF e])
  then obtain w where e: "answering imp w RecvRead (CallGate ?fr) None 0 [] None" ..
  have "act 2 (CallGate ?fr) w (CallAdmit ?fr) (acquireGate 2 w)"
    by (rule act.by_call [OF callStep.call_gate]) (simp add: answeringD [OF e])
  then have "\<exists>w. answering imp w RecvRead (CallAdmit ?fr) (Some 2) 0 [] None"
    by (rule answering_call [OF e]) (simp_all add: answeringD [OF e] acquireGate_def)
  then obtain w where e: "answering imp w RecvRead (CallAdmit ?fr) (Some 2) 0 [] None" ..
  let ?c = "(w_conn w)\<lparr>cn_nextID := cn_nextID (w_conn w) + 1, cn_pending := cn_pending (w_conn w) @ [(0, 2)]\<rparr>"
  have "admitCall 2 (w_ctxErr w 2) (w_conn w) = Inr (0, ?c)" using answeringD [OF e] by (simp add: idMask_def)
  from act.by_call [OF callStep.call_admit [OF this, of ?fr]]
  have "act 2 (CallAdmit ?fr) w (WriteLoop (CallRole 0) ?fr 0 ?fr) (w\<lparr>w_conn := ?c, w_ids := w_ids w @ [0]\<rparr>)"
    by (simp add: patchRequestID_build)
  then show ?thesis by (rule answering_call [OF e]) (simp_all add: answeringD [OF e])
qed

text \<open>The response arrives while the request is still being written, and its decoder accepts it.\<close>

lemma answering_accepted:
  "\<exists>w. answering imp w RecvRead (WriteLoop (CallRole 0) (buildFrame requestFrame 0 1 []) 0 (buildFrame requestFrame 0 1 []))
     (Some 2) 1 [] (Some None)"
proof -
  let ?l = "WriteLoop (CallRole 0) (buildFrame requestFrame 0 1 []) 0 (buildFrame requestFrame 0 1 [])"
  obtain w where e: "answering imp w RecvRead ?l (Some 2) 1 [(0, 2)] None" using answering_admitted by blast
  let ?c = "(w_conn w)\<lparr>cn_pending := []\<rparr>"
  let ?w = "goto 1 (RecvDecode 0 2) (w\<lparr>w_conn := ?c\<rparr>)"
  have "claim 0 (w_conn w) = Some (2, ?c)" using answeringD(8) [OF e] by simp
  from reachable_run [OF answeringD(1,2) [OF e] act.by_receive [OF receiveStep.recv_response [OF this]]]
  have r: "reachable imp ?w" .
  from reachable_run [OF r _ act.by_receive [OF receiveStep.recv_accept [of 1 0 2 ?w]]] answeringD [OF e]
  show ?thesis
    by (intro exI [of _ "goto 1 RecvRead (complete 2 None (?w\<lparr>w_accepted := insert 2 (w_accepted ?w)\<rparr>))"])
       (simp add: answering_def goto_def complete_def)
qed

lemma answering_returned: "\<exists>w. answering imp w RecvRead (CallReturned None) None 1 [] (Some None)"
proof -
  let ?fr = "buildFrame requestFrame 0 1 []"
  obtain w where e: "answering imp w RecvRead (WriteLoop (CallRole 0) ?fr 0 ?fr) (Some 2) 1 [] (Some None)"
    using answering_accepted by blast
  have "writeCall ?fr (length ?fr) (int (length ?fr))" by (simp add: writeCall_def)
  moreover have "writeStep 0 ?fr (int (length ?fr)) None = WriteMore (length ?fr) []"
    using buildFrame_nonempty [of requestFrame 0 1 "[]"] by (simp add: writeStep_More frameHeaderSize_def)
  ultimately have "act 2 (WriteLoop (CallRole 0) ?fr 0 ?fr) w (WriteLoop (CallRole 0) ?fr (length ?fr) [])
      (w\<lparr>w_out := w_out w @ take (length ?fr) ?fr\<rparr>)"
    by (rule act.by_write [OF writeLoopStep.write_more [OF buildFrame_nonempty]])
  then have "\<exists>w. answering imp w RecvRead (WriteLoop (CallRole 0) ?fr (length ?fr) []) (Some 2) 1 [] (Some None)"
    by (rule answering_call [OF e]) (simp_all add: answeringD [OF e])
  then obtain w where e: "answering imp w RecvRead (WriteLoop (CallRole 0) ?fr (length ?fr) []) (Some 2) 1 [] (Some None)" ..
  have "\<exists>w. answering imp w RecvRead (Wrote (CallRole 0) None) (Some 2) 1 [] (Some None)"
    by (rule answering_call [OF e act.by_write [OF writeLoopStep.write_all]]) (simp_all add: answeringD [OF e])
  then obtain w where e: "answering imp w RecvRead (Wrote (CallRole 0) None) (Some 2) 1 [] (Some None)" ..
  have "\<exists>w. answering imp w RecvRead (Released (CallRole 0) None) None 1 [] (Some None)"
    by (rule answering_call [OF e act.by_write [OF writeLoopStep.write_release]]) (simp_all add: answeringD [OF e] releaseWriteGate_def)
  then obtain w where e: "answering imp w RecvRead (Released (CallRole 0) None) None 1 [] (Some None)" ..
  have "\<exists>w. answering imp w RecvRead (CallWaiting 0) None 1 [] (Some None)"
    by (rule answering_call [OF e act.by_call [OF callStep.call_written]]) (simp_all add: answeringD [OF e])
  then obtain w where e: "answering imp w RecvRead (CallWaiting 0) None 1 [] (Some None)" ..
  have "act 2 (CallWaiting 0) w (CallReturned None) w"
    by (rule act.by_call [OF callStep.call_done]) (simp add: answeringD [OF e])
  then show ?thesis by (rule answering_call [OF e]) (simp_all add: answeringD [OF e])
qed

text \<open>The witness: a call that is admitted and unsettled, and a call that returned nil.\<close>

theorem call_single_outcome_witness:
  "(\<exists>w. reachable (ImportBinding (Some 0)) w \<and> status (w_threads w 2) = Wait 0 \<and> w_done w 2 = None
      \<and> \<not> w_panic w \<and> 2 \<in> snd ` set (cn_pending (w_conn w)))
   \<and> (\<exists>w. reachable (ImportBinding (Some 0)) w \<and> w_threads w 2 = CallReturned None \<and> 2 \<in> w_accepted w)"
proof
  let ?imp = "ImportBinding (Some 0)" and ?fr = "buildFrame requestFrame 0 1 []"
  obtain w where e: "answering ?imp w RecvRead (WriteLoop (CallRole 0) ?fr 0 ?fr) (Some 2) 1 [(0, 2)] None"
    using answering_admitted by blast
  with call_single_outcome [OF answeringD(1) [OF e]]
  show "\<exists>w. reachable ?imp w \<and> status (w_threads w 2) = Wait 0 \<and> w_done w 2 = None \<and> \<not> w_panic w
      \<and> 2 \<in> snd ` set (cn_pending (w_conn w))"
    by (intro exI [of _ w]) (auto simp: answering_def)
next
  let ?imp = "ImportBinding (Some 0)"
  obtain w where e: "answering ?imp w RecvRead (CallReturned None) None 1 [] (Some None)" using answering_returned by blast
  with call_single_outcome [OF answeringD(1) [OF e]]
  show "\<exists>w. reachable ?imp w \<and> w_threads w 2 = CallReturned None \<and> 2 \<in> w_accepted w"
    by (intro exI [of _ w]) (simp add: answeringD [OF e])
qed

end
