(* ===== verification/Connection_Output.thy ===== *)
theory Connection_Output
  imports Connection_Calls
begin

text \<open>
  What a connection writes: as long as no frame write has failed, the bytes the stream has
  taken are whole frames followed by a prefix of the one frame whose writer holds the gate.
\<close>

definition isFrame :: "bytes \<Rightarrow> bool" where
  "isFrame fr \<longleftrightarrow> (\<exists>kind i k p. fr = buildFrame kind i k p)"

lemma isFrame_build [simp]: "isFrame (buildFrame kind i k p)"
  unfolding isFrame_def by blast

text \<open>A goroutine's frame is complete before it waits for the gate and is written in order.\<close>

fun frameOK :: "thread \<Rightarrow> bool" where
  "frameOK (CallGate fr) = (\<exists>k p. fr = buildFrame requestFrame 0 k p)"
| "frameOK (CallAdmit fr) = (\<exists>k p. fr = buildFrame requestFrame 0 k p)"
| "frameOK (HandlerGate i fr) = isFrame fr"
| "frameOK (HandlerAdmit i fr) = isFrame fr"
| "frameOK (WriteLoop r fr tot b) = (isFrame fr \<and> tot \<le> length fr \<and> b = drop tot fr)"
| "frameOK _ = True"

fun infl :: "thread \<Rightarrow> bytes" where
  "infl (WriteLoop r fr tot b) = take tot fr"
| "infl _ = []"

definition inflight :: "world \<Rightarrow> bytes" where
  "inflight w = (case cn_gate (w_conn w) of None \<Rightarrow> [] | Some u \<Rightarrow> infl (w_threads w u))"

definition inv_out :: "world \<Rightarrow> bool" where
  "inv_out w \<longleftrightarrow> (\<forall>u. frameOK (w_threads w u)) \<and> list_all isFrame (w_frames w)
     \<and> (\<not> w_failed w \<longrightarrow> w_out w = concat (w_frames w) @ inflight w)"

lemma act_frameOK: "act t s w s' w' \<Longrightarrow> frameOK s \<Longrightarrow> frameOK s'"
proof (induction rule: act_induct)
  case (call_admit t w i c fr)
  then show ?case by (auto simp: patchRequestID_build)
next
  case (write_more b m n tot err tot' b' t r fr w)
  then show ?case by (auto simp: writeStep_More add.commute)
qed auto

lemma started_frame: "started s \<Longrightarrow> frameOK s \<and> infl s = []"
  by (auto dest!: started_cases)

lemma act_out:
  "act t s w s' w' \<Longrightarrow> frameOK s \<Longrightarrow> \<not> w_failed w' \<Longrightarrow>
     \<not> w_failed w \<and> (\<exists>x fs. w_out w' = w_out w @ x \<and> w_frames w' = w_frames w @ fs
       \<and> infl s @ x = concat fs @ infl s' \<and> (holdsGate s \<or> x = [] \<and> fs = []) \<and> (infl s' = [] \<or> holdsGate s'))"
proof (induction rule: act_induct)
  case (write_more b m n tot err tot' b' t r fr w)
  then have "n = int m" "tot' = tot + m" "tot \<le> length fr" "b = drop tot fr"
    by (auto simp: writeCall_def writeStep_More)
  with write_more.prems show ?case by (auto simp: take_add)
qed (auto simp: world_defs)

lemma run_out:
  assumes a: "act t (w_threads w t) w s' w'" and f: "inv_fresh w" and g: "inv_gate w" and o: "inv_out w"
  shows "inv_out (goto t s' w')"
proof -
  let ?s = "w_threads w t"
  have ok: "frameOK ?s" and frames: "list_all isFrame (w_frames w)" using o by (simp_all add: inv_out_def)
  have oks: "frameOK (((w_threads w')(t := s')) u)" for u
    using act_frameOK [OF a ok] other_thread [OF a f, of u] started_frame o by (auto simp: inv_out_def)
  have others: "infl (w_threads w' u) = infl (w_threads w u)" for u
    using other_thread [OF a f, of u] started_frame by auto
  have fr: "list_all isFrame (w_frames w')"
    using a ok frames
  proof (induction rule: act_induct)
  qed (auto simp: world_defs)
  have gt: "holdsGate ?s \<longleftrightarrow> cn_gate (w_conn w) = Some t" using g by (simp add: inv_gate_def)
  have "w_out w' = concat (w_frames w') @ inflight (goto t s' w')" if nf: "\<not> w_failed w'"
  proof -
    from act_out [OF a ok nf] obtain x fs where x: "\<not> w_failed w" "w_out w' = w_out w @ x" "w_frames w' = w_frames w @ fs"
      "infl ?s @ x = concat fs @ infl s'" "holdsGate ?s \<or> x = [] \<and> fs = []" "infl s' = [] \<or> holdsGate s'" by blast
    have out: "w_out w = concat (w_frames w) @ inflight w" using o x(1) by (simp add: inv_out_def)
    show ?thesis
    proof (cases "holdsGate ?s")
      case True
      then have "inflight w = infl ?s" using gt by (simp add: inflight_def)
      moreover have "inflight (goto t s' w') = infl s'"
        using act_gate [OF a] True gt x(6) by (auto simp: inflight_def goto_def)
      ultimately show ?thesis using out x(2,3,4) by simp
    next
      case False
      then have x0: "x = []" "fs = []" using x(5) by auto
      with x(4) False have "infl ?s = [] \<Longrightarrow> infl s' = []" by simp
      moreover have "infl ?s = []" using False by (cases ?s) auto
      ultimately have "inflight (goto t s' w') = inflight w"
        using act_gate [OF a] False gt others by (auto simp: inflight_def goto_def split: option.splits)
      with out x(2,3) x0 show ?thesis by simp
    qed
  qed
  with oks fr show ?thesis by (simp add: inv_out_def goto_def)
qed

lemma env_out: "env w w' \<Longrightarrow> inv_fresh w \<Longrightarrow> inv_out w \<Longrightarrow> inv_out w'"
proof -
  assume e: "env w w'" and f: "inv_fresh w" and o: "inv_out w"
  have "frameOK (w_threads w' u) \<and> infl (w_threads w' u) = infl (w_threads w u)" for u
    using env_other [OF e f, of u] started_frame o by (auto simp: inv_out_def)
  moreover have "w_out w' = w_out w \<and> w_frames w' = w_frames w \<and> w_failed w' = w_failed w"
    using e by (induction rule: env.induct) (auto simp: world_defs)
  ultimately show ?thesis using o env_gate [OF e] by (simp add: inv_out_def inflight_def split: option.splits)
qed

lemma reachable_out: "reachable imp w \<Longrightarrow> inv_out w"
proof (induction rule: reachable.induct)
  case init
  show ?case by (simp add: inv_out_def start_def freshConnection_def inflight_def)
next
  case (more w w')
  note inv = reachable_invs [OF more(1)]
  from more(2) show ?case
    by cases (use inv more.IH run_out env_out in auto)
qed

section \<open>Properties\<close>

text \<open>
  C2. Frames are never interleaved: in every reachable state in which no frame write has
  failed, the bytes the stream took are whole frames, each as \<open>buildFrame\<close> lays it out,
  followed by a proper part of the one frame whose writer holds the write gate.
\<close>

theorem frames_never_interleave:
  assumes "reachable imp w" "\<not> w_failed w"
  shows "w_out w = concat (w_frames w) @ inflight w \<and> list_all isFrame (w_frames w)
    \<and> (inflight w \<noteq> [] \<longrightarrow> (\<exists>u r fr tot b. cn_gate (w_conn w) = Some u \<and> w_threads w u = WriteLoop r fr tot b
          \<and> isFrame fr \<and> fr = inflight w @ b))
    \<and> (\<forall>u v. holdsGate (w_threads w u) \<and> holdsGate (w_threads w v) \<longrightarrow> u = v)"
proof -
  have o: "inv_out w" and g: "inv_gate w" using reachable_out [OF assms(1)] reachable_invs [OF assms(1)] by simp_all
  have "\<exists>u r fr tot b. cn_gate (w_conn w) = Some u \<and> w_threads w u = WriteLoop r fr tot b \<and> isFrame fr \<and> fr = inflight w @ b"
    if i: "inflight w \<noteq> []"
  proof -
    from i obtain u where u: "cn_gate (w_conn w) = Some u" "infl (w_threads w u) = inflight w"
      by (auto simp: inflight_def split: option.splits)
    with i obtain r fr tot b where t: "w_threads w u = WriteLoop r fr tot b" by (cases "w_threads w u") auto
    moreover have "frameOK (w_threads w u)" using o by (simp add: inv_out_def)
    ultimately have "isFrame fr" "fr = inflight w @ b" using u by (auto dest: sym)
    with u t show ?thesis by blast
  qed
  with o g assms(2) show ?thesis by (auto simp: inv_out_def inv_gate_def)
qed

text \<open>
  C33. A failed write lets another frame through. After a write that failed in the middle
  of a frame the writer releases the gate before it selects the terminal cause, so a
  second call that waits for the gate is admitted and its whole frame is written behind
  the partial one while the connection is still active.
\<close>

theorem partial_frame_then_whole_frame:
  "\<exists>w. reachable imp w \<and> cn_cause (w_conn w) = None
     \<and> w_out w = take 1 (buildFrame requestFrame 0 1 []) @ buildFrame requestFrame 1 1 []
     \<and> w_frames w = [buildFrame requestFrame 1 1 []]"
proof -
  let ?g = "CallGate (buildFrame requestFrame 0 1 [])" and ?fr = "\<lambda>i. buildFrame requestFrame i 1 []"
  let ?c = "CallStart (sampleCall imp)" and ?l = "\<lambda>i. WriteLoop (CallRole i) (?fr i) 0 (?fr i)"
  have len: "0 < (1::nat)" "1 < length (?fr 0)" "?fr 1 \<noteq> []" by (simp_all add: frameHeaderSize_def buildFrame_nonempty)
  obtain w0 where s0: "scene imp w0 None 0 (two ?c ?c) [] [] False" using scene_start by blast
  from scene_gate [OF s0, of 2] obtain w1 where s1: "scene imp w1 None 0 ((two ?c ?c)(2 := ?g)) [] [] False" by auto
  have s1': "scene imp w1 None 0 (two ?g ?c) [] [] False" by (rule scene_cong [OF s1]) simp
  from scene_gate [OF s1', of 3] obtain w2 where s2: "scene imp w2 None 0 ((two ?g ?c)(3 := ?g)) [] [] False" by auto
  have s2': "scene imp w2 None 0 (two ?g ?g) [] [] False" by (rule scene_cong [OF s2]) simp
  from scene_admit [OF s2', of 2] obtain w3 where s3: "scene imp w3 (Some 2) 1 ((two ?g ?g)(2 := ?l 0)) [] [] False"
    by (auto simp: idMask_def)
  have s3': "scene imp w3 (Some 2) 1 (two (?l 0) ?g) [] [] False" by (rule scene_cong [OF s3]) simp
  from scene_fail [OF s3' _ _ len(1,2), of 0] obtain w4 e where
    s4: "scene imp w4 None 1 ((two (?l 0) ?g)(2 := Released (CallRole 0) (Some e))) (take 1 (?fr 0)) [] True" by auto
  have s4': "scene imp w4 None 1 (two (Released (CallRole 0) (Some e)) ?g) (take 1 (?fr 0)) [] True"
    by (rule scene_cong [OF s4]) simp
  from scene_admit [OF s4', of 3] obtain w5 where
    s5: "scene imp w5 (Some 3) 2 ((two (Released (CallRole 0) (Some e)) ?g)(3 := ?l 1)) (take 1 (?fr 0)) [] True"
    by (auto simp: idMask_def)
  have s5': "scene imp w5 (Some 3) 2 (two (Released (CallRole 0) (Some e)) (?l 1)) (take 1 (?fr 0)) [] True"
    by (rule scene_cong [OF s5]) simp
  from scene_write [OF s5' _ _ len(3), of 1] show ?thesis by (auto simp: scene_def)
qed

theorem frames_never_interleave_witness:
  "\<exists>w. reachable (ImportBinding (Some 0)) w \<and> \<not> w_failed w \<and> w_frames w = [buildFrame requestFrame 0 1 []]
     \<and> w_out w = buildFrame requestFrame 0 1 [] \<and> w_out w = concat (w_frames w) @ inflight w"
proof -
  let ?imp = "ImportBinding (Some 0)"
  let ?g = "CallGate (buildFrame requestFrame 0 1 [])" and ?fr = "buildFrame requestFrame 0 1 []"
  let ?c = "CallStart (sampleCall ?imp)" and ?l = "WriteLoop (CallRole 0) ?fr 0 ?fr"
  obtain w0 where s0: "scene ?imp w0 None 0 (two ?c ?c) [] [] False" using scene_start by blast
  from scene_gate [OF s0, of 2] obtain w1 where s1: "scene ?imp w1 None 0 ((two ?c ?c)(2 := ?g)) [] [] False" by auto
  have s1': "scene ?imp w1 None 0 (two ?g ?c) [] [] False" by (rule scene_cong [OF s1]) simp
  from scene_admit [OF s1', of 2] obtain w3 where s3: "scene ?imp w3 (Some 2) 1 ((two ?g ?c)(2 := ?l)) [] [] False"
    by (auto simp: idMask_def)
  have s3': "scene ?imp w3 (Some 2) 1 (two ?l ?c) [] [] False" by (rule scene_cong [OF s3]) simp
  have len: "?fr \<noteq> []" by (rule buildFrame_nonempty)
  from scene_write [OF s3' _ _ len, of 0] obtain w4 where
    w4: "reachable ?imp w4" "\<not> w_failed w4" "w_frames w4 = [?fr]" "w_out w4 = ?fr" by (auto simp: scene_def)
  with frames_never_interleave [OF w4(1,2)] show ?thesis by blast
qed

end
