(* ===== verification/Connection_Incoming.thy ===== *)
theory Connection_Incoming
  imports Connection_Calls
begin

text \<open>
  Incoming requests of a connection: while it is active, the IDs with an entry are exactly
  the IDs of the handlers that have not finished, one handler for each.
\<close>

fun handlerID :: "thread \<Rightarrow> u64 option" where
  "handlerID (HandlerStart i k p) = Some i"
| "handlerID (HandlerGate i fr) = Some i"
| "handlerID (HandlerAdmit i fr) = Some i"
| "handlerID (WriteLoop (HandlerRole i) fr tot b) = Some i"
| "handlerID (Wrote (HandlerRole i) e) = Some i"
| "handlerID (Released (HandlerRole i) e) = Some i"
| "handlerID _ = None"

text \<open>The handler passed write admission.\<close>

fun inWrite :: "thread \<Rightarrow> bool" where
  "inWrite (WriteLoop r fr tot b) = True"
| "inWrite (Wrote r e) = True"
| "inWrite (Released r e) = True"
| "inWrite _ = False"

lemma handlerID_role:
  "handlerID (WriteLoop r fr tot b) = (case r of HandlerRole i \<Rightarrow> Some i | CallRole i \<Rightarrow> None)"
  "handlerID (Wrote r e) = (case r of HandlerRole i \<Rightarrow> Some i | CallRole i \<Rightarrow> None)"
  "handlerID (Released r e) = (case r of HandlerRole i \<Rightarrow> Some i | CallRole i \<Rightarrow> None)"
  by (cases r; simp)+

definition inc :: "(nat \<Rightarrow> thread) \<Rightarrow> (u64 \<rightharpoonup> incomingCall) \<Rightarrow> bool" where
  "inc T I \<longleftrightarrow>
     (\<forall>u i. handlerID (T u) = Some i \<longrightarrow> (\<exists>ic. I i = Some ic \<and> ic_writing ic = inWrite (T u)))
   \<and> (\<forall>u v i. handlerID (T u) = Some i \<and> handlerID (T v) = Some i \<longrightarrow> u = v)
   \<and> (\<forall>i. I i \<noteq> None \<longrightarrow> (\<exists>u. handlerID (T u) = Some i))"

lemma inc_entry: "inc T I \<Longrightarrow> handlerID (T u) = Some i \<Longrightarrow> \<exists>ic. I i = Some ic \<and> ic_writing ic = inWrite (T u)"
  unfolding inc_def by blast

lemma inc_same: "inc T I \<Longrightarrow> handlerID (T u) = Some i \<Longrightarrow> handlerID (T v) = Some i \<Longrightarrow> u = v"
  unfolding inc_def by blast

lemma inc_handler: "inc T I \<Longrightarrow> I i \<noteq> None \<Longrightarrow> \<exists>u. handlerID (T u) = Some i"
  unfolding inc_def by blast

lemma incI:
  assumes "\<And>u i. handlerID (T u) = Some i \<Longrightarrow> \<exists>ic. I i = Some ic \<and> ic_writing ic = inWrite (T u)"
    and "\<And>u v i. handlerID (T u) = Some i \<Longrightarrow> handlerID (T v) = Some i \<Longrightarrow> u = v"
    and "\<And>i. I i \<noteq> None \<Longrightarrow> \<exists>u. handlerID (T u) = Some i"
  shows "inc T I"
  unfolding inc_def by (intro conjI) (use assms(1) in blast, use assms(2) in blast, use assms(3) in blast)

lemma inc_neutral:
  assumes "inc T I" "handlerID s' = handlerID (T t)" "handlerID s' \<noteq> None \<longrightarrow> inWrite s' = inWrite (T t)"
  shows "inc (T(t := s')) I"
proof -
  have h: "handlerID ((T(t := s')) u) = handlerID (T u)" for u using assms(2) by simp
  have wr: "handlerID (T u) = Some i \<Longrightarrow> inWrite ((T(t := s')) u) = inWrite (T u)" for u i
    using assms(2,3) by (cases "u = t") auto
  show ?thesis
    by (rule incI, unfold h)
       (use inc_entry [OF assms(1)] wr in fastforce, use inc_same [OF assms(1)] in blast, use inc_handler [OF assms(1)] in blast)
qed

lemma inc_dispatch:
  assumes "inc T I" "I i = None" "handlerID (T n) = None" "ic_writing ic = False"
  shows "inc (T(n := HandlerStart i k p)) (I(i \<mapsto> ic))"
proof -
  have no: "handlerID (T u) \<noteq> Some i" for u using inc_entry [OF assms(1), of u i] assms(2) by auto
  show ?thesis
  proof (rule incI)
    show "\<exists>c. (I(i \<mapsto> ic)) j = Some c \<and> ic_writing c = inWrite ((T(n := HandlerStart i k p)) u)"
      if "handlerID ((T(n := HandlerStart i k p)) u) = Some j" for u j
      using that assms no inc_entry [OF assms(1), of u j] by (cases "u = n") auto
    show "u = v" if "handlerID ((T(n := HandlerStart i k p)) u) = Some j" "handlerID ((T(n := HandlerStart i k p)) v) = Some j" for u v j
      using that no inc_same [OF assms(1), of u j v] by (auto split: if_splits)
    show "\<exists>u. handlerID ((T(n := HandlerStart i k p)) u) = Some j" if "(I(i \<mapsto> ic)) j \<noteq> None" for j
    proof (cases "j = i")
      case True
      then show ?thesis by (intro exI [of _ n]) simp
    next
      case False
      with that inc_handler [OF assms(1), of j] assms(3) show ?thesis by (auto split: if_splits) (metis option.distinct(1))
    qed
  qed
qed

lemma inc_update:
  assumes "inc T I" "handlerID (T t) = Some i" "handlerID s' = Some i" "ic_writing ic' = inWrite s'"
  shows "inc (T(t := s')) (I(i \<mapsto> ic'))"
proof -
  have h: "handlerID ((T(t := s')) u) = handlerID (T u)" for u using assms(2,3) by simp
  have only: "handlerID (T u) = Some i \<Longrightarrow> u = t" for u using inc_same [OF assms(1) _ assms(2)] by blast
  show ?thesis
  proof (rule incI, unfold h)
    show "\<exists>c. (I(i \<mapsto> ic')) j = Some c \<and> ic_writing c = inWrite ((T(t := s')) u)" if "handlerID (T u) = Some j" for u j
    proof (cases "u = t")
      case True
      with that assms show ?thesis by simp
    next
      case False
      with that only have "j \<noteq> i" by blast
      with False inc_entry [OF assms(1) that] show ?thesis by simp
    qed
    show "\<exists>u. handlerID (T u) = Some j" if "(I(i \<mapsto> ic')) j \<noteq> None" for j
      using that assms(2) inc_handler [OF assms(1), of j] by (cases "j = i") auto
  qed (use inc_same [OF assms(1)] in blast)
qed

lemma inc_release:
  assumes "inc T I" "handlerID (T t) = Some i" "handlerID s' = None"
  shows "inc (T(t := s')) (I(i := None))"
proof -
  have only: "handlerID (T u) = Some i \<Longrightarrow> u = t" for u using inc_same [OF assms(1) _ assms(2)] by blast
  have h: "handlerID ((T(t := s')) u) = Some j \<longleftrightarrow> handlerID (T u) = Some j \<and> u \<noteq> t" for u j using assms(3) by simp
  show ?thesis
  proof (rule incI, unfold h)
    show "\<exists>c. (I(i := None)) j = Some c \<and> ic_writing c = inWrite ((T(t := s')) u)" if "handlerID (T u) = Some j \<and> u \<noteq> t" for u j
    proof -
      have "j \<noteq> i" using that only by blast
      with that inc_entry [OF assms(1), of u j] show ?thesis by simp
    qed
    show "\<exists>u. handlerID (T u) = Some j \<and> u \<noteq> t" if "(I(i := None)) j \<noteq> None" for j
      using that assms(2) inc_handler [OF assms(1), of j] by (auto split: if_splits)
  qed (use inc_same [OF assms(1)] in blast)
qed

lemma inc_started:
  assumes "inc T I" "T n = Absent" "handlerID s = None"
  shows "inc (T(n := s)) I"
  using inc_neutral [OF assms(1), of s n] assms by simp

lemma run_inc:
  assumes "act t s w s' w'" "w_threads w t = s" "t < w_next w" "inv_fresh w" "inv_term w"
    and "inc (w_threads w) (cn_incoming (w_conn w))" "cn_cause (w_conn w') = None"
  shows "inc ((w_threads w')(t := s')) (cn_incoming (w_conn w'))"
  using assms
proof (induction rule: act_induct)
  case (handler_admit w t i fr)
  then have h: "handlerID (w_threads w t) = Some i" by simp
  from inc_entry [OF handler_admit.prems(5) h] obtain ic where ic: "cn_incoming (w_conn w) i = Some ic" by blast
  have "inc ((w_threads w)(t := WriteLoop (HandlerRole i) fr 0 fr)) ((cn_incoming (w_conn w))(i \<mapsto> ic\<lparr>ic_writing := True\<rparr>))"
    by (rule inc_update [OF handler_admit.prems(5) h]) simp_all
  with ic show ?case by (simp add: markIncomingWriting_def fun_upd_def)
next
  case (handler_done i w c t)
  then have h: "handlerID (w_threads w t) = Some i" by simp
  from inc_entry [OF handler_done.prems(5) h] handler_done(1)
  have "cn_incoming c = (cn_incoming (w_conn w))(i := None)"
    by (auto simp: completeIncomingWrite_def split: if_splits)
  with inc_release [OF handler_done.prems(5) h, of Finished] show ?case by (simp add: fun_upd_def)
next
  case (handler_next i w k p c t)
  then have h: "handlerID (w_threads w t) = Some i" and n: "t \<noteq> w_next w" by simp_all
  from inc_entry [OF handler_next.prems(5) h] handler_next(1) obtain ic where
    c: "cn_incoming c = (cn_incoming (w_conn w))(i \<mapsto> ic)" "ic_writing ic = False"
    by (auto simp: completeIncomingWrite_def split: if_splits)
  note r = inc_release [OF handler_next.prems(5) h, of Finished]
  have "inc ((w_threads w)(t := Finished, w_next w := HandlerStart i k p)) ((cn_incoming (w_conn w))(i := None, i \<mapsto> ic))"
    by (rule inc_dispatch) (use r c(2) handler_next.prems(3) n in \<open>simp_all add: inv_fresh_def\<close>)
  then have "inc ((w_threads w)(w_next w := HandlerStart i k p, t := Finished)) (cn_incoming c)"
    using c(1) n by (simp add: fun_upd_twist)
  then show ?case by (simp add: spawn_def fun_upd_def)
next
  case (recv_dispatch i k p w c t)
  then have n: "t \<noteq> w_next w" by simp
  from recv_dispatch(1) have c: "cn_incoming (w_conn w) i = None" "cn_incoming c = (cn_incoming (w_conn w))(i \<mapsto> freshIncoming)"
    by (auto simp: admitIncoming_def split: if_splits option.splits)
  have "inc ((w_threads w)(w_next w := HandlerStart i k p)) ((cn_incoming (w_conn w))(i \<mapsto> freshIncoming))"
    by (rule inc_dispatch [OF recv_dispatch.prems(5) c(1)])
       (use recv_dispatch.prems(3) in \<open>simp_all add: inv_fresh_def freshIncoming_def\<close>)
  from inc_neutral [OF this, of RecvRead t] recv_dispatch.prems(1) n c(2) show ?case by (simp add: spawn_def fun_upd_def)
next
  case (recv_deferred i k p w c t)
  then obtain ic where ic: "cn_incoming (w_conn w) i = Some ic" "ic_writing ic"
    "cn_incoming c = (cn_incoming (w_conn w))(i \<mapsto> ic\<lparr>ic_hasDeferred := True, ic_deferredKey := k, ic_deferredPayload := p\<rparr>)"
    by (auto simp: admitIncoming_def split: if_splits option.splits)
  from inc_handler [OF recv_deferred.prems(5), of i] ic(1) obtain u where u: "handlerID (w_threads w u) = Some i" by auto
  have ut: "u \<noteq> t" using u recv_deferred.prems(1) by auto
  have "inWrite (w_threads w u)" using inc_entry [OF recv_deferred.prems(5) u] ic by auto
  then have "inc ((w_threads w)(u := w_threads w u)) (cn_incoming c)"
    unfolding ic(3) by (intro inc_update [OF recv_deferred.prems(5) u]) (use u ic(2) in simp_all)
  from inc_neutral [OF this, of RecvRead t] recv_deferred.prems(1) ut show ?case by (simp add: fun_upd_def)
next
  case (recv_discard i k p w c t)
  then show ?case using admitIncoming_discard [of i k p "w_conn w" c] by simp
next
  case (recv_duplicate i k p w c t)
  then have "cn_incoming c = cn_incoming (w_conn w)"
    by (auto simp: admitIncoming_def split: if_splits option.splits)
  with inc_neutral [OF recv_duplicate.prems(5), of "RecvReject i" t] recv_duplicate.prems(1)
  show ?case by (simp add: fun_upd_def)
qed (simp_all add: inc_neutral handlerID_role world_defs inv_term_def split: option.splits role.splits)

definition inv_inc :: "world \<Rightarrow> bool" where
  "inv_inc w \<longleftrightarrow> wfIncoming (w_conn w)
     \<and> (cn_cause (w_conn w) = None \<longrightarrow> inc (w_threads w) (cn_incoming (w_conn w)))"

lemma act_wf: "act t s w s' w' \<Longrightarrow> wfIncoming (w_conn w) \<Longrightarrow> wfIncoming (w_conn w')"
proof (induction rule: act_induct)
  case (handler_done i w c t)
  then show ?case using wfIncoming_ops(3) [of "w_conn w" i] by simp
next
  case (handler_next i w k p c t)
  then show ?case using wfIncoming_ops(3) [of "w_conn w" i] by (simp add: spawn_def)
next
  case (recv_discard i k p w c t)
  then show ?case using wfIncoming_ops(1) [of "w_conn w" i k p] by simp
next
  case (recv_deferred i k p w c t)
  then show ?case using wfIncoming_ops(1) [of "w_conn w" i k p] by simp
next
  case (recv_duplicate i k p w c t)
  then show ?case using wfIncoming_ops(1) [of "w_conn w" i k p] by simp
next
  case (recv_dispatch i k p w c t)
  then show ?case using wfIncoming_ops(1) [of "w_conn w" i k p] by (simp add: spawn_def)
next
  case (handler_admit w t i fr)
  then show ?case using wfIncoming_ops(2) [of "w_conn w" i] by simp
qed (auto simp: wfIncoming_def world_defs)

lemma step_inc: "step w w' \<Longrightarrow> inv_fresh w \<Longrightarrow> inv_term w \<Longrightarrow> inv_inc w \<Longrightarrow> inv_inc w'"
proof (induction rule: step.induct)
  case (run t w s' w')
  have conn: "w_conn (goto t s' w') = w_conn w'" and T: "w_threads (goto t s' w') = (w_threads w')(t := s')"
    by (simp_all add: goto_def)
  have "inc ((w_threads w')(t := s')) (cn_incoming (w_conn w'))" if n: "cn_cause (w_conn w') = None"
  proof (rule run_inc [OF run(1) refl runs_below [OF run(1) run.prems(1)] run.prems(1,2) _ n])
    have "cn_cause (w_conn w) = None" using act_grows [OF run(1)] n by (cases "cn_cause (w_conn w)") (auto simp: grows_def)
    with run.prems(3) show "inc (w_threads w) (cn_incoming (w_conn w))" by (simp add: inv_inc_def)
  qed
  moreover have "wfIncoming (w_conn w')" using act_wf [OF run(1)] run.prems(3) by (simp add: inv_inc_def)
  ultimately show ?case unfolding inv_inc_def conn T by blast
next
  case (outside w w')
  then have n: "w_threads w (w_next w) = Absent" by (simp add: inv_fresh_def)
  from outside(1) outside.prems(3) n show ?case
    by (induction rule: env.induct) (auto simp: inv_inc_def wfIncoming_def world_defs inc_started)
qed

lemma reachable_inc: "reachable imp w \<Longrightarrow> inv_inc w"
proof (induction rule: reachable.induct)
  case init
  show ?case by (auto simp: inv_inc_def wfIncoming_def start_def freshConnection_def inc_def split: if_splits)
next
  case (more w w')
  with reachable_invs [OF more(1)] show ?case by (blast intro: step_inc)
qed

section \<open>Properties\<close>

text \<open>
  C8. One handler for each incoming ID. While the connection is active, an ID has an entry
  exactly when one handler of that ID has not finished, there is never a second one, and
  a deferred next generation is held only while that handler is past write admission, so
  a duplicate request is never dispatched beside the one it repeats.
\<close>

theorem one_handler_per_id:
  assumes "reachable imp w" "cn_cause (w_conn w) = None"
  shows "(cn_incoming (w_conn w) i \<noteq> None \<longleftrightarrow> (\<exists>u. handlerID (w_threads w u) = Some i))
    \<and> (\<forall>u v. handlerID (w_threads w u) = Some i \<and> handlerID (w_threads w v) = Some i \<longrightarrow> u = v)
    \<and> (\<forall>u ic. handlerID (w_threads w u) = Some i \<and> cn_incoming (w_conn w) i = Some ic \<longrightarrow>
         (ic_writing ic \<longleftrightarrow> inWrite (w_threads w u)) \<and> (ic_hasDeferred ic \<longrightarrow> inWrite (w_threads w u)))"
proof -
  have i: "inc (w_threads w) (cn_incoming (w_conn w))" and wf: "wfIncoming (w_conn w)"
    using reachable_inc [OF assms(1)] assms(2) by (simp_all add: inv_inc_def)
  have "ic_writing ic \<longleftrightarrow> inWrite (w_threads w u)"
    if "handlerID (w_threads w u) = Some i" "cn_incoming (w_conn w) i = Some ic" for u ic
    using inc_entry [OF i that(1)] that(2) by simp
  moreover have "ic_hasDeferred ic \<longrightarrow> ic_writing ic" if "cn_incoming (w_conn w) i = Some ic" for ic
    using wf that by (auto simp: wfIncoming_def)
  ultimately show ?thesis using inc_same [OF i] inc_handler [OF i] inc_entry [OF i] by blast
qed

text \<open>The witness: a request of ID 5 was just dispatched.\<close>

theorem one_handler_per_id_witness:
  "\<exists>w. reachable (ImportBinding (Some 0)) w \<and> cn_incoming (w_conn w) 5 \<noteq> None
     \<and> (\<exists>!u. handlerID (w_threads w u) = Some 5)"
proof -
  let ?s = "start (ImportBinding (Some 0))"
  let ?c = "snd (admitIncoming 5 1 [] (w_conn ?s))"
  let ?w = "goto 1 RecvRead (spawn (HandlerStart 5 1 []) (?s\<lparr>w_conn := ?c\<rparr>))"
  have "admitIncoming 5 1 [] (w_conn ?s) = (admissionDispatch, ?c)"
    by (simp add: start_def freshConnection_def admitIncoming_def)
  from act.by_receive [OF receiveStep.recv_dispatch [OF this]] have "act 1 (w_threads ?s 1) ?s RecvRead (spawn (HandlerStart 5 1 []) (?s\<lparr>w_conn := ?c\<rparr>))"
    by (simp add: start_def)
  then have r: "reachable (ImportBinding (Some 0)) ?w" by (blast intro: reachable.intros step.run)
  have c: "cn_cause (w_conn ?w) = None" "cn_incoming (w_conn ?w) 5 \<noteq> None"
    by (simp_all add: goto_def spawn_def start_def freshConnection_def admitIncoming_def)
  from one_handler_per_id [OF r c(1), of 5] r c(2) show ?thesis by blast
qed

end
