(* ===== verification/Connection_Shutdown.thy ===== *)
theory Connection_Shutdown
  imports Connection_Calls
begin

text \<open>
  The shutdown of a connection: the cleanup owner (\<open>runTeardown\<close>) finishes by its own steps,
  whatever the other goroutines hold, and \<open>Wait\<close> returns the permanent cause.
\<close>

section \<open>The steps of one goroutine\<close>

definition ownStep :: "nat \<Rightarrow> world \<Rightarrow> world \<Rightarrow> bool" where
  "ownStep u w w' \<longleftrightarrow> (\<exists>s' w1. act u (w_threads w u) w s' w1 \<and> w' = goto u s' w1)"



text \<open>A step of the connection is a step of one goroutine or of the environment.\<close>

lemma step_by: "step w w' \<Longrightarrow> (\<exists>u. ownStep u w w') \<or> env w w'"
  by (induction rule: step.induct) (auto simp: ownStep_def)

section \<open>The cleanup owner\<close>













section \<open>Properties\<close>



text \<open>
  C30. The stream is closed at most once, and when \<open>Wait\<close> returns it returns the permanent
  cause, never nil: by then the stream is closed exactly once, handler contexts are
  cancelled, and the receive loop and the context observer have exited.
\<close>

theorem wait_returns_cause:
  assumes "reachable imp w"
  shows "cn_closes (w_conn w) \<le> 1
    \<and> (w_threads w u = WaitReturned r \<longrightarrow> r \<noteq> None \<and> r = cn_cause (w_conn w) \<and> cn_closes (w_conn w) = 1
         \<and> cn_handlersCanceled (w_conn w) \<and> cn_receiveExit (w_conn w) \<and> cn_observerExit (w_conn w)
         \<and> (\<forall>v. \<not> isTd (w_threads w v) \<and> \<not> isRecv (w_threads w v) \<and> \<not> isObs (w_threads w v)))"
proof -
  have d: "inv_down w" using reachable_invs [OF assms] by blast
  have "cn_closes (w_conn w) \<le> 1"
  proof (cases "cn_cause (w_conn w)")
    case (Some e)
    with inv_downD(6) [OF d] inv_downD(4,5) [OF d] show ?thesis by (fastforce simp: tdCloses_def)
  qed (use inv_downD(7) [OF d] in simp)
  moreover have "r \<noteq> None \<and> r = cn_cause (w_conn w) \<and> cn_closes (w_conn w) = 1
         \<and> cn_handlersCanceled (w_conn w) \<and> cn_receiveExit (w_conn w) \<and> cn_observerExit (w_conn w)
         \<and> (\<forall>v. \<not> isTd (w_threads w v) \<and> \<not> isRecv (w_threads w v) \<and> \<not> isObs (w_threads w v))"
    if u: "w_threads w u = WaitReturned r"
  proof -
    from inv_downD(1) [OF d, of u] u have k: "cn_teardown (w_conn w)" "cn_receiveExit (w_conn w)" "cn_observerExit (w_conn w)"
      "cn_cause (w_conn w) \<noteq> None \<longrightarrow> r = cn_cause (w_conn w)" by auto
    with inv_downD(5) [OF d k(1)] inv_downD(3,8,9) [OF d] show ?thesis by blast
  qed
  ultimately show ?thesis by blast
qed

section \<open>A run that is closed and waited for\<close>

text \<open>
  What the run looks at: the observer, the receive loop, the cleanup owner and the waiter,
  and the channels they close.
\<close>

definition closing ::
  "ImportBinding \<Rightarrow> world \<Rightarrow> thread \<Rightarrow> thread \<Rightarrow> thread \<Rightarrow> thread \<Rightarrow> bool \<Rightarrow> bool \<Rightarrow> bool \<Rightarrow> bool" where
  "closing imp w ob rc td wt t r x \<longleftrightarrow>
     reachable imp w \<and> cn_cause (w_conn w) = Some ErrClosed
     \<and> w_threads w 0 = ob \<and> w_threads w 1 = rc \<and> w_threads w 2 = td \<and> w_threads w 3 = wt
     \<and> cn_teardown (w_conn w) = t \<and> cn_receiveExit (w_conn w) = r \<and> cn_observerExit (w_conn w) = x"

lemma closing_start: "\<exists>w. closing imp w ObsWait RecvRead (TdComplete ErrClosed []) WaitTeardown False False False"
proof -
  have "reachable imp (spawn WaitTeardown (terminate ErrClosed (start imp)))"
    by (blast intro: reachable.intros step.outside env.close env.new_wait)
  then show ?thesis
    by (intro exI [of _ "spawn WaitTeardown (terminate ErrClosed (start imp))"])
       (simp add: closing_def start_def freshConnection_def spawn_def)
qed

lemma closingD:
  assumes "closing imp w ob rc td wt t r x"
  shows "reachable imp w" "cn_cause (w_conn w) = Some ErrClosed" "cn_terminal (w_conn w)"
    "w_threads w 0 = ob" "w_threads w 1 = rc" "w_threads w 2 = td" "w_threads w 3 = wt"
    "cn_teardown (w_conn w) = t" "cn_receiveExit (w_conn w) = r" "cn_observerExit (w_conn w) = x"
proof -
  from assms show r: "reachable imp w" and c: "cn_cause (w_conn w) = Some ErrClosed"
    and "w_threads w 0 = ob" "w_threads w 1 = rc" "w_threads w 2 = td" "w_threads w 3 = wt"
    "cn_teardown (w_conn w) = t" "cn_receiveExit (w_conn w) = r" "cn_observerExit (w_conn w) = x"
    by (simp_all add: closing_def)
  from reachable_invs [OF r] c show "cn_terminal (w_conn w)" by (simp add: inv_term_def)
qed

lemma closing_run:
  assumes c: "closing imp w ob rc td wt t r x" and s: "w_threads w u = s" "act u s w s' w'" and "w_threads w' = w_threads w"
    and "cn_cause (w_conn w') = Some ErrClosed"
    and "(if u = 0 then s' else ob) = ob'" "(if u = 1 then s' else rc) = rc'" "(if u = 2 then s' else td) = td'"
      "(if u = 3 then s' else wt) = wt'"
    and "cn_teardown (w_conn w') = t'" "cn_receiveExit (w_conn w') = r'" "cn_observerExit (w_conn w') = x'"
  shows "\<exists>w. closing imp w ob' rc' td' wt' t' r' x'"
  using reachable_run [OF closingD(1) [OF c] s] closingD(4-7) [OF c] assms(4-)
  by (intro exI [of _ "goto u s' w'"]) (auto simp: closing_def goto_def)

lemma closing_torn: "\<exists>w. closing imp w ObsWait RecvRead Finished WaitTeardown True False False"
proof -
  obtain w where c: "closing imp w ObsWait RecvRead (TdComplete ErrClosed []) WaitTeardown False False False"
    using closing_start by blast
  have "\<exists>w. closing imp w ObsWait RecvRead TdClose WaitTeardown False False False"
    by (rule closing_run [OF c closingD(6) [OF c] act.by_teardown [OF teardownStep.td_completed]]) (simp_all add: closingD [OF c])
  then obtain w where c: "closing imp w ObsWait RecvRead TdClose WaitTeardown False False False" ..
  have "\<exists>w. closing imp w ObsWait RecvRead TdCancel WaitTeardown False False False"
    by (rule closing_run [OF c closingD(6) [OF c] act.by_teardown [OF teardownStep.td_close]]) (simp_all add: closingD [OF c])
  then obtain w where c: "closing imp w ObsWait RecvRead TdCancel WaitTeardown False False False" ..
  have "\<exists>w. closing imp w ObsWait RecvRead TdFinish WaitTeardown False False False"
    by (rule closing_run [OF c closingD(6) [OF c] act.by_teardown [OF teardownStep.td_cancel]]) (simp_all add: closingD [OF c])
  then obtain w where c: "closing imp w ObsWait RecvRead TdFinish WaitTeardown False False False" ..
  show ?thesis
    by (rule closing_run [OF c closingD(6) [OF c] act.by_teardown [OF teardownStep.td_finish]]) (simp_all add: closingD [OF c])
qed

lemma closing_exited: "\<exists>w. closing imp w Finished Finished Finished WaitTeardown True True True"
proof -
  obtain w where c: "closing imp w ObsWait RecvRead Finished WaitTeardown True False False" using closing_torn by blast
  have "\<exists>w. closing imp w ObsWait RecvReturn Finished WaitTeardown True False False"
    by (rule closing_run [OF c closingD(5) [OF c] act.by_receive [OF receiveStep.recv_error [of 1 w ErrClosed]]]) (simp_all add: closingD [OF c])
  then obtain w where c: "closing imp w ObsWait RecvReturn Finished WaitTeardown True False False" ..
  have "\<exists>w. closing imp w ObsWait Finished Finished WaitTeardown True True False"
    by (rule closing_run [OF c closingD(5) [OF c] act.by_receive [OF receiveStep.recv_return]]) (simp_all add: closingD [OF c])
  then obtain w where c: "closing imp w ObsWait Finished Finished WaitTeardown True True False" ..
  have "\<exists>w. closing imp w ObsReturn Finished Finished WaitTeardown True True False"
    by (rule closing_run [OF c closingD(4) [OF c] act.by_observer [OF observeStep.obs_terminal [OF closingD(3) [OF c]]]])
       (simp_all add: closingD [OF c])
  then obtain w where c: "closing imp w ObsReturn Finished Finished WaitTeardown True True False" ..
  show ?thesis
    by (rule closing_run [OF c closingD(4) [OF c] act.by_observer [OF observeStep.obs_return]]) (simp_all add: closingD [OF c])
qed

lemma closing_waited: "\<exists>w. closing imp w Finished Finished Finished (WaitReturned (Some ErrClosed)) True True True"
proof -
  obtain w where c: "closing imp w Finished Finished Finished WaitTeardown True True True" using closing_exited by blast
  have "\<exists>w. closing imp w Finished Finished Finished WaitReceive True True True"
    by (rule closing_run [OF c closingD(7) [OF c] act.by_wait [OF waitStep.wait_teardown]]) (simp_all add: closingD [OF c])
  then obtain w where c: "closing imp w Finished Finished Finished WaitReceive True True True" ..
  have "\<exists>w. closing imp w Finished Finished Finished WaitObserver True True True"
    by (rule closing_run [OF c closingD(7) [OF c] act.by_wait [OF waitStep.wait_receive]]) (simp_all add: closingD [OF c])
  then obtain w where c: "closing imp w Finished Finished Finished WaitObserver True True True" ..
  have "\<exists>w. closing imp w Finished Finished Finished WaitCause True True True"
    by (rule closing_run [OF c closingD(7) [OF c] act.by_wait [OF waitStep.wait_observer]]) (simp_all add: closingD [OF c])
  then obtain w where c: "closing imp w Finished Finished Finished WaitCause True True True" ..
  show ?thesis
    by (rule closing_run [OF c closingD(7) [OF c] act.by_wait [OF waitStep.wait_cause]]) (simp_all add: closingD [OF c])
qed

text \<open>The witness: \<open>Close\<close> and \<open>Wait\<close> on a fresh connection; \<open>Wait\<close> returns \<open>ErrClosed\<close>.\<close>

theorem wait_returns_cause_witness:
  "\<exists>w. reachable (ImportBinding (Some 0)) w \<and> w_threads w 3 = WaitReturned (Some ErrClosed)
     \<and> cn_cause (w_conn w) = Some ErrClosed \<and> cn_closes (w_conn w) = 1 \<and> cn_handlersCanceled (w_conn w)
     \<and> (\<forall>v. \<not> isTd (w_threads w v) \<and> \<not> isRecv (w_threads w v) \<and> \<not> isObs (w_threads w v))"
proof -
  obtain w where c: "closing (ImportBinding (Some 0)) w Finished Finished Finished (WaitReturned (Some ErrClosed)) True True True"
    using closing_waited by blast
  from wait_returns_cause [OF closingD(1) [OF c], of 3 "Some ErrClosed"] closingD(1,7) [OF c]
  show ?thesis by (intro exI [of _ w]) simp
qed

end
