(* ===== verification/Negotiate.thy ===== *)
theory Negotiate
  imports Connection_State
begin

text \<open>
  Interface agreement (\<open>go/negotiate.go\<close>): argument validation, the two loops that move a
  32-byte interface ID over the stream, and the exchange of IDs by role. The body of each
  loop is a function of its own, so that the same code runs as one call
  (\<open>runNegotiation\<close>) and one stream call at a time (\<open>negStep\<close>), where other goroutines
  and the peer interleave.

  A \<open>Read\<close> of a slice of length n yields the bytes stored at the start of the slice, the
  count it claims and an error; both stream calls are \<open>None\<close> while they block. The
  \<open>%s\<close> argument of an error is spliced into its format, \<open>%x\<close> arguments are their bytes.
\<close>

type_synonym 's id_read = "'s \<Rightarrow> nat \<Rightarrow> (bytes \<times> int \<times> go_error option \<times> 's) option"
type_synonym 's id_write = "'s \<Rightarrow> bytes \<Rightarrow> (int \<times> go_error option \<times> 's) option"

datatype negotiationRole = negotiationClient | negotiationServer

section \<open>Argument validation\<close>

definition negotiatedArgumentError :: "string \<Rightarrow> go_error" where
  "negotiatedArgumentError what =
     Errorf (''intercall: negotiated connection '' @ what @ '': %w'') [] ErrInvalidArgument"

text \<open>\<open>ctx\<close> and \<open>stream\<close> are only compared with nil here.\<close>

definition validateNegotiatedArguments ::
  "'ctx store \<Rightarrow> bool \<Rightarrow> bool \<Rightarrow> ExportBinding \<Rightarrow> ImportBinding \<Rightarrow> (InterfaceID \<times> InterfaceID) result" where
  "validateNegotiatedArguments st hasCtx hasStream export imp =
     (if \<not> hasCtx then Inl (negotiatedArgumentError ''context is nil'')
      else if \<not> hasStream then Inl (negotiatedArgumentError ''stream is nil'')
      else if export = ExportBinding None then Inl (negotiatedArgumentError ''export binding is zero'')
      else if imp = ImportBinding None then Inl (negotiatedArgumentError ''import binding is zero'')
      else case exportInterfaceID st export of (exportID, ok) \<Rightarrow>
        if \<not> ok then Inl (negotiatedArgumentError ''export binding has no interface ID'')
        else case importInterfaceID st imp of (importID, ok) \<Rightarrow>
          if \<not> ok then Inl (negotiatedArgumentError ''import binding has no interface ID'')
          else Inr (exportID, importID))"

section \<open>Writing an interface ID\<close>

definition setupWriteStep :: "string \<Rightarrow> nat \<Rightarrow> bytes \<Rightarrow> nat \<Rightarrow> int \<Rightarrow> go_error option \<Rightarrow> write_outcome" where
  "setupWriteStep operation whole remaining written n err =
     (if n < 0 \<or> int (length remaining) < n
      then WriteFail (Errorf (''intercall: '' @ operation @ '': invalid byte count %d for %d-byte remainder: %w'')
             [n, int (length remaining)] errSetupInvalidWriteCount)
      else case err of
        Some e \<Rightarrow>
          WriteFail (Errorf (''intercall: '' @ operation @ '': write failed after %d of %d bytes: %w'')
            [int written + n, int whole] e)
      | None \<Rightarrow>
          if n = 0
          then WriteFail (Errorf (''intercall: '' @ operation @ '': no progress: %w'') [] errSetupWriteNoProgress)
          else WriteMore (written + nat n) (drop (nat n) remaining))"

lemma setupWriteStep_More:
  "setupWriteStep op tot b wn n err = WriteMore t b' \<longleftrightarrow>
     0 < n \<and> n \<le> int (length b) \<and> err = None \<and> t = wn + nat n \<and> b' = drop (nat n) b"
  by (auto simp: setupWriteStep_def split: option.splits if_splits)

function writeIDLoop ::
  "'s id_write \<Rightarrow> string \<Rightarrow> nat \<Rightarrow> 's \<Rightarrow> bytes \<Rightarrow> nat \<Rightarrow> (go_error option \<times> 's) option" where
  "writeIDLoop wr operation whole s remaining written =
     (if remaining = [] then Some (None, s)
      else case wr s remaining of
        None \<Rightarrow> None
      | Some (n, err, s') \<Rightarrow>
          (case setupWriteStep operation whole remaining written n err of
             WriteFail e \<Rightarrow> Some (Some e, s')
           | WriteMore written' remaining' \<Rightarrow> writeIDLoop wr operation whole s' remaining' written'))"
  by pat_completeness auto
termination
  by (relation "measure (\<lambda>(wr, operation, whole, s, remaining, written). length remaining)")
     (auto simp: setupWriteStep_More)

declare writeIDLoop.simps [simp del]

definition writeInterfaceID ::
  "'s id_write \<Rightarrow> 's \<Rightarrow> InterfaceID \<Rightarrow> string \<Rightarrow> (go_error option \<times> 's) option" where
  "writeInterfaceID wr s i operation = writeIDLoop wr operation (length i) s i 0"

section \<open>Reading an interface ID\<close>

datatype read_outcome = ReadMore nat | ReadDone | ReadFail go_error

definition setupReadStep :: "string \<Rightarrow> nat \<Rightarrow> nat \<Rightarrow> int \<Rightarrow> go_error option \<Rightarrow> read_outcome" where
  "setupReadStep operation whole got n err =
     (let remaining = whole - got in
      if n < 0 \<or> int remaining < n
      then ReadFail (Errorf (''intercall: '' @ operation @ '': invalid byte count %d for %d-byte remainder: %w'')
             [n, int remaining] errSetupInvalidReadCount)
      else
        let got' = got + nat n in
        if got' = whole then ReadDone
        else case err of
          Some e \<Rightarrow>
            ReadFail (Errorf (''intercall: '' @ operation @ '': short read after %d of %d bytes: %w'')
              [int got', int whole] e)
        | None \<Rightarrow>
            if n = 0
            then ReadFail (Errorf (''intercall: '' @ operation @ '': no progress: %w'') [] errSetupReadNoProgress)
            else ReadMore got')"

text \<open>The array after a read stored bytes at index \<open>r\<close>: nothing is stored past its end.\<close>

definition storeAt :: "bytes \<Rightarrow> nat \<Rightarrow> bytes \<Rightarrow> bytes" where
  "storeAt a r bs = take r a @ take (length a - r) bs @ drop (r + length bs) a"

lemma length_storeAt [simp]: "length (storeAt a r bs) = length a"
  by (auto simp: storeAt_def)

lemma setupReadStep_More:
  "setupReadStep op tot got n err = ReadMore g \<longleftrightarrow>
     0 < n \<and> n \<le> int (tot - got) \<and> got + nat n \<noteq> tot \<and> err = None \<and> g = got + nat n"
  by (auto simp: setupReadStep_def Let_def split: option.splits if_splits)

function readIDLoop ::
  "'s id_read \<Rightarrow> string \<Rightarrow> 's \<Rightarrow> bytes \<Rightarrow> nat \<Rightarrow> (InterfaceID result \<times> 's) option" where
  "readIDLoop rd operation s a got =
     (if \<not> got < length a then Some (Inr a, s)
      else case rd s (length a - got) of
        None \<Rightarrow> None
      | Some (bs, n, err, s') \<Rightarrow>
          (case setupReadStep operation (length a) got n err of
             ReadFail e \<Rightarrow> Some (Inl e, s')
           | ReadDone \<Rightarrow> Some (Inr (storeAt a got bs), s')
           | ReadMore got' \<Rightarrow> readIDLoop rd operation s' (storeAt a got bs) got'))"
  by pat_completeness auto
termination
  by (relation "measure (\<lambda>(rd, operation, s, a, got). length a - got)")
     (auto simp: setupReadStep_More)

declare readIDLoop.simps [simp del]

definition readInterfaceID :: "'s id_read \<Rightarrow> 's \<Rightarrow> string \<Rightarrow> (InterfaceID result \<times> 's) option" where
  "readInterfaceID rd s operation = readIDLoop rd operation s zeroInterfaceID 0"

section \<open>The exchange\<close>

definition interfaceMismatch :: "string \<Rightarrow> InterfaceID \<Rightarrow> InterfaceID \<Rightarrow> go_error" where
  "interfaceMismatch role expected received =
     Errorf (''intercall: '' @ role @ '' interface ID mismatch: expected %x, received %x: %w'')
       (map uint expected @ map uint received) ErrInterfaceMismatch"

fun writeOperation :: "negotiationRole \<Rightarrow> string" where
  "writeOperation negotiationClient = ''client write interface ID''"
| "writeOperation negotiationServer = ''server write interface ID''"

fun readOperation :: "negotiationRole \<Rightarrow> string" where
  "readOperation negotiationClient = ''client read interface ID''"
| "readOperation negotiationServer = ''server read interface ID''"

fun roleName :: "negotiationRole \<Rightarrow> string" where
  "roleName negotiationClient = ''client''"
| "roleName negotiationServer = ''server''"

fun runNegotiation ::
  "'s id_read \<Rightarrow> 's id_write \<Rightarrow> 's \<Rightarrow> InterfaceID \<Rightarrow> InterfaceID \<Rightarrow> negotiationRole
     \<Rightarrow> (go_error option \<times> 's) option" where
  "runNegotiation rd wr s exportID importID negotiationClient =
     (case writeInterfaceID wr s importID (writeOperation negotiationClient) of
        None \<Rightarrow> None
      | Some (Some e, s1) \<Rightarrow> Some (Some e, s1)
      | Some (None, s1) \<Rightarrow>
          (case readInterfaceID rd s1 (readOperation negotiationClient) of
             None \<Rightarrow> None
           | Some (Inl e, s2) \<Rightarrow> Some (Some e, s2)
           | Some (Inr serverID, s2) \<Rightarrow>
               if serverID \<noteq> exportID
               then Some (Some (interfaceMismatch ''client'' exportID serverID), s2)
               else Some (None, s2)))"
| "runNegotiation rd wr s exportID importID negotiationServer =
     (case readInterfaceID rd s (readOperation negotiationServer) of
        None \<Rightarrow> None
      | Some (Inl e, s1) \<Rightarrow> Some (Some e, s1)
      | Some (Inr clientID, s1) \<Rightarrow>
          if clientID \<noteq> exportID
          then Some (Some (interfaceMismatch ''server'' exportID clientID), s1)
          else writeInterfaceID wr s1 importID (writeOperation negotiationServer))"

section \<open>One stream call at a time\<close>

datatype negPoint = NegWrite bytes nat | NegRead InterfaceID nat | NegDone "go_error option"

definition negStart :: "negotiationRole \<Rightarrow> InterfaceID \<Rightarrow> negPoint" where
  "negStart role importID =
     (if role = negotiationClient then NegWrite importID 0 else NegRead zeroInterfaceID 0)"

text \<open>What follows a complete write and a complete read.\<close>

fun afterWrite :: "negotiationRole \<Rightarrow> negPoint" where
  "afterWrite negotiationClient = NegRead zeroInterfaceID 0"
| "afterWrite negotiationServer = NegDone None"

definition afterRead :: "negotiationRole \<Rightarrow> InterfaceID \<Rightarrow> InterfaceID \<Rightarrow> InterfaceID \<Rightarrow> negPoint" where
  "afterRead role exportID importID received =
     (if received \<noteq> exportID then NegDone (Some (interfaceMismatch (roleName role) exportID received))
      else if role = negotiationClient then NegDone None else NegWrite importID 0)"

fun negStep ::
  "'s id_read \<Rightarrow> 's id_write \<Rightarrow> negotiationRole \<Rightarrow> InterfaceID \<Rightarrow> InterfaceID \<Rightarrow> negPoint \<Rightarrow> 's
     \<Rightarrow> (negPoint \<times> 's) option" where
  "negStep rd wr role exportID importID (NegWrite remaining written) s =
     (if remaining = [] then Some (afterWrite role, s)
      else case wr s remaining of
        None \<Rightarrow> None
      | Some (n, err, s') \<Rightarrow>
          Some (case setupWriteStep (writeOperation role) (length importID) remaining written n err of
                  WriteFail e \<Rightarrow> NegDone (Some e)
                | WriteMore written' remaining' \<Rightarrow> NegWrite remaining' written', s'))"
| "negStep rd wr role exportID importID (NegRead a got) s =
     (if \<not> got < length a then Some (afterRead role exportID importID a, s)
      else case rd s (length a - got) of
        None \<Rightarrow> None
      | Some (bs, n, err, s') \<Rightarrow>
          Some (case setupReadStep (readOperation role) (length a) got n err of
                  ReadFail e \<Rightarrow> NegDone (Some e)
                | ReadDone \<Rightarrow> afterRead role exportID importID (storeAt a got bs)
                | ReadMore got' \<Rightarrow> NegRead (storeAt a got bs) got', s'))"
| "negStep rd wr role exportID importID (NegDone r) s = None"

section \<open>The two forms agree\<close>

definition solo ::
  "'s id_read \<Rightarrow> 's id_write \<Rightarrow> negotiationRole \<Rightarrow> InterfaceID \<Rightarrow> InterfaceID
     \<Rightarrow> negPoint \<times> 's \<Rightarrow> negPoint \<times> 's \<Rightarrow> bool" where
  "solo rd wr role ex im c c' \<longleftrightarrow> negStep rd wr role ex im (fst c) (snd c) = Some c'"

lemma solo_det: "solo rd wr role ex im c c1 \<Longrightarrow> solo rd wr role ex im c c2 \<Longrightarrow> c1 = c2"
  by (simp add: solo_def)

definition blocked ::
  "'s id_read \<Rightarrow> 's id_write \<Rightarrow> negotiationRole \<Rightarrow> InterfaceID \<Rightarrow> InterfaceID \<Rightarrow> negPoint \<times> 's \<Rightarrow> bool" where
  "blocked rd wr role ex im c \<longleftrightarrow>
     negStep rd wr role ex im (fst c) (snd c) = None \<and> (\<forall>r. fst c \<noteq> NegDone r)"

lemma solo_normal_form:
  assumes "(solo rd wr role ex im)\<^sup>*\<^sup>* c c1" "(solo rd wr role ex im)\<^sup>*\<^sup>* c c2"
    and "negStep rd wr role ex im (fst c1) (snd c1) = None" "negStep rd wr role ex im (fst c2) (snd c2) = None"
  shows "c1 = c2"
  using assms
proof (induction rule: converse_rtranclp_induct)
  case base
  then show ?case by (auto elim: converse_rtranclpE simp: solo_def)
next
  case (step c d)
  then have "c2 \<noteq> c" by (auto simp: solo_def)
  with step.prems(1) obtain d' where "solo rd wr role ex im c d'" "(solo rd wr role ex im)\<^sup>*\<^sup>* d' c2"
    by (metis converse_rtranclpE)
  with step solo_det show ?case by metis
qed

lemma write_solo:
  "(case writeIDLoop wr (writeOperation role) (length im) s b wn of
      None \<Rightarrow> \<exists>c. (solo rd wr role ex im)\<^sup>*\<^sup>* (NegWrite b wn, s) c \<and> blocked rd wr role ex im c
    | Some (r, s') \<Rightarrow> (solo rd wr role ex im)\<^sup>*\<^sup>* (NegWrite b wn, s)
                (case r of None \<Rightarrow> afterWrite role | Some e \<Rightarrow> NegDone (Some e), s'))"
proof (induction "length b" arbitrary: s b wn rule: less_induct)
  case less
  show ?case
  proof (cases "b = []")
    case True
    then show ?thesis
      by (simp add: writeIDLoop.simps solo_def r_into_rtranclp)
  next
    case False
    show ?thesis
    proof (cases "wr s b")
      case None
      with False show ?thesis
        by (simp add: writeIDLoop.simps) (rule exI [of _ "NegWrite b wn"], rule exI [of _ s], simp add: blocked_def)
    next
      case (Some x)
      then obtain n err s1 where wr: "wr s b = Some (n, err, s1)" by (metis prod_cases3)
      show ?thesis
      proof (cases "setupWriteStep (writeOperation role) (length im) b wn n err")
        case (WriteFail e)
        with wr False show ?thesis
          by (simp add: writeIDLoop.simps [of wr _ _ s b] solo_def r_into_rtranclp)
      next
        case (WriteMore wn' b')
        with wr False have st: "solo rd wr role ex im (NegWrite b wn, s) (NegWrite b' wn', s1)"
          and lp: "writeIDLoop wr (writeOperation role) (length im) s b wn
                 = writeIDLoop wr (writeOperation role) (length im) s1 b' wn'"
          by (simp_all add: writeIDLoop.simps [of wr _ _ s b] solo_def)
        from WriteMore False have "length b' < length b" by (auto simp: setupWriteStep_More)
        from less.hyps [OF this, where s = s1 and wn = wn'] show ?thesis
          unfolding lp using converse_rtranclp_into_rtranclp [of "solo rd wr role ex im", OF st]
          by (auto split: option.splits)
      qed
    qed
  qed
qed

lemma read_solo:
  "(case readIDLoop rd (readOperation role) s a got of
      None \<Rightarrow> \<exists>c. (solo rd wr role ex im)\<^sup>*\<^sup>* (NegRead a got, s) c \<and> blocked rd wr role ex im c
    | Some (r, s') \<Rightarrow> (solo rd wr role ex im)\<^sup>*\<^sup>* (NegRead a got, s)
                (case r of Inl e \<Rightarrow> NegDone (Some e) | Inr i \<Rightarrow> afterRead role ex im i, s'))"
proof (induction "length a - got" arbitrary: s a got rule: less_induct)
  case less
  show ?case
  proof (cases "got < length a")
    case False
    then show ?thesis
      by (simp add: readIDLoop.simps solo_def r_into_rtranclp)
  next
    case True
    show ?thesis
    proof (cases "rd s (length a - got)")
      case None
      with True show ?thesis
        by (simp add: readIDLoop.simps) (rule exI [of _ "NegRead a got"], rule exI [of _ s], simp add: blocked_def)
    next
      case (Some x)
      then obtain bs n err s1 where rd: "rd s (length a - got) = Some (bs, n, err, s1)"
        by (metis prod_cases4)
      show ?thesis
      proof (cases "setupReadStep (readOperation role) (length a) got n err")
        case (ReadMore got')
        with rd True have st: "solo rd wr role ex im (NegRead a got, s) (NegRead (storeAt a got bs) got', s1)"
          and lp: "readIDLoop rd (readOperation role) s a got
                 = readIDLoop rd (readOperation role) s1 (storeAt a got bs) got'"
          by (simp_all add: readIDLoop.simps [of rd _ s a] solo_def)
        from ReadMore True have "length (storeAt a got bs) - got' < length a - got"
          by (auto simp: setupReadStep_More)
        from less.hyps [OF this, where s = s1] show ?thesis
          unfolding lp using converse_rtranclp_into_rtranclp [of "solo rd wr role ex im", OF st]
          by (auto split: option.splits)
      qed (use rd True in \<open>simp_all add: readIDLoop.simps [of rd _ s a] solo_def r_into_rtranclp\<close>)
    qed
  qed
qed

lemma runNegotiation_solo:
  "(case runNegotiation rd wr s ex im role of
      None \<Rightarrow> \<exists>c. (solo rd wr role ex im)\<^sup>*\<^sup>* (negStart role im, s) c \<and> blocked rd wr role ex im c
    | Some (r, s') \<Rightarrow> (solo rd wr role ex im)\<^sup>*\<^sup>* (negStart role im, s) (NegDone r, s'))"
proof (cases role)
  case negotiationClient
  show ?thesis
  proof (cases "writeInterfaceID wr s im (writeOperation negotiationClient)")
    case None
    then show ?thesis
      using write_solo [where wr = wr and role = role and im = im and s = s and b = im and wn = 0 and rd = rd and ex = ex] negotiationClient
      by (simp add: negStart_def writeInterfaceID_def)
  next
    case (Some x)
    then obtain r s1 where w: "writeInterfaceID wr s im (writeOperation negotiationClient) = Some (r, s1)"
      by force
    show ?thesis
    proof (cases r)
      case None
      with w write_solo [where wr = wr and role = role and im = im and s = s and b = im and wn = 0 and rd = rd and ex = ex] negotiationClient
      have first: "(solo rd wr role ex im)\<^sup>*\<^sup>* (negStart role im, s) (NegRead zeroInterfaceID 0, s1)"
        by (simp add: negStart_def writeInterfaceID_def)
      show ?thesis
        using read_solo [where rd = rd and role = role and s = s1 and a = zeroInterfaceID and got = 0 and wr = wr and ex = ex and im = im] w None negotiationClient
          rtranclp_trans [OF first]
        by (auto simp: readInterfaceID_def afterRead_def split: option.splits sum.splits if_splits)
    next
      case (Some e)
      with w write_solo [where wr = wr and role = role and im = im and s = s and b = im and wn = 0 and rd = rd and ex = ex] negotiationClient show ?thesis
        by (simp add: negStart_def writeInterfaceID_def)
    qed
  qed
next
  case negotiationServer
  show ?thesis
  proof (cases "readInterfaceID rd s (readOperation negotiationServer)")
    case None
    then show ?thesis
      using read_solo [where rd = rd and role = role and s = s and a = zeroInterfaceID and got = 0 and wr = wr and ex = ex and im = im] negotiationServer
      by (simp add: negStart_def readInterfaceID_def)
  next
    case (Some x)
    then obtain r s1 where w: "readInterfaceID rd s (readOperation negotiationServer) = Some (r, s1)"
      by force
    with read_solo [where rd = rd and role = role and s = s and a = zeroInterfaceID and got = 0 and wr = wr and ex = ex and im = im] negotiationServer
    have first: "(solo rd wr role ex im)\<^sup>*\<^sup>* (negStart role im, s)
        (case r of Inl e \<Rightarrow> NegDone (Some e) | Inr i \<Rightarrow> afterRead role ex im i, s1)"
      by (simp add: negStart_def readInterfaceID_def)
    show ?thesis
    proof (cases "r = Inr ex")
      case True
      with first negotiationServer
      have "(solo rd wr role ex im)\<^sup>*\<^sup>* (negStart role im, s) (NegWrite im 0, s1)"
        by (simp add: afterRead_def)
      with w True negotiationServer write_solo [where wr = wr and role = role and im = im and s = s1 and b = im and wn = 0 and rd = rd and ex = ex]
      show ?thesis
        by (auto simp: writeInterfaceID_def split: option.splits intro: rtranclp_trans)
    next
      case False
      with first w negotiationServer show ?thesis
        by (auto simp: afterRead_def split: sum.splits)
    qed
  qed
qed

text \<open>
  The exchange run one stream call at a time is the exchange of \<open>runNegotiation\<close>: it
  reaches an outcome exactly when the call returns it, with the same stream, and it stops
  short of an outcome exactly when some stream call blocks for ever.
\<close>

theorem negotiation_by_stream_calls:
  "(runNegotiation rd wr s ex im role = Some (r, s')
      \<longleftrightarrow> (solo rd wr role ex im)\<^sup>*\<^sup>* (negStart role im, s) (NegDone r, s'))
   \<and> (runNegotiation rd wr s ex im role = None
      \<longleftrightarrow> (\<exists>c. (solo rd wr role ex im)\<^sup>*\<^sup>* (negStart role im, s) c \<and> blocked rd wr role ex im c))"
proof (cases "runNegotiation rd wr s ex im role")
  case None
  with runNegotiation_solo [where rd = rd and wr = wr and s = s and ex = ex and im = im and role = role] obtain c
    where "(solo rd wr role ex im)\<^sup>*\<^sup>* (negStart role im, s) c" "blocked rd wr role ex im c" by auto
  with None show ?thesis
    using solo_normal_form [of rd wr role ex im "(negStart role im, s)" c "(NegDone r, s')"]
    by (cases c) (auto simp: blocked_def)
next
  case (Some x)
  obtain r1 s1 where x: "x = (r1, s1)" by force
  with Some runNegotiation_solo [where rd = rd and wr = wr and s = s and ex = ex and im = im and role = role]
  have "(solo rd wr role ex im)\<^sup>*\<^sup>* (negStart role im, s) (NegDone r1, s1)" by simp
  then have "c = (NegDone r1, s1)"
    if "(solo rd wr role ex im)\<^sup>*\<^sup>* (negStart role im, s) c" "negStep rd wr role ex im (fst c) (snd c) = None" for c
    using solo_normal_form [OF that(1) _ that(2), of "(NegDone r1, s1)"] by simp
  note uniq = this and reach = \<open>(solo rd wr role ex im)\<^sup>*\<^sup>* (negStart role im, s) (NegDone r1, s1)\<close>
  have "(r, s') = (r1, s1)" if "(solo rd wr role ex im)\<^sup>*\<^sup>* (negStart role im, s) (NegDone r, s')"
    using uniq [OF that] by simp
  moreover have "\<not> blocked rd wr role ex im c" if "(solo rd wr role ex im)\<^sup>*\<^sup>* (negStart role im, s) c" for c
    using uniq [OF that] unfolding blocked_def by (metis fst_conv)
  ultimately show ?thesis using Some x reach by auto
qed

end
