(* ===== verification/Negotiate_Agreement.thy ===== *)
theory Negotiate_Agreement
  imports Negotiate
begin

text \<open>
  Two endpoints negotiate over the in-memory duplex stream of
  \<open>go/internal/integration/stream.go\<close>: a client and a server run the exchange of
  \<open>go/negotiate.go\<close> one stream call at a time, in any order, and an endpoint whose
  exchange failed closes its end. The theory shows which bindings can agree, that no
  other outcome is possible and that every such run ends.
\<close>

section \<open>The duplex stream\<close>

text \<open>
  The two pipes as one end sees them; the other end holds the same pipes the other way
  round.
\<close>

record duplex =
  dx_local :: bytePipe
  dx_remote :: bytePipe

definition otherEnd :: "duplex \<Rightarrow> duplex" where
  "otherEnd d = \<lparr>dx_local = dx_remote d, dx_remote = dx_local d\<rparr>"

definition newDuplex :: "duplex \<times> duplex" where
  "newDuplex =
     (let ab = newBytePipe; ba = newBytePipe
      in (\<lparr>dx_local = ab, dx_remote = ba\<rparr>, \<lparr>dx_local = ba, dx_remote = ab\<rparr>))"

definition duplex_read :: "duplex id_read" where
  "duplex_read d n =
     (case pipe_read (dx_local d) n of
        None \<Rightarrow> None
      | Some (bs, e, p) \<Rightarrow> Some (bs, int (length bs), e, d\<lparr>dx_local := p\<rparr>))"

definition duplex_write :: "duplex id_write" where
  "duplex_write d b =
     (case pipe_write (dx_remote d) b of (n, e, p) \<Rightarrow> Some (n, e, d\<lparr>dx_remote := p\<rparr>))"

definition duplex_close :: "duplex \<Rightarrow> go_error option \<times> duplex" where
  "duplex_close d =
     (None, d\<lparr>dx_local := closeWith (dx_local d) (Some IoEOF), dx_remote := closeWith (dx_remote d) (Some IoEOF)\<rparr>)"

text \<open>
  The wrapper that fails writes while armed; reads and closes go to the wrapped stream.
\<close>

record failStream =
  fs_stream :: duplex
  fs_armed :: bool
  fs_err :: go_error

definition failStream_write :: "failStream id_write" where
  "failStream_write s b =
     (if fs_armed s then Some (0, Some (fs_err s), s)
      else map_option (\<lambda>(n, e, d). (n, e, s\<lparr>fs_stream := d\<rparr>)) (duplex_write (fs_stream s) b))"

section \<open>Two endpoints\<close>

record pairing =
  pr_net :: duplex
  pr_client :: negPoint
  pr_server :: negPoint

record agreement =
  ag_clientExport :: InterfaceID
  ag_clientImport :: InterfaceID
  ag_serverExport :: InterfaceID
  ag_serverImport :: InterfaceID

definition pairStart :: "agreement \<Rightarrow> pairing" where
  "pairStart g = \<lparr>pr_net = fst newDuplex,
     pr_client = negStart negotiationClient (ag_clientImport g),
     pr_server = negStart negotiationServer (ag_serverImport g)\<rparr>"

definition isOpen :: "duplex \<Rightarrow> bool" where
  "isOpen d \<longleftrightarrow> \<not> bp_closed (dx_local d) \<and> \<not> bp_closed (dx_remote d)"

inductive pairStep :: "agreement \<Rightarrow> pairing \<Rightarrow> pairing \<Rightarrow> bool" for g where
  client_call:
    "negStep duplex_read duplex_write negotiationClient (ag_clientExport g) (ag_clientImport g)
       (pr_client p) (pr_net p) = Some (c, d) \<Longrightarrow>
     pairStep g p (p\<lparr>pr_client := c, pr_net := d\<rparr>)"
| server_call:
    "negStep duplex_read duplex_write negotiationServer (ag_serverExport g) (ag_serverImport g)
       (pr_server p) (otherEnd (pr_net p)) = Some (s, d) \<Longrightarrow>
     pairStep g p (p\<lparr>pr_server := s, pr_net := otherEnd d\<rparr>)"
| client_close:
    "pr_client p = NegDone (Some e) \<Longrightarrow> isOpen (pr_net p) \<Longrightarrow>
     pairStep g p (p\<lparr>pr_net := snd (duplex_close (pr_net p))\<rparr>)"
| server_close:
    "pr_server p = NegDone (Some e) \<Longrightarrow> isOpen (pr_net p) \<Longrightarrow>
     pairStep g p (p\<lparr>pr_net := otherEnd (snd (duplex_close (otherEnd (pr_net p))))\<rparr>)"

inductive_cases pairStepE: "pairStep g p p'"

section \<open>The phases of the exchange\<close>

text \<open>
  Pipe writes are accepted whole, so an ID is either not sent, in the pipe, or read. The
  server reads; it has found a match and writes; its write is complete; or it has found
  a mismatch.
\<close>

definition sent :: "negPoint \<Rightarrow> bool" where
  "sent c \<longleftrightarrow> c = NegWrite [] 32 \<or> c = NegRead zeroInterfaceID 0"

definition reading :: "agreement \<Rightarrow> pairing \<Rightarrow> bool" where
  "reading g p \<longleftrightarrow> pr_server p = NegRead zeroInterfaceID 0 \<and> isOpen (pr_net p) \<and> bp_buf (dx_local (pr_net p)) = []
     \<and> (pr_client p = NegWrite (ag_clientImport g) 0 \<and> bp_buf (dx_remote (pr_net p)) = []
        \<or> sent (pr_client p) \<and> bp_buf (dx_remote (pr_net p)) = ag_clientImport g)"

definition matched :: "agreement \<Rightarrow> pairing \<Rightarrow> bool" where
  "matched g p \<longleftrightarrow> pr_server p = NegWrite (ag_serverImport g) 0 \<and> isOpen (pr_net p)
     \<and> bp_buf (dx_local (pr_net p)) = [] \<and> sent (pr_client p) \<and> ag_clientImport g = ag_serverExport g"

definition answered :: "agreement \<Rightarrow> pairing \<Rightarrow> bool" where
  "answered g p \<longleftrightarrow> (pr_server p = NegWrite [] 32 \<or> pr_server p = NegDone None)
     \<and> ag_clientImport g = ag_serverExport g
     \<and> (sent (pr_client p) \<and> isOpen (pr_net p) \<and> bp_buf (dx_local (pr_net p)) = ag_serverImport g
        \<or> pr_client p = NegDone None \<and> ag_serverImport g = ag_clientExport g
        \<or> pr_client p = NegDone (Some (interfaceMismatch ''client'' (ag_clientExport g) (ag_serverImport g)))
            \<and> ag_serverImport g \<noteq> ag_clientExport g)"

definition refused :: "agreement \<Rightarrow> pairing \<Rightarrow> bool" where
  "refused g p \<longleftrightarrow>
     pr_server p = NegDone (Some (interfaceMismatch ''server'' (ag_serverExport g) (ag_clientImport g)))
     \<and> ag_clientImport g \<noteq> ag_serverExport g \<and> bp_buf (dx_local (pr_net p)) = []
     \<and> (isOpen (pr_net p) \<or> bp_closed (dx_local (pr_net p)) \<and> bp_derr (dx_local (pr_net p)) = Some IoEOF)
     \<and> (sent (pr_client p) \<or> (\<exists>e. pr_client p = NegDone (Some e) \<and> errors_is e IoEOF))"

lemmas phase_defs = reading_def matched_def answered_def refused_def

definition pairInv :: "agreement \<Rightarrow> pairing \<Rightarrow> bool" where
  "pairInv g p \<longleftrightarrow> reading g p \<or> matched g p \<or> answered g p \<or> refused g p"

definition wfAgreement :: "agreement \<Rightarrow> bool" where
  "wfAgreement g \<longleftrightarrow> length (ag_clientExport g) = 32 \<and> length (ag_clientImport g) = 32
     \<and> length (ag_serverExport g) = 32 \<and> length (ag_serverImport g) = 32"

section \<open>Stream calls of an exchange\<close>

lemma length_zeroInterfaceID [simp]: "length zeroInterfaceID = 32"
  by (simp add: zeroInterfaceID_def)

lemma duplex_write_open:
  "\<not> bp_closed (dx_remote d) \<Longrightarrow>
   duplex_write d b = Some (int (length b), None, d\<lparr>dx_remote := (dx_remote d)\<lparr>bp_buf := bp_buf (dx_remote d) @ b\<rparr>\<rparr>)"
  by (simp add: duplex_write_def pipe_write_def)

lemma step_write_open:
  "length b = 32 \<Longrightarrow> isOpen d \<Longrightarrow>
   negStep duplex_read duplex_write role ex im (NegWrite b 0) d =
     Some (NegWrite [] 32, d\<lparr>dx_remote := (dx_remote d)\<lparr>bp_buf := bp_buf (dx_remote d) @ b\<rparr>\<rparr>)"
  by (auto simp: duplex_write_open setupWriteStep_def isOpen_def)

lemma step_read_full:
  "length (bp_buf (dx_local d)) = 32 \<Longrightarrow>
   negStep duplex_read duplex_write role ex im (NegRead zeroInterfaceID 0) d =
     Some (afterRead role ex im (bp_buf (dx_local d)), d\<lparr>dx_local := (dx_local d)\<lparr>bp_buf := []\<rparr>\<rparr>)"
  by (auto simp: duplex_read_def pipe_read_def setupReadStep_def storeAt_def)

lemma step_read_empty:
  "bp_buf (dx_local d) = [] \<Longrightarrow>
   negStep duplex_read duplex_write role ex im (NegRead zeroInterfaceID 0) d =
     (if bp_closed (dx_local d)
      then Some (case setupReadStep (readOperation role) 32 0 0 (bp_derr (dx_local d)) of
             ReadFail e \<Rightarrow> NegDone (Some e)
           | ReadDone \<Rightarrow> afterRead role ex im (storeAt zeroInterfaceID 0 [])
           | ReadMore got' \<Rightarrow> NegRead (storeAt zeroInterfaceID 0 []) got', d)
      else None)"
  by (auto simp: duplex_read_def pipe_read_def)

lemmas call_simps = step_write_open step_read_full step_read_empty setupReadStep_def Let_def afterRead_def
  isOpen_def otherEnd_def duplex_close_def closeWith_def

lemma pairInv_start: "pairInv g (pairStart g)"
  by (simp add: pairInv_def reading_def pairStart_def negStart_def newDuplex_def newBytePipe_def isOpen_def Let_def)

lemma step_write_done [simp]:
  "negStep rd wr role ex im (NegWrite [] n) d = Some (afterWrite role, d)"
  by simp

declare negStep.simps(1,2) [simp del]

lemma sent_cases:
  assumes "sent c" obtains (flushed) "c = NegWrite [] 32" | (waiting) "c = NegRead zeroInterfaceID 0"
  using assms by (auto simp: sent_def)

lemma isOpen_buf [simp]:
  "isOpen (d\<lparr>dx_remote := (dx_remote d)\<lparr>bp_buf := b\<rparr>\<rparr>) = isOpen d"
  "isOpen (d\<lparr>dx_local := (dx_local d)\<lparr>bp_buf := b\<rparr>\<rparr>) = isOpen d"
  by (simp_all add: isOpen_def)

lemma sent_simps [simp]: "sent (NegWrite [] 32)" "sent (NegRead zeroInterfaceID 0)"
  by (simp_all add: sent_def)

lemma step_read_eof:
  "bp_buf (dx_local d) = [] \<Longrightarrow> bp_closed (dx_local d) \<Longrightarrow> bp_derr (dx_local d) = Some IoEOF \<Longrightarrow>
   \<exists>e. negStep duplex_read duplex_write role ex im (NegRead zeroInterfaceID 0) d = Some (NegDone (Some e), d)
       \<and> errors_is e IoEOF"
  by (simp add: step_read_empty setupReadStep_def)

lemma step_read_waits:
  "bp_buf (dx_local d) = [] \<Longrightarrow> isOpen d \<Longrightarrow>
   negStep duplex_read duplex_write role ex im (NegRead zeroInterfaceID 0) d = None"
  by (simp add: step_read_empty isOpen_def)

lemma client_call_inv:
  assumes inv: "pairInv g p" and wf: "wfAgreement g"
    and st: "negStep duplex_read duplex_write negotiationClient (ag_clientExport g) (ag_clientImport g)
           (pr_client p) (pr_net p) = Some (c, d)"
  shows "pairInv g (p\<lparr>pr_client := c, pr_net := d\<rparr>)"
  using inv [unfolded pairInv_def]
proof (elim disjE)
  assume "reading g p"
  then have "reading g (p\<lparr>pr_client := c, pr_net := d\<rparr>)"
    using st wf by (cases p) (auto simp: reading_def step_write_open wfAgreement_def step_read_waits elim!: sent_cases)
  then show ?thesis by (simp add: pairInv_def)
next
  assume "matched g p"
  then have "matched g (p\<lparr>pr_client := c, pr_net := d\<rparr>)"
    using st by (auto simp: matched_def step_read_waits elim!: sent_cases)
  then show ?thesis by (simp add: pairInv_def)
next
  assume "answered g p"
  then have "answered g (p\<lparr>pr_client := c, pr_net := d\<rparr>)"
    using st wf
    by (auto simp: answered_def step_read_full wfAgreement_def afterRead_def split: if_splits elim!: sent_cases)
  then show ?thesis by (simp add: pairInv_def)
next
  assume r: "refused g p"
  then have "refused g (p\<lparr>pr_client := c, pr_net := d\<rparr>)"
    using st step_read_eof [of "pr_net p" negotiationClient "ag_clientExport g" "ag_clientImport g"]
    by (auto simp: refused_def step_read_waits elim!: sent_cases)
  then show ?thesis by (simp add: pairInv_def)
qed

lemma otherEnd_sel [simp]:
  "dx_local (otherEnd d) = dx_remote d" "dx_remote (otherEnd d) = dx_local d" "isOpen (otherEnd d) = isOpen d"
  by (auto simp: otherEnd_def isOpen_def)

lemma server_call_inv:
  assumes inv: "pairInv g p" and wf: "wfAgreement g"
    and st: "negStep duplex_read duplex_write negotiationServer (ag_serverExport g) (ag_serverImport g)
           (pr_server p) (otherEnd (pr_net p)) = Some (s, d)"
  shows "pairInv g (p\<lparr>pr_server := s, pr_net := otherEnd d\<rparr>)"
  using inv [unfolded pairInv_def]
proof (elim disjE)
  assume r: "reading g p"
  then have "sent (pr_client p)" "bp_buf (dx_remote (pr_net p)) = ag_clientImport g" "isOpen (pr_net p)"
    "pr_server p = NegRead zeroInterfaceID 0" "bp_buf (dx_local (pr_net p)) = []"
    using st by (auto simp: reading_def step_read_waits)
  moreover from this have "s = afterRead negotiationServer (ag_serverExport g) (ag_serverImport g) (ag_clientImport g)"
    "d = (otherEnd (pr_net p))\<lparr>dx_local := (dx_remote (pr_net p))\<lparr>bp_buf := []\<rparr>\<rparr>"
    using st wf by (simp_all add: step_read_full wfAgreement_def)
  ultimately show ?thesis
    by (auto simp: pairInv_def matched_def refused_def afterRead_def isOpen_def)
next
  assume "matched g p"
  then have "answered g (p\<lparr>pr_server := s, pr_net := otherEnd d\<rparr>)"
    using st wf by (auto simp: matched_def answered_def step_write_open wfAgreement_def isOpen_def)
  then show ?thesis by (simp add: pairInv_def)
next
  assume "answered g p"
  then have "answered g (p\<lparr>pr_server := s, pr_net := otherEnd d\<rparr>)"
    using st by (auto simp: answered_def)
  then show ?thesis by (simp add: pairInv_def)
next
  assume "refused g p"
  then show ?thesis using st by (simp add: refused_def)
qed

lemma pairInv_step:
  assumes inv: "pairInv g p" and wf: "wfAgreement g" and st: "pairStep g p p'"
  shows "pairInv g p'"
  using st
proof cases
  case (client_call c d)
  then show ?thesis using client_call_inv [OF inv wf] by simp
next
  case (server_call s d)
  then show ?thesis using server_call_inv [OF inv wf] by simp
qed (use inv in \<open>auto simp: pairInv_def phase_defs sent_def otherEnd_def duplex_close_def closeWith_def isOpen_def\<close>)

lemma pairInv_reachable: "(pairStep g)\<^sup>*\<^sup>* (pairStart g) p \<Longrightarrow> wfAgreement g \<Longrightarrow> pairInv g p"
  by (induction rule: rtranclp_induct) (auto simp: pairInv_start intro: pairInv_step)

section \<open>Progress\<close>

definition bothDone :: "pairing \<Rightarrow> bool" where
  "bothDone p \<longleftrightarrow> (case (pr_client p, pr_server p) of (NegDone r, NegDone r') \<Rightarrow> True | _ \<Rightarrow> False)"

lemma pair_progress:
  assumes inv: "pairInv g p" and wf: "wfAgreement g" and "\<not> bothDone p"
  shows "\<exists>p'. pairStep g p p'"
  using inv [unfolded pairInv_def]
proof (elim disjE)
  assume "reading g p"
  then show ?thesis
    using client_call [of g p] server_call [of g p] wf
    by (auto simp: reading_def step_write_open step_read_full wfAgreement_def elim!: sent_cases)
next
  assume "matched g p"
  then show ?thesis
    using server_call [of g p] wf by (auto simp: matched_def step_write_open wfAgreement_def)
next
  assume "answered g p"
  then show ?thesis
    using client_call [of g p] server_call [of g p] wf \<open>\<not> bothDone p\<close>
    by (auto simp: answered_def bothDone_def step_read_full wfAgreement_def elim!: sent_cases)
next
  assume r: "refused g p"
  then show ?thesis
    using client_call [of g p] server_close [of p _ g] \<open>\<not> bothDone p\<close>
      step_read_eof [of "pr_net p" negotiationClient "ag_clientExport g" "ag_clientImport g"]
    by (auto simp: refused_def bothDone_def elim!: sent_cases) blast+
qed

text \<open>Every stream call advances its endpoint, and each pipe closes once.\<close>

fun negWork :: "negotiationRole \<Rightarrow> negPoint \<Rightarrow> nat" where
  "negWork role (NegWrite b n) = Suc (length b) + (if role = negotiationClient then 34 else 0)"
| "negWork role (NegRead a n) = Suc (length a - n) + (if role = negotiationServer then 34 else 0)"
| "negWork role (NegDone r) = 0"

definition pairWork :: "pairing \<Rightarrow> nat" where
  "pairWork p = negWork negotiationClient (pr_client p) + negWork negotiationServer (pr_server p)
     + (if isOpen (pr_net p) then 1 else 0)"

lemma negStep_work:
  "negStep rd wr role ex im q s = Some (q', s') \<Longrightarrow> length im = 32 \<Longrightarrow> negWork role q' < negWork role q"
proof (cases q)
  case (NegWrite b n)
  assume st: "negStep rd wr role ex im q s = Some (q', s')"
  show ?thesis
  proof (cases "b = []")
    case True
    with NegWrite st show ?thesis by (cases role) auto
  next
    case False
    with NegWrite st show ?thesis
      by (auto simp: negStep.simps setupWriteStep_More split: option.splits write_outcome.splits)
  qed
next
  case (NegRead a n)
  assume st: "negStep rd wr role ex im q s = Some (q', s')" and im: "length im = 32"
  show ?thesis
  proof (cases "n < length a")
    case False
    with NegRead st im show ?thesis by (cases role) (auto simp: negStep.simps afterRead_def)
  next
    case True
    with NegRead st obtain bs c err where rd: "rd s (length a - n) = Some (bs, c, err, s')"
      and q': "q' = (case setupReadStep (readOperation role) (length a) n c err of
                  ReadFail e \<Rightarrow> NegDone (Some e)
                | ReadDone \<Rightarrow> afterRead role ex im (storeAt a n bs)
                | ReadMore got' \<Rightarrow> NegRead (storeAt a n bs) got')"
      by (auto simp: negStep.simps split: option.splits)
    show ?thesis
    proof (cases "setupReadStep (readOperation role) (length a) n c err")
      case (ReadMore x)
      with q' NegRead show ?thesis by (auto simp: setupReadStep_More)
    next
      case ReadDone
      with q' NegRead im show ?thesis by (cases role) (auto simp: afterRead_def)
    qed (use q' NegRead in simp)
  qed
qed simp

lemma duplex_call_open:
  "negStep duplex_read duplex_write role ex im q d = Some (q', d') \<Longrightarrow> isOpen d' = isOpen d"
  by (cases q)
     (auto simp: negStep.simps duplex_read_def duplex_write_def pipe_read_def pipe_write_def isOpen_def
       split: option.splits if_splits)

lemma pairStep_work:
  assumes "wfAgreement g" "pairStep g p p'"
  shows "pairWork p' < pairWork p"
  using assms(2)
proof cases
  case (client_call c d)
  then show ?thesis
    using duplex_call_open [OF client_call(2)] negStep_work [OF client_call(2)] assms(1)
    by (simp add: pairWork_def wfAgreement_def)
next
  case (server_call s d)
  then show ?thesis
    using duplex_call_open [OF server_call(2)] negStep_work [OF server_call(2)] assms(1)
    by (simp add: pairWork_def wfAgreement_def)
qed (simp_all add: pairWork_def isOpen_def otherEnd_def duplex_close_def closeWith_def)

lemma pair_steps_bounded:
  "(pairStep g ^^ n) p p' \<Longrightarrow> wfAgreement g \<Longrightarrow> n + pairWork p' \<le> pairWork p"
proof (induction n arbitrary: p')
  case (Suc n)
  then obtain q where "(pairStep g ^^ n) p q" "pairStep g q p'" by auto
  with Suc pairStep_work [of g q p'] show ?case by fastforce
qed simp

lemma pair_completes:
  "pairInv g p \<Longrightarrow> wfAgreement g \<Longrightarrow> \<exists>p'. (pairStep g)\<^sup>*\<^sup>* p p' \<and> bothDone p'"
proof (induction "pairWork p" arbitrary: p rule: less_induct)
  case less
  show ?case
  proof (cases "bothDone p")
    case False
    with pair_progress less.prems obtain q where q: "pairStep g p q" by blast
    from less.hyps [OF pairStep_work [OF less.prems(2) q] pairInv_step [OF less.prems q] less.prems(2)] q
    show ?thesis by (meson converse_rtranclp_into_rtranclp)
  qed auto
qed

section \<open>Properties\<close>

text \<open>
  C10. Agreement: whatever the order of the two endpoints' stream calls, the client
  succeeds only when each side imports what the other exports, the server succeeds only
  when the client imports what it exports, and once both have finished these conditions
  decide both outcomes. A server that refuses reports the mismatch with both IDs and has
  not written a byte.
\<close>

theorem negotiation_agreement:
  assumes "wfAgreement g" and "(pairStep g)\<^sup>*\<^sup>* (pairStart g) p"
  shows "(pr_client p = NegDone None \<longrightarrow>
            ag_clientImport g = ag_serverExport g \<and> ag_serverImport g = ag_clientExport g)
       \<and> (pr_server p = NegDone None \<longrightarrow> ag_clientImport g = ag_serverExport g)
       \<and> (bothDone p \<longrightarrow>
            (pr_server p = NegDone None \<longleftrightarrow> ag_clientImport g = ag_serverExport g)
          \<and> (pr_client p = NegDone None \<longleftrightarrow>
               ag_clientImport g = ag_serverExport g \<and> ag_serverImport g = ag_clientExport g))
       \<and> (\<forall>e. pr_server p = NegDone (Some e) \<longrightarrow>
            e = interfaceMismatch ''server'' (ag_serverExport g) (ag_clientImport g)
          \<and> bp_buf (dx_local (pr_net p)) = [])"
  using pairInv_reachable [OF assms(2,1), unfolded pairInv_def]
  by (elim disjE) (auto simp: phase_defs bothDone_def sent_def split: negPoint.splits)

theorem negotiation_agreement_witness:
  "\<exists>p. (pairStep \<lparr>ag_clientExport = zeroInterfaceID, ag_clientImport = emptyInterfaceID,
            ag_serverExport = emptyInterfaceID, ag_serverImport = zeroInterfaceID\<rparr>)\<^sup>*\<^sup>*
          (pairStart \<lparr>ag_clientExport = zeroInterfaceID, ag_clientImport = emptyInterfaceID,
            ag_serverExport = emptyInterfaceID, ag_serverImport = zeroInterfaceID\<rparr>) p
      \<and> pr_client p = NegDone None \<and> pr_server p = NegDone None"
proof -
  let ?g = "\<lparr>ag_clientExport = zeroInterfaceID, ag_clientImport = emptyInterfaceID,
            ag_serverExport = emptyInterfaceID, ag_serverImport = zeroInterfaceID\<rparr>"
  have wf: "wfAgreement ?g" by (simp add: wfAgreement_def emptyInterfaceID_def)
  from pair_completes [OF pairInv_start wf] obtain p
    where "(pairStep ?g)\<^sup>*\<^sup>* (pairStart ?g) p" "bothDone p" by blast
  with negotiation_agreement [OF wf this(1)] show ?thesis by auto
qed

text \<open>
  C22. Negotiation ends: two endpoints make at most 135 stream calls and closes between
  them, and as long as one of them has no outcome some call or close can be made, so no
  order of calls deadlocks, also when one side refuses.
\<close>

theorem negotiation_terminates:
  assumes "wfAgreement g" and "(pairStep g ^^ n) (pairStart g) p"
  shows "n \<le> 135 \<and> (bothDone p \<or> (\<exists>p'. pairStep g p p'))"
proof -
  have "pairWork (pairStart g) \<le> 135"
    using assms(1) by (simp add: pairWork_def pairStart_def negStart_def wfAgreement_def)
  moreover have "(pairStep g)\<^sup>*\<^sup>* (pairStart g) p"
    using assms(2) by (rule relpowp_imp_rtranclp)
  ultimately show ?thesis
    using pair_steps_bounded [OF assms(2,1)] pair_progress pairInv_reachable assms(1) by fastforce
qed

theorem negotiation_terminates_witness:
  "0 \<le> (135 :: nat) \<and> (bothDone (pairStart \<lparr>ag_clientExport = zeroInterfaceID, ag_clientImport = emptyInterfaceID,
            ag_serverExport = zeroInterfaceID, ag_serverImport = zeroInterfaceID\<rparr>)
     \<or> (\<exists>p'. pairStep \<lparr>ag_clientExport = zeroInterfaceID, ag_clientImport = emptyInterfaceID,
            ag_serverExport = zeroInterfaceID, ag_serverImport = zeroInterfaceID\<rparr>
          (pairStart \<lparr>ag_clientExport = zeroInterfaceID, ag_clientImport = emptyInterfaceID,
            ag_serverExport = zeroInterfaceID, ag_serverImport = zeroInterfaceID\<rparr>) p'))"
  by (rule negotiation_terminates) (simp_all add: wfAgreement_def emptyInterfaceID_def)

end
