(* ===== verification/Negotiate_Setup.thy ===== *)
theory Negotiate_Setup
  imports Negotiate_Agreement
begin

text \<open>
  The setup phase of a negotiated connection (\<open>newNegotiatedConnection\<close> in
  \<open>go/negotiate.go\<close>): the constructor goroutine, the cancellation callback registered on
  the setup context, and the close-once wrapper and the outcome they share. Every stream
  call, lock section, channel operation and context operation is one step, so the callback,
  the caller's context, the timer and the peer interleave at every point.
\<close>

section \<open>The close-once stream\<close>

record 's closeOnceStream =
  co_stream :: 's
  co_done :: bool
  co_err :: "go_error option"

definition ownerClose ::
  "('s \<Rightarrow> go_error option \<times> 's) \<Rightarrow> 's closeOnceStream \<Rightarrow> go_error option \<times> 's closeOnceStream" where
  "ownerClose cl o1 =
     (if co_done o1 then (co_err o1, o1)
      else case cl (co_stream o1) of (e, s) \<Rightarrow> (e, o1\<lparr>co_stream := s, co_done := True, co_err := e\<rparr>))"

section \<open>The outcome\<close>

record setupOutcome =
  so_err :: "go_error option"
  so_handedOff :: bool

text \<open>\<open>None\<close> is the panic on a nil error.\<close>

definition selectError :: "go_error option \<Rightarrow> setupOutcome \<Rightarrow> setupOutcome option" where
  "selectError err out =
     (if err = None then None
      else Some (if so_err out = None \<and> \<not> so_handedOff out then out\<lparr>so_err := err\<rparr> else out))"

definition handoff :: "setupOutcome \<Rightarrow> go_error option \<times> setupOutcome" where
  "handoff out =
     (if so_err out \<noteq> None then (so_err out, out) else (None, out\<lparr>so_handedOff := True\<rparr>))"

section \<open>The setup\<close>

text \<open>
  Where \<open>stopCallback\<close> returns to, the points of the constructor and those of the
  callback. \<open>stop\<close> of \<open>context.AfterFunc\<close> succeeds while the callback has not started.
\<close>

datatype stopReturn = StopFail go_error | StopRun

datatype setupPoint =
    SuRun negPoint
  | SuFail go_error
  | SuStop stopReturn
  | SuJoin stopReturn
  | SuFailClose go_error
  | SuFailCancel go_error
  | SuFailResult go_error
  | SuHandoff
  | SuRefusedClose go_error
  | SuRefusedCancel go_error
  | SuCancel
  | SuConstruct
  | SuRejectedClose go_error
  | SuReturn "connection result"

datatype callbackPoint = CbIdle | CbStopped | CbSelect | CbClose | CbSignal | CbFinished

record 's negotiationSetup =
  su_owner :: "'s closeOnceStream"
  su_outcome :: setupOutcome
  su_ctxErr :: "go_error option"
  su_setupErr :: "go_error option"
  su_hasStop :: bool
  su_callbackDone :: bool
  su_callback :: callbackPoint
  su_at :: setupPoint

text \<open>The checks before the stream is claimed, then the setup at its start.\<close>

definition newNegotiatedConnection ::
  "'ctx store \<Rightarrow> go_error option option \<Rightarrow> 's option \<Rightarrow> ExportBinding \<Rightarrow> ImportBinding \<Rightarrow> negotiationRole
     \<Rightarrow> (InterfaceID \<times> InterfaceID \<times> 's negotiationSetup) result" where
  "newNegotiatedConnection st ctx stream export imp role =
     (case validateNegotiatedArguments st (ctx \<noteq> None) (stream \<noteq> None) export imp of
        Inl e \<Rightarrow> Inl e
      | Inr (exportID, importID) \<Rightarrow>
          (case the ctx of
             Some e \<Rightarrow> Inl e
           | None \<Rightarrow> Inr (exportID, importID,
               \<lparr>su_owner = \<lparr>co_stream = the stream, co_done = False, co_err = None\<rparr>,
                su_outcome = \<lparr>so_err = None, so_handedOff = False\<rparr>,
                su_ctxErr = None, su_setupErr = None, su_hasStop = True, su_callbackDone = False,
                su_callback = CbIdle, su_at = SuRun (negStart role importID)\<rparr>)))"

definition afterStop :: "stopReturn \<Rightarrow> setupPoint" where
  "afterStop k = (case k of StopFail e \<Rightarrow> SuFailClose e | StopRun \<Rightarrow> SuHandoff)"

text \<open>\<open>stopCallback\<close> up to the receive on \<open>callbackDone\<close>.\<close>

definition stopCallback :: "stopReturn \<Rightarrow> 's negotiationSetup \<Rightarrow> 's negotiationSetup" where
  "stopCallback k u =
     (if \<not> su_hasStop u then u\<lparr>su_at := afterStop k\<rparr>
      else if su_callback u = CbIdle
      then u\<lparr>su_hasStop := False, su_callback := CbStopped, su_at := afterStop k\<rparr>
      else u\<lparr>su_hasStop := False, su_at := SuJoin k\<rparr>)"

definition cancelSetup :: "'s negotiationSetup \<Rightarrow> 's negotiationSetup" where
  "cancelSetup u = u\<lparr>su_setupErr := (case su_setupErr u of None \<Rightarrow> Some ContextCanceled | Some e \<Rightarrow> Some e)\<rparr>"

definition closeOwner :: "('s \<Rightarrow> go_error option \<times> 's) \<Rightarrow> 's negotiationSetup \<Rightarrow> 's negotiationSetup" where
  "closeOwner cl u = u\<lparr>su_owner := snd (ownerClose cl (su_owner u))\<rparr>"

definition select :: "go_error \<Rightarrow> 's negotiationSetup \<Rightarrow> 's negotiationSetup" where
  "select e u = u\<lparr>su_outcome := the (selectError (Some e) (su_outcome u))\<rparr>"

text \<open>
  The parameters of one setup: the stream operations, what the peer may do to the stream,
  the role, the two IDs and the two handles.
\<close>

record 's setupEnv =
  en_read :: "'s id_read"
  en_write :: "'s id_write"
  en_close :: "'s \<Rightarrow> go_error option \<times> 's"
  en_peer :: "'s \<Rightarrow> 's \<Rightarrow> bool"
  en_role :: negotiationRole
  en_exportID :: InterfaceID
  en_importID :: InterfaceID
  en_export :: ExportBinding
  en_imp :: ImportBinding

text \<open>The constructor goroutine, with \<open>fail\<close> and \<open>stopCallback\<close>.\<close>

inductive constructorStep :: "'s setupEnv \<Rightarrow> 's negotiationSetup \<Rightarrow> 's negotiationSetup \<Rightarrow> bool" for E where
  run:
    "su_at u = SuRun q \<Longrightarrow>
     negStep (en_read E) (en_write E) (en_role E) (en_exportID E) (en_importID E) q (co_stream (su_owner u))
       = Some (q', s) \<Longrightarrow>
     constructorStep E u (u\<lparr>su_owner := (su_owner u)\<lparr>co_stream := s\<rparr>, su_at := SuRun q'\<rparr>)"
| run_failed: "su_at u = SuRun (NegDone (Some e)) \<Longrightarrow> constructorStep E u (u\<lparr>su_at := SuFail e\<rparr>)"
| run_agreed: "su_at u = SuRun (NegDone None) \<Longrightarrow> constructorStep E u (u\<lparr>su_at := SuStop StopRun\<rparr>)"
| fail_select: "su_at u = SuFail e \<Longrightarrow> constructorStep E u (select e (u\<lparr>su_at := SuStop (StopFail e)\<rparr>))"
| stop: "su_at u = SuStop k \<Longrightarrow> constructorStep E u (stopCallback k u)"
| join: "su_at u = SuJoin k \<Longrightarrow> su_callbackDone u \<Longrightarrow> constructorStep E u (u\<lparr>su_at := afterStop k\<rparr>)"
| fail_close: "su_at u = SuFailClose e \<Longrightarrow> constructorStep E u (closeOwner (en_close E) (u\<lparr>su_at := SuFailCancel e\<rparr>))"
| fail_cancel: "su_at u = SuFailCancel e \<Longrightarrow> constructorStep E u (cancelSetup (u\<lparr>su_at := SuFailResult e\<rparr>))"
| fail_result:
    "su_at u = SuFailResult e \<Longrightarrow>
     constructorStep E u (u\<lparr>su_at := SuReturn (Inl (case so_err (su_outcome u) of Some x \<Rightarrow> x | None \<Rightarrow> e))\<rparr>)"
| handed_off:
    "su_at u = SuHandoff \<Longrightarrow> handoff (su_outcome u) = (None, out) \<Longrightarrow>
     constructorStep E u (u\<lparr>su_outcome := out, su_at := SuCancel\<rparr>)"
| refused:
    "su_at u = SuHandoff \<Longrightarrow> handoff (su_outcome u) = (Some e, out) \<Longrightarrow>
     constructorStep E u (u\<lparr>su_outcome := out, su_at := SuRefusedClose e\<rparr>)"
| refused_close:
    "su_at u = SuRefusedClose e \<Longrightarrow> constructorStep E u (closeOwner (en_close E) (u\<lparr>su_at := SuRefusedCancel e\<rparr>))"
| refused_cancel: "su_at u = SuRefusedCancel e \<Longrightarrow> constructorStep E u (cancelSetup (u\<lparr>su_at := SuReturn (Inl e)\<rparr>))"
| cancel: "su_at u = SuCancel \<Longrightarrow> constructorStep E u (cancelSetup (u\<lparr>su_at := SuConstruct\<rparr>))"
| construct:
    "su_at u = SuConstruct \<Longrightarrow>
     newConnection (Some (su_ctxErr u)) True (en_export E) (en_imp E) = Inr c \<Longrightarrow>
     constructorStep E u (u\<lparr>su_at := SuReturn (Inr c)\<rparr>)"
| construct_rejected:
    "su_at u = SuConstruct \<Longrightarrow>
     newConnection (Some (su_ctxErr u)) True (en_export E) (en_imp E) = Inl e \<Longrightarrow>
     constructorStep E u (u\<lparr>su_at := SuRejectedClose e\<rparr>)"
| rejected_close:
    "su_at u = SuRejectedClose e \<Longrightarrow> constructorStep E u (closeOwner (en_close E) (u\<lparr>su_at := SuReturn (Inl e)\<rparr>))"

text \<open>The function given to \<open>context.AfterFunc\<close>, on its own goroutine once the setup context is done.\<close>

inductive callbackStep :: "'s setupEnv \<Rightarrow> 's negotiationSetup \<Rightarrow> 's negotiationSetup \<Rightarrow> bool" for E where
  callback_starts:
    "su_callback u = CbIdle \<Longrightarrow> su_setupErr u \<noteq> None \<Longrightarrow> callbackStep E u (u\<lparr>su_callback := CbSelect\<rparr>)"
| callback_selects:
    "su_callback u = CbSelect \<Longrightarrow>
     callbackStep E u (select (case su_setupErr u of Some e \<Rightarrow> e | None \<Rightarrow> ContextCanceled) (u\<lparr>su_callback := CbClose\<rparr>))"
| callback_closes: "su_callback u = CbClose \<Longrightarrow> callbackStep E u (closeOwner (en_close E) (u\<lparr>su_callback := CbSignal\<rparr>))"
| callback_signals: "su_callback u = CbSignal \<Longrightarrow> callbackStep E u (u\<lparr>su_callbackDone := True, su_callback := CbFinished\<rparr>)"

text \<open>The caller's context, the timer of the setup context and the peer.\<close>

inductive outsideStep :: "'s setupEnv \<Rightarrow> 's negotiationSetup \<Rightarrow> 's negotiationSetup \<Rightarrow> bool" for E where
  context_done: "su_ctxErr u = None \<Longrightarrow> outsideStep E u (u\<lparr>su_ctxErr := Some e\<rparr>)"
| setup_canceled:
    "su_setupErr u = None \<Longrightarrow> su_ctxErr u = Some e \<Longrightarrow> outsideStep E u (u\<lparr>su_setupErr := Some e\<rparr>)"
| setup_timeout: "su_setupErr u = None \<Longrightarrow> outsideStep E u (u\<lparr>su_setupErr := Some ContextDeadlineExceeded\<rparr>)"
| peer: "en_peer E (co_stream (su_owner u)) s \<Longrightarrow> outsideStep E u (u\<lparr>su_owner := (su_owner u)\<lparr>co_stream := s\<rparr>\<rparr>)"

inductive setupStep :: "'s setupEnv \<Rightarrow> 's negotiationSetup \<Rightarrow> 's negotiationSetup \<Rightarrow> bool" for E where
  by_constructor: "constructorStep E u v \<Longrightarrow> setupStep E u v"
| by_callback: "callbackStep E u v \<Longrightarrow> setupStep E u v"
| by_outside: "outsideStep E u v \<Longrightarrow> setupStep E u v"

text \<open>The steps of the two goroutines the constructor started, without context, timer and peer.\<close>

definition ownSetup :: "'s setupEnv \<Rightarrow> 's negotiationSetup \<Rightarrow> 's negotiationSetup \<Rightarrow> bool" where
  "ownSetup E u v \<longleftrightarrow> constructorStep E u v \<or> callbackStep E u v"

lemma ownSetup_step: "ownSetup E u v \<Longrightarrow> setupStep E u v"
  by (auto simp: ownSetup_def intro: setupStep.intros)

text \<open>Case analysis over all steps.\<close>

lemma setup_induct [consumes 1, case_names run run_failed run_agreed fail_select stop join fail_close fail_cancel
    fail_result handed_off refused refused_close refused_cancel cancel construct construct_rejected rejected_close
    callback_starts callback_selects callback_closes callback_signals context_done setup_canceled setup_timeout peer]:
  assumes "setupStep E u v"
    and run: "\<And>u q q' s. su_at u = SuRun q \<Longrightarrow> negStep (en_read E) (en_write E) (en_role E)
        (en_exportID E) (en_importID E) q (co_stream (su_owner u)) = Some (q', s) \<Longrightarrow> P u
        (u\<lparr>su_owner := (su_owner u)\<lparr>co_stream := s\<rparr>, su_at := SuRun q'\<rparr>)"
    and run_failed: "\<And>u e. su_at u = SuRun (NegDone (Some e)) \<Longrightarrow> P u (u\<lparr>su_at := SuFail
        e\<rparr>)"
    and run_agreed: "\<And>u. su_at u = SuRun (NegDone None) \<Longrightarrow> P u (u\<lparr>su_at := SuStop
        StopRun\<rparr>)"
    and fail_select: "\<And>u e. su_at u = SuFail e \<Longrightarrow> P u (select e (u\<lparr>su_at := SuStop
        (StopFail e)\<rparr>))"
    and stop: "\<And>u k. su_at u = SuStop k \<Longrightarrow> P u (stopCallback k u)"
    and join: "\<And>u k. su_at u = SuJoin k \<Longrightarrow> su_callbackDone u \<Longrightarrow> P u (u\<lparr>su_at
        := afterStop k\<rparr>)"
    and fail_close: "\<And>u e. su_at u = SuFailClose e \<Longrightarrow> P u (closeOwner (en_close E) (u\<lparr>su_at
        := SuFailCancel e\<rparr>))"
    and fail_cancel: "\<And>u e. su_at u = SuFailCancel e \<Longrightarrow> P u (cancelSetup (u\<lparr>su_at :=
        SuFailResult e\<rparr>))"
    and fail_result: "\<And>u e. su_at u = SuFailResult e \<Longrightarrow> P u (u\<lparr>su_at := SuReturn (Inl (case
        so_err (su_outcome u) of Some x \<Rightarrow> x | None \<Rightarrow> e))\<rparr>)"
    and handed_off: "\<And>u out. su_at u = SuHandoff \<Longrightarrow> handoff (su_outcome u) = (None, out)
        \<Longrightarrow> P u (u\<lparr>su_outcome := out, su_at := SuCancel\<rparr>)"
    and refused: "\<And>u e out. su_at u = SuHandoff \<Longrightarrow> handoff (su_outcome u) = (Some e, out)
        \<Longrightarrow> P u (u\<lparr>su_outcome := out, su_at := SuRefusedClose e\<rparr>)"
    and refused_close: "\<And>u e. su_at u = SuRefusedClose e \<Longrightarrow> P u (closeOwner (en_close E)
        (u\<lparr>su_at := SuRefusedCancel e\<rparr>))"
    and refused_cancel: "\<And>u e. su_at u = SuRefusedCancel e \<Longrightarrow> P u (cancelSetup (u\<lparr>su_at :=
        SuReturn (Inl e)\<rparr>))"
    and cancel: "\<And>u. su_at u = SuCancel \<Longrightarrow> P u (cancelSetup (u\<lparr>su_at :=
        SuConstruct\<rparr>))"
    and construct: "\<And>u c. su_at u = SuConstruct \<Longrightarrow> newConnection (Some (su_ctxErr u)) True
        (en_export E) (en_imp E) = Inr c \<Longrightarrow> P u (u\<lparr>su_at := SuReturn (Inr c)\<rparr>)"
    and construct_rejected: "\<And>u e. su_at u = SuConstruct \<Longrightarrow> newConnection (Some (su_ctxErr u))
        True (en_export E) (en_imp E) = Inl e \<Longrightarrow> P u (u\<lparr>su_at := SuRejectedClose e\<rparr>)"
    and rejected_close: "\<And>u e. su_at u = SuRejectedClose e \<Longrightarrow> P u (closeOwner (en_close E)
        (u\<lparr>su_at := SuReturn (Inl e)\<rparr>))"
    and callback_starts: "\<And>u. su_callback u = CbIdle \<Longrightarrow> su_setupErr u \<noteq> None
        \<Longrightarrow> P u (u\<lparr>su_callback := CbSelect\<rparr>)"
    and callback_selects: "\<And>u. su_callback u = CbSelect \<Longrightarrow> P u (select (case su_setupErr u of Some
        e \<Rightarrow> e | None \<Rightarrow> ContextCanceled) (u\<lparr>su_callback := CbClose\<rparr>))"
    and callback_closes: "\<And>u. su_callback u = CbClose \<Longrightarrow> P u (closeOwner (en_close E)
        (u\<lparr>su_callback := CbSignal\<rparr>))"
    and callback_signals: "\<And>u. su_callback u = CbSignal \<Longrightarrow> P u (u\<lparr>su_callbackDone := True,
        su_callback := CbFinished\<rparr>)"
    and context_done: "\<And>u e. su_ctxErr u = None \<Longrightarrow> P u (u\<lparr>su_ctxErr := Some e\<rparr>)"
    and setup_canceled: "\<And>u e. su_setupErr u = None \<Longrightarrow> su_ctxErr u = Some e \<Longrightarrow> P u
        (u\<lparr>su_setupErr := Some e\<rparr>)"
    and setup_timeout: "\<And>u. su_setupErr u = None \<Longrightarrow> P u (u\<lparr>su_setupErr := Some
        ContextDeadlineExceeded\<rparr>)"
    and peer: "\<And>u s. en_peer E (co_stream (su_owner u)) s \<Longrightarrow> P u (u\<lparr>su_owner := (su_owner
        u)\<lparr>co_stream := s\<rparr>\<rparr>)"
  shows "P u v"
  using assms
proof cases
  case by_constructor
  then show ?thesis by cases (auto intro: run run_failed run_agreed fail_select stop join fail_close fail_cancel
      fail_result handed_off refused refused_close refused_cancel cancel construct construct_rejected rejected_close)
next
  case by_callback
  then show ?thesis by cases (auto intro: callback_starts callback_selects callback_closes callback_signals)
next
  case by_outside
  then show ?thesis by cases (auto intro: context_done setup_canceled setup_timeout peer)
qed

section \<open>The shared state never contradicts itself\<close>

lemma update_sel [simp]:
  "su_owner (closeOwner cl u) = snd (ownerClose cl (su_owner u))" "su_at (closeOwner cl u) = su_at u"
  "su_outcome (closeOwner cl u) = su_outcome u" "su_callback (closeOwner cl u) = su_callback u"
  "su_hasStop (closeOwner cl u) = su_hasStop u" "su_callbackDone (closeOwner cl u) = su_callbackDone u"
  "su_setupErr (closeOwner cl u) = su_setupErr u" "su_ctxErr (closeOwner cl u) = su_ctxErr u"
  "su_owner (cancelSetup u) = su_owner u" "su_at (cancelSetup u) = su_at u"
  "su_outcome (cancelSetup u) = su_outcome u" "su_callback (cancelSetup u) = su_callback u"
  "su_hasStop (cancelSetup u) = su_hasStop u" "su_callbackDone (cancelSetup u) = su_callbackDone u"
  "su_owner (select e u) = su_owner u" "su_at (select e u) = su_at u"
  "su_callback (select e u) = su_callback u" "su_setupErr (select e u) = su_setupErr u"
  "su_hasStop (select e u) = su_hasStop u" "su_callbackDone (select e u) = su_callbackDone u"
  by (simp_all add: closeOwner_def cancelSetup_def select_def)

lemma ownerClose_done [simp]: "co_done (snd (ownerClose cl o1))"
  by (auto simp: ownerClose_def split: prod.splits)

lemma select_outcome [simp]:
  "so_handedOff (su_outcome (select e u)) = so_handedOff (su_outcome u)"
  "so_err (su_outcome (select e u)) =
     (if so_err (su_outcome u) = None \<and> \<not> so_handedOff (su_outcome u) then Some e else so_err (su_outcome u))"
  by (simp_all add: select_def selectError_def)

text \<open>
  What holds at each point of the constructor: the error selected so far, whether the
  stream was handed off or closed, and that the callback is joined or stopped.
\<close>

definition joined :: "'s negotiationSetup \<Rightarrow> bool" where
  "joined u \<longleftrightarrow> \<not> su_hasStop u \<and> su_callback u \<in> {CbStopped, CbFinished}"

fun pointInv :: "setupPoint \<Rightarrow> 's negotiationSetup \<Rightarrow> bool" where
  "pointInv (SuRun q) u \<longleftrightarrow> su_hasStop u \<and> \<not> so_handedOff (su_outcome u)"
| "pointInv (SuFail e) u \<longleftrightarrow> su_hasStop u \<and> \<not> so_handedOff (su_outcome u)"
| "pointInv (SuStop k) u \<longleftrightarrow> su_hasStop u \<and> \<not> so_handedOff (su_outcome u)
     \<and> (k \<noteq> StopRun \<longrightarrow> so_err (su_outcome u) \<noteq> None)"
| "pointInv (SuJoin k) u \<longleftrightarrow> \<not> su_hasStop u \<and> \<not> so_handedOff (su_outcome u)
     \<and> su_callback u \<notin> {CbIdle, CbStopped} \<and> (k \<noteq> StopRun \<longrightarrow> so_err (su_outcome u) \<noteq> None)"
| "pointInv (SuFailClose e) u \<longleftrightarrow> joined u \<and> \<not> so_handedOff (su_outcome u) \<and> so_err (su_outcome u) \<noteq> None"
| "pointInv (SuFailCancel e) u \<longleftrightarrow> joined u \<and> \<not> so_handedOff (su_outcome u) \<and> so_err (su_outcome u) \<noteq> None
     \<and> co_done (su_owner u)"
| "pointInv (SuFailResult e) u \<longleftrightarrow> joined u \<and> \<not> so_handedOff (su_outcome u) \<and> so_err (su_outcome u) \<noteq> None
     \<and> co_done (su_owner u)"
| "pointInv SuHandoff u \<longleftrightarrow> joined u \<and> \<not> so_handedOff (su_outcome u)"
| "pointInv (SuRefusedClose e) u \<longleftrightarrow> joined u \<and> so_err (su_outcome u) = Some e \<and> \<not> so_handedOff (su_outcome u)"
| "pointInv (SuRefusedCancel e) u \<longleftrightarrow> joined u \<and> so_err (su_outcome u) = Some e \<and> \<not> so_handedOff (su_outcome u)
     \<and> co_done (su_owner u)"
| "pointInv SuCancel u \<longleftrightarrow> joined u \<and> so_handedOff (su_outcome u) \<and> \<not> co_done (su_owner u)"
| "pointInv SuConstruct u \<longleftrightarrow> joined u \<and> so_handedOff (su_outcome u) \<and> \<not> co_done (su_owner u)"
| "pointInv (SuRejectedClose e) u \<longleftrightarrow> joined u \<and> so_handedOff (su_outcome u) \<and> su_ctxErr u = Some e"
| "pointInv (SuReturn (Inr c)) u \<longleftrightarrow> joined u \<and> so_handedOff (su_outcome u) \<and> \<not> co_done (su_owner u)"
| "pointInv (SuReturn (Inl e)) u \<longleftrightarrow> joined u \<and> co_done (su_owner u)
     \<and> (if so_handedOff (su_outcome u) then su_ctxErr u = Some e else so_err (su_outcome u) = Some e)"

definition callbackInv :: "'s negotiationSetup \<Rightarrow> bool" where
  "callbackInv u \<longleftrightarrow>
     (su_callbackDone u \<longleftrightarrow> su_callback u = CbFinished)
   \<and> (su_hasStop u \<longrightarrow> su_callback u \<noteq> CbStopped)
   \<and> (su_callback u \<in> {CbClose, CbSignal, CbFinished} \<longrightarrow> so_err (su_outcome u) \<noteq> None)
   \<and> (su_callback u \<in> {CbSignal, CbFinished} \<longrightarrow> co_done (su_owner u))
   \<and> (so_handedOff (su_outcome u) \<longrightarrow> so_err (su_outcome u) = None)
   \<and> (co_done (su_owner u) \<longrightarrow> su_callback u \<in> {CbSignal, CbFinished}
        \<or> (\<exists>e. su_at u \<in> {SuFailCancel e, SuFailResult e, SuRefusedCancel e, SuReturn (Inl e)}))"

definition setupInv :: "'s negotiationSetup \<Rightarrow> bool" where
  "setupInv u \<longleftrightarrow> pointInv (su_at u) u \<and> callbackInv u"

lemma handoff_cases:
  "handoff out = (None, out') \<longleftrightarrow> so_err out = None \<and> out' = out\<lparr>so_handedOff := True\<rparr>"
  "handoff out = (Some e, out') \<longleftrightarrow> so_err out = Some e \<and> out' = out"
  by (auto simp: handoff_def)

lemma newConnection_rejects:
  "newConnection (Some ce) True ex im = Inl e \<Longrightarrow> ex \<noteq> ExportBinding None \<Longrightarrow> im \<noteq> ImportBinding None \<Longrightarrow> ce = Some e"
  by (auto simp: newConnection_def split: option.splits)

text \<open>The handles were validated before the setup began; an interface ID is an array of 32 bytes.\<close>

definition wfEnv :: "'s setupEnv \<Rightarrow> bool" where
  "wfEnv E \<longleftrightarrow> en_export E \<noteq> ExportBinding None \<and> en_imp E \<noteq> ImportBinding None
     \<and> length (en_importID E) = 32"

text \<open>While the callback is neither stopped nor finished, the constructor is still at one of four points.\<close>

lemma running_callback:
  assumes "setupInv u" "su_callback u \<notin> {CbStopped, CbFinished}"
  obtains (atRun) q where "su_at u = SuRun q" | (atFail) e where "su_at u = SuFail e"
  | (atStop) k where "su_at u = SuStop k" | (atJoin) k where "su_at u = SuJoin k"
proof (cases "su_at u")
  case (SuReturn r)
  with assms show ?thesis by (cases r) (auto simp: setupInv_def joined_def)
qed (use assms that in \<open>auto simp: setupInv_def joined_def\<close>)

lemma pointInv_cong:
  assumes "su_hasStop u' = su_hasStop u" "su_callback u' = su_callback u" "su_outcome u' = su_outcome u"
    "co_done (su_owner u') = co_done (su_owner u)" "su_ctxErr u = None \<or> su_ctxErr u' = su_ctxErr u"
    and "pointInv a u"
  shows "pointInv a u'"
proof (cases a)
  case (SuReturn r)
  with assms show ?thesis by (cases r) (auto simp: joined_def)
qed (use assms in \<open>auto simp: joined_def\<close>)

lemma setupInv_cong:
  assumes "su_hasStop u' = su_hasStop u" "su_callback u' = su_callback u" "su_outcome u' = su_outcome u"
    "co_done (su_owner u') = co_done (su_owner u)" "su_ctxErr u = None \<or> su_ctxErr u' = su_ctxErr u"
    "su_callbackDone u' = su_callbackDone u" "su_at u' = su_at u" "setupInv u"
  shows "setupInv u'"
  using assms pointInv_cong [of u' u "su_at u"] by (simp add: setupInv_def callbackInv_def)

lemma callbackInv_at:
  assumes "callbackInv u" "co_done (su_owner u) \<longrightarrow> su_callback u \<in> {CbSignal, CbFinished}"
  shows "callbackInv (u\<lparr>su_at := a\<rparr>)"
  using assms by (simp add: callbackInv_def)

lemmas inv_defs = setupInv_def callbackInv_def joined_def

lemma setupInv_callback:
  assumes inv: "setupInv u"
  shows "su_callback u = CbIdle \<Longrightarrow> setupInv (u\<lparr>su_callback := CbSelect\<rparr>)"
    and "su_callback u = CbSelect \<Longrightarrow> setupInv (select e (u\<lparr>su_callback := CbClose\<rparr>))"
    and "su_callback u = CbClose \<Longrightarrow> setupInv (closeOwner cl (u\<lparr>su_callback := CbSignal\<rparr>))"
    and "su_callback u = CbSignal \<Longrightarrow> setupInv (u\<lparr>su_callbackDone := True, su_callback := CbFinished\<rparr>)"
proof -
  show "setupInv (u\<lparr>su_callback := CbSelect\<rparr>)" if cb: "su_callback u = CbIdle"
    by (rule running_callback [OF inv]) (use cb inv in \<open>auto simp: inv_defs\<close>)
  show "setupInv (select e (u\<lparr>su_callback := CbClose\<rparr>))" if cb: "su_callback u = CbSelect"
    by (rule running_callback [OF inv]) (use cb inv in \<open>auto simp: inv_defs\<close>)
  show "setupInv (closeOwner cl (u\<lparr>su_callback := CbSignal\<rparr>))" if cb: "su_callback u = CbClose"
    by (rule running_callback [OF inv]) (use cb inv in \<open>auto simp: inv_defs\<close>)
  show "setupInv (u\<lparr>su_callbackDone := True, su_callback := CbFinished\<rparr>)" if cb: "su_callback u = CbSignal"
    by (rule running_callback [OF inv]) (use cb inv in \<open>auto simp: inv_defs\<close>)
qed

lemma setupInv_step: "setupStep E u u' \<Longrightarrow> wfEnv E \<Longrightarrow> setupInv u \<Longrightarrow> setupInv u'"
proof (induction rule: setup_induct)
  case (join u k)
  then show ?case by (cases k) (auto simp: inv_defs afterStop_def)
next
  case (stop u k)
  then show ?case by (cases k) (auto simp: inv_defs afterStop_def stopCallback_def)
next
  case (context_done u e)
  then show ?case by - (rule setupInv_cong [of _ u], simp_all)
next
  case (setup_canceled u e)
  then show ?case by - (rule setupInv_cong [of _ u], simp_all)
next
  case (setup_timeout u)
  then show ?case by - (rule setupInv_cong [of _ u], simp_all)
next
  case (peer u s)
  then show ?case by - (rule setupInv_cong [of _ u], simp_all)
next
  case (handed_off u out)
  then show ?case by (auto simp: inv_defs handoff_cases)
next
  case (refused u e out)
  then show ?case by (auto simp: inv_defs handoff_cases)
next
  case (construct_rejected u e)
  then show ?case by (auto simp: inv_defs wfEnv_def dest: newConnection_rejects)
qed (simp_all add: setupInv_callback, (simp add: inv_defs; fail | auto simp: inv_defs)+)

section \<open>The contract of the stream\<close>

text \<open>
  \<open>closes\<close> counts the calls of \<open>Close\<close> on the underlying stream. Reads and writes
  return once the stream was closed, whatever the peer does.
\<close>

definition ownerInv :: "('s \<Rightarrow> nat) \<Rightarrow> 's closeOnceStream \<Rightarrow> bool" where
  "ownerInv closes o1 \<longleftrightarrow> closes (co_stream o1) = (if co_done o1 then 1 else 0)"

fun pointWork :: "negotiationRole \<Rightarrow> setupPoint \<Rightarrow> nat" where
  "pointWork role (SuRun q) = negWork role q + 10"
| "pointWork role (SuFail e) = 9"
| "pointWork role (SuStop k) = 8"
| "pointWork role (SuJoin k) = 7"
| "pointWork role (SuFailClose e) = 6"
| "pointWork role (SuFailCancel e) = 5"
| "pointWork role (SuFailResult e) = 4"
| "pointWork role SuHandoff = 6"
| "pointWork role (SuRefusedClose e) = 5"
| "pointWork role (SuRefusedCancel e) = 4"
| "pointWork role SuCancel = 5"
| "pointWork role SuConstruct = 4"
| "pointWork role (SuRejectedClose e) = 3"
| "pointWork role (SuReturn r) = 0"

fun callbackWork :: "callbackPoint \<Rightarrow> nat" where
  "callbackWork CbIdle = 5" | "callbackWork CbSelect = 4" | "callbackWork CbClose = 3"
| "callbackWork CbSignal = 2" | "callbackWork CbFinished = 1" | "callbackWork CbStopped = 0"

definition setupWork :: "negotiationRole \<Rightarrow> 's negotiationSetup \<Rightarrow> nat" where
  "setupWork role u = pointWork role (su_at u) + callbackWork (su_callback u)"

lemma own_work: "ownSetup E u v \<Longrightarrow> wfEnv E \<Longrightarrow> setupWork (en_role E) v < setupWork (en_role E) u"
  unfolding ownSetup_def
proof (elim disjE)
  assume wf: "wfEnv E"
  show "setupWork (en_role E) v < setupWork (en_role E) u" if "constructorStep E u v"
    using that
  proof cases
    case (run q q' s)
    with negStep_work [OF run(3)] wf show ?thesis by (simp add: setupWork_def wfEnv_def)
  next
    case (stop k)
    then show ?thesis by (cases k) (simp_all add: setupWork_def stopCallback_def afterStop_def)
  next
    case (join k)
    then show ?thesis by (cases k) (simp_all add: setupWork_def afterStop_def)
  qed (simp_all add: setupWork_def)
  show "setupWork (en_role E) v < setupWork (en_role E) u" if "callbackStep E u v"
    using that by cases (simp_all add: setupWork_def)
qed

lemma outside_work: "outsideStep E u v \<Longrightarrow> setupWork role v = setupWork role u"
  by (induction rule: outsideStep.induct) (simp_all add: setupWork_def)

lemma setupErr_kept: "setupStep E u v \<Longrightarrow> su_setupErr u \<noteq> None \<Longrightarrow> su_setupErr v = su_setupErr u"
  by (induction rule: setup_induct) (auto simp: stopCallback_def cancelSetup_def)

lemma step_work:
  assumes "setupStep E u v" "wfEnv E"
  shows "ownSetup E u v \<and> setupWork (en_role E) v < setupWork (en_role E) u
    \<or> outsideStep E u v \<and> setupWork (en_role E) v = setupWork (en_role E) u"
  using assms(1)
proof cases
  case by_outside
  with outside_work show ?thesis by blast
qed (use own_work [OF _ assms(2)] in \<open>auto simp: ownSetup_def\<close>)

lemma reachable_work: "(setupStep E)\<^sup>*\<^sup>* u v \<Longrightarrow> wfEnv E \<Longrightarrow> setupWork (en_role E) v \<le> setupWork (en_role E) u"
  by (induction rule: rtranclp_induct) (use step_work in \<open>fastforce+\<close>)

locale setup_stream =
  fixes E :: "'s setupEnv" and closes :: "'s \<Rightarrow> nat" and good :: "'s \<Rightarrow> bool"
  assumes read_keeps: "good s \<Longrightarrow> en_read E s n = Some (bs, k, e, s') \<Longrightarrow> closes s' = closes s \<and> good s'"
    and write_keeps: "good s \<Longrightarrow> en_write E s b = Some (k, e, s') \<Longrightarrow> closes s' = closes s \<and> good s'"
    and peer_keeps: "good s \<Longrightarrow> en_peer E s s' \<Longrightarrow> closes s' = closes s \<and> good s'"
    and close_counts: "good s \<Longrightarrow> en_close E s = (e, s') \<Longrightarrow> closes s' = Suc (closes s) \<and> good s'"
    and closed_read: "good s \<Longrightarrow> 0 < closes s \<Longrightarrow> en_read E s n \<noteq> None"
    and closed_write: "good s \<Longrightarrow> 0 < closes s \<Longrightarrow> en_write E s b \<noteq> None"
begin

lemma call_keeps:
  "good s \<Longrightarrow> negStep (en_read E) (en_write E) role ex im q s = Some (q', s') \<Longrightarrow> closes s' = closes s \<and> good s'"
  by (cases q) (auto simp: negStep.simps dest: read_keeps write_keeps split: option.splits if_splits)

lemma close_keeps:
  "ownerInv closes o1 \<Longrightarrow> good (co_stream o1) \<Longrightarrow>
   ownerInv closes (snd (ownerClose (en_close E) o1)) \<and> good (co_stream (snd (ownerClose (en_close E) o1)))"
  by (auto simp: ownerInv_def ownerClose_def dest: close_counts split: prod.splits)

lemma owner_step:
  "setupStep E u u' \<Longrightarrow> ownerInv closes (su_owner u) \<Longrightarrow> good (co_stream (su_owner u)) \<Longrightarrow>
   ownerInv closes (su_owner u') \<and> good (co_stream (su_owner u'))"
proof (induction rule: setup_induct)
  case (run u q q' s)
  then show ?case using call_keeps [OF run(4,2)] by (simp add: ownerInv_def)
next
  case (peer u s)
  then show ?case using peer_keeps by (fastforce simp: ownerInv_def)
qed (simp_all add: close_keeps stopCallback_def)

lemma reachable_inv:
  assumes "(setupStep E)\<^sup>*\<^sup>* u u'" and wf: "wfEnv E" and "setupInv u" "ownerInv closes (su_owner u)" "good (co_stream (su_owner u))"
  shows "setupInv u' \<and> ownerInv closes (su_owner u') \<and> good (co_stream (su_owner u'))"
  using assms(1,3-)
  by (induction rule: rtranclp_induct) (auto dest: owner_step setupInv_step [OF _ wf])

text \<open>An exchange whose stream was closed never blocks.\<close>

lemma closed_call:
  assumes "good s" "0 < closes s" "\<forall>r. q \<noteq> NegDone r"
  shows "\<exists>q' s'. negStep (en_read E) (en_write E) role ex im q s = Some (q', s')"
proof (cases q)
  case (NegWrite b n)
  with closed_write [OF assms(1,2), of b] show ?thesis by (auto simp: negStep.simps)
next
  case (NegRead a n)
  with closed_read [OF assms(1,2), of "length a - n"] show ?thesis by (auto simp: negStep.simps)
qed (use assms(3) in simp)

text \<open>Once the setup context is done, one of the two goroutines can step until the constructor returned.\<close>

lemma callback_progress:
  assumes "su_callback u \<notin> {CbStopped, CbFinished}" "su_setupErr u \<noteq> None"
  shows "\<exists>v. ownSetup E u v"
  using assms by (cases "su_callback u") (auto simp: ownSetup_def intro: callbackStep.intros)

text \<open>
  An exchange that is not over: its stream call returns when the stream was closed, and the
  callback has not finished before that.
\<close>

lemma blocked_progress:
  assumes inv: "setupInv u" "ownerInv closes (su_owner u)" "good (co_stream (su_owner u))"
    and ctx: "su_setupErr u \<noteq> None" and at: "su_at u = SuRun q" and moving: "\<forall>r. q \<noteq> NegDone r"
  shows "\<exists>v. ownSetup E u v"
proof (cases "co_done (su_owner u)")
  case True
  with inv have "0 < closes (co_stream (su_owner u))" by (simp add: ownerInv_def)
  from closed_call [OF inv(3) this moving] obtain q' s' where
    "negStep (en_read E) (en_write E) (en_role E) (en_exportID E) (en_importID E) q (co_stream (su_owner u)) = Some (q', s')"
    by blast
  from run [OF at this] show ?thesis by (auto simp: ownSetup_def)
next
  case False
  with inv(1) at have "su_callback u \<notin> {CbStopped, CbFinished}"
    by (auto simp: setupInv_def callbackInv_def)
  then show ?thesis by (rule callback_progress [OF _ ctx])
qed

lemma run_progress:
  assumes inv: "setupInv u" "ownerInv closes (su_owner u)" "good (co_stream (su_owner u))"
    and ctx: "su_setupErr u \<noteq> None" and at: "su_at u = SuRun q"
  shows "\<exists>v. ownSetup E u v"
proof (cases q)
  case (NegDone r)
  with at show ?thesis by (cases r) (auto simp: ownSetup_def intro: run_failed run_agreed)
next
  case other: (NegWrite b n)
  then have moving: "\<forall>r. q \<noteq> NegDone r" by simp
  show ?thesis
    by (rule blocked_progress [OF inv ctx at moving])
next
  case other: (NegRead b n)
  then have moving: "\<forall>r. q \<noteq> NegDone r" by simp
  show ?thesis
    by (rule blocked_progress [OF inv ctx at moving])
qed

lemma setup_progress:
  assumes inv: "setupInv u" "ownerInv closes (su_owner u)" "good (co_stream (su_owner u))"
    and ctx: "su_setupErr u \<noteq> None"
  shows "(\<exists>r. su_at u = SuReturn r) \<or> (\<exists>v. ownSetup E u v)"
proof (cases "su_at u")
  case (SuRun q)
  with run_progress [OF inv ctx] show ?thesis by blast
next
  case (SuJoin k)
  show ?thesis
  proof (cases "su_callbackDone u")
    case True
    with SuJoin show ?thesis by (auto simp: ownSetup_def intro: join)
  next
    case False
    with inv(1) SuJoin have "su_callback u \<notin> {CbStopped, CbFinished}"
      by (auto simp: setupInv_def callbackInv_def)
    from callback_progress [OF this ctx] show ?thesis ..
  qed
next
  case SuHandoff
  then show ?thesis
    by (cases "handoff (su_outcome u)"; cases "fst (handoff (su_outcome u))") (auto simp: ownSetup_def intro: handed_off refused)
next
  case SuConstruct
  then show ?thesis
    by (cases "newConnection (Some (su_ctxErr u)) True (en_export E) (en_imp E)")
       (auto simp: ownSetup_def intro: construct construct_rejected)
qed (auto simp: ownSetup_def intro: fail_select stop fail_close fail_cancel fail_result refused_close refused_cancel cancel
     rejected_close)

text \<open>Their steps alone, from a state whose setup context is done.\<close>

lemma own_run:
  assumes "(ownSetup E ^^ k) u v" and wf: "wfEnv E"
    and "setupInv u" "ownerInv closes (su_owner u)" "good (co_stream (su_owner u))" "su_setupErr u \<noteq> None"
  shows "k + setupWork (en_role E) v \<le> setupWork (en_role E) u
    \<and> setupInv v \<and> ownerInv closes (su_owner v) \<and> good (co_stream (su_owner v)) \<and> su_setupErr v \<noteq> None"
  using assms(1)
proof (induction k arbitrary: v)
  case 0
  with assms show ?case by simp
next
  case (Suc k)
  then obtain w where w: "(ownSetup E ^^ k) u w" and st: "ownSetup E w v" by auto
  note IH = Suc.IH [OF w]
  from own_work [OF st wf] ownSetup_step [OF st] setupInv_step [OF _ wf] owner_step setupErr_kept IH
  show ?case by fastforce
qed

lemma own_progress:
  assumes "(ownSetup E ^^ k) u v" and wf: "wfEnv E"
    and "setupInv u" "ownerInv closes (su_owner u)" "good (co_stream (su_owner u))" "su_setupErr u \<noteq> None"
  shows "k \<le> setupWork (en_role E) u \<and> ((\<exists>r. su_at v = SuReturn r) \<or> (\<exists>v'. ownSetup E v v'))"
  using own_run [OF assms] setup_progress [of v] by simp

lemma own_returns:
  assumes wf: "wfEnv E"
    and "setupInv u" "ownerInv closes (su_owner u)" "good (co_stream (su_owner u))" "su_setupErr u \<noteq> None"
  shows "\<exists>v r. (setupStep E)\<^sup>*\<^sup>* u v \<and> su_at v = SuReturn r"
proof (rule ccontr)
  assume never: "\<not> ?thesis"
  have "\<exists>v. (ownSetup E ^^ k) u v \<and> (setupStep E)\<^sup>*\<^sup>* u v" for k
  proof (induction k)
    case (Suc k)
    then obtain v where v: "(ownSetup E ^^ k) u v" "(setupStep E)\<^sup>*\<^sup>* u v" by blast
    with own_progress [OF v(1) assms] never obtain w where "ownSetup E v w" by blast
    with v ownSetup_step [of E v w] show ?case by (meson relpowp_Suc_I rtranclp.rtrancl_into_rtrancl)
  qed auto
  then obtain v where "(ownSetup E ^^ Suc (setupWork (en_role E) u)) u v" by blast
  from own_progress [OF this assms] show False by simp
qed

end

section \<open>Setup over the duplex stream\<close>

text \<open>
  The duplex end with a count of its \<open>Close\<close> calls; the peer writes, reads and closes at
  the other end as it likes.
\<close>

definition duplexPeer :: "duplex \<Rightarrow> duplex \<Rightarrow> bool" where
  "duplexPeer d d' \<longleftrightarrow>
     (\<exists>b k e x. duplex_write (otherEnd d) b = Some (k, e, x) \<and> d' = otherEnd x)
   \<or> (\<exists>n bs k e x. duplex_read (otherEnd d) n = Some (bs, k, e, x) \<and> d' = otherEnd x)
   \<or> d' = otherEnd (snd (duplex_close (otherEnd d)))"

definition duplexEnv ::
  "negotiationRole \<Rightarrow> InterfaceID \<Rightarrow> InterfaceID \<Rightarrow> ExportBinding \<Rightarrow> ImportBinding \<Rightarrow> (duplex \<times> nat) setupEnv" where
  "duplexEnv role exportID importID export imp =
     \<lparr>en_read = (\<lambda>(d, n) k. map_option (\<lambda>(bs, c, e, d'). (bs, c, e, (d', n))) (duplex_read d k)),
      en_write = (\<lambda>(d, n) b. map_option (\<lambda>(c, e, d'). (c, e, (d', n))) (duplex_write d b)),
      en_close = (\<lambda>(d, n). (fst (duplex_close d), (snd (duplex_close d), Suc n))),
      en_peer = (\<lambda>(d, n) (d', n'). n' = n \<and> duplexPeer d d'),
      en_role = role, en_exportID = exportID, en_importID = importID, en_export = export, en_imp = imp\<rparr>"

definition duplexGood :: "duplex \<times> nat \<Rightarrow> bool" where
  "duplexGood s \<longleftrightarrow> (0 < snd s \<longrightarrow> bp_closed (dx_local (fst s)))"

lemma duplexEnv_sel [simp]:
  "en_role (duplexEnv role ex im e i) = role" "en_exportID (duplexEnv role ex im e i) = ex"
  "en_importID (duplexEnv role ex im e i) = im" "en_export (duplexEnv role ex im e i) = e"
  "en_imp (duplexEnv role ex im e i) = i"
  "en_read (duplexEnv role ex im e i) = (\<lambda>(d, n) k. map_option (\<lambda>(bs, c, e, d'). (bs, c, e, (d', n))) (duplex_read d k))"
  "en_write (duplexEnv role ex im e i) = (\<lambda>(d, n) b. map_option (\<lambda>(c, e, d'). (c, e, (d', n))) (duplex_write d b))"
  "en_close (duplexEnv role ex im e i) = (\<lambda>(d, n). (fst (duplex_close d), (snd (duplex_close d), Suc n)))"
  "en_peer (duplexEnv role ex im e i) = (\<lambda>(d, n) (d', n'). n' = n \<and> duplexPeer d d')"
  by (simp_all add: duplexEnv_def)

lemma duplex_closed:
  "duplex_read d k = Some (bs, c, e, d') \<Longrightarrow> bp_closed (dx_local d') = bp_closed (dx_local d)"
  "duplex_write d b = Some (c, e, d') \<Longrightarrow> bp_closed (dx_local d') = bp_closed (dx_local d)"
  "bp_closed (dx_local (snd (duplex_close d)))"
  "bp_closed (dx_local d) \<Longrightarrow> duplex_read d k \<noteq> None" "duplex_write d b \<noteq> None"
  by (auto simp: duplex_read_def duplex_write_def duplex_close_def closeWith_def pipe_read_def pipe_write_def
      split: if_splits)

lemma duplexPeer_closed: "duplexPeer d d' \<Longrightarrow> bp_closed (dx_local d) \<Longrightarrow> bp_closed (dx_local d')"
  by (auto simp: duplexPeer_def duplex_read_def duplex_write_def duplex_close_def closeWith_def pipe_read_def
      pipe_write_def otherEnd_def split: if_splits)

interpretation duplexSetup: setup_stream "duplexEnv role exportID importID export imp" snd duplexGood
  for role exportID importID export imp
proof
  fix s s' :: "duplex \<times> nat" and n b bs k e
  assume good: "duplexGood s"
  obtain d m where s: "s = (d, m)" by force
  let ?E = "duplexEnv role exportID importID export imp"
  show "snd s' = snd s \<and> duplexGood s'" if "en_read ?E s n = Some (bs, k, e, s')"
    using that good duplex_closed(1) [of d n] by (auto simp: s duplexGood_def)
  show "snd s' = snd s \<and> duplexGood s'" if "en_write ?E s b = Some (k, e, s')"
    using that good duplex_closed(2) [of d b] by (auto simp: s duplexGood_def)
  show "snd s' = snd s \<and> duplexGood s'" if "en_peer ?E s s'"
    using that good duplexPeer_closed by (auto simp: s duplexGood_def)
  show "snd s' = Suc (snd s) \<and> duplexGood s'" if "en_close ?E s = (e, s')"
    using that duplex_closed(3) by (auto simp: s duplexGood_def)
  show "en_read ?E s n \<noteq> None" if "0 < snd s"
    using that good duplex_closed(4) [of d n] by (simp add: s duplexGood_def)
  show "en_write ?E s b \<noteq> None" if "0 < snd s"
    using duplex_closed(5) [of d b] by (simp add: s)
qed

lemma newNegotiatedConnection_start:
  assumes "newNegotiatedConnection st ctx (Some s) export imp role = Inr (exportID, importID, u)"
  shows "export \<noteq> ExportBinding None \<and> imp \<noteq> ImportBinding None \<and> setupInv u
    \<and> su_owner u = \<lparr>co_stream = s, co_done = False, co_err = None\<rparr>
    \<and> su_callback u = CbIdle \<and> su_at u = SuRun (negStart role importID)"
  using assms
  by (auto simp: newNegotiatedConnection_def validateNegotiatedArguments_def setupInv_def callbackInv_def
      split: if_splits option.splits prod.splits sum.splits)

text \<open>What every reachable state of a setup over the duplex stream satisfies.\<close>

lemma duplex_setup:
  assumes "newNegotiatedConnection st ctx (Some (d, 0)) export imp role = Inr (exportID, importID, u0)"
    and "length importID = 32"
    and "(setupStep (duplexEnv role exportID importID export imp))\<^sup>*\<^sup>* u0 u"
  shows "wfEnv (duplexEnv role exportID importID export imp)" and "setupInv u"
    and "ownerInv snd (su_owner u)" and "duplexGood (co_stream (su_owner u))"
proof -
  note start = newNegotiatedConnection_start [OF assms(1)]
  show wf: "wfEnv (duplexEnv role exportID importID export imp)"
    using start assms(2) by (simp add: wfEnv_def)
  have "setupInv u \<and> ownerInv snd (su_owner u) \<and> duplexGood (co_stream (su_owner u))"
    by (rule duplexSetup.reachable_inv [OF assms(3) wf])
       (use start in \<open>auto simp: ownerInv_def duplexGood_def\<close>)
  then show "setupInv u" "ownerInv snd (su_owner u)" "duplexGood (co_stream (su_owner u))" by auto
qed

lemma first_error_step:
  assumes "setupStep E u v" "so_err (su_outcome u) = Some e"
  shows "so_err (su_outcome v) = Some e"
  using assms by (induction rule: setup_induct) (auto simp: handoff_cases stopCallback_def)

lemma first_error_steps:
  "(setupStep E)\<^sup>*\<^sup>* u v \<Longrightarrow> so_err (su_outcome u) = Some e \<Longrightarrow> so_err (su_outcome v) = Some e"
  by (induction rule: rtranclp_induct) (auto intro: first_error_step)

lemma returned_inv:
  "setupInv u \<Longrightarrow> su_at u = SuReturn (Inl e) \<Longrightarrow> co_done (su_owner u)"
  "setupInv u \<Longrightarrow> su_at u = SuReturn (Inr c) \<Longrightarrow>
     \<not> co_done (su_owner u) \<and> su_callback u = CbStopped \<and> so_err (su_outcome u) = None \<and> so_handedOff (su_outcome u)"
  "setupInv u \<Longrightarrow> su_at u = SuReturn (Inl e') \<Longrightarrow> so_err (su_outcome u) = Some e \<Longrightarrow> e' = e"
  by (auto simp: setupInv_def callbackInv_def joined_def split: if_splits)

section \<open>A server whose client stays silent\<close>

definition sampleStore :: "unit store" where
  "sampleStore =
     \<lparr>st_exports = [\<lparr>es_dispatch = emptyExportDispatch, es_interfaceID = emptyInterfaceID, es_hasInterfaceID = True\<rparr>],
      st_imports = [\<lparr>is_interfaceID = emptyInterfaceID, is_hasInterfaceID = True\<rparr>]\<rparr>"

definition sampleSetup :: "(duplex \<times> nat) negotiationSetup" where
  "sampleSetup =
     \<lparr>su_owner = \<lparr>co_stream = (fst newDuplex, 0), co_done = False, co_err = None\<rparr>,
      su_outcome = \<lparr>so_err = None, so_handedOff = False\<rparr>,
      su_ctxErr = None, su_setupErr = None, su_hasStop = True, su_callbackDone = False,
      su_callback = CbIdle, su_at = SuRun (negStart negotiationServer emptyInterfaceID)\<rparr>"

abbreviation sampleEnv :: "(duplex \<times> nat) setupEnv" where
  "sampleEnv \<equiv> duplexEnv negotiationServer emptyInterfaceID emptyInterfaceID
     (ExportBinding (Some 0)) (ImportBinding (Some 0))"

lemma sample_start:
  "newNegotiatedConnection sampleStore (Some None) (Some (fst newDuplex, 0)) (ExportBinding (Some 0))
     (ImportBinding (Some 0)) negotiationServer = Inr (emptyInterfaceID, emptyInterfaceID, sampleSetup)"
  by (simp add: newNegotiatedConnection_def validateNegotiatedArguments_def sampleStore_def sampleSetup_def)

lemma sample_id: "length emptyInterfaceID = 32"
  by (simp add: emptyInterfaceID_def)

text \<open>The timer fires and the callback selects its error while the server still waits.\<close>

lemma sample_timeout:
  "\<exists>u. (setupStep sampleEnv)\<^sup>*\<^sup>* sampleSetup u \<and> su_setupErr u \<noteq> None
     \<and> so_err (su_outcome u) = Some ContextDeadlineExceeded"
proof -
  let ?u1 = "sampleSetup\<lparr>su_setupErr := Some ContextDeadlineExceeded\<rparr>"
  let ?u2 = "?u1\<lparr>su_callback := CbSelect\<rparr>"
  have "setupStep sampleEnv sampleSetup ?u1" by (rule by_outside [OF setup_timeout]) (simp add: sampleSetup_def)
  moreover have "setupStep sampleEnv ?u1 ?u2" by (rule by_callback [OF callback_starts]) (simp_all add: sampleSetup_def)
  moreover have "setupStep sampleEnv ?u2 (select ContextDeadlineExceeded (?u2\<lparr>su_callback := CbClose\<rparr>))"
    using by_callback [OF callback_selects [of ?u2 sampleEnv]] by simp
  ultimately have "(setupStep sampleEnv)\<^sup>*\<^sup>* sampleSetup (select ContextDeadlineExceeded (?u2\<lparr>su_callback := CbClose\<rparr>))"
    by (meson converse_rtranclp_into_rtranclp rtranclp.rtrancl_refl)
  then show ?thesis
    by (intro exI [of _ "select ContextDeadlineExceeded (?u2\<lparr>su_callback := CbClose\<rparr>)"])
       (simp add: sampleSetup_def)
qed

lemma sample_returns:
  "\<exists>u v e. (setupStep sampleEnv)\<^sup>*\<^sup>* sampleSetup u \<and> so_err (su_outcome u) = Some ContextDeadlineExceeded
     \<and> (setupStep sampleEnv)\<^sup>*\<^sup>* u v \<and> (setupStep sampleEnv)\<^sup>*\<^sup>* sampleSetup v \<and> su_at v = SuReturn (Inl e)"
proof -
  from sample_timeout obtain u where u: "(setupStep sampleEnv)\<^sup>*\<^sup>* sampleSetup u" "su_setupErr u \<noteq> None"
    "so_err (su_outcome u) = Some ContextDeadlineExceeded" by blast
  note inv = duplex_setup [OF sample_start sample_id]
  from duplexSetup.own_returns [OF inv [OF u(1)] u(2)]
  obtain v r where v: "(setupStep sampleEnv)\<^sup>*\<^sup>* u v" "su_at v = SuReturn r" by blast
  from u(1) v(1) have reach: "(setupStep sampleEnv)\<^sup>*\<^sup>* sampleSetup v" by (rule rtranclp_trans)
  from first_error_steps [OF v(1) u(3)] returned_inv(2) [OF inv(2) [OF reach]] v reach u
  show ?thesis by (cases r) auto
qed

section \<open>Properties\<close>

text \<open>
  C20. Ownership of the stream: in every interleaving of setup, callback, context, timer
  and peer the underlying stream is closed at most once; when the constructor returns an
  error it has been closed exactly once, and when it returns a connection it has not been
  closed, the callback was stopped before it could run and no error was selected.
\<close>

theorem setup_ownership:
  assumes "newNegotiatedConnection st ctx (Some (d, 0)) export imp role = Inr (exportID, importID, u0)"
    and "length importID = 32"
    and "(setupStep (duplexEnv role exportID importID export imp))\<^sup>*\<^sup>* u0 u"
  shows "snd (co_stream (su_owner u)) \<le> 1
    \<and> (\<forall>e. su_at u = SuReturn (Inl e) \<longrightarrow> snd (co_stream (su_owner u)) = 1)
    \<and> (\<forall>c. su_at u = SuReturn (Inr c) \<longrightarrow> snd (co_stream (su_owner u)) = 0
          \<and> su_callback u = CbStopped \<and> so_err (su_outcome u) = None \<and> so_handedOff (su_outcome u))"
  using duplex_setup(3) [OF assms] returned_inv(1,2) [OF duplex_setup(2) [OF assms]]
  by (simp add: ownerInv_def)

theorem setup_ownership_witness:
  "\<exists>u e. (setupStep sampleEnv)\<^sup>*\<^sup>* sampleSetup u \<and> su_at u = SuReturn (Inl e) \<and> snd (co_stream (su_owner u)) = 1"
  using sample_returns setup_ownership [OF sample_start sample_id] by blast

text \<open>
  The first setup error is permanent: once an error is selected (by the exchange or
  by the cancellation callback) no later step replaces it, no connection is handed out, and
  the constructor can only return exactly that error.
\<close>

theorem setup_first_error:
  assumes "newNegotiatedConnection st ctx (Some (d, 0)) export imp role = Inr (exportID, importID, u0)"
    and "length importID = 32"
    and "(setupStep (duplexEnv role exportID importID export imp))\<^sup>*\<^sup>* u0 u"
    and "so_err (su_outcome u) = Some e"
    and "(setupStep (duplexEnv role exportID importID export imp))\<^sup>*\<^sup>* u v"
  shows "so_err (su_outcome v) = Some e \<and> (\<forall>r. su_at v = SuReturn r \<longrightarrow> r = Inl e)"
proof -
  from assms(3,5) have reach: "(setupStep (duplexEnv role exportID importID export imp))\<^sup>*\<^sup>* u0 v"
    by (rule rtranclp_trans)
  have err: "so_err (su_outcome v) = Some e" by (rule first_error_steps [OF assms(5,4)])
  have "r = Inl e" if "su_at v = SuReturn r" for r
    using that err returned_inv(2,3) [OF duplex_setup(2) [OF assms(1,2) reach]] by (cases r) auto
  with err show ?thesis by blast
qed

theorem setup_first_error_witness:
  "\<exists>v. (setupStep sampleEnv)\<^sup>*\<^sup>* sampleSetup v \<and> su_at v = SuReturn (Inl ContextDeadlineExceeded)"
  using sample_returns setup_first_error [OF sample_start sample_id] by blast

text \<open>
  C21. A done setup context ends the setup. From every reachable state in which the setup
  context was canceled or timed out, also when the exchange is blocked in a read from a
  silent peer, the constructor and its callback return by their own steps: without a step of
  the peer, the timer or the caller they can step until the constructor has returned, and
  they cannot step more than 82 times. Steps from outside do not undo this: they leave the
  setup context done and the remaining work as it is, while every own step lessens it.
\<close>

theorem setup_returns_when_done:
  assumes "newNegotiatedConnection st ctx (Some (d, 0)) export imp role = Inr (exportID, importID, u0)"
    and "length importID = 32"
    and "(setupStep (duplexEnv role exportID importID export imp))\<^sup>*\<^sup>* u0 u"
    and "su_setupErr u \<noteq> None"
  shows "(\<forall>k v. (ownSetup (duplexEnv role exportID importID export imp) ^^ k) u v \<longrightarrow>
      k \<le> 82 \<and> ((\<exists>r. su_at v = SuReturn r) \<or> (\<exists>v'. ownSetup (duplexEnv role exportID importID export imp) v v')))
    \<and> (\<forall>v. setupStep (duplexEnv role exportID importID export imp) u v \<longrightarrow> su_setupErr v = su_setupErr u
      \<and> (ownSetup (duplexEnv role exportID importID export imp) u v \<and> setupWork role v < setupWork role u
         \<or> outsideStep (duplexEnv role exportID importID export imp) u v \<and> setupWork role v = setupWork role u))"
proof -
  note inv = duplex_setup [OF assms(1-3)]
  have "setupWork role u0 \<le> 82"
    using newNegotiatedConnection_start [OF assms(1)] assms(2) by (cases role) (simp_all add: setupWork_def negStart_def)
  with reachable_work [OF assms(3) inv(1)] have bound: "setupWork role u \<le> 82" by simp
  let ?E = "duplexEnv role exportID importID export imp"
  show ?thesis
  proof (intro conjI allI impI)
    fix k v assume run: "(ownSetup ?E ^^ k) u v"
    note progress = duplexSetup.own_progress [OF run inv assms(4)]
    from progress [THEN conjunct1] bound show "k \<le> 82" by simp
    from progress show "(\<exists>r. su_at v = SuReturn r) \<or> (\<exists>v'. ownSetup ?E v v')" by (rule conjunct2)
  next
    fix v assume st: "setupStep ?E u v"
    from st assms(4) show "su_setupErr v = su_setupErr u" by (rule setupErr_kept)
    from step_work [OF st inv(1)]
    show "ownSetup ?E u v \<and> setupWork role v < setupWork role u \<or> outsideStep ?E u v \<and> setupWork role v = setupWork role u"
      by simp
  qed
qed

text \<open>The witness: the server whose client stays silent returns by its own steps after the timeout.\<close>

theorem setup_returns_when_done_witness:
  "\<exists>u v k r. su_setupErr u = Some ContextDeadlineExceeded \<and> su_at u = SuRun (negStart negotiationServer emptyInterfaceID)
     \<and> (ownSetup sampleEnv ^^ k) u v \<and> su_at v = SuReturn r"
proof -
  let ?u = "sampleSetup\<lparr>su_setupErr := Some ContextDeadlineExceeded\<rparr>"
  have "setupStep sampleEnv sampleSetup ?u" by (rule by_outside [OF setup_timeout]) (simp add: sampleSetup_def)
  then have reach: "(setupStep sampleEnv)\<^sup>*\<^sup>* sampleSetup ?u" by blast
  have ctx: "su_setupErr ?u \<noteq> None" by simp
  note own = setup_returns_when_done [OF sample_start sample_id reach ctx, THEN conjunct1, rule_format]
  have "\<exists>k v r. (ownSetup sampleEnv ^^ k) ?u v \<and> su_at v = SuReturn r"
  proof (rule ccontr)
    assume never: "\<not> ?thesis"
    have "\<exists>v. (ownSetup sampleEnv ^^ k) ?u v" for k
    proof (induction k)
      case (Suc k)
      then obtain v where v: "(ownSetup sampleEnv ^^ k) ?u v" by blast
      with own [OF v] never obtain w where "ownSetup sampleEnv v w" by blast
      with v show ?case by auto
    qed auto
    then obtain v where "(ownSetup sampleEnv ^^ 83) ?u v" by blast
    from own [OF this] show False by simp
  qed
  moreover have "su_setupErr ?u = Some ContextDeadlineExceeded" "su_at ?u = SuRun (negStart negotiationServer emptyInterfaceID)"
    by (simp_all add: sampleSetup_def)
  ultimately show ?thesis by blast
qed

end
