(* ===== verification/Doc_Normalization.thy ===== *)
theory Doc_Normalization
  imports Docs Format_Roundtrip
begin

text \<open>
  Normal documents: what \<open>normalizeDoc\<close> produces, and that a normal document survives
  being written by \<open>writeDoc\<close> at any indentation and normalized again.
\<close>

section \<open>Lines\<close>

lemma splitLines_ne [simp]: "splitLines s \<noteq> []"
  by (induction s) (auto split: list.splits)

lemma splitLines_no_newline: "l \<in> set (splitLines s) \<Longrightarrow> newline \<notin> set l"
proof (induction s arbitrary: l)
  case (Cons c s)
  obtain a as where s: "splitLines s = a # as" by (cases "splitLines s") auto
  from Cons show ?case by (auto simp: s split: if_splits)
qed simp

lemma splitLines_set: "l \<in> set (splitLines s) \<Longrightarrow> set l \<subseteq> set s"
proof (induction s arbitrary: l)
  case (Cons c s)
  obtain a as where s: "splitLines s = a # as" by (cases "splitLines s") auto
  with Cons.IH [of l] Cons.IH [of a] Cons.prems show ?case by (auto split: if_splits)
qed simp

lemma splitLines_append_newline:
  "splitLines (a @ newline # b) = splitLines a @ splitLines b"
proof (induction a)
  case (Cons c a)
  obtain x xs where "splitLines a = x # xs" by (cases "splitLines a") auto
  with Cons show ?case by simp
qed simp

lemma joinWith_Cons2: "joinWith sep (a # b # ls) = a @ sep @ joinWith sep (b # ls)"
  by (simp add: joinWith_def)

lemma joinWith_single [simp]: "joinWith sep [a] = a" "joinWith sep [] = []"
  by (simp_all add: joinWith_def)

lemma splitLines_join:
  "ls \<noteq> [] \<Longrightarrow> \<forall>l \<in> set ls. newline \<notin> set l \<Longrightarrow> splitLines (joinWith [newline] ls) = ls"
proof (induction ls)
  case (Cons a ls)
  then show ?case
    by (cases ls) (auto simp: joinWith_Cons2 splitLines_append_newline splitLines_single)
qed simp

lemma join_splitLines: "joinWith [newline] (splitLines s) = s"
proof (induction s)
  case (Cons c s)
  obtain x xs where s: "splitLines s = x # xs" by (cases "splitLines s") auto
  with Cons show ?case
    by (cases xs) (auto simp: joinWith_Cons2)
qed simp

section \<open>Normal documents\<close>

text \<open>
  A normal document is a list of lines without line terminators or trailing blanks, the
  first and the last not empty, whose nonempty lines share no leading blank.
\<close>

definition lineOK :: "string \<Rightarrow> bool" where
  "lineOK l \<longleftrightarrow> newline \<notin> set l \<and> carriageReturn \<notin> set l \<and> (l \<noteq> [] \<longrightarrow> \<not> isWS (last l))"

definition sharedBlank :: "string list \<Rightarrow> string" where
  "sharedBlank ls = (case ls of [] \<Rightarrow> [] | l # rest \<Rightarrow> prefixLoop (leadingWS l) rest)"

definition normalLines :: "string list \<Rightarrow> bool" where
  "normalLines ls \<longleftrightarrow> ls \<noteq> [] \<and> list_all lineOK ls \<and> hd ls \<noteq> [] \<and> last ls \<noteq> [] \<and> sharedBlank ls = []"

definition normalDoc :: "string \<Rightarrow> bool" where
  "normalDoc d \<longleftrightarrow> normalLines (splitLines d)"

lemma trimRight_OK: "l \<noteq> [] \<Longrightarrow> \<not> isWS (last l) \<Longrightarrow> trimRight l = l"
  by (cases l rule: rev_cases) (simp_all add: trimRight_def)

lemma trimRight_Nil [simp]: "trimRight [] = []"
  by (simp add: trimRight_def)

lemma lineOK_trim: "lineOK l \<Longrightarrow> trimRight l = l"
  by (cases "l = []") (auto simp: lineOK_def trimRight_OK)

lemma trimRight_last: "trimRight l \<noteq> [] \<Longrightarrow> \<not> isWS (last (trimRight l))"
  by (simp add: trimRight_def last_rev hd_dropWhile)

lemma trimRight_set: "set (trimRight l) \<subseteq> set l"
  using set_dropWhileD [of _ isWS "rev l"] by (auto simp: trimRight_def)

lemma replaceCR_none: "carriageReturn \<notin> set (replaceCR s)"
  by (auto simp: replaceCR_def carriageReturn_def newline_def)

lemma replaceCR_id: "carriageReturn \<notin> set s \<Longrightarrow> replaceCR s = s"
  by (auto simp: replaceCR_def intro: map_idI)

lemma replaceCRLF_id: "carriageReturn \<notin> set s \<Longrightarrow> replaceCRLF s = s"
  by (induction s rule: replaceCRLF.induct) auto

section \<open>Shared leading blanks\<close>

definition blanks :: "string \<Rightarrow> bool" where
  "blanks s = list_all isWS s"

text \<open>\<open>prefixLoop\<close> computes the longest common prefix of blanks.\<close>

definition isPrefix :: "string \<Rightarrow> string \<Rightarrow> bool" where
  "isPrefix p l \<longleftrightarrow> (\<exists>r. l = p @ r)"

lemma commonPrefix_prefix: "isPrefix (commonPrefix a b) a \<and> isPrefix (commonPrefix a b) b"
  by (induction a b rule: commonPrefix.induct) (auto simp: isPrefix_def)

lemma commonPrefix_greatest: "isPrefix p a \<Longrightarrow> isPrefix p b \<Longrightarrow> isPrefix p (commonPrefix a b)"
proof (induction a b arbitrary: p rule: commonPrefix.induct)
  case (1 a as b bs)
  then show ?case by (cases p) (auto simp: isPrefix_def)
qed (auto simp: isPrefix_def)

lemma isPrefix_trans: "isPrefix a b \<Longrightarrow> isPrefix b c \<Longrightarrow> isPrefix a c"
  by (auto simp: isPrefix_def)

lemma prefixLoop_prefix:
  "isPrefix (prefixLoop p ls) p \<and> (\<forall>l \<in> set ls. l \<noteq> [] \<longrightarrow> isPrefix (prefixLoop p ls) (leadingWS l))"
proof (induction p ls rule: prefixLoop.induct)
  case (2 p l ls)
  show ?case
  proof (cases "l = []")
    case True
    with 2 show ?thesis by simp
  next
    case False
    let ?q = "commonPrefix p (leadingWS l)"
    show ?thesis
    proof (cases "?q = []")
      case True
      with False show ?thesis by (simp add: Let_def isPrefix_def)
    next
      case q: False
      with False 2 have "isPrefix (prefixLoop ?q ls) ?q \<and> (\<forall>l \<in> set ls. l \<noteq> [] \<longrightarrow> isPrefix (prefixLoop ?q ls) (leadingWS l))"
        by simp
      with False q show ?thesis
        using commonPrefix_prefix [of p "leadingWS l"] isPrefix_trans by (auto simp: Let_def)
    qed
  qed
qed (simp add: isPrefix_def)

lemma prefixLoop_greatest:
  "isPrefix x p \<Longrightarrow> (\<And>l. l \<in> set ls \<Longrightarrow> l \<noteq> [] \<Longrightarrow> isPrefix x (leadingWS l)) \<Longrightarrow> isPrefix x (prefixLoop p ls)"
proof (induction p ls rule: prefixLoop.induct)
  case (2 p l ls)
  show ?case
  proof (cases "l = []")
    case True
    with 2 show ?thesis by simp
  next
    case False
    with "2.prems" have q: "isPrefix x (commonPrefix p (leadingWS l))" by (intro commonPrefix_greatest) auto
    with 2 False show ?thesis by (auto simp: Let_def)
  qed
qed simp

lemma leadingWS_blanks: "blanks (leadingWS l)"
  by (auto simp: blanks_def leadingWS_def list_all_iff dest: set_takeWhileD)

lemma leadingWS_append: "blanks p \<Longrightarrow> leadingWS (p @ l) = p @ leadingWS l"
  by (simp add: blanks_def leadingWS_def list_all_iff)

lemma leadingWS_prefix: "isPrefix (leadingWS l) l"
  by (auto simp: isPrefix_def leadingWS_def intro: exI [of _ "dropWhile isWS l"])

lemma isPrefix_blanks: "isPrefix p q \<Longrightarrow> blanks q \<Longrightarrow> blanks p"
  by (auto simp: isPrefix_def blanks_def)

section \<open>What normalization produces\<close>

lemma dropBlankEnds_set: "set (dropBlankEnds ls) \<subseteq> set ls"
  unfolding dropBlankEnds_def by (metis set_dropWhileD set_rev subsetI)

lemma dropBlankEnds_ends:
  assumes "dropBlankEnds ls \<noteq> []"
  shows "hd (dropBlankEnds ls) \<noteq> [] \<and> last (dropBlankEnds ls) \<noteq> []"
proof -
  let ?b = "\<lambda>l :: string. l = []"
  let ?m = "dropWhile ?b ls"
  have last_ok: "last (dropBlankEnds ls) \<noteq> []"
    using assms hd_dropWhile [of ?b "rev ?m"] by (simp add: dropBlankEnds_def last_rev)
  have m: "?m \<noteq> []"
  proof
    assume "?m = []"
    then have "dropBlankEnds ls = []"
      unfolding dropBlankEnds_def by (simp only: rev.simps dropWhile.simps)
    with assms show False ..
  qed
  then have "hd ?m \<noteq> []" by (rule hd_dropWhile)
  then obtain x xs where x: "?m = x # xs" "x \<noteq> []" using m by (cases ?m) auto
  have "dropWhile ?b (rev xs @ [x]) = dropWhile ?b (rev xs) @ [x]"
    using x(2) by (induction "rev xs" arbitrary: xs) (auto simp: dropWhile_append3 dropWhile_append1)
  then have "dropBlankEnds ls = x # rev (dropWhile ?b (rev xs))"
    by (simp add: dropBlankEnds_def x(1))
  with x(2) last_ok show ?thesis by simp
qed

text \<open>A trimmed line that starts with blanks has something after them.\<close>

lemma strip_line:
  assumes "lineOK l" "l \<noteq> []" "isPrefix p (leadingWS l)"
  obtains r where "l = p @ r" "r \<noteq> []" "lineOK r" "leadingWS l = p @ leadingWS r"
proof -
  from assms(3) leadingWS_prefix isPrefix_trans obtain r where r: "l = p @ r"
    unfolding isPrefix_def by (metis append.assoc)
  have p: "blanks p" using assms(3) leadingWS_blanks isPrefix_blanks by blast
  have "r \<noteq> []"
  proof
    assume "r = []"
    with r assms(2) have "last l \<in> set p" by simp
    with p assms(1,2) show False by (auto simp: blanks_def list_all_iff lineOK_def)
  qed
  with r assms(1,2) p that show ?thesis by (auto simp: lineOK_def leadingWS_append)
qed

definition stripLine :: "nat \<Rightarrow> string \<Rightarrow> string" where
  "stripLine n l = (if l \<noteq> [] then drop n l else l)"

lemma strip_normal:
  assumes ok: "list_all lineOK (l # ls)" "l \<noteq> []" "last (l # ls) \<noteq> []"
  shows "normalLines (map (stripLine (length (prefixLoop (leadingWS l) ls))) (l # ls))"
proof -
  let ?p = "prefixLoop (leadingWS l) ls"
  let ?s = "stripLine (length ?p)"
  have pre: "isPrefix ?p (leadingWS m)" if "m \<in> set (l # ls)" "m \<noteq> []" for m
    using prefixLoop_prefix [of "leadingWS l" ls] that by auto
  have strip: "\<exists>r. m = ?p @ r \<and> r \<noteq> [] \<and> lineOK r \<and> leadingWS m = ?p @ leadingWS r \<and> ?s m = r"
    if m: "m \<in> set (l # ls)" "m \<noteq> []" for m
  proof -
    have "lineOK m" using ok(1) m(1) by (simp only: list_all_iff)
    then obtain r where "m = ?p @ r" "r \<noteq> []" "lineOK r" "leadingWS m = ?p @ leadingWS r"
      using strip_line [OF _ m(2) pre [OF m]] by blast
    moreover from this(1) m(2) have "?s m = r"
      unfolding stripLine_def by (metis append_eq_conv_conj)
    ultimately show ?thesis by blast
  qed
  have line: "lineOK (?s m) \<and> (?s m = [] \<longleftrightarrow> m = [])" if "m \<in> set (l # ls)" for m
  proof (cases "m = []")
    case True
    then show ?thesis by (simp add: stripLine_def lineOK_def)
  next
    case False
    from strip [OF that False] False show ?thesis by auto
  qed
  let ?q = "prefixLoop (leadingWS (?s l)) (map ?s ls)"
  have "isPrefix (?p @ ?q) (leadingWS m)" if m: "m \<in> set (l # ls)" "m \<noteq> []" for m
  proof -
    have "isPrefix ?q (leadingWS (?s m))"
      using prefixLoop_prefix [of "leadingWS (?s l)" "map ?s ls"] m line [OF m(1)] by auto
    with strip [OF m] show ?thesis by (auto simp: isPrefix_def)
  qed
  then have "isPrefix (?p @ ?q) ?p"
    using ok(2) by (intro prefixLoop_greatest) auto
  then have "?q = []" by (auto simp: isPrefix_def)
  moreover have "last (map ?s (l # ls)) \<noteq> []"
    using line [OF last_in_set [of "l # ls"]] ok(3) by (simp only: last_map list.distinct not_False_eq_True)
  ultimately show ?thesis
    using line ok(2) by (auto simp: normalLines_def sharedBlank_def list_all_iff)
qed

lemma normalLines_doc: "normalLines ls \<Longrightarrow> normalDoc (joinWith [newline] ls)"
  by (simp add: normalDoc_def splitLines_join normalLines_def list_all_iff lineOK_def)

lemma normalizeDoc_alt:
  "normalizeDoc t =
     (case dropBlankEnds (map trimRight (splitLines (replaceCR (replaceCRLF t)))) of
        [] \<Rightarrow> []
      | l # ls \<Rightarrow> joinWith [newline] (map (stripLine (length (prefixLoop (leadingWS l) ls))) (l # ls)))"
proof -
  let ?ls = "dropBlankEnds (map trimRight (splitLines (replaceCR (replaceCRLF t))))"
  have zero: "map (stripLine 0) ls = ls" for ls by (rule map_idI) (simp add: stripLine_def)
  have step: "(\<lambda>ln. if ln \<noteq> [] then drop n ln else ln) = stripLine n" for n
    by (rule ext) (simp add: stripLine_def)
  show ?thesis
  proof (cases ?ls)
    case (Cons l ls)
    then show ?thesis
      by (cases "prefixLoop (leadingWS l) ls = []")
         (simp_all only: normalizeDoc_def Let_def step list.case list.size zero if_True if_False not_not
            HOL.simp_thms not_False_eq_True)
  qed (simp add: normalizeDoc_def)
qed

lemma trimmed_lines_OK:
  assumes "m \<in> set (dropBlankEnds (map trimRight (splitLines (replaceCR s))))"
  shows "lineOK m"
proof -
  from assms dropBlankEnds_set obtain x where x: "x \<in> set (splitLines (replaceCR s))" "m = trimRight x" by force
  have "set x \<subseteq> set (replaceCR s)"
    by (rule splitLines_set [OF x(1)])
  with x splitLines_no_newline [OF x(1)] trimRight_set [of x] replaceCR_none [of s] trimRight_last [of x]
  show ?thesis by (auto simp: lineOK_def)
qed

lemma normalizeDoc_normal: "normalizeDoc t = [] \<or> normalDoc (normalizeDoc t)"
proof (cases "dropBlankEnds (map trimRight (splitLines (replaceCR (replaceCRLF t))))")
  case Nil
  then show ?thesis by (simp add: normalizeDoc_alt)
next
  case (Cons l ls)
  have "list_all lineOK (l # ls)"
    using trimmed_lines_OK [of _ "replaceCRLF t"] Cons by (auto simp: list_all_iff)
  moreover have "l \<noteq> []" "last (l # ls) \<noteq> []" using dropBlankEnds_ends [of "map trimRight (splitLines (replaceCR (replaceCRLF t)))"] Cons by auto
  ultimately show ?thesis
    using normalLines_doc [OF strip_normal] Cons by (simp add: normalizeDoc_alt)
qed

section \<open>Writing and normalizing again\<close>

text \<open>The lines \<open>writeDoc\<close> produces for a document of several lines.\<close>

definition indented :: "string \<Rightarrow> string \<Rightarrow> string" where
  "indented pre l = (if l = [] then [] else pre @ l)"

lemma splitLines_docLines:
  "\<forall>l \<in> set ls. newline \<notin> set l \<Longrightarrow> newline \<notin> set indent \<Longrightarrow> newline \<notin> set rest \<Longrightarrow>
   splitLines (concat (map (docLine indent) ls) @ rest) = map (indented (indent @ indentStep)) ls @ [rest]"
proof (induction ls)
  case Nil
  then show ?case by (simp add: splitLines_single)
next
  case (Cons l ls)
  have "docLine indent l = indented (indent @ indentStep) l @ [newline]"
    by (simp add: docLine_def indented_def)
  moreover have "newline \<notin> set (indented (indent @ indentStep) l)"
    using Cons.prems by (auto simp: indented_def indentStep_def newline_def)
  moreover have "splitLines (concat (map (docLine indent) ls) @ rest) = map (indented (indent @ indentStep)) ls @ [rest]"
    using Cons by simp
  ultimately show ?case
    by (simp add: splitLines_append_newline splitLines_single)
qed

lemma blanks_no_break: "blanks s \<Longrightarrow> newline \<notin> set s \<and> carriageReturn \<notin> set s"
proof -
  assume "blanks s"
  then have "isWS c" if "c \<in> set s" for c using that by (simp add: blanks_def list_all_iff)
  moreover have "\<not> isWS newline" "\<not> isWS carriageReturn"
    by (simp_all add: isWS_def newline_def carriageReturn_def)
  ultimately show ?thesis by blast
qed

lemma blanks_append [simp]: "blanks (a @ b) \<longleftrightarrow> blanks a \<and> blanks b"
  by (simp add: blanks_def)

lemma blanks_indentStep [simp]: "blanks indentStep"
  by (simp add: blanks_def indentStep_def isWS_def)

lemma trimRight_blanks: "blanks s \<Longrightarrow> trimRight s = []"
  by (simp add: trimRight_def blanks_def list_all_iff)

lemma lineOK_indented: "lineOK l \<Longrightarrow> blanks pre \<Longrightarrow> lineOK (indented pre l)"
  using blanks_no_break [of pre] by (auto simp: lineOK_def indented_def)

lemma commonPrefix_append: "commonPrefix (p @ a) (p @ b) = p @ commonPrefix a b"
  by (induction p) auto

lemma prefixLoop_Nil [simp]: "prefixLoop [] ls = []"
  by (induction ls) auto

lemma prefixLoop_indented:
  assumes "blanks pre" "pre \<noteq> []"
  shows "prefixLoop (pre @ p) (map (indented pre) ls) = pre @ prefixLoop p ls"
proof (induction ls arbitrary: p)
  case (Cons l ls)
  have ind: "indented pre [] = []" "indented pre (c # cs) = pre @ c # cs" for c cs
    by (simp_all add: indented_def)
  show ?case
    by (cases l)
       (use assms Cons.IH [of "[]"] in \<open>simp_all add: Cons.IH ind leadingWS_append commonPrefix_append Let_def\<close>)
qed simp

lemma dropBlankEnds_surrounded:
  assumes "ls \<noteq> []" "hd ls \<noteq> []" "last ls \<noteq> []"
  shows "dropBlankEnds ([] # ls @ [[]]) = ls" and "dropBlankEnds ls = ls"
proof -
  from assms obtain x xs where x: "ls = x # xs" "x \<noteq> []" by (cases ls) auto
  from assms obtain y ys where y: "ls = ys @ [y]" "y \<noteq> []" by (cases ls rule: rev_cases) auto
  have a: "dropWhile (\<lambda>l. l = []) (ls @ zs) = ls @ zs" for zs using x by simp
  have b: "dropWhile (\<lambda>l. l = []) (rev ls) = rev ls" using y by simp
  show "dropBlankEnds ls = ls" using a [of "[]"] b by (simp add: dropBlankEnds_def)
  show "dropBlankEnds ([] # ls @ [[]]) = ls" using a [of "[[]]"] b by (simp add: dropBlankEnds_def)
qed

lemma normalizeDoc_lines:
  assumes "carriageReturn \<notin> set t"
    and "dropBlankEnds (map trimRight (splitLines t)) = map (indented pre) ls"
    and "normalLines ls" "blanks pre" "pre \<noteq> []"
  shows "normalizeDoc t = joinWith [newline] ls"
proof -
  from assms(3) obtain l rest where ls: "ls = l # rest" "l \<noteq> []"
    by (cases ls) (auto simp: normalLines_def)
  have "prefixLoop (leadingWS (indented pre l)) (map (indented pre) rest) = pre"
    using assms(3,4,5) ls prefixLoop_indented [of pre "leadingWS l" rest]
    by (simp add: normalLines_def sharedBlank_def indented_def leadingWS_append)
  moreover have "map (stripLine (length pre)) (map (indented pre) ls) = ls"
    unfolding map_map by (rule map_idI) (simp add: stripLine_def indented_def)
  ultimately show ?thesis
    using assms(1,2) ls(1) by (simp add: normalizeDoc_alt replaceCRLF_id replaceCR_id)
qed

lemma normalDoc_clean:
  assumes "normalDoc d"
  shows "carriageReturn \<notin> set d"
proof
  assume "carriageReturn \<in> set d"
  then have "carriageReturn \<in> set (joinWith [newline] (splitLines d))" by (simp add: join_splitLines)
  then have "\<exists>l \<in> set (splitLines d). carriageReturn \<in> set l"
    using splitLines_ne [of d]
    by (cases "splitLines d") (auto simp: joinWith_def newline_def carriageReturn_def split: if_splits)
  with assms show False by (auto simp: normalDoc_def normalLines_def list_all_iff lineOK_def)
qed

lemma docLine_CR: "carriageReturn \<notin> set indent \<Longrightarrow> carriageReturn \<notin> set l \<Longrightarrow> carriageReturn \<notin> set (docLine indent l)"
  by (auto simp: docLine_def indentStep_def newline_def carriageReturn_def)

lemma normalizeDoc_single:
  assumes "normalDoc d" "newline \<notin> set d"
  shows "normalizeDoc ('' '' @ d @ '' '') = d"
proof -
  have d: "normalLines [d]" using assms by (simp add: normalDoc_def splitLines_single)
  have "trimRight ('' '' @ d @ '' '') = indented '' '' d"
    using d trimRight_OK [of "'' '' @ d"]
    by (auto simp: trimRight_def isWS_def normalLines_def lineOK_def indented_def)
  then have "dropBlankEnds (map trimRight (splitLines ('' '' @ d @ '' ''))) = map (indented '' '') [d]"
    using assms(2) d by (simp add: splitLines_single newline_def normalLines_def indented_def dropBlankEnds_def)
  from normalizeDoc_lines [OF _ this d] normalDoc_clean [OF assms(1)]
  show ?thesis by (simp add: blanks_def isWS_def carriageReturn_def)
qed

lemma normalizeDoc_multi:
  assumes "normalDoc d" "blanks indent"
  shows "normalizeDoc (newline # concat (map (docLine indent) (splitLines d)) @ indent) = d"
proof -
  let ?ls = "splitLines d" and ?pre = "indent @ indentStep"
  have n: "normalLines ?ls" using assms(1) by (simp add: normalDoc_def)
  have i: "newline \<notin> set indent" "carriageReturn \<notin> set indent"
    using blanks_no_break [OF assms(2)] by auto
  have pre: "blanks ?pre" using assms(2) by simp
  have pre_ne: "?pre \<noteq> []" by (simp add: indentStep_def)
  have ok: "lineOK l" if "l \<in> set ?ls" for l using n that by (simp add: normalLines_def list_all_iff)
  have "splitLines (newline # concat (map (docLine indent) ?ls) @ indent) = [] # map (indented ?pre) ?ls @ [indent]"
    using splitLines_docLines [of ?ls indent indent] i ok by (simp add: lineOK_def)
  moreover have "map trimRight (map (indented ?pre) ?ls) = map (indented ?pre) ?ls"
    using lineOK_trim [OF lineOK_indented [OF ok pre]] by (simp cong: map_cong)
  ultimately have tr: "map trimRight (splitLines (newline # concat (map (docLine indent) ?ls) @ indent))
      = [] # map (indented ?pre) ?ls @ [[]]"
    using trimRight_blanks [OF assms(2)] by (simp only: list.map map_append trimRight_Nil)
  have ends: "map (indented ?pre) ?ls \<noteq> []" "hd (map (indented ?pre) ?ls) \<noteq> []" "last (map (indented ?pre) ?ls) \<noteq> []"
    using n by (simp_all add: normalLines_def hd_map last_map indented_def)
  have "carriageReturn \<notin> set (newline # concat (map (docLine indent) ?ls) @ indent)"
    using docLine_CR [OF i(2)] ok i(2) by (auto simp: lineOK_def newline_def carriageReturn_def)
  from normalizeDoc_lines [OF this _ n pre pre_ne] dropBlankEnds_surrounded(1) [OF ends] tr
  show ?thesis by (simp only: join_splitLines)
qed

section \<open>Properties\<close>

text \<open>
  Whatever stands inside a comment, its normalized text is a normal document or empty:
  no carriage return, no trailing blank on any line, a first and a last line that are not
  empty, and no blank shared by the beginnings of all nonempty lines.\<close>

theorem normalizeDoc_produces_normal: "normalizeDoc t = [] \<or> normalDoc (normalizeDoc t)"
  by (rule normalizeDoc_normal)

text \<open>
  C25. A normal document written as a comment at any indentation by \<open>writeDoc\<close> is read back
  unchanged: normalizing the text between the comment delimiters gives the document.\<close>

theorem normalizeDoc_of_written:
  assumes "normalDoc d" "list_all isWS indent"
  shows "\<exists>body. writeDoc b indent d = b @ indent @ ''/*'' @ body @ ''*/'' @ [newline] \<and> normalizeDoc body = d"
proof -
  have "d \<noteq> []" using assms(1) by (auto simp: normalDoc_def normalLines_def)
  then have "writeDoc b indent d = b @ indent @ ''/*'' @ docBody indent d @ ''*/'' @ [newline]"
    by (simp add: writeDoc_def docBody_def)
  moreover have "normalizeDoc (docBody indent d) = d"
    using normalizeDoc_single [OF assms(1)] normalizeDoc_multi [OF assms(1)] assms(2)
    by (simp add: docBody_def blanks_def)
  ultimately show ?thesis by blast
qed

theorem normalizeDoc_of_written_witness:
  "\<exists>body. writeDoc ''x'' ''  '' (''a'' @ [newline] @ ''  b'') = ''x'' @ ''  '' @ ''/*'' @ body @ ''*/'' @ [newline] \<and>
     normalizeDoc body = ''a'' @ [newline] @ ''  b''"
  by (rule normalizeDoc_of_written)
     (simp_all add: normalDoc_def normalLines_def lineOK_def sharedBlank_def isWS_def leadingWS_def newline_def
        carriageReturn_def)

end
