(* ===== verification/Spec2Isabelle.thy ===== *)
theory Spec2Isabelle
  imports Projection_Depth Binding_Calls Import_Programs Connection_Output Connection_Incoming Connection_Shutdown Negotiate_Setup Doc_Normalization Name_Projection
    Selector_Resolution
begin

text \<open>
  A verification library of the Go implementation of InterCall, a bidirectional RPC
  protocol: a runtime that multiplexes calls over one byte stream (\<open>go/*.go\<close>), the
  interface language that describes what is called (\<open>go/internal/syntax\<close>), and a generator
  of bindings (\<open>go/internal/tool\<close>).

  \<^bold>\<open>Prelude\<close> names the machine integers (\<open>byte\<close>, \<open>u64\<close>) and byte strings and proves the
  little-endian conversion both ways. Source text is a \<open>string\<close>, a list of 8-bit characters.

  \<^bold>\<open>Runtime values.\<close> \<open>Runtime_Errors\<close> is \<open>errors.go\<close>: sentinels, wrapping, \<open>errors.Is\<close>.
  \<open>Byte_Stream\<close> is the contract of \<open>io.Reader\<close> and \<open>io.Writer\<close> as locales, with scripted
  streams that fragment and fail at will, and the in-memory pipe of
  \<open>internal/integration/stream.go\<close> that interprets them. \<open>Frame\<close> is \<open>frame.go\<close>: the
  16-byte prefix and 8-byte key, the ceiling of 64 MiB, reading and building; it is proved
  equal to a decoder of whole buffers, and reading what was built returns it. \<open>Frame_Write\<close>
  is \<open>writeFull\<close> of \<open>write.go\<close>. \<open>Binding\<close> is \<open>binding.go\<close>, \<open>context.go\<close> and \<open>empty.go\<close>.
  \<open>Interface_Key\<close> is \<open>internal/syntax/key.go\<close>.

  \<^bold>\<open>The connection.\<close> \<open>Connection_State\<close> has the fields of \<open>Connection\<close> and every section
  \<open>connection.go\<close>, \<open>call.go\<close> and \<open>receive.go\<close> execute under the state lock, each one a
  function of the state. \<open>Connection\<close> composes them into goroutines: a world has the shared
  state, the program point of every goroutine, contexts, the stream output, and a step
  relation in which any goroutine moves by one lock section, one stream call or one
  channel operation, so that all interleavings are runs. Panics of the code (a second
  close of \<open>done\<close>) set a flag. \<open>Connection_Safety\<close> proves the inductive invariants of
  terminal selection, the write gate, request IDs and cleanup; \<open>Connection_Calls\<close> that each
  call has one outcome owner, and returns nil only when its decoder accepted a response (the
  world keeps the decoders' verdicts as history); \<open>Connection_Shutdown\<close> that the cleanup owner
  finishes by its own steps alone, and what holds when \<open>Wait\<close> returns; \<open>Connection_Output\<close> what
  the stream has received;
  \<open>Connection_Incoming\<close> the one handler per incoming ID; \<open>Connection_Runs\<close> builds
  concrete runs, among them the run in which a whole frame follows a partial one: \<open>Call\<close>
  and \<open>handleRequest\<close> release the gate before they select the terminal cause.

  \<^bold>\<open>Negotiation\<close> (\<open>negotiate.go\<close>). \<open>Negotiate\<close> has the exchange as the code runs it and as
  steps of one stream call each, proved to be the same. \<open>Negotiate_Agreement\<close> runs a client
  and a server against each other over the duplex pair: every order of stream calls ends,
  with exactly the outcomes the four interface IDs call for. \<open>Negotiate_Setup\<close> is the setup
  around the exchange: the constructor and the cancellation callback, each a step relation of
  its own goroutine, what context, timer and peer do, the close-once owner of the stream and
  the outcome whose first error is final; once the setup context is done the two goroutines
  return by their own steps. Its stream is a locale, interpreted on the duplex pair.

  \<^bold>\<open>The interface language.\<close> \<open>Source_Position\<close> is \<open>position.go\<close>, \<open>Token\<close>, \<open>Scanner\<close>,
  \<open>Ast\<close> and \<open>Parser\<close> are the files of those names. The parser's explicit frame stack,
  its comment collection and its panics (as results) are kept. \<open>Grammar\<close> proves that
  \<open>Parse\<close> accepts exactly the token sequences of the grammar and returns the unique tree;
  \<open>Parse_Errors\<close> that every rejection is located in the input. \<open>Validate\<close> has the
  validator with its work stack: it decides a declarative well-formedness, and its error is
  the first violation in declaration order. \<open>Format\<close> is the item-stack printer, equal to a
  recursive one; \<open>Format_Roundtrip\<close> proves that parsing printed text gives the printed
  declarations back. \<open>Docs\<close> is \<open>docs.go\<close>, the attachment of comments to syntax nodes;
  \<open>Doc_Normalization\<close> shows what a normalized document is and that it survives being
  printed and read.

  \<^bold>\<open>The generator.\<close> \<open>Go_Names\<close> is \<open>name.go\<close>, \<open>initialisms.go\<close> and \<open>mangle.go\<close>;
  \<open>Name_Projection\<close> proves the two directions of the name projection inverse to each other
  where they can be. \<open>Selectors\<close> is \<open>selector.go\<close>; \<open>Selector_Resolution\<close> proves that
  selectors are exactly their canonical texts and resolve exactly to the generated
  identifiers of a parsed and validated interface. \<open>Overrides\<close> is \<open>override.go\<close>, the
  \<open>--go-name\<close> flags and the table of generated identifiers; \<open>Override_Names\<close> proves what the
  table holds. \<open>Projection_Depth\<close> is the interface-file half of \<open>depth.go\<close>: the work-stack walk
  with its memo, equal to a recursive descent and to the depth of the resolved types.

  \<^bold>\<open>Generation.\<close> \<open>Generation_Model\<close> is \<open>model.go\<close>, the records every emitter works on.
  \<open>Codec_Emitter\<close> is \<open>codec.go\<close>, \<open>emit.go\<close> and the file frame of \<open>fixture.go\<close>; \<open>Import_Mapping\<close>
  is \<open>namespace.go\<close> and the mapping half of \<open>import.go\<close>; \<open>Import_Emitter\<close> the emission half with
  \<open>interface_id.go\<close>. An emitter makes statements (calls of codecs, counts, loops, switch arms)
  and the text functions print them, line for line: evaluated on \<open>testdata/fixture.intercall\<close>
  and \<open>testdata/import/import.intercall\<close> they give the checked-in \<open>fixture/codec_gen.go\<close> and
  \<open>importfixture/binding_gen.go\<close> up to the spacing and import order of \<open>go/format\<close> and the
  SHA-256 digest. \<open>Codec_Programs\<close> runs the statements on Go values and has the wire codec of a
  shape, which is a type with every reference followed; \<open>Codec_Laws\<close> proves that this codec keeps
  the codec contract; \<open>Codec_Correctness\<close> that the emitted bodies compute it. \<open>Type_Keys\<close> proves
  what sharing a pair by its wire key means. \<open>Generated_Codecs\<close> puts these together for a parsed
  and validated file: every anonymous type that is called is registered, every call finds its
  pair, and pairs shared by key have one shape. \<open>Generated_Files\<close> states what follows for a
  generated file, and shows two renamed types that share one pair; \<open>Import_Programs\<close> runs the
  request encoders and response decoders of an import.

  \<^bold>\<open>Generated bindings.\<close> The checked-in output of the import and export emitters,
  \<open>importfixture/binding_gen.go\<close> and \<open>exportfixture/binding_gen.go\<close>, is also modelled as it stands.
  \<open>Wire_Codec\<close> has the twelve
  primitive codecs and the contract of an encoder and its decoder as two locales, with lemmas
  that build the codec of a pair, of a list and of a converted type from codecs of the parts;
  \<open>Import_Codecs\<close> has the declared types of the importer with their codecs, each an
  interpretation of the contract. \<open>Import_Binding\<close> is the caller's side: response decoders,
  exceptions and the typed callers; \<open>Export_Binding\<close> the provider's side: request decoders, the
  matching of errors to exceptions and the dispatch; \<open>Export_Provider\<close> the provider functions of
  \<open>exportfixture/prov/prov.go\<close>. \<open>Binding_Calls\<close> composes both: the request a caller encodes is
  dispatched, and its response decoded, so a call is the provider's function with every error
  path. A float is its bit pattern. The caller's connection is the function that delivers the
  request bytes and a decoder to it, as \<open>Connection.Call\<close> does.

  \<^bold>\<open>Correspondence.\<close> Definitions have the names of the functions they model, with a prefix
  where a name is taken (\<open>p_next\<close> for \<open>parser.next\<close>) and with the suffix \<open>Loop\<close> or \<open>Step\<close>
  for a loop or an atomic section of one function. Go structs are records, interfaces with a
  fixed set of implementations are datatypes, errors are a sum, a nil error is \<open>None\<close>. Syntax
  messages are constructors with the printed arguments. Maps are functions to options; the
  pending map is a list because teardown walks it.

  \<^bold>\<open>Loops and fuel.\<close> Every loop over data is a terminating function with a measure. Two things
  count steps. \<open>zeroWidthOf\<close> follows named references through a map that could be cyclic: it may
  follow one more reference than there are declarations, which is enough on a validated file
  (\<open>zeroWidth_shape\<close>). \<open>runEnc\<close> and \<open>runDec\<close> bound the nesting of codec calls in an emitted program:
  two more than there are declarations are enough, and the properties say that the run has a
  result. A stream that never returns data may block for ever,
  so the functions over streams end by the measure of a script, and the runs of a connection
  are step sequences of any length. A claim that a goroutine finishes is stated over its own
  steps (\<open>ownStep\<close>, \<open>ownSetup\<close>): until it has finished one is possible in every reachable state,
  their number is bounded, and no step of anyone else adds to what is left.

  \<^bold>\<open>Parameters.\<close> The stream of a connection is any behaviour of reads and writes; a response
  decoder and a dispatch function may return anything or panic; contexts may end at any
  time. The Unicode tables of the standard library are a record of three predicates, known
  only below \<open>utf8.RuneSelf\<close>. SHA-256 and \<open>go/format\<close> are arguments of the import emitter.

  \<^bold>\<open>Not modelled.\<close> The parts of the generator that work on the trees and type graphs of
  \<open>go/ast\<close>, \<open>go/types\<close> and \<open>go/packages\<close> (\<open>discover.go\<close>, \<open>checker.go\<close>, \<open>mapping.go\<close>,
  \<open>gosource.go\<close>, \<open>select.go\<close>, \<open>directives.go\<close>, \<open>metadata.go\<close>, \<open>export.go\<close> and the export emitters
  over them), because those packages are outside the repository; a hash collision of two
  mangled codec names, which the Go compiler would reject as a redeclaration (a call in an
  emitted program finds its pair by the identity parts that are mangled; \<open>name_finds_pair\<close> shows
  that without such a collision the name finds the same pair); the meaning of emitted text
  to the Go compiler beyond the statements the model runs; file-system artifacts, the command
  line and the transports; timing, memory limits and the scheduling guarantees of the Go
  runtime. The TypeScript and Lua programs are separate implementations.
\<close>

end
